(* ===== verification/RTOS_Prelude.thy ===== *)
theory RTOS_Prelude
  imports Main "HOL-Library.Word" "HOL-Library.Monad_Syntax"
begin

section \<open>Prelude: machine types, partial steps and forward simulation\<close>

text \<open>
  What every theory of the development shares:
  \<^item> names for the C integer types (the 32-bit data model of the Cortex-M target:
    \<open>size_t\<close> and pointers are 32 bits wide);
  \<^item> partial computations as \<open>option\<close>: \<open>None\<close> is a C execution that goes
    wrong (a failing \<open>assert\<close>, a NULL dereference, a loop that does not end), and
    \<open>Some\<close> is a normal return, with the new state and the returned value;
  \<^item> the forward simulation \<open>sim\<close> between such computations and its rules, collected
    in \<open>sim_intros\<close>;
  \<^item> a few facts on lists, their first and last elements, and on inserting into sorted lists.
\<close>

unbundle bit_operations_syntax

named_theorems sim_intros \<open>introduction rules of the forward simulation\<close>
named_theorems core_simps \<open>reading and writing one component of a state\<close>

type_synonym u8 = "8 word"
type_synonym u32 = "32 word"
type_synonym size_t = "32 word"
type_synonym addr = "32 word"
type_synonym memory = "addr \<Rightarrow> u8"

lemma word_step:
  fixes w t :: u32
  assumes "t < w" shows "t + 1 \<le> w" "t + 1 \<noteq> 0" "unat (t + 1) = Suc (unat t)"
proof -
  show "t + 1 \<le> w" using assms by (rule inc_le)
  show "t + 1 \<noteq> 0"
  proof
    assume "t + 1 = 0"
    then have "t = - 1" by (simp add: eq_neg_iff_add_eq_0)
    with assms word_n1_ge [of w] show False by auto
  qed
  then show "unat (t + 1) = Suc (unat t)"
    using unatSuc [of t] by (simp add: add.commute)
qed

subsection \<open>Loops over a list of indices, with failure\<close>

fun foldM :: "('a \<Rightarrow> 's \<Rightarrow> 's option) \<Rightarrow> 'a list \<Rightarrow> 's \<Rightarrow> 's option" where
  "foldM f [] s = Some s"
| "foldM f (x # xs) s = Option.bind (f x s) (foldM f xs)"

lemma foldM_append: "foldM f (xs @ ys) s = Option.bind (foldM f xs s) (foldM f ys)"
proof (induction xs arbitrary: s)
  case (Cons x xs)
  then show ?case by (cases "f x s") auto
qed simp

lemma foldM_invariant:
  assumes "P s" and "\<And>x s. x \<in> set xs \<Longrightarrow> P s \<Longrightarrow> \<exists>s'. f x s = Some s' \<and> P s'"
  shows "\<exists>s'. foldM f xs s = Some s' \<and> P s'"
  using assms
proof (induction xs arbitrary: s)
  case (Cons x xs)
  then obtain s1 where "f x s = Some s1" "P s1" by force
  with Cons.IH [of s1] Cons.prems(2) show ?case by simp
qed simp

subsection \<open>Forward simulation of partial computations\<close>

text \<open>
  \<open>sim Q m m'\<close>: wherever the specification \<open>m'\<close> returns, the program \<open>m\<close> returns a
  related result. The specification is undefined exactly where a caller breaks a
  precondition, so nothing is promised there.
\<close>

definition sim :: "('a \<Rightarrow> 'b \<Rightarrow> bool) \<Rightarrow> 'a option \<Rightarrow> 'b option \<Rightarrow> bool" where
  "sim Q m m' \<longleftrightarrow> (\<forall>y. m' = Some y \<longrightarrow> (\<exists>x. m = Some x \<and> Q x y))"

lemma simI: "(\<And>y. m' = Some y \<Longrightarrow> \<exists>x. m = Some x \<and> Q x y) \<Longrightarrow> sim Q m m'"
  by (simp add: sim_def)

lemma simD: "sim Q m m' \<Longrightarrow> m' = Some y \<Longrightarrow> \<exists>x. m = Some x \<and> Q x y"
  by (simp add: sim_def)

lemma sim_None [simp, sim_intros]: "sim Q m None"
  by (simp add: sim_def)

lemma sim_Some [simp]: "sim Q (Some x) (Some y) = Q x y"
  by (simp add: sim_def)

lemma sim_return [sim_intros]: "Q x y \<Longrightarrow> sim Q (Some x) (Some y)"
  by simp

lemma sim_bind:
  assumes "sim Q m m'" and "\<And>x y. Q x y \<Longrightarrow> sim Q' (f x) (g y)"
  shows "sim Q' (Option.bind m f) (Option.bind m' g)"
  using assms by (cases m') (auto simp: sim_def)

lemma sim_if [sim_intros]:
  "(b \<Longrightarrow> sim Q m1 m1') \<Longrightarrow> (\<not> b \<Longrightarrow> sim Q m2 m2') \<Longrightarrow>
   sim Q (if b then m1 else m2) (if b then m1' else m2')"
  by simp

lemma sim_foldM:
  assumes "Q s s'"
    and "\<And>x s s'. x \<in> set xs \<Longrightarrow> Q s s' \<Longrightarrow> sim Q (f x s) (g x s')"
  shows "sim Q (foldM f xs s) (foldM g xs s')"
  using assms
proof (induction xs arbitrary: s s')
  case (Cons x xs)
  then show ?case by (auto intro!: sim_bind [where Q = Q])
qed simp

subsection \<open>First and last elements as pointers\<close>

definition first_or :: "'a list \<Rightarrow> 'a option \<Rightarrow> 'a option" where
  "first_or xs q = (case xs of [] \<Rightarrow> q | x # _ \<Rightarrow> Some x)"

definition last_or :: "'a option \<Rightarrow> 'a list \<Rightarrow> 'a option" where
  "last_or p xs = (if xs = [] then p else Some (last xs))"

lemma first_or_simps [simp]:
  "first_or [] q = q" "first_or (x # xs) q = Some x"
  "first_or (xs @ ys) q = first_or xs (first_or ys q)"
  by (simp_all add: first_or_def split: list.splits)

lemma last_or_simps [simp]:
  "last_or p [] = p" "last_or p (xs @ [x]) = Some x"
  "last_or p (x # xs) = last_or (Some x) xs"
  by (simp_all add: last_or_def)

lemma last_or_append [simp]: "last_or p (xs @ ys) = last_or (last_or p xs) ys"
  by (simp add: last_or_def)

lemma first_or_None_iff [simp]: "first_or xs None = None \<longleftrightarrow> xs = []"
  by (cases xs) auto

lemma last_or_None_iff [simp]: "last_or None xs = None \<longleftrightarrow> xs = []"
  by (simp add: last_or_def)

subsection \<open>Inserting into a list at the first place that a test marks\<close>

definition insert_where :: "('a \<Rightarrow> bool) \<Rightarrow> 'a \<Rightarrow> 'a list \<Rightarrow> 'a list" where
  "insert_where P x xs = takeWhile (\<lambda>y. \<not> P y) xs @ x # dropWhile (\<lambda>y. \<not> P y) xs"

lemma insert_where_simps [simp]:
  "insert_where P x [] = [x]"
  "insert_where P x (y # ys) = (if P y then x # y # ys else y # insert_where P x ys)"
  by (simp_all add: insert_where_def)

lemma set_insert_where [simp]: "set (insert_where P x xs) = insert x (set xs)"
  by (induction xs) auto

lemma distinct_insert_where [simp]:
  "distinct (insert_where P x xs) \<longleftrightarrow> x \<notin> set xs \<and> distinct xs"
  by (induction xs) auto

lemma length_insert_where [simp]: "length (insert_where P x xs) = Suc (length xs)"
  by (induction xs) auto

lemma insert_where_cong:
  "(\<And>y. y \<in> set xs \<Longrightarrow> P y = Q y) \<Longrightarrow> insert_where P x xs = insert_where Q x xs"
  by (induction xs) auto

lemma sorted_wrt_insert_where:
  assumes "sorted_wrt R xs" and "transp R"
    and "\<And>y. y \<in> set xs \<Longrightarrow> P y \<Longrightarrow> R x y" and "\<And>y. y \<in> set xs \<Longrightarrow> \<not> P y \<Longrightarrow> R y x"
  shows "sorted_wrt R (insert_where P x xs)"
  using assms
proof (induction xs)
  case (Cons y ys)
  then show ?case by (auto dest: transpD)
qed simp

lemma sorted_wrt_remove1: "sorted_wrt R xs \<Longrightarrow> sorted_wrt R (remove1 x xs)"
  by (induction xs) (auto dest: subsetD [OF set_remove1_subset])

end
