(* ===== verification/OS_Types.thy ===== *)
theory OS_Types
  imports RTOS_Prelude
begin

section \<open>Data model: configuration, enumerations, control blocks, kernel state\<close>

text \<open>
  The types of \<open>include/os.h\<close> and of the internal headers under \<open>kernel/include\<close>.
  C structs are records whose fields carry a short prefix, C enums are datatypes with the
  source's constructors, integers keep their width.

  Memory is split by field, so that the pointers of the intrusive lists are explicit:
  \<^item> a list node is embedded in a TCB, so its address is the TCB's index and the field it
    sits in (\<open>SchedNode t\<close>, \<open>DelayNode t\<close>);
  \<^item> a list header is embedded in \<open>g_os_kernel\<close> or in a control block, so its address names
    that place (\<open>ReadyList p\<close>, \<open>SemWaiters i\<close>, ...);
  \<^item> a \<open>list_heap\<close> maps these addresses to their contents;
  \<^item> a pointer to a TCB, semaphore, queue or mutex is the index in its static pool, and NULL
    is \<open>None\<close>; a \<open>void *\<close> into user memory is an address, and NULL is 0.
\<close>

subsection \<open>Configuration (os.h)\<close>

definition OS_MAX_TASKS :: nat where [simp]: "OS_MAX_TASKS = 8"
definition OS_PRIORITY_COUNT :: u8 where [simp]: "OS_PRIORITY_COUNT = 8"
definition OS_IDLE_PRIORITY :: u8 where [simp]: "OS_IDLE_PRIORITY = 0"
definition OS_TASK_NAME_MAX :: nat where [simp]: "OS_TASK_NAME_MAX = 24"
definition OS_TICK_MS :: u32 where [simp]: "OS_TICK_MS = 1"
definition OS_TIME_SLICE_TICKS :: u32 where [simp]: "OS_TIME_SLICE_TICKS = 200"
definition OS_OBSERVER_PERIOD_TICKS :: u32 where [simp]: "OS_OBSERVER_PERIOD_TICKS = 10"
definition OS_MAX_DELAY_TICKS :: u32 where [simp]: "OS_MAX_DELAY_TICKS = 0x7FFFFFFF"
definition OS_WAIT_FOREVER :: u32 where [simp]: "OS_WAIT_FOREVER = 0xFFFFFFFF"
definition OS_MAX_SEMAPHORES :: nat where [simp]: "OS_MAX_SEMAPHORES = 4"
definition OS_MAX_QUEUES :: nat where [simp]: "OS_MAX_QUEUES = 4"
definition OS_MAX_MUTEXES :: nat where [simp]: "OS_MAX_MUTEXES = 4"
definition OS_MIN_STACK_BYTES :: size_t where [simp]: "OS_MIN_STACK_BYTES = 64"
definition OS_IDLE_STACK_BYTES :: size_t where [simp]: "OS_IDLE_STACK_BYTES = 256"
definition SIZE_MAX :: size_t where [simp]: "SIZE_MAX = 0xFFFFFFFF"

subsection \<open>Enumerations\<close>

datatype os_status_t =
    OS_STATUS_OK | OS_STATUS_INVALID_ARGUMENT | OS_STATUS_LIMIT_REACHED
  | OS_STATUS_BAD_STATE | OS_STATUS_TIMEOUT | OS_STATUS_NOT_OWNER

datatype os_task_state_t =
    OS_TASK_UNUSED | OS_TASK_READY | OS_TASK_RUNNING
  | OS_TASK_BLOCKED_DELAY | OS_TASK_BLOCKED_OBJECT | OS_TASK_TERMINATED

datatype os_switch_reason_t =
    OS_SWITCH_NONE | OS_SWITCH_START | OS_SWITCH_TIME_SLICE | OS_SWITCH_YIELD
  | OS_SWITCH_HIGHER_PRIORITY_WAKEUP | OS_SWITCH_BLOCKED | OS_SWITCH_EXIT

datatype os_wait_kind_t =
    OS_WAIT_NONE | OS_WAIT_SEMAPHORE | OS_WAIT_QUEUE_SEND | OS_WAIT_QUEUE_RECEIVE
  | OS_WAIT_MUTEX

subsection \<open>Addresses of list nodes, list headers and kernel objects\<close>

datatype node_ref = SchedNode nat | DelayNode nat

datatype list_ref =
    ReadyList u8 | DelayedList nat | SemWaiters nat
  | QueueSendWaiters nat | QueueReceiveWaiters nat | MutexWaiters nat

datatype obj_ref = SemObj nat | QueueObj nat | MutexObj nat

fun task_of :: "node_ref \<Rightarrow> nat" where
  "task_of (SchedNode t) = t"
| "task_of (DelayNode t) = t"

subsection \<open>Intrusive lists (os_list.h)\<close>

record os_list_node_t =
  n_previous :: "node_ref option"
  n_next :: "node_ref option"
  n_owner :: "nat option"
  n_linked :: bool

record os_list_t =
  l_head :: "node_ref option"
  l_tail :: "node_ref option"
  l_size :: size_t

record list_heap =
  h_lists :: "list_ref \<Rightarrow> os_list_t"
  h_nodes :: "node_ref \<Rightarrow> os_list_node_t"

subsection \<open>Control blocks\<close>

record os_task_t =
  t_id :: u8
  t_name :: string
  t_entry :: addr
  t_argument :: addr
  t_sp :: addr
  t_stack_memory :: addr
  t_stack_size :: size_t
  t_base_priority :: u8
  t_effective_priority :: u8
  t_state :: os_task_state_t
  t_wake_tick :: u32
  t_slice_remaining :: u32
  t_wait_kind :: os_wait_kind_t
  t_wait_object :: "obj_ref option"
  t_wait_buffer :: addr
  t_wait_list :: "list_ref option"
  t_wait_deadline :: u32
  t_wait_result :: os_status_t
  t_delay_list :: "list_ref option"

record os_sem_t =
  s_used :: bool
  s_count :: u32
  s_maximum_count :: u32

record os_queue_t =
  q_used :: bool
  q_buffer :: addr
  q_item_size :: size_t
  q_capacity :: size_t
  q_head :: size_t
  q_tail :: size_t
  q_count :: size_t

record os_mutex_t =
  m_used :: bool
  m_owner :: "nat option"

subsection \<open>The port interface (os_port.h)\<close>

datatype os_port_req_id_t =
    OS_PORT_REQ_YIELD | OS_PORT_REQ_DELAY | OS_PORT_REQ_SEM_TAKE | OS_PORT_REQ_SEM_GIVE
  | OS_PORT_REQ_QUEUE_SEND | OS_PORT_REQ_QUEUE_RECEIVE | OS_PORT_REQ_MUTEX_LOCK
  | OS_PORT_REQ_MUTEX_UNLOCK | OS_PORT_REQ_EXIT

text \<open>
  The hooks of \<open>os_port.h\<close> that the kernel modules call, over the state \<open>'p\<close> of a port.
  \<open>hal_stack_init\<close> takes the entry, its argument, the stack memory and its size; it may
  write the initial frame into memory, and returns the stack pointer (0 on failure).
\<close>

record 'p os_port_hal =
  hal_enter_critical :: "'p \<Rightarrow> 'p"
  hal_exit_critical :: "'p \<Rightarrow> 'p"
  hal_pend_context_switch :: "'p \<Rightarrow> 'p"
  hal_stack_init :: "addr \<Rightarrow> addr \<Rightarrow> addr \<Rightarrow> size_t \<Rightarrow> memory \<Rightarrow> addr \<times> memory"

subsection \<open>Kernel state\<close>

text \<open>
  \<open>os_kernel_t\<close> together with the other static objects of the kernel modules
  (\<open>g_idle_task\<close>, \<open>g_last_error\<close>, the three object pools), the user memory that queue
  operations copy through, and the state of the port. The heap of list headers and nodes is
  a parameter \<open>'h\<close>: \<open>list_heap\<close> in the model of the code, the list-valued
  \<open>list_spec\<close> of theory \<open>OS_List\<close> in the specification.
\<close>

record ('h, 'p) os_kernel_t =
  k_initialized :: bool
  k_started :: bool
  k_tasks :: "nat \<Rightarrow> os_task_t"
  k_task_count :: size_t
  k_px_delayed :: "list_ref option"
  k_px_overflow_delayed :: "list_ref option"
  k_ready_bitmap :: u8
  k_tick :: u32
  k_current :: "nat option"
  k_last_from :: "nat option"
  k_last_to :: "nat option"
  k_last_reason :: os_switch_reason_t
  k_switch_count :: u32
  k_critical_nesting :: u32
  k_sched_pending :: bool
  k_idle_task :: "nat option"
  k_last_error :: os_status_t
  k_sems :: "nat \<Rightarrow> os_sem_t"
  k_queues :: "nat \<Rightarrow> os_queue_t"
  k_mutexes :: "nat \<Rightarrow> os_mutex_t"
  k_memory :: memory
  k_port :: 'p
  k_heap :: 'h

type_synonym 'p kernel = "(list_heap, 'p) os_kernel_t"

definition upd_task :: "nat \<Rightarrow> (os_task_t \<Rightarrow> os_task_t) \<Rightarrow> ('h, 'p) os_kernel_t \<Rightarrow> ('h, 'p) os_kernel_t" where
  "upd_task t f s = s\<lparr>k_tasks := (k_tasks s)(t := f (k_tasks s t))\<rparr>"

definition upd_sem :: "nat \<Rightarrow> (os_sem_t \<Rightarrow> os_sem_t) \<Rightarrow> ('h, 'p) os_kernel_t \<Rightarrow> ('h, 'p) os_kernel_t" where
  "upd_sem i f s = s\<lparr>k_sems := (k_sems s)(i := f (k_sems s i))\<rparr>"

definition upd_queue :: "nat \<Rightarrow> (os_queue_t \<Rightarrow> os_queue_t) \<Rightarrow> ('h, 'p) os_kernel_t \<Rightarrow> ('h, 'p) os_kernel_t" where
  "upd_queue i f s = s\<lparr>k_queues := (k_queues s)(i := f (k_queues s i))\<rparr>"

definition upd_mutex :: "nat \<Rightarrow> (os_mutex_t \<Rightarrow> os_mutex_t) \<Rightarrow> ('h, 'p) os_kernel_t \<Rightarrow> ('h, 'p) os_kernel_t" where
  "upd_mutex i f s = s\<lparr>k_mutexes := (k_mutexes s)(i := f (k_mutexes s i))\<rparr>"

end
