(* ===== verification/OS_List.thy ===== *)
theory OS_List
  imports OS_Types
begin

section \<open>Intrusive doubly linked lists (kernel/src/os_list.c)\<close>

text \<open>
  The pointer-level operations of \<open>os_list.c\<close>, the abstraction of a heap of headers and
  nodes to lists of node addresses (\<open>list_rep\<close>), and the contract of the module as the
  locale \<open>list_module\<close>: every operation refines an operation on lists. The contract is
  interpreted on the pointer-level operations (\<open>os_list\<close>); the scheduler, timer and IPC
  theories use the interpreted facts only.
\<close>

subsection \<open>The operations of os_list.c\<close>

definition upd_node :: "node_ref \<Rightarrow> (os_list_node_t \<Rightarrow> os_list_node_t) \<Rightarrow> list_heap \<Rightarrow> list_heap" where
  "upd_node n f h = h\<lparr>h_nodes := (h_nodes h)(n := f (h_nodes h n))\<rparr>"

definition upd_list :: "list_ref \<Rightarrow> (os_list_t \<Rightarrow> os_list_t) \<Rightarrow> list_heap \<Rightarrow> list_heap" where
  "upd_list l f h = h\<lparr>h_lists := (h_lists h)(l := f (h_lists h l))\<rparr>"

definition os_ListInit :: "list_ref \<Rightarrow> list_heap \<Rightarrow> list_heap" where
  "os_ListInit l h = upd_list l (\<lambda>L. L\<lparr>l_head := None, l_tail := None, l_size := 0\<rparr>) h"

definition zero_list :: os_list_t where
  "zero_list = \<lparr>l_head = None, l_tail = None, l_size = 0\<rparr>"

text \<open>\<open>memset\<close> to zero of an object that holds list headers clears these.\<close>

definition clear_headers :: "(list_ref \<Rightarrow> bool) \<Rightarrow> list_heap \<Rightarrow> list_heap" where
  "clear_headers P h = h\<lparr>h_lists := (\<lambda>l. if P l then zero_list else h_lists h l)\<rparr>"

definition os_ListPushBack :: "list_ref \<Rightarrow> node_ref \<Rightarrow> list_heap \<Rightarrow> list_heap option" where
  "os_ListPushBack l node h =
     (if n_linked (h_nodes h node) then None
      else
        let tl = l_tail (h_lists h l);
            h = upd_node node (\<lambda>N. N\<lparr>n_previous := tl, n_next := None\<rparr>) h;
            h = (case tl of
                   Some t \<Rightarrow> upd_node t (\<lambda>N. N\<lparr>n_next := Some node\<rparr>) h
                 | None \<Rightarrow> upd_list l (\<lambda>L. L\<lparr>l_head := Some node\<rparr>) h);
            h = upd_list l (\<lambda>L. L\<lparr>l_tail := Some node\<rparr>) h;
            h = upd_node node (\<lambda>N. N\<lparr>n_linked := True\<rparr>) h
        in Some (upd_list l (\<lambda>L. L\<lparr>l_size := l_size L + 1\<rparr>) h))"

definition os_ListInsertBefore ::
    "list_ref \<Rightarrow> node_ref \<Rightarrow> node_ref \<Rightarrow> list_heap \<Rightarrow> list_heap option" where
  "os_ListInsertBefore l position node h =
     (if \<not> n_linked (h_nodes h position) \<or> n_linked (h_nodes h node) then None
      else
        let before = n_previous (h_nodes h position);
            h = upd_node node (\<lambda>N. N\<lparr>n_previous := before, n_next := Some position\<rparr>) h
        in do {
          h \<leftarrow> (case before of
                 Some b \<Rightarrow> Some (upd_node b (\<lambda>N. N\<lparr>n_next := Some node\<rparr>) h)
               | None \<Rightarrow>
                   (if l_head (h_lists h l) \<noteq> Some position then None
                    else Some (upd_list l (\<lambda>L. L\<lparr>l_head := Some node\<rparr>) h)));
          let h = upd_node position (\<lambda>N. N\<lparr>n_previous := Some node\<rparr>) h;
          let h = upd_node node (\<lambda>N. N\<lparr>n_linked := True\<rparr>) h;
          Some (upd_list l (\<lambda>L. L\<lparr>l_size := l_size L + 1\<rparr>) h)
        })"

definition os_ListPopFront :: "list_ref \<Rightarrow> list_heap \<Rightarrow> node_ref option \<times> list_heap" where
  "os_ListPopFront l h =
     (case l_head (h_lists h l) of
        None \<Rightarrow> (None, h)
      | Some node \<Rightarrow>
          let hd' = n_next (h_nodes h node);
              h = upd_list l (\<lambda>L. L\<lparr>l_head := hd'\<rparr>) h;
              h = (case hd' of
                     Some n \<Rightarrow> upd_node n (\<lambda>N. N\<lparr>n_previous := None\<rparr>) h
                   | None \<Rightarrow> upd_list l (\<lambda>L. L\<lparr>l_tail := None\<rparr>) h);
              h = upd_node node (\<lambda>N. N\<lparr>n_previous := None, n_next := None, n_linked := False\<rparr>) h
          in (Some node, upd_list l (\<lambda>L. L\<lparr>l_size := l_size L - 1\<rparr>) h))"

definition os_ListRemove :: "list_ref \<Rightarrow> node_ref \<Rightarrow> list_heap \<Rightarrow> list_heap option" where
  "os_ListRemove l node h =
     (if \<not> n_linked (h_nodes h node) \<or> l_size (h_lists h l) = 0 then None
      else
        let before = n_previous (h_nodes h node); after = n_next (h_nodes h node)
        in do {
          h \<leftarrow> (case before of
                 Some b \<Rightarrow> Some (upd_node b (\<lambda>N. N\<lparr>n_next := after\<rparr>) h)
               | None \<Rightarrow>
                   (if l_head (h_lists h l) \<noteq> Some node then None
                    else Some (upd_list l (\<lambda>L. L\<lparr>l_head := after\<rparr>) h)));
          h \<leftarrow> (case after of
                 Some a \<Rightarrow> Some (upd_node a (\<lambda>N. N\<lparr>n_previous := before\<rparr>) h)
               | None \<Rightarrow>
                   (if l_tail (h_lists h l) \<noteq> Some node then None
                    else Some (upd_list l (\<lambda>L. L\<lparr>l_tail := before\<rparr>) h)));
          let h = upd_node node (\<lambda>N. N\<lparr>n_previous := None, n_next := None, n_linked := False\<rparr>) h;
          Some (upd_list l (\<lambda>L. L\<lparr>l_size := l_size L - 1\<rparr>) h)
        })"

text \<open>
  The bounded walk of \<open>os_ListContains\<close>: at most \<open>OS_MAX_TASKS + 1\<close> nodes are visited, so
  the walk is recursive on the number of visits left.
\<close>

fun os_ListWalk :: "list_heap \<Rightarrow> node_ref \<Rightarrow> nat \<Rightarrow> node_ref option \<Rightarrow> bool" where
  "os_ListWalk h node left None = False"
| "os_ListWalk h node 0 (Some c) = False"
| "os_ListWalk h node (Suc left) (Some c) =
     (if c = node then True else os_ListWalk h node left (n_next (h_nodes h c)))"

definition os_ListContains :: "list_ref option \<Rightarrow> node_ref option \<Rightarrow> list_heap \<Rightarrow> bool" where
  "os_ListContains list node h =
     (case (list, node) of
        (Some l, Some n) \<Rightarrow> os_ListWalk h n (OS_MAX_TASKS + 1) (l_head (h_lists h l))
      | _ \<Rightarrow> False)"

text \<open>
  The scan that both sorted insertions of the kernel run (\<open>os_WaitInsertByPriority\<close> and
  \<open>os_TimeDelayListInsert\<close>): walk the list until the owner of a node passes the test, insert
  before that node, and append when no node does. The loop has no bound of its own, so that
  a list that does not end has no result.
\<close>

partial_function (option) insert_scan ::
    "(nat \<Rightarrow> bool) \<Rightarrow> list_ref \<Rightarrow> node_ref \<Rightarrow> node_ref option \<Rightarrow> list_heap \<Rightarrow> list_heap option" where
  "insert_scan P l new node h =
     (case node of
        None \<Rightarrow> os_ListPushBack l new h
      | Some n \<Rightarrow>
          (case n_owner (h_nodes h n) of
             None \<Rightarrow> None
           | Some t \<Rightarrow>
               if P t then os_ListInsertBefore l n new h
               else insert_scan P l new (n_next (h_nodes h n)) h))"

declare insert_scan.simps [code]

subsection \<open>The specification: lists of node addresses\<close>

text \<open>
  \<open>sp_nodes\<close> lists the nodes of each list in order, \<open>sp_place\<close> says which list a node is
  linked into. An operation of the specification is undefined where the caller breaks the
  precondition that the C code asserts (or, for a node of another list, does not check).
\<close>

record list_spec =
  sp_nodes :: "list_ref \<Rightarrow> node_ref list"
  sp_place :: "node_ref \<Rightarrow> list_ref option"

definition spec_Empty :: list_spec where
  "spec_Empty = \<lparr>sp_nodes = (\<lambda>_. []), sp_place = (\<lambda>_. None)\<rparr>"

definition spec_PushBack :: "list_ref \<Rightarrow> node_ref \<Rightarrow> list_spec \<Rightarrow> list_spec option" where
  "spec_PushBack l n A =
     (if sp_place A n \<noteq> None \<or> OS_MAX_TASKS \<le> task_of n then None
      else Some (A\<lparr>sp_nodes := (sp_nodes A)(l := sp_nodes A l @ [n]),
                   sp_place := (sp_place A)(n := Some l)\<rparr>))"

definition spec_InsertBefore :: "list_ref \<Rightarrow> node_ref \<Rightarrow> node_ref \<Rightarrow> list_spec \<Rightarrow> list_spec option" where
  "spec_InsertBefore l p n A =
     (if sp_place A p \<noteq> Some l \<or> sp_place A n \<noteq> None \<or> OS_MAX_TASKS \<le> task_of n then None
      else Some (A\<lparr>sp_nodes := (sp_nodes A)(l := insert_where (\<lambda>m. m = p) n (sp_nodes A l)),
                   sp_place := (sp_place A)(n := Some l)\<rparr>))"

definition spec_PopFront :: "list_ref \<Rightarrow> list_spec \<Rightarrow> node_ref option \<times> list_spec" where
  "spec_PopFront l A =
     (case sp_nodes A l of
        [] \<Rightarrow> (None, A)
      | n # ns \<Rightarrow> (Some n, A\<lparr>sp_nodes := (sp_nodes A)(l := ns),
                              sp_place := (sp_place A)(n := None)\<rparr>))"

definition spec_Remove :: "list_ref \<Rightarrow> node_ref \<Rightarrow> list_spec \<Rightarrow> list_spec option" where
  "spec_Remove l n A =
     (if sp_place A n \<noteq> Some l then None
      else Some (A\<lparr>sp_nodes := (sp_nodes A)(l := remove1 n (sp_nodes A l)),
                   sp_place := (sp_place A)(n := None)\<rparr>))"

definition spec_InsertWhere :: "(nat \<Rightarrow> bool) \<Rightarrow> list_ref \<Rightarrow> node_ref \<Rightarrow> list_spec \<Rightarrow> list_spec option" where
  "spec_InsertWhere P l n A =
     (if sp_place A n \<noteq> None \<or> OS_MAX_TASKS \<le> task_of n then None
      else Some (A\<lparr>sp_nodes := (sp_nodes A)(l := insert_where (\<lambda>m. P (task_of m)) n (sp_nodes A l)),
                   sp_place := (sp_place A)(n := Some l)\<rparr>))"

subsection \<open>Abstraction: doubly linked segments\<close>

fun dseg :: "(node_ref \<Rightarrow> os_list_node_t) \<Rightarrow> node_ref option \<Rightarrow> node_ref list \<Rightarrow> node_ref option \<Rightarrow> bool" where
  "dseg nd p [] q = True"
| "dseg nd p (x # xs) q \<longleftrightarrow>
     n_previous (nd x) = p \<and> n_next (nd x) = first_or xs q \<and> dseg nd (Some x) xs q"

lemma dseg_append:
  "dseg nd p (xs @ ys) q \<longleftrightarrow> dseg nd p xs (first_or ys q) \<and> dseg nd (last_or p xs) ys q"
  by (induction xs arbitrary: p) auto

lemma dseg_frame:
  assumes "\<And>x. x \<in> set xs \<Longrightarrow> n_previous (nd' x) = n_previous (nd x)"
    and "\<And>x. x \<in> set xs \<Longrightarrow> n_next (nd' x) = n_next (nd x)"
  shows "dseg nd' p xs q = dseg nd p xs q"
  using assms by (induction xs arbitrary: p) auto

text \<open>Redirecting the outgoing pointer at one end of a segment.\<close>

lemma dseg_relink_next:
  assumes "dseg nd p xs q" "distinct xs"
    and "\<And>x. x \<in> set xs \<Longrightarrow> n_previous (nd' x) = n_previous (nd x)"
    and "\<And>x. x \<in> set xs \<Longrightarrow> Some x \<noteq> last_or None xs \<Longrightarrow> n_next (nd' x) = n_next (nd x)"
    and "xs \<noteq> [] \<Longrightarrow> n_next (nd' (last xs)) = q'"
  shows "dseg nd' p xs q'"
  using assms
proof (induction xs arbitrary: p)
  case (Cons x xs)
  show ?case
  proof (cases "xs = []")
    case True
    with Cons.prems show ?thesis by simp
  next
    case False
    with Cons.prems have "dseg nd' (Some x) xs q'"
      by (intro Cons.IH) (auto simp: last_or_def)
    moreover have "n_next (nd' x) = n_next (nd x)"
      using False Cons.prems(2) by (intro Cons.prems(4)) (auto simp: last_or_def)
    moreover have "first_or xs q = first_or xs q'"
      using False by (cases xs) auto
    ultimately show ?thesis using Cons.prems by simp
  qed
qed simp

lemma dseg_relink_previous:
  assumes "dseg nd p xs q" "distinct xs"
    and "\<And>x. x \<in> set xs \<Longrightarrow> n_next (nd' x) = n_next (nd x)"
    and "\<And>x. x \<in> set xs \<Longrightarrow> Some x \<noteq> first_or xs None \<Longrightarrow> n_previous (nd' x) = n_previous (nd x)"
    and "xs \<noteq> [] \<Longrightarrow> n_previous (nd' (hd xs)) = p'"
  shows "dseg nd' p' xs q"
proof (cases xs)
  case (Cons x ys)
  with assms have "dseg nd' (Some x) ys q = dseg nd (Some x) ys q"
    by (intro dseg_frame) auto
  with Cons assms show ?thesis by simp
qed simp

definition header_ok :: "os_list_t \<Rightarrow> node_ref list \<Rightarrow> bool" where
  "header_ok L xs \<longleftrightarrow> l_head L = first_or xs None \<and> l_tail L = last_or None xs \<and>
     l_size L = of_nat (length xs)"

text \<open>
  The abstraction relation: every header is the list it stands for, the nodes of a list are
  exactly the ones whose place it is, and \<open>linked\<close> says whether a node has a place. Only
  nodes of the TCB pool are ever linked, and these know their owner.
\<close>

definition list_rep :: "list_heap \<Rightarrow> list_spec \<Rightarrow> bool" where
  "list_rep h A \<longleftrightarrow>
     (\<forall>l. header_ok (h_lists h l) (sp_nodes A l) \<and> dseg (h_nodes h) None (sp_nodes A l) None \<and>
          distinct (sp_nodes A l)) \<and>
     (\<forall>l n. n \<in> set (sp_nodes A l) \<longleftrightarrow> sp_place A n = Some l) \<and>
     (\<forall>n. n_linked (h_nodes h n) \<longleftrightarrow> sp_place A n \<noteq> None) \<and>
     (\<forall>n. sp_place A n \<noteq> None \<longrightarrow> task_of n < OS_MAX_TASKS) \<and>
     (\<forall>n. task_of n < OS_MAX_TASKS \<longrightarrow> n_owner (h_nodes h n) = Some (task_of n))"

subsection \<open>Consequences of the abstraction relation\<close>

lemma rep_header: "list_rep h A \<Longrightarrow> header_ok (h_lists h l) (sp_nodes A l)"
  and rep_dseg: "list_rep h A \<Longrightarrow> dseg (h_nodes h) None (sp_nodes A l) None"
  and rep_distinct: "list_rep h A \<Longrightarrow> distinct (sp_nodes A l)"
  and rep_place: "list_rep h A \<Longrightarrow> n \<in> set (sp_nodes A l) \<longleftrightarrow> sp_place A n = Some l"
  and rep_linked: "list_rep h A \<Longrightarrow> n_linked (h_nodes h n) \<longleftrightarrow> sp_place A n \<noteq> None"
  and rep_pool: "list_rep h A \<Longrightarrow> sp_place A n = Some l \<Longrightarrow> task_of n < OS_MAX_TASKS"
  and rep_owner: "list_rep h A \<Longrightarrow> task_of n < OS_MAX_TASKS \<Longrightarrow> n_owner (h_nodes h n) = Some (task_of n)"
  unfolding list_rep_def by blast+

lemma rep_head: "list_rep h A \<Longrightarrow> l_head (h_lists h l) = first_or (sp_nodes A l) None"
  and rep_tail: "list_rep h A \<Longrightarrow> l_tail (h_lists h l) = last_or None (sp_nodes A l)"
  and rep_size: "list_rep h A \<Longrightarrow> l_size (h_lists h l) = of_nat (length (sp_nodes A l))"
  using rep_header [of h A l] by (auto simp: header_ok_def)

lemma rep_owner_placed: "list_rep h A \<Longrightarrow> sp_place A n = Some l \<Longrightarrow> n_owner (h_nodes h n) = Some (task_of n)"
  by (blast intro: rep_owner rep_pool)

text \<open>At most sixteen nodes exist, so no list is long enough for its size to wrap around.\<close>

lemma rep_length_bound:
  assumes "list_rep h A"
  shows "length (sp_nodes A l) \<le> 2 * OS_MAX_TASKS"
proof -
  let ?N = "SchedNode ` {..<8} \<union> DelayNode ` {..<8}"
  have "set (sp_nodes A l) \<subseteq> ?N"
  proof
    fix n assume "n \<in> set (sp_nodes A l)"
    then have "task_of n < 8" using rep_pool [OF assms] rep_place [OF assms] by fastforce
    then show "n \<in> ?N" by (cases n) auto
  qed
  then have "card (set (sp_nodes A l)) \<le> card ?N" by (intro card_mono) auto
  also have "card ?N \<le> card (SchedNode ` {..<8::nat}) + card (DelayNode ` {..<8::nat})"
    by (rule card_Un_le)
  also have "\<dots> \<le> 16" by (simp add: card_image inj_on_def)
  finally show ?thesis using distinct_card [OF rep_distinct [OF assms, of l]] by simp
qed

lemma rep_size_0_iff:
  assumes "list_rep h A"
  shows "l_size (h_lists h l) = 0 \<longleftrightarrow> sp_nodes A l = []"
proof -
  have "length (sp_nodes A l) < 2 ^ 32" using rep_length_bound [OF assms, of l] by simp
  then have "unat (of_nat (length (sp_nodes A l)) :: size_t) = length (sp_nodes A l)"
    by (simp add: unat_of_nat)
  then show ?thesis
    by (simp add: rep_size [OF assms] unat_0_iff [symmetric])
qed

lemma rep_disjoint:
  "list_rep h A \<Longrightarrow> x \<in> set (sp_nodes A k) \<Longrightarrow> y \<in> set (sp_nodes A l) \<Longrightarrow> k \<noteq> l \<Longrightarrow> x \<noteq> y"
  using rep_place by fastforce

text \<open>The walk from a node of the list sees the rest of the list.\<close>

lemma rep_split_pointers:
  assumes "list_rep h A" "sp_nodes A l = xs @ n # ys"
  shows "n_previous (h_nodes h n) = last_or None xs" "n_next (h_nodes h n) = first_or ys None"
  using rep_dseg [OF assms(1), of l] by (auto simp: assms(2) dseg_append)

subsection \<open>The operations refine the specification\<close>

lemma list_repI:
  assumes "\<And>l. header_ok (h_lists h l) (sp_nodes A l)"
    and "\<And>l. dseg (h_nodes h) None (sp_nodes A l) None"
    and "\<And>l. distinct (sp_nodes A l)"
    and "\<And>l n. n \<in> set (sp_nodes A l) \<longleftrightarrow> sp_place A n = Some l"
    and "\<And>n. n_linked (h_nodes h n) \<longleftrightarrow> sp_place A n \<noteq> None"
    and "\<And>n. sp_place A n \<noteq> None \<Longrightarrow> task_of n < OS_MAX_TASKS"
    and "\<And>n. task_of n < OS_MAX_TASKS \<Longrightarrow> n_owner (h_nodes h n) = Some (task_of n)"
  shows "list_rep h A"
  using assms unfolding list_rep_def by blast

text \<open>An operation on one list leaves the representation of the others alone.\<close>

lemma list_rep_update:
  assumes rep: "list_rep h A"
    and lists: "\<And>k. k \<noteq> l \<Longrightarrow> h_lists h' k = h_lists h k"
    and nodes: "\<And>x k. sp_place A x = Some k \<Longrightarrow> k \<noteq> l \<Longrightarrow> h_nodes h' x = h_nodes h x"
    and others: "\<And>k. k \<noteq> l \<Longrightarrow> sp_nodes B k = sp_nodes A k"
    and places: "\<And>x k. k \<noteq> l \<Longrightarrow> sp_place B x = Some k \<longleftrightarrow> sp_place A x = Some k"
    and header: "header_ok (h_lists h' l) (sp_nodes B l)"
    and seg: "dseg (h_nodes h') None (sp_nodes B l) None"
    and dist: "distinct (sp_nodes B l)"
    and mem: "\<And>x. x \<in> set (sp_nodes B l) \<longleftrightarrow> sp_place B x = Some l"
    and linked: "\<And>x. n_linked (h_nodes h' x) \<longleftrightarrow> sp_place B x \<noteq> None"
    and pool: "\<And>x. sp_place B x \<noteq> None \<Longrightarrow> task_of x < OS_MAX_TASKS"
    and owner: "\<And>x. n_owner (h_nodes h' x) = n_owner (h_nodes h x)"
  shows "list_rep h' B"
proof (rule list_repI)
  fix k
  have seg_k: "dseg (h_nodes h') None (sp_nodes A k) None = dseg (h_nodes h) None (sp_nodes A k) None"
    if "k \<noteq> l"
    using that nodes rep_place [OF rep] by (intro dseg_frame) auto
  show "header_ok (h_lists h' k) (sp_nodes B k)"
    using header lists others rep_header [OF rep] by (cases "k = l") auto
  show "dseg (h_nodes h') None (sp_nodes B k) None"
    using seg seg_k others rep_dseg [OF rep] by (cases "k = l") auto
  show "distinct (sp_nodes B k)"
    using dist others rep_distinct [OF rep] by (cases "k = l") auto
  show "x \<in> set (sp_nodes B k) \<longleftrightarrow> sp_place B x = Some k" for x
    using mem others places rep_place [OF rep] by (cases "k = l") auto
next
  show "n_owner (h_nodes h' x) = Some (task_of x)" if "task_of x < OS_MAX_TASKS" for x
    using owner rep_owner [OF rep that] by simp
qed (use linked pool in auto)

lemma PushBack_refined:
  assumes rep: "list_rep h A"
  shows "sim list_rep (os_ListPushBack l n h) (spec_PushBack l n A)"
proof (rule simI)
  fix B assume B: "spec_PushBack l n A = Some B"
  then have free: "sp_place A n = None" and pool: "task_of n < 8"
    by (auto simp: spec_PushBack_def split: if_splits)
  have new: "n \<notin> set (sp_nodes A k)" for k using rep_place [OF rep] free by simp
  have unlinked: "\<not> n_linked (h_nodes h n)" using rep_linked [OF rep] free by simp
  define h' where "h' = the (os_ListPushBack l n h)"
  have run: "os_ListPushBack l n h = Some h'"
    using unlinked by (simp add: h'_def os_ListPushBack_def Let_def)
  note h' = h'_def os_ListPushBack_def Let_def upd_node_def upd_list_def
  note tl = rep_tail [OF rep, of l]
  have B': "sp_nodes B = (sp_nodes A)(l := sp_nodes A l @ [n])" "sp_place B = (sp_place A)(n := Some l)"
    using B by (auto simp: spec_PushBack_def split: if_splits)
  have nodes: "h_nodes h' x = (if x = n then (h_nodes h n)\<lparr>n_previous := last_or None (sp_nodes A l), n_next := None, n_linked := True\<rparr>
      else if Some x = last_or None (sp_nodes A l) then (h_nodes h x)\<lparr>n_next := Some n\<rparr> else h_nodes h x)" for x
    using unlinked new [of l] by (auto simp: h' tl last_or_def split: option.splits)
  have lists: "h_lists h' k = (if k = l then \<lparr>l_head = first_or (sp_nodes A l) (Some n), l_tail = Some n,
      l_size = of_nat (length (sp_nodes A l)) + 1\<rparr> else h_lists h k)" for k
    using unlinked rep_header [OF rep, of l]
    by (cases "sp_nodes A l") (auto simp: h' tl header_ok_def last_or_def split: option.splits)
  have last: "sp_place A x = Some l" if "Some x = last_or None (sp_nodes A l)" for x
    using that rep_place [OF rep, of x l] by (auto simp: last_or_def split: if_splits)
  have "list_rep h' B"
  proof (rule list_rep_update [OF rep, where l = l])
    have "dseg (h_nodes h') None (sp_nodes A l) (Some n)"
      using new [of l] by (intro dseg_relink_next [OF rep_dseg [OF rep] rep_distinct [OF rep]])
        (auto simp: nodes last_or_def)
    then show "dseg (h_nodes h') None (sp_nodes B l) None" by (simp add: B' dseg_append nodes)
    show "h_nodes h' x = h_nodes h x" if "sp_place A x = Some k" "k \<noteq> l" for x k
      using that free last [of x] by (auto simp: nodes)
    show "n_linked (h_nodes h' x) \<longleftrightarrow> sp_place B x \<noteq> None" for x
      using rep_linked [OF rep] by (auto simp: B' nodes)
  qed (use pool rep_pool [OF rep] rep_distinct [OF rep] new rep_place [OF rep] free
       in \<open>auto simp: B' nodes lists header_ok_def split: if_splits\<close>)
  with run show "\<exists>x. os_ListPushBack l n h = Some x \<and> list_rep x B" by blast
qed

lemma insert_where_split:
  "p \<notin> set xs \<Longrightarrow> insert_where (\<lambda>m. m = p) n (xs @ p # ys) = xs @ n # p # ys"
  by (induction xs) auto

lemma InsertBefore_refined:
  assumes rep: "list_rep h A"
  shows "sim list_rep (os_ListInsertBefore l p n h) (spec_InsertBefore l p n A)"
proof (rule simI)
  fix B assume B: "spec_InsertBefore l p n A = Some B"
  then have free: "sp_place A n = None" and pool: "task_of n < 8" and at: "sp_place A p = Some l"
    by (auto simp: spec_InsertBefore_def split: if_splits)
  have new: "n \<notin> set (sp_nodes A k)" for k using rep_place [OF rep] free by simp
  obtain xs ys where split: "sp_nodes A l = xs @ p # ys"
    using at rep_place [OF rep] by (metis split_list)
  have dist: "distinct (xs @ p # ys)" using rep_distinct [OF rep, of l] split by simp
  have linked: "\<not> n_linked (h_nodes h n)" "n_linked (h_nodes h p)"
    using rep_linked [OF rep] free at by auto
  have disj: "last xs \<notin> set ys" if "xs \<noteq> []" using dist last_in_set [OF that] by auto
  note ptr = rep_split_pointers [OF rep split]
  have hd: "xs = [] \<Longrightarrow> l_head (h_lists h l) = Some p" using rep_head [OF rep, of l] split by simp
  have np: "n \<noteq> p" "n \<notin> set xs" "n \<notin> set ys" using new [of l] split by auto
  define h' where "h' = the (os_ListInsertBefore l p n h)"
  note defs = os_ListInsertBefore_def Let_def upd_node_def upd_list_def
  have run: "os_ListInsertBefore l p n h = Some h'"
    using linked hd by (auto simp: h'_def defs ptr last_or_def split: option.splits if_splits)
  have B': "sp_nodes B = (sp_nodes A)(l := xs @ n # p # ys)" "sp_place B = (sp_place A)(n := Some l)"
    using B split dist insert_where_split [of p xs n ys]
    by (auto simp: spec_InsertBefore_def split: if_splits)
  have nodes: "h_nodes h' x =
     (if x = n then (h_nodes h n)\<lparr>n_previous := last_or None xs, n_next := Some p, n_linked := True\<rparr>
      else if x = p then (h_nodes h p)\<lparr>n_previous := Some n\<rparr>
      else if Some x = last_or None xs then (h_nodes h x)\<lparr>n_next := Some n\<rparr> else h_nodes h x)" for x
    using run linked np dist hd
    by (auto simp: defs ptr last_or_def split: option.splits if_splits)
  have lists: "h_lists h' k = (if k = l then (h_lists h l)\<lparr>l_head := first_or xs (Some n),
      l_size := of_nat (length xs + length ys) + 2\<rparr> else h_lists h k)" for k
    using run linked np hd rep_head [OF rep, of l] rep_size [OF rep, of l]
    by (cases xs) (auto simp: defs ptr split last_or_def split: option.splits if_splits)
  have last: "sp_place A x = Some l" if "Some x = last_or None xs" for x
    using that rep_place [OF rep, of x l] split by (auto simp: last_or_def split: if_splits)
  have segs: "dseg (h_nodes h) None xs (Some p)" "dseg (h_nodes h) (last_or None xs) (p # ys) None"
    using rep_dseg [OF rep, of l] by (auto simp: split dseg_append)
  have "list_rep h' B"
  proof (rule list_rep_update [OF rep, where l = l])
    have "dseg (h_nodes h') None xs (Some n)"
      using np dist by (intro dseg_relink_next [OF segs(1)]) (auto simp: nodes last_or_def)
    moreover have "dseg (h_nodes h') (Some n) (p # ys) None"
      using np dist disj
      by (intro dseg_relink_previous [OF segs(2)]) (auto simp: nodes last_or_def split: if_splits)
    ultimately show "dseg (h_nodes h') None (sp_nodes B l) None"
      by (simp add: B' dseg_append nodes)
    show "h_nodes h' x = h_nodes h x" if "sp_place A x = Some k" "k \<noteq> l" for x k
      using that free at last [of x] by (auto simp: nodes)
    show "n_linked (h_nodes h' x) \<longleftrightarrow> sp_place B x \<noteq> None" for x
      using rep_linked [OF rep] at by (auto simp: B' nodes)
    show "x \<in> set (sp_nodes B l) \<longleftrightarrow> sp_place B x = Some l" for x
      using rep_place [OF rep, of x l] split by (auto simp: B')
    show "header_ok (h_lists h' l) (sp_nodes B l)"
      using rep_tail [OF rep, of l] split by (simp add: lists B' header_ok_def)
  qed (use pool rep_pool [OF rep] dist np free in \<open>auto simp: B' nodes lists split: if_splits\<close>)
  with run show "\<exists>x. os_ListInsertBefore l p n h = Some x \<and> list_rep x B" by blast
qed

lemma PopFront_refined:
  assumes rep: "list_rep h A"
  shows "fst (os_ListPopFront l h) = fst (spec_PopFront l A) \<and>
         list_rep (snd (os_ListPopFront l h)) (snd (spec_PopFront l A))"
proof (cases "sp_nodes A l")
  case Nil
  then show ?thesis
    using rep rep_head [OF rep, of l] by (simp add: os_ListPopFront_def spec_PopFront_def)
next
  case (Cons n ys)
  define h' where "h' = snd (os_ListPopFront l h)"
  define B where "B = snd (spec_PopFront l A)"
  note defs = os_ListPopFront_def Let_def upd_node_def upd_list_def
  have at: "sp_place A n = Some l" using rep_place [OF rep, of n l] Cons by simp
  have dist: "n \<notin> set ys" "distinct ys" using rep_distinct [OF rep, of l] Cons by auto
  have ptr: "n_next (h_nodes h n) = first_or ys None"
    using rep_split_pointers(2) [OF rep, of l "[]" n ys] Cons by simp
  have hd: "l_head (h_lists h l) = Some n" using rep_head [OF rep, of l] Cons by simp
  have B': "sp_nodes B = (sp_nodes A)(l := ys)" "sp_place B = (sp_place A)(n := None)"
    by (simp_all add: B_def spec_PopFront_def Cons)
  have nodes: "h_nodes h' x =
     (if x = n then (h_nodes h n)\<lparr>n_previous := None, n_next := None, n_linked := False\<rparr>
      else if Some x = first_or ys None then (h_nodes h x)\<lparr>n_previous := None\<rparr> else h_nodes h x)" for x
    using dist by (cases ys) (auto simp: h'_def defs hd ptr)
  have lists: "h_lists h' k = (if k = l then \<lparr>l_head = first_or ys None, l_tail = last_or None ys,
      l_size = of_nat (length ys)\<rparr> else h_lists h k)" for k
    using rep_header [OF rep, of l]
    by (cases ys) (auto simp: h'_def defs hd ptr Cons header_ok_def last_or_def)
  have first: "sp_place A x = Some l" if "Some x = first_or ys None" for x
    using that rep_place [OF rep, of x l] Cons by (cases ys) auto
  have "list_rep h' B"
  proof (rule list_rep_update [OF rep, where l = l])
    have "dseg (h_nodes h) (Some n) ys None" using rep_dseg [OF rep, of l] Cons by simp
    then have "dseg (h_nodes h') None ys None"
    proof (rule dseg_relink_previous)
      show "n_previous (h_nodes h' (hd ys)) = None" if "ys \<noteq> []"
        using that dist by (cases ys) (auto simp: nodes)
    qed (use dist in \<open>auto simp: nodes\<close>)
    then show "dseg (h_nodes h') None (sp_nodes B l) None" by (simp add: B')
    show "h_nodes h' x = h_nodes h x" if "sp_place A x = Some k" "k \<noteq> l" for x k
      using that at first [of x] by (auto simp: nodes)
    show "n_linked (h_nodes h' x) \<longleftrightarrow> sp_place B x \<noteq> None" for x
      using rep_linked [OF rep] by (auto simp: B' nodes)
    show "x \<in> set (sp_nodes B l) \<longleftrightarrow> sp_place B x = Some l" for x
      using rep_place [OF rep, of x l] dist Cons by (auto simp: B')
    show "sp_place B x = Some k \<longleftrightarrow> sp_place A x = Some k" if "k \<noteq> l" for x k
      using that at by (auto simp: B')
  qed (use rep_pool [OF rep] dist in \<open>auto simp: B' nodes lists header_ok_def split: if_splits\<close>)
  moreover have "fst (os_ListPopFront l h) = Some n" by (simp add: os_ListPopFront_def hd Let_def)
  ultimately show ?thesis by (simp add: h'_def B_def spec_PopFront_def Cons)
qed

lemma Remove_refined:
  assumes rep: "list_rep h A"
  shows "sim list_rep (os_ListRemove l n h) (spec_Remove l n A)"
proof (rule simI)
  fix B assume B: "spec_Remove l n A = Some B"
  then have at: "sp_place A n = Some l" by (auto simp: spec_Remove_def split: if_splits)
  obtain xs ys where split: "sp_nodes A l = xs @ n # ys"
    using at rep_place [OF rep] by (metis split_list)
  have dist: "distinct (xs @ n # ys)" using rep_distinct [OF rep, of l] split by simp
  have linked: "n_linked (h_nodes h n)" "l_size (h_lists h l) \<noteq> 0"
    using rep_linked [OF rep] at rep_size_0_iff [OF rep, of l] split by auto
  note ptr = rep_split_pointers [OF rep split]
  have ends: "xs = [] \<Longrightarrow> l_head (h_lists h l) = Some n" "ys = [] \<Longrightarrow> l_tail (h_lists h l) = Some n"
    using rep_head [OF rep, of l] rep_tail [OF rep, of l] split by simp_all
  define h' where "h' = the (os_ListRemove l n h)"
  note defs = os_ListRemove_def Let_def upd_node_def upd_list_def
  have run: "os_ListRemove l n h = Some h'"
    using linked ends by (auto simp: h'_def defs ptr last_or_def first_or_def split: option.splits list.splits if_splits)
  have B': "sp_nodes B = (sp_nodes A)(l := xs @ ys)" "sp_place B = (sp_place A)(n := None)"
    using B split dist by (auto simp: spec_Remove_def remove1_append split: if_splits)
  have ne: "last xs \<in> set xs" "last xs \<notin> set ys" if "xs \<noteq> []"
    using dist last_in_set [OF that] by auto
  have nodes: "h_nodes h' x =
     (if x = n then (h_nodes h n)\<lparr>n_previous := None, n_next := None, n_linked := False\<rparr>
      else if Some x = last_or None xs then (h_nodes h x)\<lparr>n_next := first_or ys None\<rparr>
      else if Some x = first_or ys None then (h_nodes h x)\<lparr>n_previous := last_or None xs\<rparr>
      else h_nodes h x)" for x
    using run linked dist ends ne
    by (cases ys) (auto simp: defs ptr last_or_def split: option.splits if_splits)
  have lists: "h_lists h' k = (if k = l then \<lparr>l_head = first_or xs (first_or ys None),
      l_tail = last_or (last_or None xs) ys, l_size = of_nat (length xs + length ys)\<rparr>
      else h_lists h k)" for k
    using run linked ends rep_header [OF rep, of l]
    by (cases xs; cases ys) (auto simp: defs ptr split header_ok_def last_or_def split: option.splits if_splits)
  have inner: "sp_place A x = Some l" if "Some x = last_or None xs \<or> Some x = first_or ys None" for x
    using that rep_place [OF rep, of x l] split
    by (cases ys) (auto simp: last_or_def split: if_splits)
  have segs: "dseg (h_nodes h) None xs (Some n)" "dseg (h_nodes h) (Some n) ys None"
    using rep_dseg [OF rep, of l] by (auto simp: split dseg_append)
  have "list_rep h' B"
  proof (rule list_rep_update [OF rep, where l = l])
    have "dseg (h_nodes h') None xs (first_or ys None)"
      using dist ne by (intro dseg_relink_next [OF segs(1)])
        (auto simp: nodes last_or_def first_or_def split: list.splits)
    moreover have "dseg (h_nodes h') (last_or None xs) ys None"
      using dist ne by (intro dseg_relink_previous [OF segs(2)])
        (auto simp: nodes last_or_def first_or_def split: list.splits if_splits)
    ultimately show "dseg (h_nodes h') None (sp_nodes B l) None"
      by (simp add: B' dseg_append)
    show "h_nodes h' x = h_nodes h x" if "sp_place A x = Some k" "k \<noteq> l" for x k
      using that at inner [of x] by (auto simp: nodes)
    show "n_linked (h_nodes h' x) \<longleftrightarrow> sp_place B x \<noteq> None" for x
      using rep_linked [OF rep] by (auto simp: B' nodes)
    show "x \<in> set (sp_nodes B l) \<longleftrightarrow> sp_place B x = Some l" for x
      using rep_place [OF rep, of x l] dist split by (auto simp: B')
    show "sp_place B x = Some k \<longleftrightarrow> sp_place A x = Some k" if "k \<noteq> l" for x k
      using that at by (auto simp: B')
  qed (use rep_pool [OF rep] dist in \<open>auto simp: B' nodes lists header_ok_def split: if_splits\<close>)
  with run show "\<exists>x. os_ListRemove l n h = Some x \<and> list_rep x B" by blast
qed

lemma ListInit_refined:
  assumes "list_rep h A" "sp_nodes A l = []"
  shows "list_rep (os_ListInit l h) A"
proof -
  have "h_lists (os_ListInit l h) = h_lists h"
    using rep_header [OF assms(1), of l] assms(2)
    by (auto simp: os_ListInit_def upd_list_def header_ok_def)
  moreover have "h_nodes (os_ListInit l h) = h_nodes h"
    by (simp add: os_ListInit_def upd_list_def)
  ultimately have "os_ListInit l h = h" by simp
  with assms(1) show ?thesis by simp
qed

lemma ListWalk_iff:
  assumes "dseg (h_nodes h) p xs None" "length xs \<le> left"
  shows "os_ListWalk h n left (first_or xs None) \<longleftrightarrow> n \<in> set xs"
  using assms
proof (induction xs arbitrary: p left)
  case (Cons x xs)
  then obtain left' where "left = Suc left'" by (cases left) auto
  with Cons show ?case by auto
qed simp

lemma ListContains_refined:
  assumes "list_rep h A" "length (sp_nodes A l) \<le> OS_MAX_TASKS + 1"
  shows "os_ListContains (Some l) (Some n) h \<longleftrightarrow> n \<in> set (sp_nodes A l)"
  unfolding os_ListContains_def
  using ListWalk_iff [OF rep_dseg [OF assms(1)] assms(2)] rep_head [OF assms(1)] by simp

lemma insert_where_append:
  "(\<And>x. x \<in> set xs \<Longrightarrow> \<not> P x) \<Longrightarrow> insert_where P n (xs @ ys) = xs @ insert_where P n ys"
  by (induction xs) auto

lemma insert_scan_suffix:
  assumes "list_rep h A" "sp_nodes A l = xs @ ys" "\<And>x. x \<in> set xs \<Longrightarrow> \<not> P (task_of x)"
  shows "sim list_rep (insert_scan P l n (first_or ys None) h) (spec_InsertWhere P l n A)"
  using assms(2,3)
proof (induction ys arbitrary: xs)
  case Nil
  have "insert_where (\<lambda>m. P (task_of m)) n (sp_nodes A l) = sp_nodes A l @ [n]"
    using Nil insert_where_append [of xs "\<lambda>m. P (task_of m)" n "[]"] by simp
  then have "spec_InsertWhere P l n A = spec_PushBack l n A"
    by (simp add: spec_InsertWhere_def spec_PushBack_def)
  then show ?case
    using PushBack_refined [OF assms(1), of l n] by (simp add: insert_scan.simps)
next
  case (Cons y ys)
  have at: "sp_place A y = Some l" using rep_place [OF assms(1), of y l] Cons.prems by simp
  have owner: "n_owner (h_nodes h y) = Some (task_of y)" by (rule rep_owner_placed [OF assms(1) at])
  show ?case
  proof (cases "P (task_of y)")
    case True
    have "y \<notin> set xs" using rep_distinct [OF assms(1), of l] Cons.prems by simp
    then have "insert_where (\<lambda>m. P (task_of m)) n (sp_nodes A l) = insert_where (\<lambda>m. m = y) n (sp_nodes A l)"
      using True Cons.prems by (simp add: insert_where_split insert_where_append)
    then have "spec_InsertWhere P l n A = spec_InsertBefore l y n A"
      using at by (simp add: spec_InsertWhere_def spec_InsertBefore_def)
    then show ?thesis
      using InsertBefore_refined [OF assms(1), of l y n] True owner by (simp add: insert_scan.simps)
  next
    case False
    have "n_next (h_nodes h y) = first_or ys None"
      by (rule rep_split_pointers(2) [OF assms(1) Cons.prems(1)])
    moreover have "sim list_rep (insert_scan P l n (first_or ys None) h) (spec_InsertWhere P l n A)"
      using Cons.prems False by (intro Cons.IH [of "xs @ [y]"]) auto
    ultimately show ?thesis
      using False owner by (simp add: insert_scan.simps [of P l n "Some y"])
  qed
qed

text \<open>The scan over a represented list ends, and inserts where the specification does.\<close>

lemma InsertWhere_refined:
  assumes "list_rep h A"
  shows "sim list_rep (insert_scan P l n (l_head (h_lists h l)) h) (spec_InsertWhere P l n A)"
  using insert_scan_suffix [OF assms, of l "[]" "sp_nodes A l" P n] rep_head [OF assms, of l] by simp

subsection \<open>The contract of the module\<close>

text \<open>
  What a client of the list module relies on: a representation relation, and for every
  operation that it refines the specification on lists.
\<close>

locale list_module =
  fixes rep :: "'h \<Rightarrow> list_spec \<Rightarrow> bool"
    and init :: "list_ref \<Rightarrow> 'h \<Rightarrow> 'h"
    and push_back :: "list_ref \<Rightarrow> node_ref \<Rightarrow> 'h \<Rightarrow> 'h option"
    and insert_before :: "list_ref \<Rightarrow> node_ref \<Rightarrow> node_ref \<Rightarrow> 'h \<Rightarrow> 'h option"
    and insert_at :: "(nat \<Rightarrow> bool) \<Rightarrow> list_ref \<Rightarrow> node_ref \<Rightarrow> 'h \<Rightarrow> 'h option"
    and pop_front :: "list_ref \<Rightarrow> 'h \<Rightarrow> node_ref option \<times> 'h"
    and remove :: "list_ref \<Rightarrow> node_ref \<Rightarrow> 'h \<Rightarrow> 'h option"
    and contains :: "list_ref option \<Rightarrow> node_ref option \<Rightarrow> 'h \<Rightarrow> bool"
  assumes init_law: "rep h A \<Longrightarrow> sp_nodes A l = [] \<Longrightarrow> rep (init l h) A"
    and push_back_law: "rep h A \<Longrightarrow> sim rep (push_back l n h) (spec_PushBack l n A)"
    and insert_before_law: "rep h A \<Longrightarrow> sim rep (insert_before l p n h) (spec_InsertBefore l p n A)"
    and pop_front_law: "rep h A \<Longrightarrow> fst (pop_front l h) = fst (spec_PopFront l A) \<and>
          rep (snd (pop_front l h)) (snd (spec_PopFront l A))"
    and insert_where_law: "rep h A \<Longrightarrow> sim rep (insert_at P l n h) (spec_InsertWhere P l n A)"
    and remove_law: "rep h A \<Longrightarrow> sim rep (remove l n h) (spec_Remove l n A)"
    and contains_law: "rep h A \<Longrightarrow> length (sp_nodes A l) \<le> OS_MAX_TASKS + 1 \<Longrightarrow>
          contains (Some l) (Some n) h \<longleftrightarrow> n \<in> set (sp_nodes A l)"
begin

text \<open>Popping returns the node at the front, and leaves the rest.\<close>

lemma pop_front_Cons:
  assumes "rep h A" "sp_nodes A l = n # ns"
  shows "fst (pop_front l h) = Some n"
    and "rep (snd (pop_front l h)) (A\<lparr>sp_nodes := (sp_nodes A)(l := ns), sp_place := (sp_place A)(n := None)\<rparr>)"
  using pop_front_law [OF assms(1), of l] assms(2) by (simp_all add: spec_PopFront_def)

lemma pop_front_Nil:
  "rep h A \<Longrightarrow> sp_nodes A l = [] \<Longrightarrow> fst (pop_front l h) = None \<and> rep (snd (pop_front l h)) A"
  using pop_front_law [of h A l] by (simp add: spec_PopFront_def)

text \<open>A free node can always be appended, and goes to the end.\<close>

lemma push_back_free:
  assumes "rep h A" "sp_place A n = None" "task_of n < OS_MAX_TASKS"
  shows "\<exists>h'. push_back l n h = Some h' \<and>
    rep h' (A\<lparr>sp_nodes := (sp_nodes A)(l := sp_nodes A l @ [n]), sp_place := (sp_place A)(n := Some l)\<rparr>)"
  using push_back_law [OF assms(1), of l n] assms(2,3)
  by (simp add: sim_def spec_PushBack_def)

text \<open>First in, first out: pushing free nodes one by one keeps their order behind what is there.\<close>

lemma push_all_free:
  assumes "rep h A" "distinct ns"
    and "\<And>n. n \<in> set ns \<Longrightarrow> sp_place A n = None \<and> task_of n < OS_MAX_TASKS"
  shows "\<exists>h' B. foldM (push_back l) ns h = Some h' \<and> rep h' B \<and>
    sp_nodes B = (sp_nodes A)(l := sp_nodes A l @ ns)"
  using assms
proof (induction ns arbitrary: h A)
  case (Cons n ns)
  from push_back_free [OF Cons.prems(1), of n l] Cons.prems(3) obtain h1 where
    h1: "push_back l n h = Some h1" and
    rep1: "rep h1 (A\<lparr>sp_nodes := (sp_nodes A)(l := sp_nodes A l @ [n]), sp_place := (sp_place A)(n := Some l)\<rparr>)"
    by auto
  from Cons.IH [OF rep1] Cons.prems(2,3) obtain h2 B where
    "foldM (push_back l) ns h1 = Some h2" "rep h2 B"
    "sp_nodes B = (sp_nodes A)(l := sp_nodes A l @ n # ns)"
    by force
  moreover from h1 this(1) have "foldM (push_back l) (n # ns) h = Some h2" by simp
  ultimately show ?case by blast
qed auto

text \<open>A node that is linked can be taken out of its list, and is free again.\<close>

lemma remove_linked:
  assumes "rep h A" "sp_place A n = Some l"
  shows "\<exists>h'. remove l n h = Some h' \<and>
    rep h' (A\<lparr>sp_nodes := (sp_nodes A)(l := remove1 n (sp_nodes A l)), sp_place := (sp_place A)(n := None)\<rparr>)"
  using remove_law [OF assms(1), of l n] assms(2)
  by (simp add: sim_def spec_Remove_def)

end

interpretation os_list: list_module list_rep os_ListInit os_ListPushBack os_ListInsertBefore
    "\<lambda>P l n h. insert_scan P l n (l_head (h_lists h l)) h" os_ListPopFront os_ListRemove os_ListContains
  by unfold_locales
    (auto intro: ListInit_refined PushBack_refined InsertBefore_refined InsertWhere_refined
         Remove_refined
       simp: PopFront_refined ListContains_refined simp del: OS_MAX_TASKS_def)

end
