(* ===== verification/OS_Refine.thy ===== *)
theory OS_Refine
  imports OS_List
begin

section \<open>From the pointer-level kernel to the list-level kernel\<close>

text \<open>
  The specification of the kernel is the same state with the heap of headers and nodes
  replaced by \<open>list_spec\<close>. Every kernel state is \<open>conc h a\<close> for its own heap \<open>h\<close> and a
  specification state \<open>a\<close> that has its other components; the abstraction relation
  \<open>krel\<close> asks that \<open>h\<close> represents the lists of \<open>a\<close>. The rules below move reads and
  writes of the other components through \<open>conc\<close>, so that a refinement proof is a walk
  over the two definitions (\<open>sim_intros\<close>, \<open>core_simps\<close>).
\<close>

type_synonym 'p spec_kernel = "(list_spec, 'p) os_kernel_t"

definition conc :: "list_heap \<Rightarrow> 'p spec_kernel \<Rightarrow> 'p kernel" where
  "conc h a = \<lparr>
     k_initialized = k_initialized a, k_started = k_started a, k_tasks = k_tasks a, k_task_count
     = k_task_count a, k_px_delayed = k_px_delayed a, k_px_overflow_delayed =
     k_px_overflow_delayed a, k_ready_bitmap = k_ready_bitmap a, k_tick = k_tick a, k_current =
     k_current a, k_last_from = k_last_from a, k_last_to = k_last_to a, k_last_reason =
     k_last_reason a, k_switch_count = k_switch_count a, k_critical_nesting = k_critical_nesting
     a, k_sched_pending = k_sched_pending a, k_idle_task = k_idle_task a, k_last_error =
     k_last_error a, k_sems = k_sems a, k_queues = k_queues a, k_mutexes = k_mutexes a, k_memory
     = k_memory a, k_port = k_port a,
     k_heap = h\<rparr>"

lemma conc_select [simp, core_simps]:
  "k_initialized (conc h a) = k_initialized a"
  "k_started (conc h a) = k_started a"
  "k_tasks (conc h a) = k_tasks a"
  "k_task_count (conc h a) = k_task_count a"
  "k_px_delayed (conc h a) = k_px_delayed a"
  "k_px_overflow_delayed (conc h a) = k_px_overflow_delayed a"
  "k_ready_bitmap (conc h a) = k_ready_bitmap a"
  "k_tick (conc h a) = k_tick a"
  "k_current (conc h a) = k_current a"
  "k_last_from (conc h a) = k_last_from a"
  "k_last_to (conc h a) = k_last_to a"
  "k_last_reason (conc h a) = k_last_reason a"
  "k_switch_count (conc h a) = k_switch_count a"
  "k_critical_nesting (conc h a) = k_critical_nesting a"
  "k_sched_pending (conc h a) = k_sched_pending a"
  "k_idle_task (conc h a) = k_idle_task a"
  "k_last_error (conc h a) = k_last_error a"
  "k_sems (conc h a) = k_sems a"
  "k_queues (conc h a) = k_queues a"
  "k_mutexes (conc h a) = k_mutexes a"
  "k_memory (conc h a) = k_memory a"
  "k_port (conc h a) = k_port a"
  "k_heap (conc h a) = h"
  by (simp_all add: conc_def)

lemma conc_update [simp, core_simps]:
  "k_initialized_update f1 (conc h a) = conc h (k_initialized_update f1 a)"
  "k_started_update f2 (conc h a) = conc h (k_started_update f2 a)"
  "k_tasks_update f3 (conc h a) = conc h (k_tasks_update f3 a)"
  "k_task_count_update f4 (conc h a) = conc h (k_task_count_update f4 a)"
  "k_px_delayed_update f5 (conc h a) = conc h (k_px_delayed_update f5 a)"
  "k_px_overflow_delayed_update f6 (conc h a) = conc h (k_px_overflow_delayed_update f6 a)"
  "k_ready_bitmap_update f7 (conc h a) = conc h (k_ready_bitmap_update f7 a)"
  "k_tick_update f8 (conc h a) = conc h (k_tick_update f8 a)"
  "k_current_update f9 (conc h a) = conc h (k_current_update f9 a)"
  "k_last_from_update f10 (conc h a) = conc h (k_last_from_update f10 a)"
  "k_last_to_update f11 (conc h a) = conc h (k_last_to_update f11 a)"
  "k_last_reason_update f12 (conc h a) = conc h (k_last_reason_update f12 a)"
  "k_switch_count_update f13 (conc h a) = conc h (k_switch_count_update f13 a)"
  "k_critical_nesting_update f14 (conc h a) = conc h (k_critical_nesting_update f14 a)"
  "k_sched_pending_update f15 (conc h a) = conc h (k_sched_pending_update f15 a)"
  "k_idle_task_update f16 (conc h a) = conc h (k_idle_task_update f16 a)"
  "k_last_error_update f17 (conc h a) = conc h (k_last_error_update f17 a)"
  "k_sems_update f18 (conc h a) = conc h (k_sems_update f18 a)"
  "k_queues_update f19 (conc h a) = conc h (k_queues_update f19 a)"
  "k_mutexes_update f20 (conc h a) = conc h (k_mutexes_update f20 a)"
  "k_memory_update f21 (conc h a) = conc h (k_memory_update f21 a)"
  "k_port_update f22 (conc h a) = conc h (k_port_update f22 a)"
  "k_heap_update g (conc h a) = conc (g h) a"
  "conc h (k_heap_update k a) = conc h a"
  by (simp_all add: conc_def)

lemma upd_conc [simp, core_simps]:
  "upd_task t F (conc h a) = conc h (upd_task t F a)"
  "upd_sem i G (conc h a) = conc h (upd_sem i G a)"
  "upd_queue i Q (conc h a) = conc h (upd_queue i Q a)"
  "upd_mutex i M (conc h a) = conc h (upd_mutex i M a)"
  by (simp_all add: upd_task_def upd_sem_def upd_queue_def upd_mutex_def)

lemma conc_surjective: "\<exists>a. s = conc h a \<and> k_heap a = A" if "k_heap s = h"
proof (rule exI [of _ "\<lparr>
     k_initialized = k_initialized s, k_started = k_started s, k_tasks = k_tasks s, k_task_count
     = k_task_count s, k_px_delayed = k_px_delayed s, k_px_overflow_delayed =
     k_px_overflow_delayed s, k_ready_bitmap = k_ready_bitmap s, k_tick = k_tick s, k_current =
     k_current s, k_last_from = k_last_from s, k_last_to = k_last_to s, k_last_reason =
     k_last_reason s, k_switch_count = k_switch_count s, k_critical_nesting = k_critical_nesting
     s, k_sched_pending = k_sched_pending s, k_idle_task = k_idle_task s, k_last_error =
     k_last_error s, k_sems = k_sems s, k_queues = k_queues s, k_mutexes = k_mutexes s, k_memory
     = k_memory s, k_port = k_port s,
     k_heap = A\<rparr>"])
qed (use that in \<open>simp add: conc_def\<close>)

definition krel :: "'p kernel \<Rightarrow> 'p spec_kernel \<Rightarrow> bool" where
  "krel s a \<longleftrightarrow> (\<exists>h. s = conc h a \<and> list_rep h (k_heap a))"

definition krelv :: "'r \<times> 'p kernel \<Rightarrow> 'r \<times> 'p spec_kernel \<Rightarrow> bool" where
  "krelv rs ra \<longleftrightarrow> fst rs = fst ra \<and> krel (snd rs) (snd ra)"

lemma krel_conc [simp, sim_intros]: "list_rep h (k_heap a) \<Longrightarrow> krel (conc h a) a"
  by (auto simp: krel_def)

lemma krelv_conc [simp, sim_intros]: "krel s (snd p) \<Longrightarrow> r = fst p \<Longrightarrow> krelv (r, s) p"
  by (auto simp: krelv_def)

lemma krelE: "krel s a \<Longrightarrow> (\<And>h. s = conc h a \<Longrightarrow> list_rep h (k_heap a) \<Longrightarrow> P) \<Longrightarrow> P"
  by (auto simp: krel_def)

lemma sim_bind_state [sim_intros]:
  assumes "sim krel m m'"
    and "\<And>h a. list_rep h (k_heap a) \<Longrightarrow> sim Q (f (conc h a)) (g a)"
  shows "sim Q (Option.bind m f) (Option.bind m' g)"
  using assms by (auto intro!: sim_bind elim!: krelE)

lemma sim_bind_value [sim_intros]:
  assumes "sim krelv m m'"
    and "\<And>r h a. list_rep h (k_heap a) \<Longrightarrow> sim Q (f r (conc h a)) (g r a)"
  shows "sim Q (Option.bind m (\<lambda>(r, s). f r s)) (Option.bind m' (\<lambda>(r, s). g r s))"
  using assms by (auto intro!: sim_bind simp: krelv_def elim!: krelE)

lemma sim_case_option [sim_intros]:
  assumes "x = None \<Longrightarrow> sim Q m m'" and "\<And>y. x = Some y \<Longrightarrow> sim Q (f y) (g y)"
  shows "sim Q (case x of None \<Rightarrow> m | Some y \<Rightarrow> f y) (case x of None \<Rightarrow> m' | Some y \<Rightarrow> g y)"
  using assms by (cases x) auto

lemma sim_foldM_state:
  assumes "list_rep h (k_heap a)"
    and "\<And>x h a. x \<in> set xs \<Longrightarrow> list_rep h (k_heap a) \<Longrightarrow> sim krel (f x (conc h a)) (g x a)"
  shows "sim krel (foldM f xs (conc h a)) (foldM g xs a)"
  using assms by (auto intro!: sim_foldM elim!: krelE)

subsection \<open>List operations on the kernel state\<close>

definition on_heap :: "('h \<Rightarrow> 'h option) \<Rightarrow> ('h, 'p) os_kernel_t \<Rightarrow> ('h, 'p) os_kernel_t option" where
  "on_heap f s = map_option (\<lambda>h. s\<lparr>k_heap := h\<rparr>) (f (k_heap s))"

definition on_heap_value :: "('h \<Rightarrow> 'r \<times> 'h) \<Rightarrow> ('h, 'p) os_kernel_t \<Rightarrow> 'r \<times> ('h, 'p) os_kernel_t" where
  "on_heap_value f s = (case f (k_heap s) of (r, h) \<Rightarrow> (r, s\<lparr>k_heap := h\<rparr>))"

lemma sim_on_heap:
  assumes "sim list_rep (f h) (g (k_heap a))"
  shows "sim krel (on_heap f (conc h a)) (on_heap g a)"
  using assms by (fastforce simp: sim_def on_heap_def krel_def)

lemma heap_refines [sim_intros]:
  assumes "list_rep h (k_heap a)"
  shows "sim krel (on_heap (os_ListPushBack l n) (conc h a)) (on_heap (spec_PushBack l n) a)"
    and "sim krel (on_heap (os_ListInsertBefore l p n) (conc h a)) (on_heap (spec_InsertBefore l p n) a)"
    and "sim krel (on_heap (\<lambda>h. insert_scan P l n (l_head (h_lists h l)) h) (conc h a))
           (on_heap (spec_InsertWhere P l n) a)"
    and "sim krel (on_heap (os_ListRemove l n) (conc h a)) (on_heap (spec_Remove l n) a)"
  using assms
  by (auto intro!: sim_on_heap os_list.push_back_law os_list.insert_before_law
      os_list.insert_where_law os_list.remove_law)

lemma pop_refines [sim_intros]:
  assumes "list_rep h (k_heap a)"
  shows "krelv (on_heap_value (os_ListPopFront l) (conc h a)) (on_heap_value (spec_PopFront l) a)"
  using os_list.pop_front_law [OF assms, of l]
  by (auto simp: on_heap_value_def krelv_def krel_def split: prod.splits)

text \<open>How the specification of the list operations changes the two views of the lists.\<close>

lemma on_heap_spec:
  "on_heap (spec_PushBack l n) a =
     (if sp_place (k_heap a) n \<noteq> None \<or> OS_MAX_TASKS \<le> task_of n then None
      else Some (a\<lparr>k_heap := (k_heap a)\<lparr>sp_nodes := (sp_nodes (k_heap a))(l := sp_nodes (k_heap a) l @ [n]),
                   sp_place := (sp_place (k_heap a))(n := Some l)\<rparr>\<rparr>))"
  "on_heap (spec_Remove l n) a =
     (if sp_place (k_heap a) n \<noteq> Some l then None
      else Some (a\<lparr>k_heap := (k_heap a)\<lparr>sp_nodes := (sp_nodes (k_heap a))(l := remove1 n (sp_nodes (k_heap a) l)),
                   sp_place := (sp_place (k_heap a))(n := None)\<rparr>\<rparr>))"
  "on_heap (spec_InsertWhere P l n) a =
     (if sp_place (k_heap a) n \<noteq> None \<or> OS_MAX_TASKS \<le> task_of n then None
      else Some (a\<lparr>k_heap := (k_heap a)\<lparr>sp_nodes := (sp_nodes (k_heap a))
                     (l := insert_where (\<lambda>m. P (task_of m)) n (sp_nodes (k_heap a) l)),
                   sp_place := (sp_place (k_heap a))(n := Some l)\<rparr>\<rparr>))"
  by (auto simp: on_heap_def spec_PushBack_def spec_Remove_def spec_InsertWhere_def)

end
