(* ===== verification/OS_Sched.thy ===== *)
theory OS_Sched
  imports OS_Refine
begin

section \<open>Ready queues and scheduling decisions (kernel/src/os_sched.c)\<close>

text \<open>
  The first half of \<open>os_sched.c\<close>: the ready queues with their bitmap, the committed
  switch, and the scheduling decisions. Each operation comes with its list-level
  specification and the lemma that it refines it.
\<close>

subsection \<open>The code\<close>

definition os_PriorityMask :: "u8 \<Rightarrow> u8" where
  "os_PriorityMask priority = (ucast (push_bit (unat priority) (1 :: u32)) :: u8)"

definition set_state :: "nat \<Rightarrow> os_task_state_t \<Rightarrow> ('h, 'p) os_kernel_t \<Rightarrow> ('h, 'p) os_kernel_t" where
  "set_state t st = upd_task t (\<lambda>T. T\<lparr>t_state := st\<rparr>)"

definition is_running :: "nat option \<Rightarrow> ('h, 'p) os_kernel_t \<Rightarrow> bool" where
  "is_running task s = (case task of None \<Rightarrow> False | Some t \<Rightarrow> t_state (k_tasks s t) = OS_TASK_RUNNING)"

definition os_CommitSwitch ::
    "nat option \<Rightarrow> nat option \<Rightarrow> os_switch_reason_t \<Rightarrow> ('h, 'p) os_kernel_t
     \<Rightarrow> nat option \<times> ('h, 'p) os_kernel_t" where
  "os_CommitSwitch previous nxt reason s =
     (let s = (case nxt of
                 None \<Rightarrow> s
               | Some n \<Rightarrow> upd_task n (\<lambda>T. T\<lparr>t_state := OS_TASK_RUNNING,
                                              t_slice_remaining := OS_TIME_SLICE_TICKS\<rparr>) s);
          s = s\<lparr>k_current := nxt\<rparr>;
          s = (if previous \<noteq> nxt
               then s\<lparr>k_last_from := previous, k_last_to := nxt, k_last_reason := reason,
                      k_switch_count := k_switch_count s + 1\<rparr>
               else s)
      in (nxt, s))"

definition os_ReadyEnqueue :: "nat option \<Rightarrow> 'p kernel \<Rightarrow> 'p kernel option" where
  "os_ReadyEnqueue task s =
     (case task of
        None \<Rightarrow> Some s
      | Some t \<Rightarrow>
          if t_state (k_tasks s t) \<noteq> OS_TASK_READY then Some s
          else let priority = t_effective_priority (k_tasks s t) in
            if OS_PRIORITY_COUNT \<le> priority \<or> n_linked (h_nodes (k_heap s) (SchedNode t)) then Some s
            else do {
              s \<leftarrow> on_heap (os_ListPushBack (ReadyList priority) (SchedNode t)) s;
              Some (s\<lparr>k_ready_bitmap := k_ready_bitmap s OR os_PriorityMask priority\<rparr>)
            })"

definition os_ReadyRemove :: "nat option \<Rightarrow> 'p kernel \<Rightarrow> (bool \<times> 'p kernel) option" where
  "os_ReadyRemove task s =
     (case task of
        None \<Rightarrow> Some (False, s)
      | Some t \<Rightarrow>
          if \<not> n_linked (h_nodes (k_heap s) (SchedNode t)) then Some (False, s)
          else let priority = t_effective_priority (k_tasks s t) in
            if OS_PRIORITY_COUNT \<le> priority then Some (False, s)
            else do {
              s \<leftarrow> on_heap (os_ListRemove (ReadyList priority) (SchedNode t)) s;
              let s = (if l_size (h_lists (k_heap s) (ReadyList priority)) = 0
                       then s\<lparr>k_ready_bitmap := k_ready_bitmap s AND NOT (os_PriorityMask priority)\<rparr>
                       else s);
              Some (True, s)
            })"

text \<open>The scan of the bitmap from priority 7 down to 0; the argument is the number of
  priorities still to look at.\<close>

fun os_ReadyScan :: "u8 \<Rightarrow> nat \<Rightarrow> int" where
  "os_ReadyScan bitmap 0 = - 1"
| "os_ReadyScan bitmap (Suc p) =
     (if bitmap AND os_PriorityMask (of_nat p) \<noteq> 0 then int p else os_ReadyScan bitmap p)"

definition os_ReadyHighestPriority :: "('h, 'p) os_kernel_t \<Rightarrow> int" where
  "os_ReadyHighestPriority s = os_ReadyScan (k_ready_bitmap s) (unat OS_PRIORITY_COUNT)"

definition os_ReadyPopHighest :: "'p kernel \<Rightarrow> (nat option \<times> 'p kernel) option" where
  "os_ReadyPopHighest s =
     (let priority = os_ReadyHighestPriority s in
      if priority < 0 then Some (None, s)
      else
        let l = ReadyList (word_of_int priority);
            (node, s) = on_heap_value (os_ListPopFront l) s;
            s = (if l_size (h_lists (k_heap s) l) = 0
                 then s\<lparr>k_ready_bitmap := k_ready_bitmap s AND
                        NOT (os_PriorityMask (word_of_int priority))\<rparr>
                 else s)
        in Some (case node of None \<Rightarrow> None | Some n \<Rightarrow> n_owner (h_nodes (k_heap s) n), s))"

definition os_SchedStart :: "'p kernel \<Rightarrow> (nat option \<times> 'p kernel) option" where
  "os_SchedStart s =
     (if \<not> k_initialized s \<or> k_started s then Some (k_current s, s)
      else do {
        (nxt, s) \<leftarrow> os_ReadyPopHighest s;
        if nxt = None then Some (None, s)
        else Some (os_CommitSwitch None nxt OS_SWITCH_START (s\<lparr>k_started := True\<rparr>))
      })"

text \<open>The tail that preemption, rotation and yield share: requeue the current task, pick the
  highest ready one, commit.\<close>

definition os_SchedRequeue ::
    "nat \<Rightarrow> os_switch_reason_t \<Rightarrow> 'p kernel \<Rightarrow> (nat option \<times> 'p kernel) option" where
  "os_SchedRequeue c reason s = do {
     s \<leftarrow> os_ReadyEnqueue (Some c) (set_state c OS_TASK_READY s);
     (nxt, s) \<leftarrow> os_ReadyPopHighest s;
     Some (os_CommitSwitch (Some c) nxt reason s)
   }"

definition os_SchedSchedule ::
    "os_switch_reason_t \<Rightarrow> bool \<Rightarrow> 'p kernel \<Rightarrow> (nat option \<times> 'p kernel) option" where
  "os_SchedSchedule reason rotate_equal s =
     (if \<not> k_started s then Some (None, s)
      else if \<not> is_running (k_current s) s then do {
        (nxt, t) \<leftarrow> os_ReadyPopHighest s;
        Some (os_CommitSwitch (k_current s) nxt reason t)
      }
      else case k_current s of
        None \<Rightarrow> Some (None, s)
      | Some c \<Rightarrow>
          let highest_ready = os_ReadyHighestPriority s;
              priority = t_effective_priority (k_tasks s c)
          in if highest_ready < 0 then Some (Some c, s)
          else if priority < word_of_int highest_ready then os_SchedRequeue c reason s
          else if rotate_equal \<and> word_of_int highest_ready = priority then os_SchedRequeue c reason s
          else Some (Some c, s))"

definition os_SchedYieldCurrent :: "'p kernel \<Rightarrow> (nat option \<times> 'p kernel) option" where
  "os_SchedYieldCurrent s =
     (case k_current s of
        None \<Rightarrow> Some (None, s)
      | Some c \<Rightarrow>
          if t_state (k_tasks s c) \<noteq> OS_TASK_RUNNING then Some (Some c, s)
          else os_SchedRequeue c OS_SWITCH_YIELD s)"

definition os_SchedCurrentBlocked ::
    "os_switch_reason_t \<Rightarrow> 'p kernel \<Rightarrow> (nat option \<times> 'p kernel) option" where
  "os_SchedCurrentBlocked reason s =
     (case k_current s of
        None \<Rightarrow> Some (None, s)
      | Some c \<Rightarrow>
          if t_state (k_tasks s c) = OS_TASK_RUNNING then Some (Some c, s)
          else do {
            (nxt, s) \<leftarrow> os_ReadyPopHighest s;
            Some (os_CommitSwitch (Some c) nxt reason s)
          })"

subsection \<open>Critical sections\<close>

text \<open>\<open>hal\<close> is the port that the kernel is linked with (\<open>os_port.h\<close>), \<open>k_port\<close> its state.\<close>

definition os_EnterCritical :: "'p os_port_hal \<Rightarrow> ('h, 'p) os_kernel_t \<Rightarrow> ('h, 'p) os_kernel_t" where
  "os_EnterCritical hal s =
     s\<lparr>k_port := hal_enter_critical hal (k_port s), k_critical_nesting := k_critical_nesting s + 1\<rparr>"

definition os_ExitCritical :: "'p os_port_hal \<Rightarrow> 'p kernel \<Rightarrow> 'p kernel option" where
  "os_ExitCritical hal s =
     (if k_critical_nesting s = 0 then Some (s\<lparr>k_port := hal_exit_critical hal (k_port s)\<rparr>)
      else
        let s = s\<lparr>k_critical_nesting := k_critical_nesting s - 1\<rparr> in do {
        s \<leftarrow> (if k_critical_nesting s = 0 \<and> k_sched_pending s then do {
                (_, s) \<leftarrow> os_SchedSchedule OS_SWITCH_HIGHER_PRIORITY_WAKEUP False (s\<lparr>k_sched_pending := False\<rparr>);
                Some (s\<lparr>k_port := hal_pend_context_switch hal (k_port s)\<rparr>)
              } else Some s);
        Some (s\<lparr>k_port := hal_exit_critical hal (k_port s)\<rparr>)
      })"

subsection \<open>List-level specification\<close>

definition spec_ReadyEnqueue :: "nat option \<Rightarrow> 'p spec_kernel \<Rightarrow> 'p spec_kernel option" where
  "spec_ReadyEnqueue task s =
     (case task of
        None \<Rightarrow> Some s
      | Some t \<Rightarrow>
          if t_state (k_tasks s t) \<noteq> OS_TASK_READY then Some s
          else let priority = t_effective_priority (k_tasks s t) in
            if OS_PRIORITY_COUNT \<le> priority \<or> sp_place (k_heap s) (SchedNode t) \<noteq> None then Some s
            else do {
              s \<leftarrow> on_heap (spec_PushBack (ReadyList priority) (SchedNode t)) s;
              Some (s\<lparr>k_ready_bitmap := k_ready_bitmap s OR os_PriorityMask priority\<rparr>)
            })"

definition clear_if_empty :: "u8 \<Rightarrow> 'p spec_kernel \<Rightarrow> 'p spec_kernel" where
  "clear_if_empty p s =
     (if sp_nodes (k_heap s) (ReadyList p) = []
      then s\<lparr>k_ready_bitmap := k_ready_bitmap s AND NOT (os_PriorityMask p)\<rparr> else s)"

definition spec_ReadyRemove :: "nat option \<Rightarrow> 'p spec_kernel \<Rightarrow> (bool \<times> 'p spec_kernel) option" where
  "spec_ReadyRemove task s =
     (case task of
        None \<Rightarrow> Some (False, s)
      | Some t \<Rightarrow>
          if sp_place (k_heap s) (SchedNode t) = None then Some (False, s)
          else let priority = t_effective_priority (k_tasks s t) in
            if OS_PRIORITY_COUNT \<le> priority then Some (False, s)
            else do {
              s \<leftarrow> on_heap (spec_Remove (ReadyList priority) (SchedNode t)) s;
              Some (True, clear_if_empty priority s)
            })"

definition spec_ReadyPopHighest :: "'p spec_kernel \<Rightarrow> (nat option \<times> 'p spec_kernel) option" where
  "spec_ReadyPopHighest s =
     (let priority = os_ReadyHighestPriority s in
      if priority < 0 then Some (None, s)
      else
        let (node, s) = on_heap_value (spec_PopFront (ReadyList (word_of_int priority))) s
        in Some (map_option task_of node, clear_if_empty (word_of_int priority) s))"

definition spec_SchedStart :: "'p spec_kernel \<Rightarrow> (nat option \<times> 'p spec_kernel) option" where
  "spec_SchedStart s =
     (if \<not> k_initialized s \<or> k_started s then Some (k_current s, s)
      else do {
        (nxt, s) \<leftarrow> spec_ReadyPopHighest s;
        if nxt = None then Some (None, s)
        else Some (os_CommitSwitch None nxt OS_SWITCH_START (s\<lparr>k_started := True\<rparr>))
      })"

definition spec_SchedRequeue ::
    "nat \<Rightarrow> os_switch_reason_t \<Rightarrow> 'p spec_kernel \<Rightarrow> (nat option \<times> 'p spec_kernel) option" where
  "spec_SchedRequeue c reason s = do {
     s \<leftarrow> spec_ReadyEnqueue (Some c) (set_state c OS_TASK_READY s);
     (nxt, s) \<leftarrow> spec_ReadyPopHighest s;
     Some (os_CommitSwitch (Some c) nxt reason s)
   }"

definition spec_SchedSchedule ::
    "os_switch_reason_t \<Rightarrow> bool \<Rightarrow> 'p spec_kernel \<Rightarrow> (nat option \<times> 'p spec_kernel) option" where
  "spec_SchedSchedule reason rotate_equal s =
     (if \<not> k_started s then Some (None, s)
      else if \<not> is_running (k_current s) s then do {
        (nxt, t) \<leftarrow> spec_ReadyPopHighest s;
        Some (os_CommitSwitch (k_current s) nxt reason t)
      }
      else case k_current s of
        None \<Rightarrow> Some (None, s)
      | Some c \<Rightarrow>
          let highest_ready = os_ReadyHighestPriority s;
              priority = t_effective_priority (k_tasks s c)
          in if highest_ready < 0 then Some (Some c, s)
          else if priority < word_of_int highest_ready then spec_SchedRequeue c reason s
          else if rotate_equal \<and> word_of_int highest_ready = priority then spec_SchedRequeue c reason s
          else Some (Some c, s))"

definition spec_SchedYieldCurrent :: "'p spec_kernel \<Rightarrow> (nat option \<times> 'p spec_kernel) option" where
  "spec_SchedYieldCurrent s =
     (case k_current s of
        None \<Rightarrow> Some (None, s)
      | Some c \<Rightarrow>
          if t_state (k_tasks s c) \<noteq> OS_TASK_RUNNING then Some (Some c, s)
          else spec_SchedRequeue c OS_SWITCH_YIELD s)"

definition spec_SchedCurrentBlocked ::
    "os_switch_reason_t \<Rightarrow> 'p spec_kernel \<Rightarrow> (nat option \<times> 'p spec_kernel) option" where
  "spec_SchedCurrentBlocked reason s =
     (case k_current s of
        None \<Rightarrow> Some (None, s)
      | Some c \<Rightarrow>
          if t_state (k_tasks s c) = OS_TASK_RUNNING then Some (Some c, s)
          else do {
            (nxt, s) \<leftarrow> spec_ReadyPopHighest s;
            Some (os_CommitSwitch (Some c) nxt reason s)
          })"

subsection \<open>Refinement\<close>

lemma set_state_conc [simp, core_simps]: "set_state t st (conc h a) = conc h (set_state t st a)"
  by (simp add: set_state_def)

lemma is_running_conc [simp, core_simps]: "is_running t (conc h a) = is_running t a"
  by (simp add: is_running_def split: option.split)

lemma ReadyHighestPriority_conc [simp, core_simps]:
  "os_ReadyHighestPriority (conc h a) = os_ReadyHighestPriority a"
  by (simp add: os_ReadyHighestPriority_def)

lemma CommitSwitch_conc [simp, core_simps]:
  "os_CommitSwitch p n r (conc h a) =
     (fst (os_CommitSwitch p n r a), conc h (snd (os_CommitSwitch p n r a)))"
  by (simp add: os_CommitSwitch_def Let_def split: option.split)

lemma heap_of_updates [simp, core_simps]:
  "k_heap (upd_task t F a) = k_heap a" "k_heap (set_state t st a) = k_heap a"
  "k_heap (snd (os_CommitSwitch p n r a)) = k_heap a"
  "k_heap (upd_sem i G a) = k_heap a" "k_heap (upd_queue i Q a) = k_heap a"
  "k_heap (upd_mutex i M a) = k_heap a"
  by (simp_all add: upd_task_def set_state_def os_CommitSwitch_def Let_def upd_sem_def upd_queue_def
      upd_mutex_def split: option.split)

lemma CommitSwitch_refines [sim_intros]:
  "list_rep h (k_heap a) \<Longrightarrow> krelv (os_CommitSwitch p n r (conc h a)) (os_CommitSwitch p n r a)"
  by (simp add: krelv_def)

lemma ReadyEnqueue_refines [sim_intros]:
  "list_rep h (k_heap a) \<Longrightarrow> sim krel (os_ReadyEnqueue t (conc h a)) (spec_ReadyEnqueue t a)"
  unfolding os_ReadyEnqueue_def spec_ReadyEnqueue_def Let_def
  by (auto intro!: sim_intros simp: rep_linked)

lemma heap_clear_if_empty [simp]: "k_heap (clear_if_empty p a) = k_heap a"
  by (simp add: clear_if_empty_def)

lemma ReadyRemove_refines [sim_intros]:
  "list_rep h (k_heap a) \<Longrightarrow> sim krelv (os_ReadyRemove t (conc h a)) (spec_ReadyRemove t a)"
  unfolding os_ReadyRemove_def spec_ReadyRemove_def Let_def
  by (auto intro!: sim_intros simp: rep_linked clear_if_empty_def rep_size_0_iff)

lemma ReadyPopHighest_refines [sim_intros]:
  assumes rep: "list_rep h (k_heap a)"
  shows "sim krelv (os_ReadyPopHighest (conc h a)) (spec_ReadyPopHighest a)"
proof (cases "os_ReadyHighestPriority a < 0")
  case True
  with rep show ?thesis by (simp add: os_ReadyPopHighest_def spec_ReadyPopHighest_def)
next
  case False
  define l where "l = ReadyList (word_of_int (os_ReadyHighestPriority a))"
  obtain n b where nb: "on_heap_value (spec_PopFront l) a = (n, b)" by fastforce
  from pop_refines [OF rep, of l] obtain h' where
    h': "on_heap_value (os_ListPopFront l) (conc h a) = (n, conc h' b)" and rep': "list_rep h' (k_heap b)"
    by (auto simp: nb krelv_def prod_eq_iff elim!: krelE)
  have owner: "n_owner (h_nodes h' m) = Some (task_of m)" if "n = Some m" for m
  proof -
    from nb that have "sp_nodes (k_heap a) l = m # tl (sp_nodes (k_heap a) l)"
      by (auto simp: on_heap_value_def spec_PopFront_def split: list.splits)
    then have "sp_place (k_heap a) m = Some l"
      using rep_place [OF rep, of m l] by (metis list.set_intros(1))
    then show ?thesis using rep_owner [OF rep'] rep_pool [OF rep] by blast
  qed
  show ?thesis
    using False h' nb rep' owner
    by (auto simp: os_ReadyPopHighest_def spec_ReadyPopHighest_def Let_def l_def [symmetric]
        clear_if_empty_def rep_size_0_iff split: option.split)
qed

lemma SchedStart_refines [sim_intros]:
  "list_rep h (k_heap a) \<Longrightarrow> sim krelv (os_SchedStart (conc h a)) (spec_SchedStart a)"
  unfolding os_SchedStart_def spec_SchedStart_def
  by (auto intro!: sim_intros)

lemma SchedRequeue_refines [sim_intros]:
  "list_rep h (k_heap a) \<Longrightarrow> sim krelv (os_SchedRequeue c r (conc h a)) (spec_SchedRequeue c r a)"
  unfolding os_SchedRequeue_def spec_SchedRequeue_def
  by (auto intro!: sim_intros)

lemma SchedSchedule_refines [sim_intros]:
  "list_rep h (k_heap a) \<Longrightarrow> sim krelv (os_SchedSchedule r e (conc h a)) (spec_SchedSchedule r e a)"
  unfolding os_SchedSchedule_def spec_SchedSchedule_def Let_def
  by (auto intro!: sim_intros)

lemma SchedYieldCurrent_refines [sim_intros]:
  "list_rep h (k_heap a) \<Longrightarrow> sim krelv (os_SchedYieldCurrent (conc h a)) (spec_SchedYieldCurrent a)"
  unfolding os_SchedYieldCurrent_def spec_SchedYieldCurrent_def
  by (auto intro!: sim_intros)

lemma SchedCurrentBlocked_refines [sim_intros]:
  "list_rep h (k_heap a) \<Longrightarrow> sim krelv (os_SchedCurrentBlocked r (conc h a)) (spec_SchedCurrentBlocked r a)"
  unfolding os_SchedCurrentBlocked_def spec_SchedCurrentBlocked_def
  by (auto intro!: sim_intros)

end
