(* ===== verification/OS_Wait.thy ===== *)
theory OS_Wait
  imports OS_Sched
begin

section \<open>Delay lists and object waiting (kernel/src/os_time.c, kernel/src/os_sched.c)\<close>

text \<open>
  The delay lists of \<open>os_time.c\<close> (sorted insertion into the list of the current or of the
  next tick period, removal) and the second half of \<open>os_sched.c\<close>: blocking the current task
  on an object, waking a waiter, changing an effective priority.
\<close>

subsection \<open>Delay lists (os_time.c)\<close>

definition os_TickReached :: "u32 \<Rightarrow> u32 \<Rightarrow> bool" where
  "os_TickReached now target \<longleftrightarrow> 0 \<le> sint (now - target)"

definition xTaskGetTickCount :: "('h, 'p) os_kernel_t \<Rightarrow> u32" where
  "xTaskGetTickCount s = k_tick s"

definition os_TimeDelayListRemove :: "nat option \<Rightarrow> 'p kernel \<Rightarrow> 'p kernel option" where
  "os_TimeDelayListRemove task s =
     (case task of
        None \<Rightarrow> Some s
      | Some t \<Rightarrow>
          (case t_delay_list (k_tasks s t) of
             None \<Rightarrow> Some s
           | Some l \<Rightarrow>
               if n_linked (h_nodes (k_heap s) (DelayNode t)) then do {
                 s \<leftarrow> on_heap (os_ListRemove l (DelayNode t)) s;
                 Some (upd_task t (\<lambda>T. T\<lparr>t_delay_list := None\<rparr>) s)
               } else Some s))"

definition os_TimeDelayListInsert :: "nat option \<Rightarrow> u32 \<Rightarrow> 'p kernel \<Rightarrow> 'p kernel option" where
  "os_TimeDelayListInsert task target s =
     (case task of
        None \<Rightarrow> Some s
      | Some t \<Rightarrow> do {
          s \<leftarrow> (if n_linked (h_nodes (k_heap s) (DelayNode t)) then os_TimeDelayListRemove task s
                else Some s);
          let now = xTaskGetTickCount s;
          let s = upd_task t (\<lambda>T. T\<lparr>t_wake_tick := target\<rparr>) s;
          let list = (if target < now then k_px_overflow_delayed s else k_px_delayed s);
          let s = upd_task t (\<lambda>T. T\<lparr>t_delay_list := list\<rparr>) s;
          (case list of
             None \<Rightarrow> None
           | Some l \<Rightarrow>
               on_heap (\<lambda>h. insert_scan (\<lambda>other. target < t_wake_tick (k_tasks s other))
                              l (DelayNode t) (l_head (h_lists h l)) h) s)
        })"

subsection \<open>Object waiting (os_sched.c)\<close>

definition os_WaitInsertByPriority :: "list_ref \<Rightarrow> nat \<Rightarrow> 'p kernel \<Rightarrow> 'p kernel option" where
  "os_WaitInsertByPriority wait_list t s =
     on_heap (\<lambda>h. insert_scan
        (\<lambda>other. t_effective_priority (k_tasks s other) < t_effective_priority (k_tasks s t))
        wait_list (SchedNode t) (l_head (h_lists h wait_list)) h) s"

definition os_TaskSetEffectivePriority :: "nat option \<Rightarrow> u8 \<Rightarrow> 'p kernel \<Rightarrow> 'p kernel option" where
  "os_TaskSetEffectivePriority task priority s =
     (case task of
        None \<Rightarrow> Some s
      | Some t \<Rightarrow>
          let set_priority = upd_task t (\<lambda>T. T\<lparr>t_effective_priority := priority\<rparr>) in
          if priority \<le> OS_IDLE_PRIORITY \<or> OS_PRIORITY_COUNT \<le> priority \<or>
             t_effective_priority (k_tasks s t) = priority then Some s
          else if t_state (k_tasks s t) = OS_TASK_READY then do {
            (removed, s) \<leftarrow> os_ReadyRemove task s;
            if \<not> removed then Some s else os_ReadyEnqueue task (set_priority s)
          }
          else if t_state (k_tasks s t) = OS_TASK_BLOCKED_OBJECT \<and>
                  n_linked (h_nodes (k_heap s) (SchedNode t)) then
            (case t_wait_list (k_tasks s t) of
               None \<Rightarrow> Some (set_priority s)
             | Some wait_list \<Rightarrow> do {
                 s \<leftarrow> on_heap (os_ListRemove wait_list (SchedNode t)) s;
                 os_WaitInsertByPriority wait_list t (set_priority s)
               })
          else Some (set_priority s))"

definition os_WaitBlockCurrent ::
    "list_ref option \<Rightarrow> os_wait_kind_t \<Rightarrow> obj_ref option \<Rightarrow> addr \<Rightarrow> u32 \<Rightarrow> 'p kernel
     \<Rightarrow> (nat option \<times> 'p kernel) option" where
  "os_WaitBlockCurrent wait_list kind object buffer timeout_ticks s =
     (case k_current s of
        None \<Rightarrow> Some (None, s)
      | Some c \<Rightarrow>
          (case wait_list of
             None \<Rightarrow> Some (Some c, s)
           | Some l \<Rightarrow>
               if t_state (k_tasks s c) \<noteq> OS_TASK_RUNNING \<or> kind = OS_WAIT_NONE then Some (Some c, s)
               else
                 let timeout_ticks =
                       (if timeout_ticks \<noteq> OS_WAIT_FOREVER \<and> OS_MAX_DELAY_TICKS < timeout_ticks
                        then OS_MAX_DELAY_TICKS else timeout_ticks);
                     deadline = (if timeout_ticks = OS_WAIT_FOREVER then OS_WAIT_FOREVER
                                 else xTaskGetTickCount s + timeout_ticks);
                     s = upd_task c (\<lambda>T. T\<lparr>t_wait_kind := kind, t_wait_object := object,
                           t_wait_buffer := buffer, t_wait_list := Some l,
                           t_wait_deadline := deadline, t_wait_result := OS_STATUS_BAD_STATE,
                           t_state := OS_TASK_BLOCKED_OBJECT\<rparr>) s
                 in do {
                   s \<leftarrow> os_WaitInsertByPriority l c s;
                   s \<leftarrow> (if timeout_ticks \<noteq> OS_WAIT_FOREVER
                         then os_TimeDelayListInsert (Some c) (t_wait_deadline (k_tasks s c)) s
                         else on_heap (\<lambda>h. Some (upd_node (DelayNode c) (\<lambda>N. N\<lparr>n_linked := False\<rparr>) h))
                                (upd_task c (\<lambda>T. T\<lparr>t_delay_list := None\<rparr>) s));
                   os_SchedCurrentBlocked OS_SWITCH_BLOCKED s
                 }))"

definition os_WaitPop :: "list_ref option \<Rightarrow> 'p kernel \<Rightarrow> nat option \<times> 'p kernel" where
  "os_WaitPop wait_list s =
     (case wait_list of
        None \<Rightarrow> (None, s)
      | Some l \<Rightarrow>
          let (node, s) = on_heap_value (os_ListPopFront l) s
          in (case node of None \<Rightarrow> None | Some n \<Rightarrow> n_owner (h_nodes (k_heap s) n), s))"

definition clear_wait :: "os_status_t \<Rightarrow> os_task_t \<Rightarrow> os_task_t" where
  "clear_wait result T = T\<lparr>t_wait_kind := OS_WAIT_NONE, t_wait_object := None, t_wait_buffer := 0,
     t_wait_list := None, t_wait_deadline := 0, t_wait_result := result, t_state := OS_TASK_READY\<rparr>"

definition os_WaitMakeReady :: "nat option \<Rightarrow> os_status_t \<Rightarrow> 'p kernel \<Rightarrow> 'p kernel option" where
  "os_WaitMakeReady task result s =
     (case task of
        None \<Rightarrow> Some s
      | Some t \<Rightarrow>
          if t_state (k_tasks s t) \<noteq> OS_TASK_BLOCKED_OBJECT \<or>
             n_linked (h_nodes (k_heap s) (SchedNode t)) then Some s
          else do {
            s \<leftarrow> os_TimeDelayListRemove task s;
            os_ReadyEnqueue task (upd_task t (clear_wait result) s)
          })"

definition os_WaitMaybePreempt :: "nat option \<Rightarrow> 'p kernel \<Rightarrow> 'p kernel option" where
  "os_WaitMaybePreempt woken_task s =
     (case woken_task of
        None \<Rightarrow> Some s
      | Some w \<Rightarrow>
          let need_switch =
            (case k_current s of
               None \<Rightarrow> True
             | Some c \<Rightarrow> t_effective_priority (k_tasks s c) < t_effective_priority (k_tasks s w))
          in if \<not> need_switch then Some s
          else if 0 < k_critical_nesting s then Some (s\<lparr>k_sched_pending := True\<rparr>)
          else do {
            (_, s) \<leftarrow> os_SchedSchedule OS_SWITCH_HIGHER_PRIORITY_WAKEUP False s;
            Some s
          })"

subsection \<open>List-level specification\<close>

definition spec_TimeDelayListRemove :: "nat option \<Rightarrow> 'p spec_kernel \<Rightarrow> 'p spec_kernel option" where
  "spec_TimeDelayListRemove task s =
     (case task of
        None \<Rightarrow> Some s
      | Some t \<Rightarrow>
          (case t_delay_list (k_tasks s t) of
             None \<Rightarrow> Some s
           | Some l \<Rightarrow>
               if sp_place (k_heap s) (DelayNode t) \<noteq> None then do {
                 s \<leftarrow> on_heap (spec_Remove l (DelayNode t)) s;
                 Some (upd_task t (\<lambda>T. T\<lparr>t_delay_list := None\<rparr>) s)
               } else Some s))"

definition spec_TimeDelayListInsert :: "nat option \<Rightarrow> u32 \<Rightarrow> 'p spec_kernel \<Rightarrow> 'p spec_kernel option" where
  "spec_TimeDelayListInsert task target s =
     (case task of
        None \<Rightarrow> Some s
      | Some t \<Rightarrow> do {
          s \<leftarrow> (if sp_place (k_heap s) (DelayNode t) \<noteq> None then spec_TimeDelayListRemove task s
                else Some s);
          let now = xTaskGetTickCount s;
          let s = upd_task t (\<lambda>T. T\<lparr>t_wake_tick := target\<rparr>) s;
          let list = (if target < now then k_px_overflow_delayed s else k_px_delayed s);
          let s = upd_task t (\<lambda>T. T\<lparr>t_delay_list := list\<rparr>) s;
          (case list of
             None \<Rightarrow> None
           | Some l \<Rightarrow>
               on_heap (spec_InsertWhere (\<lambda>other. target < t_wake_tick (k_tasks s other))
                          l (DelayNode t)) s)
        })"

definition spec_WaitInsertByPriority :: "list_ref \<Rightarrow> nat \<Rightarrow> 'p spec_kernel \<Rightarrow> 'p spec_kernel option" where
  "spec_WaitInsertByPriority wait_list t s =
     on_heap (spec_InsertWhere
        (\<lambda>other. t_effective_priority (k_tasks s other) < t_effective_priority (k_tasks s t))
        wait_list (SchedNode t)) s"

definition spec_TaskSetEffectivePriority :: "nat option \<Rightarrow> u8 \<Rightarrow> 'p spec_kernel \<Rightarrow> 'p spec_kernel option" where
  "spec_TaskSetEffectivePriority task priority s =
     (case task of
        None \<Rightarrow> Some s
      | Some t \<Rightarrow>
          let set_priority = upd_task t (\<lambda>T. T\<lparr>t_effective_priority := priority\<rparr>) in
          if priority \<le> OS_IDLE_PRIORITY \<or> OS_PRIORITY_COUNT \<le> priority \<or>
             t_effective_priority (k_tasks s t) = priority then Some s
          else if t_state (k_tasks s t) = OS_TASK_READY then do {
            (removed, s) \<leftarrow> spec_ReadyRemove task s;
            if \<not> removed then Some s else spec_ReadyEnqueue task (set_priority s)
          }
          else if t_state (k_tasks s t) = OS_TASK_BLOCKED_OBJECT \<and>
                  sp_place (k_heap s) (SchedNode t) \<noteq> None then
            (case t_wait_list (k_tasks s t) of
               None \<Rightarrow> Some (set_priority s)
             | Some wait_list \<Rightarrow> do {
                 s \<leftarrow> on_heap (spec_Remove wait_list (SchedNode t)) s;
                 spec_WaitInsertByPriority wait_list t (set_priority s)
               })
          else Some (set_priority s))"

definition spec_WaitBlockCurrent ::
    "list_ref option \<Rightarrow> os_wait_kind_t \<Rightarrow> obj_ref option \<Rightarrow> addr \<Rightarrow> u32 \<Rightarrow> 'p spec_kernel
     \<Rightarrow> (nat option \<times> 'p spec_kernel) option" where
  "spec_WaitBlockCurrent wait_list kind object buffer timeout_ticks s =
     (case k_current s of
        None \<Rightarrow> Some (None, s)
      | Some c \<Rightarrow>
          (case wait_list of
             None \<Rightarrow> Some (Some c, s)
           | Some l \<Rightarrow>
               if t_state (k_tasks s c) \<noteq> OS_TASK_RUNNING \<or> kind = OS_WAIT_NONE then Some (Some c, s)
               else
                 let timeout_ticks =
                       (if timeout_ticks \<noteq> OS_WAIT_FOREVER \<and> OS_MAX_DELAY_TICKS < timeout_ticks
                        then OS_MAX_DELAY_TICKS else timeout_ticks);
                     deadline = (if timeout_ticks = OS_WAIT_FOREVER then OS_WAIT_FOREVER
                                 else xTaskGetTickCount s + timeout_ticks);
                     s = upd_task c (\<lambda>T. T\<lparr>t_wait_kind := kind, t_wait_object := object,
                           t_wait_buffer := buffer, t_wait_list := Some l,
                           t_wait_deadline := deadline, t_wait_result := OS_STATUS_BAD_STATE,
                           t_state := OS_TASK_BLOCKED_OBJECT\<rparr>) s
                 in do {
                   s \<leftarrow> spec_WaitInsertByPriority l c s;
                   s \<leftarrow> (if timeout_ticks \<noteq> OS_WAIT_FOREVER
                         then spec_TimeDelayListInsert (Some c) (t_wait_deadline (k_tasks s c)) s
                         else if sp_place (k_heap s) (DelayNode c) \<noteq> None then None
                         else Some (upd_task c (\<lambda>T. T\<lparr>t_delay_list := None\<rparr>) s));
                   spec_SchedCurrentBlocked OS_SWITCH_BLOCKED s
                 }))"

definition spec_WaitPop :: "list_ref option \<Rightarrow> 'p spec_kernel \<Rightarrow> nat option \<times> 'p spec_kernel" where
  "spec_WaitPop wait_list s =
     (case wait_list of
        None \<Rightarrow> (None, s)
      | Some l \<Rightarrow> let (node, s) = on_heap_value (spec_PopFront l) s in (map_option task_of node, s))"

definition spec_WaitMakeReady :: "nat option \<Rightarrow> os_status_t \<Rightarrow> 'p spec_kernel \<Rightarrow> 'p spec_kernel option" where
  "spec_WaitMakeReady task result s =
     (case task of
        None \<Rightarrow> Some s
      | Some t \<Rightarrow>
          if t_state (k_tasks s t) \<noteq> OS_TASK_BLOCKED_OBJECT \<or>
             sp_place (k_heap s) (SchedNode t) \<noteq> None then Some s
          else do {
            s \<leftarrow> spec_TimeDelayListRemove task s;
            spec_ReadyEnqueue task (upd_task t (clear_wait result) s)
          })"

definition spec_WaitMaybePreempt :: "nat option \<Rightarrow> 'p spec_kernel \<Rightarrow> 'p spec_kernel option" where
  "spec_WaitMaybePreempt woken_task s =
     (case woken_task of
        None \<Rightarrow> Some s
      | Some w \<Rightarrow>
          let need_switch =
            (case k_current s of
               None \<Rightarrow> True
             | Some c \<Rightarrow> t_effective_priority (k_tasks s c) < t_effective_priority (k_tasks s w))
          in if \<not> need_switch then Some s
          else if 0 < k_critical_nesting s then Some (s\<lparr>k_sched_pending := True\<rparr>)
          else do {
            (_, s) \<leftarrow> spec_SchedSchedule OS_SWITCH_HIGHER_PRIORITY_WAKEUP False s;
            Some s
          })"

subsection \<open>Refinement\<close>

lemma TickCount_conc [simp, core_simps]: "xTaskGetTickCount (conc h a) = xTaskGetTickCount a"
  by (simp add: xTaskGetTickCount_def)

lemma TimeDelayListRemove_refines [sim_intros]:
  "list_rep h (k_heap a) \<Longrightarrow> sim krel (os_TimeDelayListRemove t (conc h a)) (spec_TimeDelayListRemove t a)"
  unfolding os_TimeDelayListRemove_def spec_TimeDelayListRemove_def
  by (auto intro!: sim_intros simp: rep_linked)

lemma TimeDelayListInsert_refines [sim_intros]:
  "list_rep h (k_heap a) \<Longrightarrow> sim krel (os_TimeDelayListInsert t w (conc h a)) (spec_TimeDelayListInsert t w a)"
  unfolding os_TimeDelayListInsert_def spec_TimeDelayListInsert_def Let_def
  by (auto intro!: sim_intros simp: rep_linked)

lemma WaitInsertByPriority_refines [sim_intros]:
  "list_rep h (k_heap a) \<Longrightarrow>
   sim krel (os_WaitInsertByPriority l t (conc h a)) (spec_WaitInsertByPriority l t a)"
  unfolding os_WaitInsertByPriority_def spec_WaitInsertByPriority_def
  by (auto intro!: sim_intros)

lemma TaskSetEffectivePriority_refines [sim_intros]:
  "list_rep h (k_heap a) \<Longrightarrow>
   sim krel (os_TaskSetEffectivePriority t p (conc h a)) (spec_TaskSetEffectivePriority t p a)"
  unfolding os_TaskSetEffectivePriority_def spec_TaskSetEffectivePriority_def Let_def
  by (auto intro!: sim_intros simp: rep_linked)

lemma unlink_free:
  assumes "list_rep h A" "sp_place A n = None"
  shows "upd_node n (\<lambda>N. N\<lparr>n_linked := False\<rparr>) h = h"
proof -
  have "\<not> n_linked (h_nodes h n)" using assms rep_linked by fastforce
  then have "(h_nodes h n)\<lparr>n_linked := False\<rparr> = h_nodes h n"
    by (intro os_list_node_t.equality) auto
  then show ?thesis by (simp add: upd_node_def)
qed

lemma WaitBlockCurrent_refines [sim_intros]:
  "list_rep h (k_heap a) \<Longrightarrow>
   sim krelv (os_WaitBlockCurrent l k obj b t (conc h a)) (spec_WaitBlockCurrent l k obj b t a)"
  unfolding os_WaitBlockCurrent_def spec_WaitBlockCurrent_def Let_def
  by (auto intro!: sim_intros simp: on_heap_def unlink_free)

lemma pop_owner:
  assumes rep: "list_rep h (k_heap a)"
    and pop: "on_heap_value (spec_PopFront l) a = (Some m, b)" and rep': "list_rep h' (k_heap b)"
  shows "n_owner (h_nodes h' m) = Some (task_of m)"
proof -
  from pop have "m \<in> set (sp_nodes (k_heap a) l)"
    by (auto simp: on_heap_value_def spec_PopFront_def split: list.splits)
  then have "sp_place (k_heap a) m = Some l" using rep_place [OF rep] by blast
  then show ?thesis using rep_owner [OF rep'] rep_pool [OF rep] by blast
qed

lemma WaitPop_refines [sim_intros]:
  assumes rep: "list_rep h (k_heap a)"
  shows "krelv (os_WaitPop l (conc h a)) (spec_WaitPop l a)"
proof (cases l)
  case (Some k)
  obtain n b where nb: "on_heap_value (spec_PopFront k) a = (n, b)" by fastforce
  from pop_refines [OF rep, of k] obtain h' where
    h': "on_heap_value (os_ListPopFront k) (conc h a) = (n, conc h' b)" and rep': "list_rep h' (k_heap b)"
    by (auto simp: nb krelv_def prod_eq_iff elim!: krelE)
  show ?thesis
    using pop_owner [OF rep, of k _ b h'] nb h' rep'
    by (cases n) (auto simp: os_WaitPop_def spec_WaitPop_def Some)
qed (use rep in \<open>simp add: os_WaitPop_def spec_WaitPop_def\<close>)

lemma WaitMakeReady_refines [sim_intros]:
  "list_rep h (k_heap a) \<Longrightarrow> sim krel (os_WaitMakeReady t r (conc h a)) (spec_WaitMakeReady t r a)"
  unfolding os_WaitMakeReady_def spec_WaitMakeReady_def
  by (auto intro!: sim_intros simp: rep_linked)

lemma WaitMaybePreempt_refines [sim_intros]:
  "list_rep h (k_heap a) \<Longrightarrow> sim krel (os_WaitMaybePreempt t (conc h a)) (spec_WaitMaybePreempt t a)"
  unfolding os_WaitMaybePreempt_def spec_WaitMaybePreempt_def Let_def
  by (cases "k_current a") (auto intro!: sim_intros)

end
