(* ===== verification/OS_Sem.thy ===== *)
theory OS_Sem
  imports OS_Wait
begin

section \<open>Counting semaphores (kernel/src/os_sem.c)\<close>

text \<open>
  A semaphore handle is the index of a control block in the static pool, NULL is \<open>None\<close>.
  The waiters list of semaphore \<open>i\<close> is the header \<open>SemWaiters i\<close>.
\<close>

subsection \<open>The code\<close>

definition os_SetLastError :: "os_status_t \<Rightarrow> ('h, 'p) os_kernel_t \<Rightarrow> ('h, 'p) os_kernel_t" where
  "os_SetLastError status s = s\<lparr>k_last_error := status\<rparr>"

definition zero_sem :: os_sem_t where
  "zero_sem = \<lparr>s_used = False, s_count = 0, s_maximum_count = 0\<rparr>"

definition os_SemIsValid :: "nat option \<Rightarrow> ('h, 'p) os_kernel_t \<Rightarrow> bool" where
  "os_SemIsValid sem s =
     (case sem of
        None \<Rightarrow> False
      | Some i \<Rightarrow> s_used (k_sems s i) \<and> 0 < s_maximum_count (k_sems s i) \<and>
                  s_count (k_sems s i) \<le> s_maximum_count (k_sems s i))"

definition os_SemKernelReset :: "'p kernel \<Rightarrow> 'p kernel" where
  "os_SemKernelReset s =
     s\<lparr>k_sems := (\<lambda>_. zero_sem),
       k_heap := fold (\<lambda>i. os_ListInit (SemWaiters i)) [0..<OS_MAX_SEMAPHORES]
                   (clear_headers (\<lambda>l. case l of SemWaiters _ \<Rightarrow> True | _ \<Rightarrow> False) (k_heap s))\<rparr>"

definition xSemaphoreCreateCounting :: "u32 \<Rightarrow> u32 \<Rightarrow> 'p kernel \<Rightarrow> nat option \<times> 'p kernel" where
  "xSemaphoreCreateCounting uxMaxCount uxInitialCount s =
     (if \<not> k_initialized s \<or> k_started s then (None, os_SetLastError OS_STATUS_BAD_STATE s)
      else if uxMaxCount = 0 \<or> uxMaxCount < uxInitialCount then
        (None, os_SetLastError OS_STATUS_INVALID_ARGUMENT s)
      else case find (\<lambda>i. \<not> s_used (k_sems s i)) [0..<OS_MAX_SEMAPHORES] of
        None \<Rightarrow> (None, os_SetLastError OS_STATUS_LIMIT_REACHED s)
      | Some i \<Rightarrow>
          let s = upd_sem i (\<lambda>S. S\<lparr>s_used := True, s_count := uxInitialCount,
                                    s_maximum_count := uxMaxCount\<rparr>) s;
              s = s\<lparr>k_heap := os_ListInit (SemWaiters i) (k_heap s)\<rparr>
          in (Some i, os_SetLastError OS_STATUS_OK s))"

definition uxSemaphoreGetCount :: "nat option \<Rightarrow> ('h, 'p) os_kernel_t \<Rightarrow> u32" where
  "uxSemaphoreGetCount sem s =
     (if os_SemIsValid sem s then (case sem of None \<Rightarrow> 0 | Some i \<Rightarrow> s_count (k_sems s i)) else 0)"

definition set_result :: "nat \<Rightarrow> os_status_t \<Rightarrow> ('h, 'p) os_kernel_t \<Rightarrow> ('h, 'p) os_kernel_t" where
  "set_result t r = upd_task t (\<lambda>T. T\<lparr>t_wait_result := r\<rparr>)"

definition os_SemTakeCurrent :: "nat option \<Rightarrow> u32 \<Rightarrow> 'p kernel \<Rightarrow> 'p kernel option" where
  "os_SemTakeCurrent sem timeout_ticks s =
     (case k_current s of
        None \<Rightarrow> Some s
      | Some c \<Rightarrow>
          if t_state (k_tasks s c) \<noteq> OS_TASK_RUNNING then Some s
          else case sem of
            None \<Rightarrow> Some (set_result c OS_STATUS_INVALID_ARGUMENT s)
          | Some i \<Rightarrow>
              if \<not> os_SemIsValid sem s then Some (set_result c OS_STATUS_INVALID_ARGUMENT s)
              else if 0 < s_count (k_sems s i) then
                Some (set_result c OS_STATUS_OK (upd_sem i (\<lambda>S. S\<lparr>s_count := s_count S - 1\<rparr>) s))
              else if timeout_ticks = 0 then Some (set_result c OS_STATUS_TIMEOUT s)
              else do {
                (_, s) \<leftarrow> os_WaitBlockCurrent (Some (SemWaiters i)) OS_WAIT_SEMAPHORE
                            (Some (SemObj i)) 0 timeout_ticks s;
                Some s
              })"

text \<open>The result pairs the status with the task written to \<open>*out_woken\<close>.\<close>

definition os_SemGiveFromIsrContext ::
    "nat option \<Rightarrow> 'p kernel \<Rightarrow> ((os_status_t \<times> nat option) \<times> 'p kernel) option" where
  "os_SemGiveFromIsrContext sem s =
     (case sem of
        None \<Rightarrow> Some ((OS_STATUS_INVALID_ARGUMENT, None), s)
      | Some i \<Rightarrow>
          if \<not> os_SemIsValid sem s then Some ((OS_STATUS_INVALID_ARGUMENT, None), s)
          else
            let (waiter, s) = os_WaitPop (Some (SemWaiters i)) s in
            if waiter \<noteq> None then do {
              s \<leftarrow> os_WaitMakeReady waiter OS_STATUS_OK s;
              Some ((OS_STATUS_OK, waiter), s)
            }
            else if s_maximum_count (k_sems s i) \<le> s_count (k_sems s i) then
              Some ((OS_STATUS_LIMIT_REACHED, None), s)
            else Some ((OS_STATUS_OK, None), upd_sem i (\<lambda>S. S\<lparr>s_count := s_count S + 1\<rparr>) s))"

definition os_SemGiveCurrent :: "nat option \<Rightarrow> 'p kernel \<Rightarrow> 'p kernel option" where
  "os_SemGiveCurrent sem s =
     (case k_current s of
        None \<Rightarrow> Some s
      | Some c \<Rightarrow>
          if t_state (k_tasks s c) \<noteq> OS_TASK_RUNNING then Some s
          else do {
            ((status, woken), s) \<leftarrow> os_SemGiveFromIsrContext sem s;
            let s = set_result c status s;
            if woken \<noteq> None then os_WaitMaybePreempt woken s else Some s
          })"

subsection \<open>List-level specification\<close>

definition spec_SemaphoreCreateCounting ::
    "u32 \<Rightarrow> u32 \<Rightarrow> 'p spec_kernel \<Rightarrow> (nat option \<times> 'p spec_kernel) option" where
  "spec_SemaphoreCreateCounting uxMaxCount uxInitialCount s =
     (if \<not> k_initialized s \<or> k_started s then Some (None, os_SetLastError OS_STATUS_BAD_STATE s)
      else if uxMaxCount = 0 \<or> uxMaxCount < uxInitialCount then
        Some (None, os_SetLastError OS_STATUS_INVALID_ARGUMENT s)
      else case find (\<lambda>i. \<not> s_used (k_sems s i)) [0..<OS_MAX_SEMAPHORES] of
        None \<Rightarrow> Some (None, os_SetLastError OS_STATUS_LIMIT_REACHED s)
      | Some i \<Rightarrow>
          if sp_nodes (k_heap s) (SemWaiters i) \<noteq> [] then None
          else Some (Some i, os_SetLastError OS_STATUS_OK
                 (upd_sem i (\<lambda>S. S\<lparr>s_used := True, s_count := uxInitialCount,
                                    s_maximum_count := uxMaxCount\<rparr>) s)))"

definition spec_SemTakeCurrent :: "nat option \<Rightarrow> u32 \<Rightarrow> 'p spec_kernel \<Rightarrow> 'p spec_kernel option" where
  "spec_SemTakeCurrent sem timeout_ticks s =
     (case k_current s of
        None \<Rightarrow> Some s
      | Some c \<Rightarrow>
          if t_state (k_tasks s c) \<noteq> OS_TASK_RUNNING then Some s
          else case sem of
            None \<Rightarrow> Some (set_result c OS_STATUS_INVALID_ARGUMENT s)
          | Some i \<Rightarrow>
              if \<not> os_SemIsValid sem s then Some (set_result c OS_STATUS_INVALID_ARGUMENT s)
              else if 0 < s_count (k_sems s i) then
                Some (set_result c OS_STATUS_OK (upd_sem i (\<lambda>S. S\<lparr>s_count := s_count S - 1\<rparr>) s))
              else if timeout_ticks = 0 then Some (set_result c OS_STATUS_TIMEOUT s)
              else do {
                (_, s) \<leftarrow> spec_WaitBlockCurrent (Some (SemWaiters i)) OS_WAIT_SEMAPHORE
                            (Some (SemObj i)) 0 timeout_ticks s;
                Some s
              })"

definition spec_SemGiveFromIsrContext ::
    "nat option \<Rightarrow> 'p spec_kernel \<Rightarrow> ((os_status_t \<times> nat option) \<times> 'p spec_kernel) option" where
  "spec_SemGiveFromIsrContext sem s =
     (case sem of
        None \<Rightarrow> Some ((OS_STATUS_INVALID_ARGUMENT, None), s)
      | Some i \<Rightarrow>
          if \<not> os_SemIsValid sem s then Some ((OS_STATUS_INVALID_ARGUMENT, None), s)
          else
            let (waiter, s) = spec_WaitPop (Some (SemWaiters i)) s in
            if waiter \<noteq> None then do {
              s \<leftarrow> spec_WaitMakeReady waiter OS_STATUS_OK s;
              Some ((OS_STATUS_OK, waiter), s)
            }
            else if s_maximum_count (k_sems s i) \<le> s_count (k_sems s i) then
              Some ((OS_STATUS_LIMIT_REACHED, None), s)
            else Some ((OS_STATUS_OK, None), upd_sem i (\<lambda>S. S\<lparr>s_count := s_count S + 1\<rparr>) s))"

definition spec_SemGiveCurrent :: "nat option \<Rightarrow> 'p spec_kernel \<Rightarrow> 'p spec_kernel option" where
  "spec_SemGiveCurrent sem s =
     (case k_current s of
        None \<Rightarrow> Some s
      | Some c \<Rightarrow>
          if t_state (k_tasks s c) \<noteq> OS_TASK_RUNNING then Some s
          else do {
            ((status, woken), s) \<leftarrow> spec_SemGiveFromIsrContext sem s;
            let s = set_result c status s;
            if woken \<noteq> None then spec_WaitMaybePreempt woken s else Some s
          })"

subsection \<open>Refinement\<close>

lemma sem_core [simp, core_simps]:
  "os_SetLastError e (conc h a) = conc h (os_SetLastError e a)"
  "k_heap (os_SetLastError e a) = k_heap a"
  "set_result t r (conc h a) = conc h (set_result t r a)"
  "k_heap (set_result t r a) = k_heap a"
  "os_SemIsValid i (conc h a) = os_SemIsValid i a"
  by (simp_all add: os_SetLastError_def set_result_def os_SemIsValid_def split: option.split)

lemma SemaphoreCreateCounting_refines:
  "list_rep h (k_heap a) \<Longrightarrow>
   sim krelv (Some (xSemaphoreCreateCounting m n (conc h a))) (spec_SemaphoreCreateCounting m n a)"
  unfolding xSemaphoreCreateCounting_def spec_SemaphoreCreateCounting_def Let_def
  by (auto simp: os_list.init_law split: option.split)

lemma SemTakeCurrent_refines [sim_intros]:
  "list_rep h (k_heap a) \<Longrightarrow> sim krel (os_SemTakeCurrent i t (conc h a)) (spec_SemTakeCurrent i t a)"
  unfolding os_SemTakeCurrent_def spec_SemTakeCurrent_def
  by (auto intro!: sim_intros)

text \<open>Popping a waiter is total on both sides, so it is stated as an equation.\<close>

lemma WaitPop_conc:
  assumes "list_rep h (k_heap a)"
  obtains h' where "os_WaitPop l (conc h a) = (fst (spec_WaitPop l a), conc h' (snd (spec_WaitPop l a)))"
    and "list_rep h' (k_heap (snd (spec_WaitPop l a)))"
  using WaitPop_refines [OF assms, of l] by (auto simp: krelv_def prod_eq_iff elim!: krelE)

lemma SemGiveFromIsrContext_refines [sim_intros]:
  assumes "list_rep h (k_heap a)"
  shows "sim krelv (os_SemGiveFromIsrContext i (conc h a)) (spec_SemGiveFromIsrContext i a)"
proof (cases i)
  case (Some j)
  obtain h' where
    "os_WaitPop (Some (SemWaiters j)) (conc h a) =
       (fst (spec_WaitPop (Some (SemWaiters j)) a), conc h' (snd (spec_WaitPop (Some (SemWaiters j)) a)))"
    "list_rep h' (k_heap (snd (spec_WaitPop (Some (SemWaiters j)) a)))"
    using WaitPop_conc [OF assms] .
  with assms show ?thesis
    unfolding os_SemGiveFromIsrContext_def spec_SemGiveFromIsrContext_def Some
    by (auto intro!: sim_intros simp: case_prod_beta)
qed (use assms in \<open>simp add: os_SemGiveFromIsrContext_def spec_SemGiveFromIsrContext_def\<close>)

lemma SemGiveCurrent_refines [sim_intros]:
  "list_rep h (k_heap a) \<Longrightarrow> sim krel (os_SemGiveCurrent i (conc h a)) (spec_SemGiveCurrent i a)"
  unfolding os_SemGiveCurrent_def spec_SemGiveCurrent_def Let_def
  by (auto intro!: sim_intros)

end
