(* ===== verification/OS_Queue.thy ===== *)
theory OS_Queue
  imports OS_Sem
begin

section \<open>Message queues (kernel/src/os_queue.c)\<close>

text \<open>
  A queue is a ring of fixed-size slots in a caller-provided buffer. Memory is a map from
  addresses to bytes; \<open>os_memcpy\<close> reads the whole source before it writes (the C function
  is undefined where source and destination overlap), and fails on a NULL argument.
\<close>

subsection \<open>The code\<close>

definition os_memcpy :: "addr \<Rightarrow> addr \<Rightarrow> size_t \<Rightarrow> ('h, 'p) os_kernel_t \<Rightarrow> ('h, 'p) os_kernel_t option" where
  "os_memcpy dst src n s =
     (if dst = 0 \<or> src = 0 then None
      else let m = k_memory s in
        Some (s\<lparr>k_memory := (\<lambda>a. if a - dst < n then m (src + (a - dst)) else m a)\<rparr>))"

definition zero_queue :: os_queue_t where
  "zero_queue = \<lparr>q_used = False, q_buffer = 0, q_item_size = 0, q_capacity = 0, q_head = 0,
     q_tail = 0, q_count = 0\<rparr>"

definition queue_valid :: "os_queue_t \<Rightarrow> bool" where
  "queue_valid Q \<longleftrightarrow> q_used Q \<and> q_buffer Q \<noteq> 0 \<and> 0 < q_item_size Q \<and> 0 < q_capacity Q \<and>
     q_count Q \<le> q_capacity Q \<and> q_head Q < q_capacity Q \<and> q_tail Q < q_capacity Q"

definition os_QueueIsValid :: "nat option \<Rightarrow> ('h, 'p) os_kernel_t \<Rightarrow> bool" where
  "os_QueueIsValid queue s = (case queue of None \<Rightarrow> False | Some i \<Rightarrow> queue_valid (k_queues s i))"

definition os_QueueSlot :: "os_queue_t \<Rightarrow> size_t \<Rightarrow> addr" where
  "os_QueueSlot Q index = q_buffer Q + index * q_item_size Q"

definition os_QueueKernelReset :: "'p kernel \<Rightarrow> 'p kernel" where
  "os_QueueKernelReset s =
     s\<lparr>k_queues := (\<lambda>_. zero_queue),
       k_heap := fold (\<lambda>i h. os_ListInit (QueueReceiveWaiters i) (os_ListInit (QueueSendWaiters i) h))
                   [0..<OS_MAX_QUEUES]
                   (clear_headers (\<lambda>l. case l of QueueSendWaiters _ \<Rightarrow> True | QueueReceiveWaiters _ \<Rightarrow> True | _ \<Rightarrow> False) (k_heap s))\<rparr>"

definition xQueueCreate :: "u32 \<Rightarrow> u32 \<Rightarrow> addr \<Rightarrow> 'p kernel \<Rightarrow> nat option \<times> 'p kernel" where
  "xQueueCreate uxQueueLength uxItemSize pucQueueStorage s =
     (if \<not> k_initialized s \<or> k_started s then (None, os_SetLastError OS_STATUS_BAD_STATE s)
      else if pucQueueStorage = 0 \<or> uxItemSize = 0 \<or> uxQueueLength = 0 \<or>
              SIZE_MAX div uxQueueLength < uxItemSize then
        (None, os_SetLastError OS_STATUS_INVALID_ARGUMENT s)
      else case find (\<lambda>i. \<not> q_used (k_queues s i)) [0..<OS_MAX_QUEUES] of
        None \<Rightarrow> (None, os_SetLastError OS_STATUS_LIMIT_REACHED s)
      | Some i \<Rightarrow>
          let s = upd_queue i (\<lambda>Q. \<lparr>q_used = True, q_buffer = pucQueueStorage,
                    q_item_size = uxItemSize, q_capacity = uxQueueLength, q_head = 0,
                    q_tail = 0, q_count = 0\<rparr>) s;
              s = s\<lparr>k_heap := os_ListInit (QueueReceiveWaiters i)
                                 (os_ListInit (QueueSendWaiters i) (k_heap s))\<rparr>
          in (Some i, os_SetLastError OS_STATUS_OK s))"

definition uxQueueMessagesWaiting :: "nat option \<Rightarrow> ('h, 'p) os_kernel_t \<Rightarrow> size_t" where
  "uxQueueMessagesWaiting queue s =
     (if os_QueueIsValid queue s then (case queue of None \<Rightarrow> 0 | Some i \<Rightarrow> q_count (k_queues s i)) else 0)"

definition uxQueueCapacity :: "nat option \<Rightarrow> ('h, 'p) os_kernel_t \<Rightarrow> size_t" where
  "uxQueueCapacity queue s =
     (if os_QueueIsValid queue s then (case queue of None \<Rightarrow> 0 | Some i \<Rightarrow> q_capacity (k_queues s i)) else 0)"

definition os_QueueSnapshot ::
    "nat option \<Rightarrow> addr \<Rightarrow> size_t \<Rightarrow> ('h, 'p) os_kernel_t \<Rightarrow> (size_t \<times> ('h, 'p) os_kernel_t) option" where
  "os_QueueSnapshot queue out_items maximum_items s =
     (case queue of
        None \<Rightarrow> Some (0, s)
      | Some i \<Rightarrow>
          if \<not> os_QueueIsValid queue s \<or> out_items = 0 \<or> maximum_items = 0 then Some (0, s)
          else
            let Q = k_queues s i;
                copy_count = (if q_count Q < maximum_items then q_count Q else maximum_items)
            in do {
              s \<leftarrow> foldM (\<lambda>index.
                     os_memcpy (out_items + of_nat index * q_item_size Q)
                       (os_QueueSlot Q ((q_head Q + of_nat index) mod q_capacity Q))
                       (q_item_size Q)) [0..<unat copy_count] s;
              Some (copy_count, s)
            })"

text \<open>The two ring steps that both operations share: advance one index of the ring.\<close>

definition ring_next :: "os_queue_t \<Rightarrow> size_t \<Rightarrow> size_t" where
  "ring_next Q index = (index + 1) mod q_capacity Q"

definition os_QueueSendCurrent :: "nat option \<Rightarrow> addr \<Rightarrow> u32 \<Rightarrow> 'p kernel \<Rightarrow> 'p kernel option" where
  "os_QueueSendCurrent queue item timeout_ticks s =
     (case k_current s of
        None \<Rightarrow> Some s
      | Some c \<Rightarrow>
          if t_state (k_tasks s c) \<noteq> OS_TASK_RUNNING then Some s
          else case queue of
            None \<Rightarrow> Some (set_result c OS_STATUS_INVALID_ARGUMENT s)
          | Some i \<Rightarrow>
              if \<not> os_QueueIsValid queue s \<or> item = 0 then
                Some (set_result c OS_STATUS_INVALID_ARGUMENT s)
              else
                let (receiver, s) = os_WaitPop (Some (QueueReceiveWaiters i)) s in
                case receiver of
                  Some r \<Rightarrow> do {
                    s \<leftarrow> os_memcpy (t_wait_buffer (k_tasks s r)) item (q_item_size (k_queues s i)) s;
                    s \<leftarrow> os_WaitMakeReady (Some r) OS_STATUS_OK (set_result c OS_STATUS_OK s);
                    os_WaitMaybePreempt (Some r) s
                  }
                | None \<Rightarrow>
                    if q_count (k_queues s i) < q_capacity (k_queues s i) then do {
                      s \<leftarrow> os_memcpy (os_QueueSlot (k_queues s i) (q_tail (k_queues s i))) item
                             (q_item_size (k_queues s i)) s;
                      Some (set_result c OS_STATUS_OK
                        (upd_queue i (\<lambda>Q. Q\<lparr>q_tail := ring_next Q (q_tail Q), q_count := q_count Q + 1\<rparr>) s))
                    }
                    else if timeout_ticks = 0 then Some (set_result c OS_STATUS_TIMEOUT s)
                    else do {
                      (_, s) \<leftarrow> os_WaitBlockCurrent (Some (QueueSendWaiters i)) OS_WAIT_QUEUE_SEND
                                  (Some (QueueObj i)) item timeout_ticks s;
                      Some s
                    })"

definition os_QueueReceiveCurrent :: "nat option \<Rightarrow> addr \<Rightarrow> u32 \<Rightarrow> 'p kernel \<Rightarrow> 'p kernel option" where
  "os_QueueReceiveCurrent queue out_item timeout_ticks s =
     (case k_current s of
        None \<Rightarrow> Some s
      | Some c \<Rightarrow>
          if t_state (k_tasks s c) \<noteq> OS_TASK_RUNNING then Some s
          else case queue of
            None \<Rightarrow> Some (set_result c OS_STATUS_INVALID_ARGUMENT s)
          | Some i \<Rightarrow>
              if \<not> os_QueueIsValid queue s \<or> out_item = 0 then
                Some (set_result c OS_STATUS_INVALID_ARGUMENT s)
              else if 0 < q_count (k_queues s i) then do {
                s \<leftarrow> os_memcpy out_item (os_QueueSlot (k_queues s i) (q_head (k_queues s i)))
                       (q_item_size (k_queues s i)) s;
                let s = upd_queue i (\<lambda>Q. Q\<lparr>q_head := ring_next Q (q_head Q), q_count := q_count Q - 1\<rparr>) s;
                let (sender, s) = os_WaitPop (Some (QueueSendWaiters i)) s;
                (case sender of
                   Some t \<Rightarrow> do {
                     s \<leftarrow> os_memcpy (os_QueueSlot (k_queues s i) (q_tail (k_queues s i)))
                            (t_wait_buffer (k_tasks s t)) (q_item_size (k_queues s i)) s;
                     let s = upd_queue i (\<lambda>Q. Q\<lparr>q_tail := ring_next Q (q_tail Q), q_count := q_count Q + 1\<rparr>) s;
                     s \<leftarrow> os_WaitMakeReady (Some t) OS_STATUS_OK (set_result c OS_STATUS_OK s);
                     os_WaitMaybePreempt (Some t) s
                   }
                 | None \<Rightarrow> Some (set_result c OS_STATUS_OK s))
              }
              else if timeout_ticks = 0 then Some (set_result c OS_STATUS_TIMEOUT s)
              else do {
                (_, s) \<leftarrow> os_WaitBlockCurrent (Some (QueueReceiveWaiters i)) OS_WAIT_QUEUE_RECEIVE
                            (Some (QueueObj i)) out_item timeout_ticks s;
                Some s
              })"

subsection \<open>List-level specification\<close>

definition spec_QueueCreate ::
    "u32 \<Rightarrow> u32 \<Rightarrow> addr \<Rightarrow> 'p spec_kernel \<Rightarrow> (nat option \<times> 'p spec_kernel) option" where
  "spec_QueueCreate uxQueueLength uxItemSize pucQueueStorage s =
     (if \<not> k_initialized s \<or> k_started s then Some (None, os_SetLastError OS_STATUS_BAD_STATE s)
      else if pucQueueStorage = 0 \<or> uxItemSize = 0 \<or> uxQueueLength = 0 \<or>
              SIZE_MAX div uxQueueLength < uxItemSize then
        Some (None, os_SetLastError OS_STATUS_INVALID_ARGUMENT s)
      else case find (\<lambda>i. \<not> q_used (k_queues s i)) [0..<OS_MAX_QUEUES] of
        None \<Rightarrow> Some (None, os_SetLastError OS_STATUS_LIMIT_REACHED s)
      | Some i \<Rightarrow>
          if sp_nodes (k_heap s) (QueueSendWaiters i) \<noteq> [] \<or>
             sp_nodes (k_heap s) (QueueReceiveWaiters i) \<noteq> [] then None
          else Some (Some i, os_SetLastError OS_STATUS_OK
                 (upd_queue i (\<lambda>Q. \<lparr>q_used = True, q_buffer = pucQueueStorage,
                    q_item_size = uxItemSize, q_capacity = uxQueueLength, q_head = 0,
                    q_tail = 0, q_count = 0\<rparr>) s)))"

definition spec_QueueSendCurrent :: "nat option \<Rightarrow> addr \<Rightarrow> u32 \<Rightarrow> 'p spec_kernel \<Rightarrow> 'p spec_kernel option" where
  "spec_QueueSendCurrent queue item timeout_ticks s =
     (case k_current s of
        None \<Rightarrow> Some s
      | Some c \<Rightarrow>
          if t_state (k_tasks s c) \<noteq> OS_TASK_RUNNING then Some s
          else case queue of
            None \<Rightarrow> Some (set_result c OS_STATUS_INVALID_ARGUMENT s)
          | Some i \<Rightarrow>
              if \<not> os_QueueIsValid queue s \<or> item = 0 then
                Some (set_result c OS_STATUS_INVALID_ARGUMENT s)
              else
                let (receiver, s) = spec_WaitPop (Some (QueueReceiveWaiters i)) s in
                case receiver of
                  Some r \<Rightarrow> do {
                    s \<leftarrow> os_memcpy (t_wait_buffer (k_tasks s r)) item (q_item_size (k_queues s i)) s;
                    s \<leftarrow> spec_WaitMakeReady (Some r) OS_STATUS_OK (set_result c OS_STATUS_OK s);
                    spec_WaitMaybePreempt (Some r) s
                  }
                | None \<Rightarrow>
                    if q_count (k_queues s i) < q_capacity (k_queues s i) then do {
                      s \<leftarrow> os_memcpy (os_QueueSlot (k_queues s i) (q_tail (k_queues s i))) item
                             (q_item_size (k_queues s i)) s;
                      Some (set_result c OS_STATUS_OK
                        (upd_queue i (\<lambda>Q. Q\<lparr>q_tail := ring_next Q (q_tail Q), q_count := q_count Q + 1\<rparr>) s))
                    }
                    else if timeout_ticks = 0 then Some (set_result c OS_STATUS_TIMEOUT s)
                    else do {
                      (_, s) \<leftarrow> spec_WaitBlockCurrent (Some (QueueSendWaiters i)) OS_WAIT_QUEUE_SEND
                                  (Some (QueueObj i)) item timeout_ticks s;
                      Some s
                    })"

definition spec_QueueReceiveCurrent :: "nat option \<Rightarrow> addr \<Rightarrow> u32 \<Rightarrow> 'p spec_kernel \<Rightarrow> 'p spec_kernel option" where
  "spec_QueueReceiveCurrent queue out_item timeout_ticks s =
     (case k_current s of
        None \<Rightarrow> Some s
      | Some c \<Rightarrow>
          if t_state (k_tasks s c) \<noteq> OS_TASK_RUNNING then Some s
          else case queue of
            None \<Rightarrow> Some (set_result c OS_STATUS_INVALID_ARGUMENT s)
          | Some i \<Rightarrow>
              if \<not> os_QueueIsValid queue s \<or> out_item = 0 then
                Some (set_result c OS_STATUS_INVALID_ARGUMENT s)
              else if 0 < q_count (k_queues s i) then do {
                s \<leftarrow> os_memcpy out_item (os_QueueSlot (k_queues s i) (q_head (k_queues s i)))
                       (q_item_size (k_queues s i)) s;
                let s = upd_queue i (\<lambda>Q. Q\<lparr>q_head := ring_next Q (q_head Q), q_count := q_count Q - 1\<rparr>) s;
                let (sender, s) = spec_WaitPop (Some (QueueSendWaiters i)) s;
                (case sender of
                   Some t \<Rightarrow> do {
                     s \<leftarrow> os_memcpy (os_QueueSlot (k_queues s i) (q_tail (k_queues s i)))
                            (t_wait_buffer (k_tasks s t)) (q_item_size (k_queues s i)) s;
                     let s = upd_queue i (\<lambda>Q. Q\<lparr>q_tail := ring_next Q (q_tail Q), q_count := q_count Q + 1\<rparr>) s;
                     s \<leftarrow> spec_WaitMakeReady (Some t) OS_STATUS_OK (set_result c OS_STATUS_OK s);
                     spec_WaitMaybePreempt (Some t) s
                   }
                 | None \<Rightarrow> Some (set_result c OS_STATUS_OK s))
              }
              else if timeout_ticks = 0 then Some (set_result c OS_STATUS_TIMEOUT s)
              else do {
                (_, s) \<leftarrow> spec_WaitBlockCurrent (Some (QueueReceiveWaiters i)) OS_WAIT_QUEUE_RECEIVE
                            (Some (QueueObj i)) out_item timeout_ticks s;
                Some s
              })"

subsection \<open>Refinement\<close>

lemma queue_core [simp, core_simps]:
  "os_QueueIsValid i (conc h a) = os_QueueIsValid i a"
  by (simp add: os_QueueIsValid_def split: option.split)

lemma memcpy_refines [sim_intros]:
  "list_rep h (k_heap a) \<Longrightarrow> sim krel (os_memcpy d r n (conc h a)) (os_memcpy d r n a)"
  by (auto simp: os_memcpy_def Let_def)

lemma QueueCreate_refines:
  "list_rep h (k_heap a) \<Longrightarrow>
   sim krelv (Some (xQueueCreate n z b (conc h a))) (spec_QueueCreate n z b a)"
  unfolding xQueueCreate_def spec_QueueCreate_def Let_def
  by (auto simp: os_list.init_law split: option.split)

lemma sim_WaitPop:
  assumes "list_rep h (k_heap a)"
    and "\<And>r h' b. list_rep h' (k_heap b) \<Longrightarrow> spec_WaitPop l a = (r, b) \<Longrightarrow> sim Q (f r (conc h' b)) (g r b)"
  shows "sim Q (case os_WaitPop l (conc h a) of (r, s) \<Rightarrow> f r s) (case spec_WaitPop l a of (r, s) \<Rightarrow> g r s)"
  using assms(2) by (auto intro: WaitPop_conc [OF assms(1), of l] simp: case_prod_beta)

lemma QueueSendCurrent_refines [sim_intros]:
  "list_rep h (k_heap a) \<Longrightarrow>
   sim krel (os_QueueSendCurrent q i t (conc h a)) (spec_QueueSendCurrent q i t a)"
  unfolding os_QueueSendCurrent_def spec_QueueSendCurrent_def Let_def
  by (auto intro!: sim_intros sim_WaitPop)

lemma QueueReceiveCurrent_refines [sim_intros]:
  "list_rep h (k_heap a) \<Longrightarrow>
   sim krel (os_QueueReceiveCurrent q i t (conc h a)) (spec_QueueReceiveCurrent q i t a)"
  unfolding os_QueueReceiveCurrent_def spec_QueueReceiveCurrent_def Let_def
  by (auto intro!: sim_intros sim_WaitPop)

end
