(* ===== verification/OS_Mutex.thy ===== *)
theory OS_Mutex
  imports OS_Queue
begin

section \<open>Mutexes with priority inheritance (kernel/src/os_mutex.c)\<close>

text \<open>
  Locking, unlocking with direct handover, and the recomputation of all effective priorities
  from the ownership and waiting relations; also \<open>os_SchedTerminateCurrent\<close> of
  \<open>os_sched.c\<close>, which hands over the mutexes of the task that ends.
\<close>

subsection \<open>The code\<close>

definition zero_mutex :: os_mutex_t where
  "zero_mutex = \<lparr>m_used = False, m_owner = None\<rparr>"

definition os_MutexIsValid :: "nat option \<Rightarrow> ('h, 'p) os_kernel_t \<Rightarrow> bool" where
  "os_MutexIsValid mutex s = (case mutex of None \<Rightarrow> False | Some i \<Rightarrow> m_used (k_mutexes s i))"

definition os_MutexKernelReset :: "'p kernel \<Rightarrow> 'p kernel" where
  "os_MutexKernelReset s =
     s\<lparr>k_mutexes := (\<lambda>_. zero_mutex),
       k_heap := fold (\<lambda>i. os_ListInit (MutexWaiters i)) [0..<OS_MAX_MUTEXES]
                   (clear_headers (\<lambda>l. case l of MutexWaiters _ \<Rightarrow> True | _ \<Rightarrow> False) (k_heap s))\<rparr>"

definition xMutexCreate :: "'p kernel \<Rightarrow> nat option \<times> 'p kernel" where
  "xMutexCreate s =
     (if \<not> k_initialized s \<or> k_started s then (None, os_SetLastError OS_STATUS_BAD_STATE s)
      else case find (\<lambda>i. \<not> m_used (k_mutexes s i)) [0..<OS_MAX_MUTEXES] of
        None \<Rightarrow> (None, os_SetLastError OS_STATUS_LIMIT_REACHED s)
      | Some i \<Rightarrow>
          let s = upd_mutex i (\<lambda>M. M\<lparr>m_used := True, m_owner := None\<rparr>) s;
              s = s\<lparr>k_heap := os_ListInit (MutexWaiters i) (k_heap s)\<rparr>
          in (Some i, os_SetLastError OS_STATUS_OK s))"

text \<open>
  The local array \<open>desired\<close> is a map from TCB ids. The walk over the waiters of one mutex
  has no bound of its own.
\<close>

definition waiter_max :: "(nat \<Rightarrow> u8) \<Rightarrow> ('h, 'p) os_kernel_t \<Rightarrow> nat \<Rightarrow> u8 \<Rightarrow> u8" where
  "waiter_max desired s t inherited =
     (let waiter_priority = desired (unat (t_id (k_tasks s t)))
      in if inherited < waiter_priority then waiter_priority else inherited)"

partial_function (option) os_MutexInherited ::
    "(nat \<Rightarrow> u8) \<Rightarrow> 'p kernel \<Rightarrow> node_ref option \<Rightarrow> u8 \<Rightarrow> u8 option" where
  "os_MutexInherited desired s node inherited =
     (case node of
        None \<Rightarrow> Some inherited
      | Some n \<Rightarrow>
          (case n_owner (h_nodes (k_heap s) n) of
             None \<Rightarrow> None
           | Some t \<Rightarrow> os_MutexInherited desired s (n_next (h_nodes (k_heap s) n))
                         (waiter_max desired s t inherited)))"

declare os_MutexInherited.simps [code]

definition os_MutexPassStep ::
    "'p kernel \<Rightarrow> nat \<Rightarrow> (nat \<Rightarrow> u8) \<times> bool \<Rightarrow> ((nat \<Rightarrow> u8) \<times> bool) option" where
  "os_MutexPassStep s i dc =
     (case dc of (desired, changed) \<Rightarrow>
        if \<not> m_used (k_mutexes s i) then Some (desired, changed)
        else case m_owner (k_mutexes s i) of
          None \<Rightarrow> Some (desired, changed)
        | Some w \<Rightarrow>
            let w_id = unat (t_id (k_tasks s w)) in do {
              inherited \<leftarrow> os_MutexInherited desired s (l_head (h_lists (k_heap s) (MutexWaiters i)))
                             (desired w_id);
              Some (if desired w_id < inherited then (desired(w_id := inherited), True)
                    else (desired, changed))
            })"

fun os_MutexPasses :: "nat \<Rightarrow> (nat \<Rightarrow> u8) \<Rightarrow> 'p kernel \<Rightarrow> (nat \<Rightarrow> u8) option" where
  "os_MutexPasses 0 desired s = Some desired"
| "os_MutexPasses (Suc n) desired s = do {
     (desired', changed) \<leftarrow> foldM (os_MutexPassStep s) [0..<OS_MAX_MUTEXES] (desired, False);
     if \<not> changed then Some desired' else os_MutexPasses n desired' s
   }"

definition os_MutexBase :: "('h, 'p) os_kernel_t \<Rightarrow> nat \<Rightarrow> u8" where
  "os_MutexBase s = (\<lambda>i. if i < unat (k_task_count s) then t_base_priority (k_tasks s i) else 0)"

definition os_MutexWaitersChanged :: "'p kernel \<Rightarrow> 'p kernel option" where
  "os_MutexWaitersChanged s = do {
     desired \<leftarrow> os_MutexPasses OS_MAX_TASKS (os_MutexBase s) s;
     foldM (\<lambda>i. os_TaskSetEffectivePriority (Some i) (desired i)) [0..<unat (k_task_count s)] s
   }"

definition os_MutexLockCurrent :: "nat option \<Rightarrow> u32 \<Rightarrow> 'p kernel \<Rightarrow> 'p kernel option" where
  "os_MutexLockCurrent mutex timeout_ticks s =
     (case k_current s of
        None \<Rightarrow> Some s
      | Some c \<Rightarrow>
          if t_state (k_tasks s c) \<noteq> OS_TASK_RUNNING then Some s
          else case mutex of
            None \<Rightarrow> Some (set_result c OS_STATUS_INVALID_ARGUMENT s)
          | Some i \<Rightarrow>
              if \<not> os_MutexIsValid mutex s then Some (set_result c OS_STATUS_INVALID_ARGUMENT s)
              else if m_owner (k_mutexes s i) = None then
                Some (set_result c OS_STATUS_OK (upd_mutex i (\<lambda>M. M\<lparr>m_owner := Some c\<rparr>) s))
              else if m_owner (k_mutexes s i) = Some c then Some (set_result c OS_STATUS_BAD_STATE s)
              else if timeout_ticks = 0 then Some (set_result c OS_STATUS_TIMEOUT s)
              else do {
                (_, s) \<leftarrow> os_WaitBlockCurrent (Some (MutexWaiters i)) OS_WAIT_MUTEX
                            (Some (MutexObj i)) 0 timeout_ticks s;
                s \<leftarrow> os_MutexWaitersChanged s;
                (case k_current s of
                   None \<Rightarrow> Some s
                 | Some r \<Rightarrow>
                     (case m_owner (k_mutexes s i) of
                        None \<Rightarrow> None
                      | Some w \<Rightarrow>
                          if t_effective_priority (k_tasks s r) < t_effective_priority (k_tasks s w)
                          then do {
                            (_, s) \<leftarrow> os_SchedSchedule OS_SWITCH_HIGHER_PRIORITY_WAKEUP False s;
                            Some s
                          } else Some s))
              })"

definition os_MutexUnlockCurrent :: "nat option \<Rightarrow> 'p kernel \<Rightarrow> 'p kernel option" where
  "os_MutexUnlockCurrent mutex s =
     (case k_current s of
        None \<Rightarrow> Some s
      | Some c \<Rightarrow>
          if t_state (k_tasks s c) \<noteq> OS_TASK_RUNNING then Some s
          else case mutex of
            None \<Rightarrow> Some (set_result c OS_STATUS_INVALID_ARGUMENT s)
          | Some i \<Rightarrow>
              if \<not> os_MutexIsValid mutex s then Some (set_result c OS_STATUS_INVALID_ARGUMENT s)
              else if m_owner (k_mutexes s i) \<noteq> Some c then
                Some (set_result c OS_STATUS_NOT_OWNER s)
              else
                let (waiter, s) = os_WaitPop (Some (MutexWaiters i)) s;
                    s = upd_mutex i (\<lambda>M. M\<lparr>m_owner := waiter\<rparr>) s;
                    s = set_result c OS_STATUS_OK s
                in do {
                  s \<leftarrow> os_MutexWaitersChanged s;
                  if waiter \<noteq> None then do {
                    s \<leftarrow> os_WaitMakeReady waiter OS_STATUS_OK s;
                    os_WaitMaybePreempt waiter s
                  } else Some s
                })"

definition os_MutexReleaseStep :: "nat \<Rightarrow> nat \<Rightarrow> bool \<times> 'p kernel \<Rightarrow> (bool \<times> 'p kernel) option" where
  "os_MutexReleaseStep t i bs =
     (case bs of (released_any, s) \<Rightarrow>
        if m_used (k_mutexes s i) \<and> m_owner (k_mutexes s i) = Some t then
          let (waiter, s) = os_WaitPop (Some (MutexWaiters i)) s;
              s = upd_mutex i (\<lambda>M. M\<lparr>m_owner := waiter\<rparr>) s
          in do {
            s \<leftarrow> (if waiter \<noteq> None then os_WaitMakeReady waiter OS_STATUS_OK s else Some s);
            Some (True, s)
          }
        else Some (released_any, s))"

definition os_MutexReleaseTask :: "nat option \<Rightarrow> 'p kernel \<Rightarrow> 'p kernel option" where
  "os_MutexReleaseTask task s =
     (case task of
        None \<Rightarrow> Some s
      | Some t \<Rightarrow> do {
          (released_any, s) \<leftarrow> foldM (os_MutexReleaseStep t) [0..<OS_MAX_MUTEXES] (False, s);
          if released_any then os_MutexWaitersChanged s else Some s
        })"

definition os_SchedTerminateCurrent :: "'p kernel \<Rightarrow> (nat option \<times> 'p kernel) option" where
  "os_SchedTerminateCurrent s =
     (case k_current s of
        None \<Rightarrow> Some (None, s)
      | Some c \<Rightarrow>
          if t_state (k_tasks s c) \<noteq> OS_TASK_RUNNING then Some (Some c, s)
          else do {
            s \<leftarrow> os_MutexReleaseTask (Some c) s;
            (nxt, s) \<leftarrow> os_ReadyPopHighest (set_state c OS_TASK_TERMINATED s);
            Some (os_CommitSwitch (Some c) nxt OS_SWITCH_EXIT s)
          })"

subsection \<open>List-level specification\<close>

definition spec_MutexCreate :: "'p spec_kernel \<Rightarrow> (nat option \<times> 'p spec_kernel) option" where
  "spec_MutexCreate s =
     (if \<not> k_initialized s \<or> k_started s then Some (None, os_SetLastError OS_STATUS_BAD_STATE s)
      else case find (\<lambda>i. \<not> m_used (k_mutexes s i)) [0..<OS_MAX_MUTEXES] of
        None \<Rightarrow> Some (None, os_SetLastError OS_STATUS_LIMIT_REACHED s)
      | Some i \<Rightarrow>
          if sp_nodes (k_heap s) (MutexWaiters i) \<noteq> [] then None
          else Some (Some i, os_SetLastError OS_STATUS_OK
                 (upd_mutex i (\<lambda>M. M\<lparr>m_used := True, m_owner := None\<rparr>) s)))"

definition spec_MutexInherited :: "(nat \<Rightarrow> u8) \<Rightarrow> 'p spec_kernel \<Rightarrow> nat \<Rightarrow> u8 \<Rightarrow> u8" where
  "spec_MutexInherited desired s i inherited =
     fold (\<lambda>n. waiter_max desired s (task_of n)) (sp_nodes (k_heap s) (MutexWaiters i)) inherited"

definition spec_MutexPassStep ::
    "'p spec_kernel \<Rightarrow> nat \<Rightarrow> (nat \<Rightarrow> u8) \<times> bool \<Rightarrow> (nat \<Rightarrow> u8) \<times> bool" where
  "spec_MutexPassStep s i dc =
     (case dc of (desired, changed) \<Rightarrow>
        if \<not> m_used (k_mutexes s i) then (desired, changed)
        else case m_owner (k_mutexes s i) of
          None \<Rightarrow> (desired, changed)
        | Some w \<Rightarrow>
            let w_id = unat (t_id (k_tasks s w));
                inherited = spec_MutexInherited desired s i (desired w_id)
            in if desired w_id < inherited then (desired(w_id := inherited), True)
               else (desired, changed))"

fun spec_MutexPasses :: "nat \<Rightarrow> (nat \<Rightarrow> u8) \<Rightarrow> 'p spec_kernel \<Rightarrow> nat \<Rightarrow> u8" where
  "spec_MutexPasses 0 desired s = desired"
| "spec_MutexPasses (Suc n) desired s =
     (case fold (spec_MutexPassStep s) [0..<OS_MAX_MUTEXES] (desired, False) of
        (desired', changed) \<Rightarrow> if \<not> changed then desired' else spec_MutexPasses n desired' s)"

definition spec_MutexWaitersChanged :: "'p spec_kernel \<Rightarrow> 'p spec_kernel option" where
  "spec_MutexWaitersChanged s =
     foldM (\<lambda>i. spec_TaskSetEffectivePriority (Some i)
              (spec_MutexPasses OS_MAX_TASKS (os_MutexBase s) s i)) [0..<unat (k_task_count s)] s"

definition spec_MutexLockCurrent :: "nat option \<Rightarrow> u32 \<Rightarrow> 'p spec_kernel \<Rightarrow> 'p spec_kernel option" where
  "spec_MutexLockCurrent mutex timeout_ticks s =
     (case k_current s of
        None \<Rightarrow> Some s
      | Some c \<Rightarrow>
          if t_state (k_tasks s c) \<noteq> OS_TASK_RUNNING then Some s
          else case mutex of
            None \<Rightarrow> Some (set_result c OS_STATUS_INVALID_ARGUMENT s)
          | Some i \<Rightarrow>
              if \<not> os_MutexIsValid mutex s then Some (set_result c OS_STATUS_INVALID_ARGUMENT s)
              else if m_owner (k_mutexes s i) = None then
                Some (set_result c OS_STATUS_OK (upd_mutex i (\<lambda>M. M\<lparr>m_owner := Some c\<rparr>) s))
              else if m_owner (k_mutexes s i) = Some c then Some (set_result c OS_STATUS_BAD_STATE s)
              else if timeout_ticks = 0 then Some (set_result c OS_STATUS_TIMEOUT s)
              else do {
                (_, s) \<leftarrow> spec_WaitBlockCurrent (Some (MutexWaiters i)) OS_WAIT_MUTEX
                            (Some (MutexObj i)) 0 timeout_ticks s;
                s \<leftarrow> spec_MutexWaitersChanged s;
                (case k_current s of
                   None \<Rightarrow> Some s
                 | Some r \<Rightarrow>
                     (case m_owner (k_mutexes s i) of
                        None \<Rightarrow> None
                      | Some w \<Rightarrow>
                          if t_effective_priority (k_tasks s r) < t_effective_priority (k_tasks s w)
                          then do {
                            (_, s) \<leftarrow> spec_SchedSchedule OS_SWITCH_HIGHER_PRIORITY_WAKEUP False s;
                            Some s
                          } else Some s))
              })"

definition spec_MutexUnlockCurrent :: "nat option \<Rightarrow> 'p spec_kernel \<Rightarrow> 'p spec_kernel option" where
  "spec_MutexUnlockCurrent mutex s =
     (case k_current s of
        None \<Rightarrow> Some s
      | Some c \<Rightarrow>
          if t_state (k_tasks s c) \<noteq> OS_TASK_RUNNING then Some s
          else case mutex of
            None \<Rightarrow> Some (set_result c OS_STATUS_INVALID_ARGUMENT s)
          | Some i \<Rightarrow>
              if \<not> os_MutexIsValid mutex s then Some (set_result c OS_STATUS_INVALID_ARGUMENT s)
              else if m_owner (k_mutexes s i) \<noteq> Some c then
                Some (set_result c OS_STATUS_NOT_OWNER s)
              else
                let (waiter, s) = spec_WaitPop (Some (MutexWaiters i)) s;
                    s = upd_mutex i (\<lambda>M. M\<lparr>m_owner := waiter\<rparr>) s;
                    s = set_result c OS_STATUS_OK s
                in do {
                  s \<leftarrow> spec_MutexWaitersChanged s;
                  if waiter \<noteq> None then do {
                    s \<leftarrow> spec_WaitMakeReady waiter OS_STATUS_OK s;
                    spec_WaitMaybePreempt waiter s
                  } else Some s
                })"

definition spec_MutexReleaseStep ::
    "nat \<Rightarrow> nat \<Rightarrow> bool \<times> 'p spec_kernel \<Rightarrow> (bool \<times> 'p spec_kernel) option" where
  "spec_MutexReleaseStep t i bs =
     (case bs of (released_any, s) \<Rightarrow>
        if m_used (k_mutexes s i) \<and> m_owner (k_mutexes s i) = Some t then
          let (waiter, s) = spec_WaitPop (Some (MutexWaiters i)) s;
              s = upd_mutex i (\<lambda>M. M\<lparr>m_owner := waiter\<rparr>) s
          in do {
            s \<leftarrow> (if waiter \<noteq> None then spec_WaitMakeReady waiter OS_STATUS_OK s else Some s);
            Some (True, s)
          }
        else Some (released_any, s))"

definition spec_MutexReleaseTask :: "nat option \<Rightarrow> 'p spec_kernel \<Rightarrow> 'p spec_kernel option" where
  "spec_MutexReleaseTask task s =
     (case task of
        None \<Rightarrow> Some s
      | Some t \<Rightarrow> do {
          (released_any, s) \<leftarrow> foldM (spec_MutexReleaseStep t) [0..<OS_MAX_MUTEXES] (False, s);
          if released_any then spec_MutexWaitersChanged s else Some s
        })"

definition spec_SchedTerminateCurrent :: "'p spec_kernel \<Rightarrow> (nat option \<times> 'p spec_kernel) option" where
  "spec_SchedTerminateCurrent s =
     (case k_current s of
        None \<Rightarrow> Some (None, s)
      | Some c \<Rightarrow>
          if t_state (k_tasks s c) \<noteq> OS_TASK_RUNNING then Some (Some c, s)
          else do {
            s \<leftarrow> spec_MutexReleaseTask (Some c) s;
            (nxt, s) \<leftarrow> spec_ReadyPopHighest (set_state c OS_TASK_TERMINATED s);
            Some (os_CommitSwitch (Some c) nxt OS_SWITCH_EXIT s)
          })"

subsection \<open>Refinement\<close>

lemma mutex_core [simp, core_simps]:
  "os_MutexIsValid i (conc h a) = os_MutexIsValid i a"
  "os_MutexBase (conc h a) = os_MutexBase a"
  "waiter_max d (conc h a) = waiter_max d a"
  by (simp_all add: os_MutexIsValid_def os_MutexBase_def waiter_max_def fun_eq_iff split: option.split)

lemma MutexCreate_refines:
  "list_rep h (k_heap a) \<Longrightarrow> sim krelv (Some (xMutexCreate (conc h a))) (spec_MutexCreate a)"
  unfolding xMutexCreate_def spec_MutexCreate_def Let_def
  by (auto simp: os_list.init_law split: option.split)

text \<open>The walk over the waiters ends, with the maximum over the list.\<close>

lemma MutexInherited_suffix:
  assumes rep: "list_rep h (k_heap a)" and "sp_nodes (k_heap a) l = xs @ ys"
  shows "os_MutexInherited d (conc h a) (first_or ys None) p =
         Some (fold (\<lambda>n. waiter_max d a (task_of n)) ys p)"
  using assms(2)
proof (induction ys arbitrary: xs p)
  case Nil
  then show ?case by (simp add: os_MutexInherited.simps)
next
  case (Cons y ys)
  have "sp_place (k_heap a) y = Some l" using rep_place [OF rep, of y l] Cons.prems by simp
  then have "n_owner (h_nodes h y) = Some (task_of y)" by (rule rep_owner_placed [OF rep])
  moreover have "n_next (h_nodes h y) = first_or ys None"
    by (rule rep_split_pointers(2) [OF rep Cons.prems])
  moreover have "os_MutexInherited d (conc h a) (first_or ys None) q =
      Some (fold (\<lambda>n. waiter_max d a (task_of n)) ys q)" for q
    using Cons.prems by (intro Cons.IH [of "xs @ [y]"]) simp
  ultimately show ?case by (simp add: os_MutexInherited.simps [of d _ "Some y"])
qed

lemma MutexInherited_conc:
  assumes rep: "list_rep h (k_heap a)"
  shows "os_MutexInherited d (conc h a) (l_head (h_lists h (MutexWaiters i))) p =
         Some (spec_MutexInherited d a i p)"
  using MutexInherited_suffix [OF rep, of "MutexWaiters i" "[]"] rep_head [OF rep]
  by (simp add: spec_MutexInherited_def)

lemma MutexPassStep_conc:
  "list_rep h (k_heap a) \<Longrightarrow> os_MutexPassStep (conc h a) i dc = Some (spec_MutexPassStep a i dc)"
  by (auto simp: os_MutexPassStep_def spec_MutexPassStep_def MutexInherited_conc Let_def
      split: option.split prod.split)

lemma MutexPass_conc:
  "list_rep h (k_heap a) \<Longrightarrow>
   foldM (os_MutexPassStep (conc h a)) is dc = Some (fold (spec_MutexPassStep a) is dc)"
  by (induction "is" arbitrary: dc) (auto simp: MutexPassStep_conc)

lemma MutexPasses_conc:
  "list_rep h (k_heap a) \<Longrightarrow> os_MutexPasses n d (conc h a) = Some (spec_MutexPasses n d a)"
  by (induction n arbitrary: d) (auto simp: MutexPass_conc split: prod.split simp del: OS_MAX_MUTEXES_def)

lemma MutexWaitersChanged_refines [sim_intros]:
  "list_rep h (k_heap a) \<Longrightarrow> sim krel (os_MutexWaitersChanged (conc h a)) (spec_MutexWaitersChanged a)"
  unfolding os_MutexWaitersChanged_def spec_MutexWaitersChanged_def
  by (simp add: MutexPasses_conc del: OS_MAX_TASKS_def)
    (intro sim_foldM_state TaskSetEffectivePriority_refines)

lemma MutexLockCurrent_refines [sim_intros]:
  "list_rep h (k_heap a) \<Longrightarrow> sim krel (os_MutexLockCurrent m t (conc h a)) (spec_MutexLockCurrent m t a)"
  unfolding os_MutexLockCurrent_def spec_MutexLockCurrent_def
  by (auto intro!: sim_intros)

lemma MutexUnlockCurrent_refines [sim_intros]:
  "list_rep h (k_heap a) \<Longrightarrow> sim krel (os_MutexUnlockCurrent m (conc h a)) (spec_MutexUnlockCurrent m a)"
  unfolding os_MutexUnlockCurrent_def spec_MutexUnlockCurrent_def Let_def
  by (auto intro!: sim_intros sim_WaitPop)

lemma MutexReleaseStep_refines:
  "krelv bs bs' \<Longrightarrow> sim krelv (os_MutexReleaseStep t i bs) (spec_MutexReleaseStep t i bs')"
  unfolding os_MutexReleaseStep_def spec_MutexReleaseStep_def Let_def
  by (cases bs; cases bs') (auto intro!: sim_intros sim_WaitPop simp: krelv_def elim!: krelE)

lemma MutexReleaseTask_refines [sim_intros]:
  "list_rep h (k_heap a) \<Longrightarrow> sim krel (os_MutexReleaseTask t (conc h a)) (spec_MutexReleaseTask t a)"
  unfolding os_MutexReleaseTask_def spec_MutexReleaseTask_def
  by (auto intro!: sim_intros sim_foldM MutexReleaseStep_refines)

lemma SchedTerminateCurrent_refines [sim_intros]:
  "list_rep h (k_heap a) \<Longrightarrow> sim krelv (os_SchedTerminateCurrent (conc h a)) (spec_SchedTerminateCurrent a)"
  unfolding os_SchedTerminateCurrent_def spec_SchedTerminateCurrent_def
  by (auto intro!: sim_intros)

end
