(* ===== verification/OS_Time.thy ===== *)
theory OS_Time
  imports OS_Mutex
begin

section \<open>Delays and the system tick (kernel/src/os_time.c)\<close>

text \<open>
  Delaying the current task and the tick handler: swapping the two delay lists when the
  counter wraps around, waking every task whose time has come, charging the time slice, and
  the scheduling decision at the end.
\<close>

subsection \<open>The code\<close>

definition os_TimeDelayCurrent :: "u32 \<Rightarrow> 'p kernel \<Rightarrow> (nat option \<times> 'p kernel) option" where
  "os_TimeDelayCurrent ticks s =
     (case k_current s of
        None \<Rightarrow> Some (None, s)
      | Some c \<Rightarrow>
          if t_state (k_tasks s c) \<noteq> OS_TASK_RUNNING then Some (Some c, s)
          else if ticks = 0 then os_SchedYieldCurrent s
          else
            let ticks = (if OS_MAX_DELAY_TICKS < ticks then OS_MAX_DELAY_TICKS else ticks);
                s = set_state c OS_TASK_BLOCKED_DELAY s
            in do {
              s \<leftarrow> os_TimeDelayListInsert (Some c) (xTaskGetTickCount s + ticks) s;
              os_SchedCurrentBlocked OS_SWITCH_BLOCKED s
            })"

text \<open>What the tick does with a task that it has popped from the front of the delay list.\<close>

definition os_TimeWake :: "nat \<Rightarrow> 'p kernel \<Rightarrow> 'p kernel option" where
  "os_TimeWake t s =
     (if t_state (k_tasks s t) = OS_TASK_BLOCKED_DELAY then
        os_ReadyEnqueue (Some t) (set_state t OS_TASK_READY s)
      else if t_state (k_tasks s t) = OS_TASK_BLOCKED_OBJECT then
        let waited_for_mutex = (t_wait_kind (k_tasks s t) = OS_WAIT_MUTEX) in do {
          s \<leftarrow> (case t_wait_list (k_tasks s t) of
                 None \<Rightarrow> Some s
               | Some l \<Rightarrow>
                   if n_linked (h_nodes (k_heap s) (SchedNode t))
                   then on_heap (os_ListRemove l (SchedNode t)) s else Some s);
          s \<leftarrow> os_WaitMakeReady (Some t) OS_STATUS_TIMEOUT s;
          if waited_for_mutex then os_MutexWaitersChanged s else Some s
        }
      else Some s)"

definition os_TimeHigher :: "nat \<Rightarrow> ('h, 'p) os_kernel_t \<Rightarrow> bool" where
  "os_TimeHigher t s =
     (case k_current s of
        None \<Rightarrow> True
      | Some c \<Rightarrow> t_effective_priority (k_tasks s c) < t_effective_priority (k_tasks s t))"

text \<open>The loop over the front of the delay list; it has no bound of its own.\<close>

partial_function (option) os_TimeTickLoop ::
    "u32 \<Rightarrow> bool \<Rightarrow> 'p kernel \<Rightarrow> (bool \<times> 'p kernel) option" where
  "os_TimeTickLoop now woke s =
     (case k_px_delayed s of
        None \<Rightarrow> None
      | Some l \<Rightarrow>
          (case l_head (h_lists (k_heap s) l) of
             None \<Rightarrow> Some (woke, s)
           | Some n \<Rightarrow>
               (case n_owner (h_nodes (k_heap s) n) of
                  None \<Rightarrow> None
                | Some t \<Rightarrow>
                    if \<not> os_TickReached now (t_wake_tick (k_tasks s t)) then Some (woke, s)
                    else do {
                      s \<leftarrow> os_TimeWake t
                             (upd_task t (\<lambda>T. T\<lparr>t_delay_list := None\<rparr>)
                               (snd (on_heap_value (os_ListPopFront l) s)));
                      os_TimeTickLoop now (woke \<or> os_TimeHigher t s) s
                    })))"

declare os_TimeTickLoop.simps [code]

definition os_TimeTick :: "'p kernel \<Rightarrow> (nat option \<times> 'p kernel) option" where
  "os_TimeTick s =
     (let s = s\<lparr>k_tick := k_tick s + 1\<rparr>;
          now = k_tick s;
          s = (if now = 0
               then s\<lparr>k_px_delayed := k_px_overflow_delayed s, k_px_overflow_delayed := k_px_delayed s\<rparr>
               else s)
      in do {
        (woke_higher_priority, s) \<leftarrow> os_TimeTickLoop now False s;
        let (slice_expired, s) =
          (case k_current s of
             None \<Rightarrow> (False, s)
           | Some c \<Rightarrow>
               let s = (if 0 < t_slice_remaining (k_tasks s c)
                        then upd_task c (\<lambda>T. T\<lparr>t_slice_remaining := t_slice_remaining T - 1\<rparr>) s else s)
               in (t_slice_remaining (k_tasks s c) = 0, s));
        if k_current s = None \<and> 0 \<le> os_ReadyHighestPriority s
        then os_SchedSchedule OS_SWITCH_HIGHER_PRIORITY_WAKEUP False s
        else if woke_higher_priority then os_SchedSchedule OS_SWITCH_HIGHER_PRIORITY_WAKEUP False s
        else if slice_expired then do {
          let before_task = k_current s;
          (after, s) \<leftarrow> os_SchedSchedule OS_SWITCH_TIME_SLICE True s;
          let s = (case after of
                     None \<Rightarrow> s
                   | Some t \<Rightarrow> if after = before_task
                       then upd_task t (\<lambda>T. T\<lparr>t_slice_remaining := OS_TIME_SLICE_TICKS\<rparr>) s else s);
          Some (after, s)
        }
        else Some (k_current s, s)
      })"

subsection \<open>List-level specification\<close>

definition spec_TimeDelayCurrent :: "u32 \<Rightarrow> 'p spec_kernel \<Rightarrow> (nat option \<times> 'p spec_kernel) option" where
  "spec_TimeDelayCurrent ticks s =
     (case k_current s of
        None \<Rightarrow> Some (None, s)
      | Some c \<Rightarrow>
          if t_state (k_tasks s c) \<noteq> OS_TASK_RUNNING then Some (Some c, s)
          else if ticks = 0 then spec_SchedYieldCurrent s
          else
            let ticks = (if OS_MAX_DELAY_TICKS < ticks then OS_MAX_DELAY_TICKS else ticks);
                s = set_state c OS_TASK_BLOCKED_DELAY s
            in do {
              s \<leftarrow> spec_TimeDelayListInsert (Some c) (xTaskGetTickCount s + ticks) s;
              spec_SchedCurrentBlocked OS_SWITCH_BLOCKED s
            })"

definition spec_TimeWake :: "nat \<Rightarrow> 'p spec_kernel \<Rightarrow> 'p spec_kernel option" where
  "spec_TimeWake t s =
     (if t_state (k_tasks s t) = OS_TASK_BLOCKED_DELAY then
        spec_ReadyEnqueue (Some t) (set_state t OS_TASK_READY s)
      else if t_state (k_tasks s t) = OS_TASK_BLOCKED_OBJECT then
        let waited_for_mutex = (t_wait_kind (k_tasks s t) = OS_WAIT_MUTEX) in do {
          s \<leftarrow> (case t_wait_list (k_tasks s t) of
                 None \<Rightarrow> Some s
               | Some l \<Rightarrow>
                   if sp_place (k_heap s) (SchedNode t) \<noteq> None
                   then on_heap (spec_Remove l (SchedNode t)) s else Some s);
          s \<leftarrow> spec_WaitMakeReady (Some t) OS_STATUS_TIMEOUT s;
          if waited_for_mutex then spec_MutexWaitersChanged s else Some s
        }
      else Some s)"

text \<open>
  In the specification the loop runs over a number of wake-ups; \<open>None\<close> when they are used
  up. Each wake-up shortens the delay list, so its length is always enough.
\<close>

fun spec_TimeTickLoop :: "nat \<Rightarrow> u32 \<Rightarrow> bool \<Rightarrow> 'p spec_kernel \<Rightarrow> (bool \<times> 'p spec_kernel) option" where
  "spec_TimeTickLoop fuel now woke s =
     (case k_px_delayed s of
        None \<Rightarrow> None
      | Some l \<Rightarrow>
          (case sp_nodes (k_heap s) l of
             [] \<Rightarrow> Some (woke, s)
           | n # ns \<Rightarrow>
               let t = task_of n in
               if \<not> os_TickReached now (t_wake_tick (k_tasks s t)) then Some (woke, s)
               else (case fuel of
                       0 \<Rightarrow> None
                     | Suc fuel \<Rightarrow> do {
                         s \<leftarrow> spec_TimeWake t
                                (upd_task t (\<lambda>T. T\<lparr>t_delay_list := None\<rparr>)
                                  (snd (on_heap_value (spec_PopFront l) s)));
                         spec_TimeTickLoop fuel now (woke \<or> os_TimeHigher t s) s
                       })))"

declare spec_TimeTickLoop.simps [simp del]

definition spec_TimeTick :: "'p spec_kernel \<Rightarrow> (nat option \<times> 'p spec_kernel) option" where
  "spec_TimeTick s =
     (let s = s\<lparr>k_tick := k_tick s + 1\<rparr>;
          now = k_tick s;
          s = (if now = 0
               then s\<lparr>k_px_delayed := k_px_overflow_delayed s, k_px_overflow_delayed := k_px_delayed s\<rparr>
               else s)
      in do {
        (woke_higher_priority, s) \<leftarrow> spec_TimeTickLoop OS_MAX_TASKS now False s;
        let (slice_expired, s) =
          (case k_current s of
             None \<Rightarrow> (False, s)
           | Some c \<Rightarrow>
               let s = (if 0 < t_slice_remaining (k_tasks s c)
                        then upd_task c (\<lambda>T. T\<lparr>t_slice_remaining := t_slice_remaining T - 1\<rparr>) s else s)
               in (t_slice_remaining (k_tasks s c) = 0, s));
        if k_current s = None \<and> 0 \<le> os_ReadyHighestPriority s
        then spec_SchedSchedule OS_SWITCH_HIGHER_PRIORITY_WAKEUP False s
        else if woke_higher_priority then spec_SchedSchedule OS_SWITCH_HIGHER_PRIORITY_WAKEUP False s
        else if slice_expired then do {
          let before_task = k_current s;
          (after, s) \<leftarrow> spec_SchedSchedule OS_SWITCH_TIME_SLICE True s;
          let s = (case after of
                     None \<Rightarrow> s
                   | Some t \<Rightarrow> if after = before_task
                       then upd_task t (\<lambda>T. T\<lparr>t_slice_remaining := OS_TIME_SLICE_TICKS\<rparr>) s else s);
          Some (after, s)
        }
        else Some (k_current s, s)
      })"

subsection \<open>Refinement\<close>

lemma TimeHigher_conc [simp, core_simps]: "os_TimeHigher t (conc h a) = os_TimeHigher t a"
  by (simp add: os_TimeHigher_def split: option.split)

lemma TimeDelayCurrent_refines [sim_intros]:
  "list_rep h (k_heap a) \<Longrightarrow> sim krelv (os_TimeDelayCurrent t (conc h a)) (spec_TimeDelayCurrent t a)"
  unfolding os_TimeDelayCurrent_def spec_TimeDelayCurrent_def Let_def
  by (auto intro!: sim_intros)

lemma TimeWake_refines [sim_intros]:
  "list_rep h (k_heap a) \<Longrightarrow> sim krel (os_TimeWake t (conc h a)) (spec_TimeWake t a)"
  unfolding os_TimeWake_def spec_TimeWake_def Let_def
  by (auto intro!: sim_intros simp: rep_linked)

lemma PopFront_conc:
  assumes "list_rep h (k_heap a)"
  obtains h' where "snd (on_heap_value (os_ListPopFront l) (conc h a)) =
      conc h' (snd (on_heap_value (spec_PopFront l) a))"
    and "list_rep h' (k_heap (snd (on_heap_value (spec_PopFront l) a)))"
  using pop_refines [OF assms, of l] by (auto simp: krelv_def elim!: krelE)

lemma rep_front_owner:
  "list_rep h A \<Longrightarrow> sp_nodes A l = n # ns \<Longrightarrow> n_owner (h_nodes h n) = Some (task_of n)"
  using rep_place [of h A n l] by (auto intro: rep_owner_placed)

lemma TimeTickLoop_refines [sim_intros]:
  "list_rep h (k_heap a) \<Longrightarrow>
   sim krelv (os_TimeTickLoop now w (conc h a)) (spec_TimeTickLoop n now w a)"
proof (induction n arbitrary: w h a)
  case 0
  then show ?case
    unfolding os_TimeTickLoop.simps [of now w "conc h a"] spec_TimeTickLoop.simps [of 0 now w a]
    using rep_head [OF 0] rep_front_owner [OF 0]
    by (auto simp: Let_def split: option.split list.split)
next
  case (Suc n)
  note rep = Suc.prems
  show ?case
  proof (cases "k_px_delayed a")
    case (Some l)
    show ?thesis
    proof (cases "sp_nodes (k_heap a) l")
      case Nil
      with Some rep rep_head [OF rep, of l] show ?thesis
        unfolding os_TimeTickLoop.simps [of now w "conc h a"] spec_TimeTickLoop.simps [of "Suc n" now w a]
        by simp
    next
      case (Cons m ms)
      note owner = rep_front_owner [OF rep Cons]
      obtain h' where pop: "snd (on_heap_value (os_ListPopFront l) (conc h a)) =
          conc h' (snd (on_heap_value (spec_PopFront l) a))"
        and rep': "list_rep h' (k_heap (snd (on_heap_value (spec_PopFront l) a)))"
        using PopFront_conc [OF rep] .
      show ?thesis
        unfolding os_TimeTickLoop.simps [of now w "conc h a"] spec_TimeTickLoop.simps [of "Suc n" now w a]
        using rep Some Cons rep_head [OF rep, of l] owner rep'
        by (auto simp: Let_def pop intro!: sim_bind_state TimeWake_refines Suc.IH)
    qed
  qed (simp add: spec_TimeTickLoop.simps [of "Suc n" now w a])
qed

lemma TimeTick_refines [sim_intros]:
  "list_rep h (k_heap a) \<Longrightarrow> sim krelv (os_TimeTick (conc h a)) (spec_TimeTick a)"
  unfolding os_TimeTick_def spec_TimeTick_def Let_def
  by (auto intro!: sim_intros simp del: OS_MAX_TASKS_def split: option.split)

end
