(* ===== verification/OS_Task.thy ===== *)
theory OS_Task
  imports OS_Time
begin

section \<open>Initialisation and task creation (kernel/src/os_task.c)\<close>

text \<open>
  \<open>os_Init\<close>, task creation with all its argument checks, the automatic Idle task, and the
  queries. A \<open>const char *\<close> argument is \<open>None\<close> for NULL and otherwise the characters up to
  the terminating NUL; both callers of \<open>os_TaskCreateInternal\<close> pass a non-NULL \<open>out_task\<close>,
  whose final contents are part of the result.
\<close>

subsection \<open>The code: creation\<close>

definition zero_task :: os_task_t where
  "zero_task = \<lparr>t_id = 0, t_name = [], t_entry = 0, t_argument = 0, t_sp = 0, t_stack_memory = 0,
     t_stack_size = 0, t_base_priority = 0, t_effective_priority = 0, t_state = OS_TASK_UNUSED,
     t_wake_tick = 0, t_slice_remaining = 0, t_wait_kind = OS_WAIT_NONE, t_wait_object = None,
     t_wait_buffer = 0, t_wait_list = None, t_wait_deadline = 0, t_wait_result = OS_STATUS_OK,
     t_delay_list = None\<rparr>"

fun name_scan :: "nat \<Rightarrow> string \<Rightarrow> nat" where
  "name_scan 0 cs = 0"
| "name_scan (Suc left) [] = 0"
| "name_scan (Suc left) (c # cs) = (if c = CHR 0x00 then 0 else Suc (name_scan left cs))"

definition os_TaskNameLength :: "string option \<Rightarrow> nat" where
  "os_TaskNameLength name = (case name of None \<Rightarrow> 0 | Some cs \<Rightarrow> name_scan OS_TASK_NAME_MAX cs)"

definition new_task ::
    "string \<Rightarrow> addr \<Rightarrow> addr \<Rightarrow> addr \<Rightarrow> u8 \<Rightarrow> addr \<Rightarrow> size_t \<Rightarrow> os_task_t \<Rightarrow> os_task_t" where
  "new_task name entry argument sp priority stack_memory stack_size T =
     T\<lparr>t_name := name, t_entry := entry, t_argument := argument, t_sp := sp,
       t_stack_memory := stack_memory, t_stack_size := stack_size,
       t_base_priority := priority, t_effective_priority := priority,
       t_state := OS_TASK_READY, t_wake_tick := 0, t_slice_remaining := 0,
       t_wait_kind := OS_WAIT_NONE, t_wait_object := None, t_wait_buffer := 0,
       t_wait_list := None, t_wait_deadline := 0, t_wait_result := OS_STATUS_BAD_STATE,
       t_delay_list := None\<rparr>"

definition os_TaskCreateInternal ::
    "'p os_port_hal \<Rightarrow> string option \<Rightarrow> addr \<Rightarrow> addr \<Rightarrow> u8 \<Rightarrow> addr \<Rightarrow> size_t \<Rightarrow> bool \<Rightarrow> 'p kernel
     \<Rightarrow> ((os_status_t \<times> nat option) \<times> 'p kernel) option" where
  "os_TaskCreateInternal hal name entry argument priority stack_memory stack_size allow_idle_priority s =
     (if \<not> k_initialized s \<or> k_started s then Some ((OS_STATUS_BAD_STATE, None), s)
      else case name of
        None \<Rightarrow> Some ((OS_STATUS_INVALID_ARGUMENT, None), s)
      | Some cs \<Rightarrow>
          let name_length = os_TaskNameLength name in
          if entry = 0 \<or> stack_memory = 0 then Some ((OS_STATUS_INVALID_ARGUMENT, None), s)
          else if name_length = 0 \<or> OS_TASK_NAME_MAX \<le> name_length then
            Some ((OS_STATUS_INVALID_ARGUMENT, None), s)
          else if (if allow_idle_priority then OS_PRIORITY_COUNT \<le> priority
                   else priority \<le> OS_IDLE_PRIORITY \<or> OS_PRIORITY_COUNT \<le> priority) then
            Some ((OS_STATUS_INVALID_ARGUMENT, None), s)
          else if stack_size < OS_MIN_STACK_BYTES then Some ((OS_STATUS_INVALID_ARGUMENT, None), s)
          else if OS_MAX_TASKS \<le> unat (k_task_count s) then Some ((OS_STATUS_LIMIT_REACHED, None), s)
          else
            let (sp, memory) = hal_stack_init hal entry argument stack_memory stack_size (k_memory s);
                s = s\<lparr>k_memory := memory\<rparr>
            in if sp = 0 then Some ((OS_STATUS_INVALID_ARGUMENT, None), s)
            else
              let t = unat (k_task_count s);
                  s = upd_task t (new_task (take name_length cs) entry argument sp priority
                                    stack_memory stack_size) s
              in do {
                s \<leftarrow> on_heap (\<lambda>h. Some (upd_node (DelayNode t)
                       (\<lambda>N. \<lparr>n_previous = None, n_next = None, n_owner = Some t, n_linked = False\<rparr>) h)) s;
                s \<leftarrow> os_ReadyEnqueue (Some t) s;
                Some ((OS_STATUS_OK, Some t), s\<lparr>k_task_count := k_task_count s + 1\<rparr>)
              })"

definition xTaskCreate ::
    "'p os_port_hal \<Rightarrow> addr \<Rightarrow> string option \<Rightarrow> u32 \<Rightarrow> addr \<Rightarrow> u8 \<Rightarrow> addr \<Rightarrow> 'p kernel
     \<Rightarrow> (nat option \<times> 'p kernel) option" where
  "xTaskCreate hal pxTaskCode pcName ulStackBytes pvParameters uxPriority puxStackBuffer s = do {
     ((status, task), s) \<leftarrow> os_TaskCreateInternal hal pcName pxTaskCode pvParameters uxPriority
                               puxStackBuffer ulStackBytes False s;
     Some (if status = OS_STATUS_OK then task else None, os_SetLastError status s)
   }"

text \<open>
  The addresses of the Idle entry point and of its static stack are link-time constants,
  hence arguments.
\<close>

definition os_EnsureIdleTask ::
    "'p os_port_hal \<Rightarrow> addr \<Rightarrow> addr \<Rightarrow> 'p kernel \<Rightarrow> (os_status_t \<times> 'p kernel) option" where
  "os_EnsureIdleTask hal idle_entry idle_stack s =
     (if k_idle_task s \<noteq> None then Some (OS_STATUS_OK, s)
      else do {
        ((status, task), s) \<leftarrow> os_TaskCreateInternal hal (Some ''Idle'') idle_entry 0 OS_IDLE_PRIORITY
                                  idle_stack OS_IDLE_STACK_BYTES True s;
        Some (status, s\<lparr>k_idle_task := task\<rparr>)
      })"

subsection \<open>The code: initialisation\<close>

definition zero_node :: os_list_node_t where
  "zero_node = \<lparr>n_previous = None, n_next = None, n_owner = None, n_linked = False\<rparr>"

text \<open>The headers and nodes that lie in \<open>g_os_kernel\<close> are cleared by its \<open>memset\<close>.\<close>

definition kernel_header :: "list_ref \<Rightarrow> bool" where
  "kernel_header l = (case l of ReadyList _ \<Rightarrow> True | DelayedList _ \<Rightarrow> True | _ \<Rightarrow> False)"

definition memset_kernel :: "'p kernel \<Rightarrow> 'p kernel" where
  "memset_kernel s = s\<lparr>k_initialized := False, k_started := False, k_tasks := (\<lambda>_. zero_task),
     k_task_count := 0, k_px_delayed := None, k_px_overflow_delayed := None,
     k_ready_bitmap := 0, k_tick := 0, k_current := None, k_last_from := None,
     k_last_to := None, k_last_reason := OS_SWITCH_NONE, k_switch_count := 0,
     k_critical_nesting := 0, k_sched_pending := False,
     k_heap := clear_headers kernel_header ((k_heap s)\<lparr>h_nodes := (\<lambda>_. zero_node)\<rparr>)\<rparr>"

definition init_task :: "nat \<Rightarrow> 'p kernel \<Rightarrow> 'p kernel" where
  "init_task index s =
     (let s = upd_task index (\<lambda>T. T\<lparr>t_id := of_nat index, t_state := OS_TASK_UNUSED\<rparr>) s
      in s\<lparr>k_heap := upd_node (DelayNode index) (\<lambda>N. N\<lparr>n_owner := Some index\<rparr>)
                       (upd_node (SchedNode index) (\<lambda>N. N\<lparr>n_owner := Some index\<rparr>) (k_heap s))\<rparr>)"

definition os_Init :: "'p kernel \<Rightarrow> 'p kernel" where
  "os_Init s =
     (let s = memset_kernel s;
          s = s\<lparr>k_idle_task := None\<rparr>;
          s = s\<lparr>k_heap := fold (\<lambda>p. os_ListInit (ReadyList (of_nat p))) [0..<unat OS_PRIORITY_COUNT] (k_heap s)\<rparr>;
          s = s\<lparr>k_heap := os_ListInit (DelayedList 1) (os_ListInit (DelayedList 0) (k_heap s))\<rparr>;
          s = s\<lparr>k_px_delayed := Some (DelayedList 0), k_px_overflow_delayed := Some (DelayedList 1)\<rparr>;
          s = s\<lparr>k_tick := 0\<rparr>;
          s = os_SemKernelReset s;
          s = os_QueueKernelReset s;
          s = os_MutexKernelReset s;
          s = fold init_task [0..<OS_MAX_TASKS] s
      in s\<lparr>k_initialized := True\<rparr>)"

subsection \<open>The code: queries\<close>

definition os_TaskIsIdle :: "nat option \<Rightarrow> ('h, 'p) os_kernel_t \<Rightarrow> bool" where
  "os_TaskIsIdle task s =
     (case task of None \<Rightarrow> False | Some t \<Rightarrow> t_base_priority (k_tasks s t) = OS_IDLE_PRIORITY)"

definition pcTaskGetName :: "nat option \<Rightarrow> ('h, 'p) os_kernel_t \<Rightarrow> string option" where
  "pcTaskGetName xTask s = (case xTask of None \<Rightarrow> None | Some t \<Rightarrow> Some (t_name (k_tasks s t)))"

definition eTaskGetState :: "nat option \<Rightarrow> ('h, 'p) os_kernel_t \<Rightarrow> os_task_state_t" where
  "eTaskGetState xTask s = (case xTask of None \<Rightarrow> OS_TASK_UNUSED | Some t \<Rightarrow> t_state (k_tasks s t))"

definition uxTaskPriorityGet :: "nat option \<Rightarrow> ('h, 'p) os_kernel_t \<Rightarrow> u8" where
  "uxTaskPriorityGet xTask s =
     (case xTask of None \<Rightarrow> OS_IDLE_PRIORITY | Some t \<Rightarrow> t_effective_priority (k_tasks s t))"

fun os_TaskStateName :: "os_task_state_t \<Rightarrow> string" where
  "os_TaskStateName OS_TASK_UNUSED = ''UNUSED''"
| "os_TaskStateName OS_TASK_READY = ''READY''"
| "os_TaskStateName OS_TASK_RUNNING = ''RUNNING''"
| "os_TaskStateName OS_TASK_BLOCKED_DELAY = ''BLOCKED_DELAY''"
| "os_TaskStateName OS_TASK_BLOCKED_OBJECT = ''BLOCKED_OBJECT''"
| "os_TaskStateName OS_TASK_TERMINATED = ''TERMINATED''"

fun os_SwitchReasonName :: "os_switch_reason_t \<Rightarrow> string" where
  "os_SwitchReasonName OS_SWITCH_NONE = ''none''"
| "os_SwitchReasonName OS_SWITCH_START = ''start''"
| "os_SwitchReasonName OS_SWITCH_TIME_SLICE = ''time_slice''"
| "os_SwitchReasonName OS_SWITCH_YIELD = ''yield''"
| "os_SwitchReasonName OS_SWITCH_HIGHER_PRIORITY_WAKEUP = ''higher_priority_wakeup''"
| "os_SwitchReasonName OS_SWITCH_BLOCKED = ''blocked''"
| "os_SwitchReasonName OS_SWITCH_EXIT = ''exit''"

subsection \<open>List-level specification\<close>

definition spec_TaskCreateInternal ::
    "'p os_port_hal \<Rightarrow> string option \<Rightarrow> addr \<Rightarrow> addr \<Rightarrow> u8 \<Rightarrow> addr \<Rightarrow> size_t \<Rightarrow> bool \<Rightarrow> 'p spec_kernel
     \<Rightarrow> ((os_status_t \<times> nat option) \<times> 'p spec_kernel) option" where
  "spec_TaskCreateInternal hal name entry argument priority stack_memory stack_size allow_idle_priority s =
     (if \<not> k_initialized s \<or> k_started s then Some ((OS_STATUS_BAD_STATE, None), s)
      else case name of
        None \<Rightarrow> Some ((OS_STATUS_INVALID_ARGUMENT, None), s)
      | Some cs \<Rightarrow>
          let name_length = os_TaskNameLength name in
          if entry = 0 \<or> stack_memory = 0 then Some ((OS_STATUS_INVALID_ARGUMENT, None), s)
          else if name_length = 0 \<or> OS_TASK_NAME_MAX \<le> name_length then
            Some ((OS_STATUS_INVALID_ARGUMENT, None), s)
          else if (if allow_idle_priority then OS_PRIORITY_COUNT \<le> priority
                   else priority \<le> OS_IDLE_PRIORITY \<or> OS_PRIORITY_COUNT \<le> priority) then
            Some ((OS_STATUS_INVALID_ARGUMENT, None), s)
          else if stack_size < OS_MIN_STACK_BYTES then Some ((OS_STATUS_INVALID_ARGUMENT, None), s)
          else if OS_MAX_TASKS \<le> unat (k_task_count s) then Some ((OS_STATUS_LIMIT_REACHED, None), s)
          else
            let (sp, memory) = hal_stack_init hal entry argument stack_memory stack_size (k_memory s);
                s = s\<lparr>k_memory := memory\<rparr>
            in if sp = 0 then Some ((OS_STATUS_INVALID_ARGUMENT, None), s)
            else
              let t = unat (k_task_count s);
                  s = upd_task t (new_task (take name_length cs) entry argument sp priority
                                    stack_memory stack_size) s
              in if sp_place (k_heap s) (DelayNode t) \<noteq> None then None
              else do {
                s \<leftarrow> spec_ReadyEnqueue (Some t) s;
                Some ((OS_STATUS_OK, Some t), s\<lparr>k_task_count := k_task_count s + 1\<rparr>)
              })"

subsection \<open>Refinement\<close>

text \<open>Writing fresh contents into a node that is in no list, or linking none, keeps the lists.\<close>

lemma rep_write_free:
  assumes rep: "list_rep h A" and free: "sp_place A n = None"
    and N: "\<not> n_linked N" "task_of n < OS_MAX_TASKS \<Longrightarrow> n_owner N = Some (task_of n)"
  shows "list_rep (upd_node n (\<lambda>_. N) h) A"
proof (rule list_repI)
  fix l
  have "n \<notin> set (sp_nodes A l)" using rep_place [OF rep] free by simp
  then show "dseg (h_nodes (upd_node n (\<lambda>_. N) h)) None (sp_nodes A l) None"
    using rep_dseg [OF rep, of l]
    by (subst dseg_frame [where nd = "h_nodes h"]) (auto simp: upd_node_def)
  show "header_ok (h_lists (upd_node n (\<lambda>_. N) h) l) (sp_nodes A l)"
    using rep_header [OF rep] by (simp add: upd_node_def)
next
  show "n_linked (h_nodes (upd_node n (\<lambda>_. N) h) m) \<longleftrightarrow> sp_place A m \<noteq> None" for m
    using rep_linked [OF rep] free N by (simp add: upd_node_def)
  show "task_of m < OS_MAX_TASKS" if "sp_place A m \<noteq> None" for m
    using that rep_pool [OF rep] by blast
  show "n_owner (h_nodes (upd_node n (\<lambda>_. N) h) m) = Some (task_of m)"
    if "task_of m < OS_MAX_TASKS" for m
    using that rep_owner [OF rep] N by (cases "m = n") (auto simp: upd_node_def)
qed (use rep_distinct [OF rep] rep_place [OF rep] in auto)

lemma TaskCreateInternal_refines [sim_intros]:
  assumes rep: "list_rep h (k_heap a)"
  shows "sim krelv (os_TaskCreateInternal hal nm e g p m z i (conc h a))
           (spec_TaskCreateInternal hal nm e g p m z i a)"
  unfolding os_TaskCreateInternal_def spec_TaskCreateInternal_def Let_def
  using rep
  by (auto intro!: sim_intros simp: on_heap_def rep_write_free split: prod.split)

end
