(* ===== verification/OS_Validate.thy ===== *)
theory OS_Validate
  imports OS_Task
begin

section \<open>The kernel's own consistency check and run-time queries (kernel/src/os_sched.c)\<close>

text \<open>
  \<open>os_KernelValidate\<close> walks every kernel list with its pointers and checks each TCB; the
  result \<open>None\<close> of a helper is an early \<open>return false\<close>. Also the run-time snapshot, the
  liveness query and the shutdown.
\<close>

subsection \<open>Snapshot, live tasks, stop\<close>

record os_runtime_snapshot_t =
  sn_tick :: u32
  sn_current :: "nat option"
  sn_last_from :: "nat option"
  sn_last_to :: "nat option"
  sn_last_reason :: os_switch_reason_t
  sn_switch_count :: u32
  sn_current_slice_remaining :: u32

definition os_GetRuntimeSnapshot :: "('h, 'p) os_kernel_t \<Rightarrow> os_runtime_snapshot_t" where
  "os_GetRuntimeSnapshot s =
     \<lparr>sn_tick = k_tick s, sn_current = k_current s, sn_last_from = k_last_from s,
      sn_last_to = k_last_to s, sn_last_reason = k_last_reason s, sn_switch_count = k_switch_count s,
      sn_current_slice_remaining =
        (case k_current s of None \<Rightarrow> 0 | Some c \<Rightarrow> t_slice_remaining (k_tasks s c))\<rparr>"

definition os_KernelHasLiveTasks :: "('h, 'p) os_kernel_t \<Rightarrow> bool" where
  "os_KernelHasLiveTasks s =
     list_ex (\<lambda>t. \<not> os_TaskIsIdle (Some t) s \<and> t_state (k_tasks s t) \<noteq> OS_TASK_UNUSED \<and>
                  t_state (k_tasks s t) \<noteq> OS_TASK_TERMINATED) [0..<unat (k_task_count s)]"

definition stop_task :: "nat \<Rightarrow> 'p kernel \<Rightarrow> 'p kernel" where
  "stop_task t s =
     (let s = upd_task t (\<lambda>T. T\<lparr>t_state := OS_TASK_TERMINATED, t_wait_kind := OS_WAIT_NONE,
                t_wait_object := None, t_wait_buffer := 0, t_wait_list := None,
                t_wait_deadline := 0, t_delay_list := None\<rparr>) s;
          reset = (\<lambda>N. N\<lparr>n_previous := None, n_next := None, n_linked := False\<rparr>)
      in s\<lparr>k_heap := upd_node (DelayNode t) reset (upd_node (SchedNode t) reset (k_heap s))\<rparr>)"

definition os_KernelStopAll :: "'p kernel \<Rightarrow> 'p kernel" where
  "os_KernelStopAll s =
     (let s = s\<lparr>k_heap := fold (\<lambda>p. os_ListInit (ReadyList (of_nat p))) [0..<unat OS_PRIORITY_COUNT] (k_heap s)\<rparr>;
          s = s\<lparr>k_heap := os_ListInit (DelayedList 1) (os_ListInit (DelayedList 0) (k_heap s))\<rparr>;
          s = s\<lparr>k_px_delayed := Some (DelayedList 0), k_px_overflow_delayed := Some (DelayedList 1),
                k_ready_bitmap := 0, k_current := None, k_started := True\<rparr>
      in fold stop_task [0..<unat (k_task_count s)] s)"

subsection \<open>os_KernelValidate\<close>

type_synonym membership = "nat \<Rightarrow> nat"

text \<open>The walk over one ready queue; \<open>count\<close> nodes have been seen.\<close>

function validate_ready_walk ::
    "'p kernel \<Rightarrow> u8 \<Rightarrow> node_ref option \<Rightarrow> node_ref option \<Rightarrow> nat \<Rightarrow> membership
     \<Rightarrow> (node_ref option \<times> nat \<times> membership) option" where
  "validate_ready_walk s priority node previous count ready =
     (case node of
        None \<Rightarrow> Some (previous, count, ready)
      | Some n \<Rightarrow>
          let N = h_nodes (k_heap s) n in
          if OS_MAX_TASKS \<le> count \<or> \<not> n_linked N \<or> n_previous N \<noteq> previous then None
          else case n_owner N of
            None \<Rightarrow> None
          | Some t \<Rightarrow>
              let T = k_tasks s t; t_index = unat (t_id T) in
              if OS_MAX_TASKS \<le> t_index then None
              else if t \<noteq> t_index then None
              else if t_state T \<noteq> OS_TASK_READY \<or> t_effective_priority T \<noteq> priority then None
              else validate_ready_walk s priority (n_next N) (Some n) (count + 1)
                     (ready(t_index := ready t_index + 1)))"
  by pat_completeness auto
termination
  by (relation "measure (\<lambda>(s, p, node, prev, count, ready). OS_MAX_TASKS - count)") auto

declare validate_ready_walk.simps [simp del]

definition validate_ready_list ::
    "'p kernel \<Rightarrow> nat \<Rightarrow> membership \<times> u8 \<Rightarrow> (membership \<times> u8) option" where
  "validate_ready_list s p rb =
     (case rb of (ready, expected_bitmap) \<Rightarrow>
        let priority = of_nat p; L = h_lists (k_heap s) (ReadyList priority) in do {
          (previous, count, ready) \<leftarrow> validate_ready_walk s priority (l_head L) None 0 ready;
          if of_nat count \<noteq> l_size L \<or> previous \<noteq> l_tail L then None
          else Some (ready, if 0 < count then expected_bitmap OR os_PriorityMask priority
                            else expected_bitmap)
        })"

function validate_delay_walk ::
    "'p kernel \<Rightarrow> list_ref \<Rightarrow> node_ref option \<Rightarrow> node_ref option \<Rightarrow> nat \<Rightarrow> u32 option \<Rightarrow> membership
     \<Rightarrow> (node_ref option \<times> nat \<times> membership) option" where
  "validate_delay_walk s l node previous count last_target delay =
     (case node of
        None \<Rightarrow> Some (previous, count, delay)
      | Some n \<Rightarrow>
          let N = h_nodes (k_heap s) n in
          if OS_MAX_TASKS \<le> count \<or> \<not> n_linked N \<or> n_previous N \<noteq> previous then None
          else case n_owner N of
            None \<Rightarrow> None
          | Some t \<Rightarrow>
              let T = k_tasks s t; t_index = unat (t_id T) in
              if OS_MAX_TASKS \<le> t_index then None
              else if t \<noteq> t_index then None
              else if t_state T \<noteq> OS_TASK_BLOCKED_DELAY \<and> t_state T \<noteq> OS_TASK_BLOCKED_OBJECT then None
              else if t_delay_list T \<noteq> Some l then None
              else if (case last_target of None \<Rightarrow> False | Some w \<Rightarrow> t_wake_tick T < w) then None
              else validate_delay_walk s l (n_next N) (Some n) (count + 1) (Some (t_wake_tick T))
                     (delay(t_index := delay t_index + 1)))"
  by pat_completeness auto
termination
  by (relation "measure (\<lambda>(s, l, node, prev, count, last, delay). OS_MAX_TASKS - count)") auto

declare validate_delay_walk.simps [simp del]

definition validate_delay_list :: "'p kernel \<Rightarrow> nat \<Rightarrow> membership \<Rightarrow> membership option" where
  "validate_delay_list s d_idx delay =
     (let l = DelayedList d_idx; L = h_lists (k_heap s) l in do {
        (previous, count, delay) \<leftarrow> validate_delay_walk s l (l_head L) None 0 None delay;
        if of_nat count \<noteq> l_size L \<or> previous \<noteq> l_tail L then None else Some delay
      })"

definition validate_state :: "'p kernel \<Rightarrow> membership \<Rightarrow> membership \<Rightarrow> nat \<Rightarrow> bool" where
  "validate_state s ready delay index =
     (let T = k_tasks s index;
          sched_linked = n_linked (h_nodes (k_heap s) (SchedNode index));
          delay_linked = n_linked (h_nodes (k_heap s) (DelayNode index))
      in case t_state T of
        OS_TASK_READY \<Rightarrow>
          ready index = 1 \<and> delay index = 0 \<and> \<not> delay_linked \<and>
          t_wait_kind T = OS_WAIT_NONE \<and> t_wait_list T = None
      | OS_TASK_BLOCKED_DELAY \<Rightarrow>
          ready index = 0 \<and> delay index = 1 \<and> delay_linked \<and> \<not> sched_linked
      | OS_TASK_RUNNING \<Rightarrow>
          k_current s = Some index \<and> ready index = 0 \<and> delay index = 0 \<and>
          \<not> sched_linked \<and> \<not> delay_linked \<and> t_wait_kind T = OS_WAIT_NONE \<and> t_wait_list T = None
      | OS_TASK_BLOCKED_OBJECT \<Rightarrow>
          ready index = 0 \<and> sched_linked \<and> t_wait_kind T \<noteq> OS_WAIT_NONE \<and> t_wait_list T \<noteq> None \<and>
          os_ListContains (t_wait_list T) (Some (SchedNode index)) (k_heap s) \<and>
          (if delay_linked
           then delay index = 1 \<and> t_delay_list T \<noteq> None \<and> t_wake_tick T = t_wait_deadline T
           else delay index = 0 \<and> t_delay_list T = None \<and> t_wait_deadline T = OS_WAIT_FOREVER)
      | OS_TASK_TERMINATED \<Rightarrow>
          ready index = 0 \<and> delay index = 0 \<and> \<not> sched_linked \<and> \<not> delay_linked
      | OS_TASK_UNUSED \<Rightarrow> False)"

definition validate_priorities :: "'p kernel \<Rightarrow> nat \<Rightarrow> bool" where
  "validate_priorities s index =
     (let T = k_tasks s index in
      if os_TaskIsIdle (Some index) s
      then t_base_priority T = OS_IDLE_PRIORITY \<and> t_effective_priority T = OS_IDLE_PRIORITY
      else \<not> (t_base_priority T \<le> OS_IDLE_PRIORITY \<or> OS_PRIORITY_COUNT \<le> t_base_priority T \<or>
              t_effective_priority T < t_base_priority T \<or>
              OS_PRIORITY_COUNT \<le> t_effective_priority T))"

definition validate_task ::
    "'p kernel \<Rightarrow> membership \<Rightarrow> membership \<Rightarrow> nat \<Rightarrow> nat \<times> nat \<Rightarrow> (nat \<times> nat) option" where
  "validate_task s ready delay index ur =
     (case ur of (used_tasks, running_tasks) \<Rightarrow>
        let T = k_tasks s index in
        if unat (t_id T) \<noteq> index \<or>
           n_owner (h_nodes (k_heap s) (SchedNode index)) \<noteq> Some index \<or>
           n_owner (h_nodes (k_heap s) (DelayNode index)) \<noteq> Some index then None
        else if t_state T = OS_TASK_UNUSED then
          (if ready index \<noteq> 0 \<or> delay index \<noteq> 0 \<or>
              n_linked (h_nodes (k_heap s) (SchedNode index)) \<or>
              n_linked (h_nodes (k_heap s) (DelayNode index))
           then None else Some (used_tasks, running_tasks))
        else if t_entry T = 0 then None
        else if \<not> validate_priorities s index then None
        else if \<not> validate_state s ready delay index then None
        else Some (used_tasks + 1,
                   if t_state T = OS_TASK_RUNNING then running_tasks + 1 else running_tasks))"

definition validate_kernel :: "'p kernel \<Rightarrow> (nat \<times> nat) option" where
  "validate_kernel s =
     (if \<not> k_initialized s \<or> OS_MAX_TASKS < unat (k_task_count s) then None
      else do {
        (ready, expected_bitmap) \<leftarrow>
          foldM (validate_ready_list s) [0..<unat OS_PRIORITY_COUNT] (\<lambda>_. 0, 0);
        if expected_bitmap \<noteq> k_ready_bitmap s then None
        else if k_px_delayed s = None \<or> k_px_overflow_delayed s = None \<or>
                k_px_delayed s = k_px_overflow_delayed s then None
        else do {
          delay \<leftarrow> foldM (validate_delay_list s) [0..<2] (\<lambda>_. 0);
          foldM (validate_task s ready delay) [0..<OS_MAX_TASKS] (0, 0)
        }
      })"

definition os_KernelValidate :: "'p kernel \<Rightarrow> bool" where
  "os_KernelValidate s =
     (case validate_kernel s of
        None \<Rightarrow> False
      | Some (used_tasks, running_tasks) \<Rightarrow>
          used_tasks = unat (k_task_count s) \<and> running_tasks \<le> 1 \<and>
          (case k_current s of
             None \<Rightarrow> running_tasks = 0
           | Some c \<Rightarrow> t_state (k_tasks s c) = OS_TASK_RUNNING))"

end
