(* ===== verification/Kernel_Invariant.thy ===== *)
theory Kernel_Invariant
  imports OS_Validate
begin

section \<open>The kernel invariant and the list primitives\<close>

text \<open>
  The invariant \<open>kinv X\<close> of the list-level kernel. \<open>X\<close> is the set of tasks that an operation
  has in its hands: a task outside \<open>X\<close> is in exactly the lists that its state calls for
  (\<open>place_ok\<close>) and its waiting fields agree with its state (\<open>wait_ok\<close>); between operations
  \<open>X\<close> is empty. The lemmas of this theory say how the list primitives and the writes of TCB
  fields move a task into and out of \<open>X\<close>.
\<close>

subsection \<open>Where a task belongs\<close>

definition sched_place :: "os_task_t \<Rightarrow> list_ref option" where
  "sched_place T =
     (if t_state T = OS_TASK_READY then Some (ReadyList (t_effective_priority T))
      else if t_state T = OS_TASK_BLOCKED_OBJECT then t_wait_list T else None)"

definition delay_place :: "os_task_t \<Rightarrow> list_ref option" where
  "delay_place T =
     (if t_state T = OS_TASK_BLOCKED_DELAY \<or> t_state T = OS_TASK_BLOCKED_OBJECT
      then t_delay_list T else None)"

text \<open>The kind of a wait, the list it is in and the object it names belong together.\<close>

fun wait_matches :: "os_wait_kind_t \<Rightarrow> list_ref option \<Rightarrow> obj_ref option \<Rightarrow> addr \<Rightarrow> u8 \<Rightarrow> bool" where
  "wait_matches OS_WAIT_SEMAPHORE (Some (SemWaiters i)) (Some (SemObj j)) b p = (i = j)"
| "wait_matches OS_WAIT_QUEUE_SEND (Some (QueueSendWaiters i)) (Some (QueueObj j)) b p = (i = j \<and> b \<noteq> 0)"
| "wait_matches OS_WAIT_QUEUE_RECEIVE (Some (QueueReceiveWaiters i)) (Some (QueueObj j)) b p = (i = j \<and> b \<noteq> 0)"
| "wait_matches OS_WAIT_MUTEX (Some (MutexWaiters i)) (Some (MutexObj j)) b p = (i = j \<and> p \<noteq> 0)"
| "wait_matches _ _ _ _ _ = False"

definition waits_on :: "os_task_t \<Rightarrow> bool" where
  "waits_on T = wait_matches (t_wait_kind T) (t_wait_list T) (t_wait_object T) (t_wait_buffer T)
     (t_base_priority T)"

fun is_wait :: "list_ref \<Rightarrow> bool" where
  "is_wait (ReadyList p) = False"
| "is_wait (DelayedList i) = False"
| "is_wait _ = True"

definition wait_ok :: "os_task_t \<Rightarrow> bool" where
  "wait_ok T \<longleftrightarrow>
     (t_state T = OS_TASK_BLOCKED_OBJECT \<longrightarrow> waits_on T \<and>
        t_wait_deadline T = (if t_delay_list T = None then OS_WAIT_FOREVER else t_wake_tick T)) \<and>
     (t_state T = OS_TASK_BLOCKED_DELAY \<longrightarrow> t_delay_list T \<noteq> None) \<and>
     (t_state T \<noteq> OS_TASK_BLOCKED_OBJECT \<longrightarrow> t_wait_kind T = OS_WAIT_NONE \<and> t_wait_list T = None) \<and>
     (t_state T \<noteq> OS_TASK_BLOCKED_OBJECT \<and> t_state T \<noteq> OS_TASK_BLOCKED_DELAY \<longrightarrow> t_delay_list T = None)"

definition prio_ok :: "os_task_t \<Rightarrow> bool" where
  "prio_ok T \<longleftrightarrow>
     (if t_base_priority T = 0 then t_effective_priority T = 0
      else t_base_priority T \<le> t_effective_priority T \<and> t_effective_priority T < 8)"

subsection \<open>The parts of the invariant\<close>

definition place_ok :: "'p spec_kernel \<Rightarrow> nat \<Rightarrow> bool" where
  "place_ok a t \<longleftrightarrow>
     sp_place (k_heap a) (SchedNode t) = sched_place (k_tasks a t) \<and>
     sp_place (k_heap a) (DelayNode t) = delay_place (k_tasks a t)"

definition base_ok :: "'p spec_kernel \<Rightarrow> nat \<Rightarrow> bool" where
  "base_ok a t \<longleftrightarrow>
     (t < 8 \<longrightarrow> unat (t_id (k_tasks a t)) = t) \<and>
     (t < unat (k_task_count a) \<longleftrightarrow> t_state (k_tasks a t) \<noteq> OS_TASK_UNUSED) \<and>
     (t < unat (k_task_count a) \<longrightarrow> t_entry (k_tasks a t) \<noteq> 0) \<and> prio_ok (k_tasks a t)"

definition qwf :: "list_spec \<Rightarrow> bool" where
  "qwf H \<longleftrightarrow>
     (\<forall>l n. n \<in> set (sp_nodes H l) \<longleftrightarrow> sp_place H n = Some l) \<and>
     (\<forall>l. distinct (sp_nodes H l)) \<and>
     (\<forall>n l. sp_place H n = Some l \<longrightarrow> task_of n < 8) \<and>
     (\<forall>t l. sp_place H (DelayNode t) = Some l \<longrightarrow> l = DelayedList 0 \<or> l = DelayedList 1) \<and>
     (\<forall>t l. sp_place H (SchedNode t) = Some l \<longrightarrow> is_wait l \<or> (\<exists>p<8. l = ReadyList p))"

definition bits_ok :: "'p spec_kernel \<Rightarrow> bool" where
  "bits_ok a \<longleftrightarrow>
     (\<forall>p::u8. p < 8 \<longrightarrow> (bit (k_ready_bitmap a) (unat p) \<longleftrightarrow> sp_nodes (k_heap a) (ReadyList p) \<noteq> []))"

definition prio_of :: "('h, 'p) os_kernel_t \<Rightarrow> node_ref \<Rightarrow> u8" where
  "prio_of a n = t_effective_priority (k_tasks a (task_of n))"

definition wake_of :: "('h, 'p) os_kernel_t \<Rightarrow> node_ref \<Rightarrow> u32" where
  "wake_of a n = t_wake_tick (k_tasks a (task_of n))"

definition sorted_ok :: "'p spec_kernel \<Rightarrow> bool" where
  "sorted_ok a \<longleftrightarrow>
     (\<forall>l. is_wait l \<longrightarrow> sorted_wrt (\<lambda>m n. prio_of a n \<le> prio_of a m) (sp_nodes (k_heap a) l)) \<and>
     (\<forall>i. sorted_wrt (\<lambda>m n. wake_of a m \<le> wake_of a n) (sp_nodes (k_heap a) (DelayedList i)))"

definition px_ok :: "('h, 'p) os_kernel_t \<Rightarrow> bool" where
  "px_ok a \<longleftrightarrow>
     (k_px_delayed a = Some (DelayedList 0) \<and> k_px_overflow_delayed a = Some (DelayedList 1)) \<or>
     (k_px_delayed a = Some (DelayedList 1) \<and> k_px_overflow_delayed a = Some (DelayedList 0))"

definition mutex_ok :: "'p spec_kernel \<Rightarrow> bool" where
  "mutex_ok a \<longleftrightarrow>
     (\<forall>i. m_used (k_mutexes a i) \<longrightarrow> i < 4) \<and>
     (\<forall>i w. m_owner (k_mutexes a i) = Some w \<longrightarrow>
        m_used (k_mutexes a i) \<and> w < unat (k_task_count a) \<and> t_base_priority (k_tasks a w) \<noteq> 0 \<and>
        t_state (k_tasks a w) \<noteq> OS_TASK_TERMINATED) \<and>
     (\<forall>i. sp_nodes (k_heap a) (MutexWaiters i) \<noteq> [] \<longrightarrow> m_owner (k_mutexes a i) \<noteq> None)"

definition kinv :: "nat set \<Rightarrow> 'p spec_kernel \<Rightarrow> bool" where
  "kinv X a \<longleftrightarrow>
     k_initialized a \<and> unat (k_task_count a) \<le> 8 \<and> px_ok a \<and> qwf (k_heap a) \<and> bits_ok a \<and>
     sorted_ok a \<and> mutex_ok a \<and> (\<forall>t. base_ok a t) \<and>
     (\<forall>t. t \<notin> X \<longrightarrow> wait_ok (k_tasks a t) \<and> place_ok a t) \<and>
     (\<forall>t p. t \<in> X \<longrightarrow> sp_place (k_heap a) (SchedNode t) \<noteq> Some (ReadyList p))"

lemma kinvD:
  assumes "kinv X a"
  shows kinv_initialized: "k_initialized a" and kinv_count: "unat (k_task_count a) \<le> 8"
    and kinv_px: "px_ok a" and kinv_qwf: "qwf (k_heap a)" and kinv_bits: "bits_ok a"
    and kinv_sorted: "sorted_ok a" and kinv_mutex: "mutex_ok a" and kinv_base: "base_ok a t"
    and kinv_wait: "t \<notin> X \<Longrightarrow> wait_ok (k_tasks a t)" and kinv_place: "t \<notin> X \<Longrightarrow> place_ok a t"
    and kinv_limbo: "t \<in> X \<Longrightarrow> sp_place (k_heap a) (SchedNode t) \<noteq> Some (ReadyList p)"
  using assms unfolding kinv_def by auto

lemma kinvI:
  assumes "k_initialized a" "unat (k_task_count a) \<le> 8" "px_ok a" "qwf (k_heap a)" "bits_ok a"
    "sorted_ok a" "mutex_ok a" "\<And>t. base_ok a t"
    "\<And>t. t \<notin> X \<Longrightarrow> wait_ok (k_tasks a t)" "\<And>t. t \<notin> X \<Longrightarrow> place_ok a t"
    "\<And>t p. t \<in> X \<Longrightarrow> sp_place (k_heap a) (SchedNode t) \<noteq> Some (ReadyList p)"
  shows "kinv X a"
  using assms unfolding kinv_def by blast

lemma qwfD:
  assumes "qwf H"
  shows qwf_mem: "n \<in> set (sp_nodes H l) \<longleftrightarrow> sp_place H n = Some l"
    and qwf_distinct: "distinct (sp_nodes H l)"
    and qwf_pool: "sp_place H n = Some l \<Longrightarrow> task_of n < 8"
    and qwf_delay: "sp_place H (DelayNode t) = Some l \<Longrightarrow> l = DelayedList 0 \<or> l = DelayedList 1"
    and qwf_sched: "sp_place H (SchedNode t) = Some l \<Longrightarrow> is_wait l \<or> (\<exists>p<8. l = ReadyList p)"
  using assms unfolding qwf_def by blast+

subsection \<open>Priority bits\<close>

lemma bit_mask_iff: "p < 8 \<Longrightarrow> n < 8 \<Longrightarrow> bit (os_PriorityMask p) n \<longleftrightarrow> n = unat p"
  by (auto simp: os_PriorityMask_def bit_simps)

lemma and_mask_iff:
  assumes "p < 8"
  shows "b AND os_PriorityMask p \<noteq> 0 \<longleftrightarrow> bit b (unat p)"
proof -
  have p8: "unat p < 8" using assms by (simp add: word_less_nat_alt)
  have "b AND os_PriorityMask p = 0 \<longleftrightarrow> (\<forall>n<8. \<not> bit (b AND os_PriorityMask p) n)"
    by (auto simp: bit_eq_iff bit_simps)
  also have "\<dots> \<longleftrightarrow> \<not> bit b (unat p)"
    using p8 assms by (auto simp: bit_and_iff bit_mask_iff)
  finally show ?thesis by blast
qed

lemma ReadyScan_cases:
  assumes "n \<le> 8"
  shows "(os_ReadyScan b n = - 1 \<and> (\<forall>p<n. \<not> bit b p)) \<or>
         (\<exists>p<n. os_ReadyScan b n = int p \<and> bit b p \<and> (\<forall>q<n. p < q \<longrightarrow> \<not> bit b q))"
  using assms
proof (induction n)
  case (Suc n)
  have "(of_nat n :: u8) < 8" "unat (of_nat n :: u8) = n"
    using Suc.prems by (auto simp: word_less_nat_alt unat_of_nat)
  then have bit_n: "b AND os_PriorityMask (of_nat n) \<noteq> 0 \<longleftrightarrow> bit b n"
    by (simp add: and_mask_iff)
  show ?case
  proof (cases "bit b n")
    case True
    then show ?thesis using bit_n by auto
  next
    case False
    then have "os_ReadyScan b (Suc n) = os_ReadyScan b n" using bit_n by simp
    then show ?thesis using Suc False by (auto simp: less_Suc_eq)
  qed
qed simp

subsection \<open>Putting a node into a list, taking it out\<close>

definition hput :: "list_ref \<Rightarrow> node_ref \<Rightarrow> node_ref list \<Rightarrow> list_spec \<Rightarrow> list_spec" where
  "hput l n xs H = H\<lparr>sp_nodes := (sp_nodes H)(l := xs), sp_place := (sp_place H)(n := Some l)\<rparr>"

definition hdrop :: "list_ref \<Rightarrow> node_ref \<Rightarrow> list_spec \<Rightarrow> list_spec" where
  "hdrop l n H = H\<lparr>sp_nodes := (sp_nodes H)(l := remove1 n (sp_nodes H l)), sp_place := (sp_place H)(n := None)\<rparr>"

lemma hput_simps [simp]:
  "sp_nodes (hput l n xs H) = (sp_nodes H)(l := xs)"
  "sp_place (hput l n xs H) = (sp_place H)(n := Some l)"
  by (simp_all add: hput_def)

lemma hdrop_simps [simp]:
  "sp_nodes (hdrop l n H) = (sp_nodes H)(l := remove1 n (sp_nodes H l))"
  "sp_place (hdrop l n H) = (sp_place H)(n := None)"
  by (simp_all add: hdrop_def)

definition nput :: "list_ref \<Rightarrow> node_ref \<Rightarrow> node_ref list \<Rightarrow> 'p spec_kernel \<Rightarrow> 'p spec_kernel" where
  "nput l n xs a = a\<lparr>k_heap := hput l n xs (k_heap a)\<rparr>"

definition ndrop :: "list_ref \<Rightarrow> node_ref \<Rightarrow> 'p spec_kernel \<Rightarrow> 'p spec_kernel" where
  "ndrop l n a = a\<lparr>k_heap := hdrop l n (k_heap a)\<rparr>"

lemma qwf_hput:
  assumes "qwf H" "sp_place H n = None" "task_of n < 8"
    and "set xs = insert n (set (sp_nodes H l))" "distinct xs"
    and "\<And>t. n = DelayNode t \<Longrightarrow> l = DelayedList 0 \<or> l = DelayedList 1"
    and "\<And>t. n = SchedNode t \<Longrightarrow> is_wait l \<or> (\<exists>p<8. l = ReadyList p)"
  shows "qwf (hput l n xs H)"
  unfolding qwf_def
proof (intro conjI allI impI)
  fix k m show "m \<in> set (sp_nodes (hput l n xs H) k) \<longleftrightarrow> sp_place (hput l n xs H) m = Some k"
    using assms(2,4) qwf_mem [OF assms(1)] by auto
qed (use assms qwf_distinct [OF assms(1)] qwf_pool [OF assms(1)] qwf_delay [OF assms(1)]
      qwf_sched [OF assms(1)] in \<open>auto split: if_splits\<close>)

lemma qwf_hdrop:
  assumes "qwf H" "sp_place H n = Some l"
  shows "qwf (hdrop l n H)"
  unfolding qwf_def
proof (intro conjI allI impI)
  fix k m show "m \<in> set (sp_nodes (hdrop l n H) k) \<longleftrightarrow> sp_place (hdrop l n H) m = Some k"
    using assms(2) qwf_mem [OF assms(1)] qwf_distinct [OF assms(1)] by auto
qed (use assms qwf_distinct [OF assms(1)] qwf_pool [OF assms(1)] qwf_delay [OF assms(1)]
      qwf_sched [OF assms(1)] in \<open>auto split: if_splits\<close>)

lemma qwf_wait_nodes:
  assumes "qwf H" "n \<in> set (sp_nodes H l)" "is_wait l \<or> (\<exists>p. l = ReadyList p)"
  shows "\<exists>t<8. n = SchedNode t"
proof (cases n)
  case (SchedNode t)
  then show ?thesis using assms qwf_mem [OF assms(1)] qwf_pool [OF assms(1), of n l] by auto
next
  case (DelayNode t)
  then show ?thesis
    using assms qwf_mem [OF assms(1), of n l] qwf_delay [OF assms(1), of t l] by auto
qed

lemma qwf_delay_nodes:
  assumes "qwf H" "n \<in> set (sp_nodes H (DelayedList i))"
  shows "\<exists>t<8. n = DelayNode t"
proof (cases n)
  case (DelayNode t)
  then show ?thesis using assms qwf_mem [OF assms(1)] qwf_pool [OF assms(1), of n] by auto
next
  case (SchedNode t)
  then show ?thesis
    using assms qwf_mem [OF assms(1), of n] qwf_sched [OF assms(1), of t] by fastforce
qed

subsection \<open>Frames\<close>

text \<open>Fields that the invariant does not read.\<close>

lemma kinv_frame [simp]:
  "kinv X (a\<lparr>k_started := b1\<rparr>) = kinv X a" "kinv X (a\<lparr>k_tick := n\<rparr>) = kinv X a"
  "kinv X (a\<lparr>k_current := c\<rparr>) = kinv X a" "kinv X (a\<lparr>k_last_from := c\<rparr>) = kinv X a"
  "kinv X (a\<lparr>k_last_to := c\<rparr>) = kinv X a" "kinv X (a\<lparr>k_last_reason := r\<rparr>) = kinv X a"
  "kinv X (a\<lparr>k_switch_count := n\<rparr>) = kinv X a" "kinv X (a\<lparr>k_critical_nesting := n\<rparr>) = kinv X a"
  "kinv X (a\<lparr>k_sched_pending := b1\<rparr>) = kinv X a" "kinv X (a\<lparr>k_idle_task := c\<rparr>) = kinv X a"
  "kinv X (a\<lparr>k_last_error := e\<rparr>) = kinv X a" "kinv X (a\<lparr>k_sems := S\<rparr>) = kinv X a"
  "kinv X (a\<lparr>k_queues := Q\<rparr>) = kinv X a" "kinv X (a\<lparr>k_memory := m\<rparr>) = kinv X a"
  "kinv X (a\<lparr>k_port := p\<rparr>) = kinv X a"
  by (simp_all add: kinv_def px_ok_def bits_ok_def sorted_ok_def prio_of_def wake_of_def mutex_ok_def
      base_ok_def place_ok_def)

lemma kinv_upd_sem [simp]: "kinv X (upd_sem i f a) = kinv X a"
  and kinv_upd_queue [simp]: "kinv X (upd_queue i g a) = kinv X a"
  by (simp_all add: upd_sem_def upd_queue_def)

text \<open>The fields of a TCB that the invariant does read.\<close>

definition tcb_view :: "os_task_t \<Rightarrow> os_task_t" where
  "tcb_view T = T\<lparr>t_name := [], t_argument := 0, t_sp := 0, t_stack_memory := 0, t_stack_size := 0,
     t_slice_remaining := 0, t_wait_result := OS_STATUS_OK\<rparr>"

lemma tcb_viewD:
  assumes "tcb_view T = tcb_view T'"
  shows "t_id T = t_id T' \<and> t_entry T = t_entry T' \<and> t_base_priority T = t_base_priority T' \<and>
    t_effective_priority T = t_effective_priority T' \<and> t_state T = t_state T' \<and>
    t_wake_tick T = t_wake_tick T' \<and> t_wait_kind T = t_wait_kind T' \<and>
    t_wait_object T = t_wait_object T' \<and> t_wait_buffer T = t_wait_buffer T' \<and>
    t_wait_list T = t_wait_list T' \<and> t_wait_deadline T = t_wait_deadline T' \<and>
    t_delay_list T = t_delay_list T'"
  using assms by (cases T; cases T') (simp add: tcb_view_def)

lemma tcb_view_factors:
  "wait_ok (tcb_view T) = wait_ok T" "prio_ok (tcb_view T) = prio_ok T"
  "sched_place (tcb_view T) = sched_place T" "delay_place (tcb_view T) = delay_place T"
  by (simp_all add: wait_ok_def waits_on_def prio_ok_def sched_place_def delay_place_def tcb_view_def)

lemma kinv_tcb_view:
  assumes "kinv X a" "tcb_view (f (k_tasks a t)) = tcb_view (k_tasks a t)"
  shows "kinv X (upd_task t f a)"
proof -
  note v = tcb_viewD [OF assms(2)]
  have w: "wait_ok (f (k_tasks a t)) = wait_ok (k_tasks a t)" "prio_ok (f (k_tasks a t)) = prio_ok (k_tasks a t)"
    "sched_place (f (k_tasks a t)) = sched_place (k_tasks a t)" "delay_place (f (k_tasks a t)) = delay_place (k_tasks a t)"
    using tcb_view_factors [of "f (k_tasks a t)"] tcb_view_factors [of "k_tasks a t"] assms(2) by simp_all
  have pr: "prio_of (upd_task t f a) n = prio_of a n" "wake_of (upd_task t f a) n = wake_of a n" for n
    using v by (simp_all add: prio_of_def wake_of_def upd_task_def)
  show ?thesis
  proof (rule kinvI)
    show "mutex_ok (upd_task t f a)" "base_ok (upd_task t f a) u" for u
      using kinv_mutex [OF assms(1)] kinv_base [OF assms(1), of u] v w
      by (auto simp: mutex_ok_def base_ok_def upd_task_def)
    show "wait_ok (k_tasks (upd_task t f a) u)" "place_ok (upd_task t f a) u" if "u \<notin> X" for u
      using kinv_wait [OF assms(1) that] kinv_place [OF assms(1) that] w
      by (auto simp: place_ok_def upd_task_def)
    show "k_initialized (upd_task t f a)" "unat (k_task_count (upd_task t f a)) \<le> 8"
      "px_ok (upd_task t f a)" "bits_ok (upd_task t f a)"
      using kinvD(1-5) [OF assms(1)] by (simp_all add: upd_task_def px_ok_def bits_ok_def)
  qed (use kinvD(1-6) [OF assms(1)] kinv_limbo [OF assms(1)] in \<open>simp_all add: sorted_ok_def pr\<close>)
qed

lemma kinv_set_result [simp]: "kinv X a \<Longrightarrow> kinv X (set_result t r a)"
  unfolding set_result_def by (rule kinv_tcb_view) (simp_all add: tcb_view_def)

lemma kinv_slice [simp]: "kinv X a \<Longrightarrow> kinv X (upd_task t (\<lambda>T. T\<lparr>t_slice_remaining := g T\<rparr>) a)"
  by (rule kinv_tcb_view) (simp_all add: tcb_view_def)

subsection \<open>Tasks in hand\<close>

text \<open>A task that is in no ready queue can be taken in hand, and released when it is in order.\<close>

lemma kinv_take:
  assumes "kinv X a" "\<And>p. sp_place (k_heap a) (SchedNode t) \<noteq> Some (ReadyList p)"
  shows "kinv (insert t X) a"
  using assms unfolding kinv_def by blast

lemma kinv_release:
  assumes "kinv (insert t X) a" "wait_ok (k_tasks a t)" "place_ok a t"
  shows "kinv X a"
proof (rule kinvI)
  show "wait_ok (k_tasks a u)" "place_ok a u" if "u \<notin> X" for u
    using that assms kinv_wait [OF assms(1), of u] kinv_place [OF assms(1), of u] by (cases "u = t"; simp)+
qed (use kinvD(1-7) [OF assms(1)] kinv_base [OF assms(1)] kinv_limbo [OF assms(1)] in simp_all)

text \<open>Writing the TCB of a task in hand. Its sort keys may change only while it is unlinked.\<close>

lemma kinv_upd:
  assumes inv: "kinv X a" and t: "t \<in> X"
    and same: "t_id (f (k_tasks a t)) = t_id (k_tasks a t)" "t_entry (f (k_tasks a t)) = t_entry (k_tasks a t)"
      "t_base_priority (f (k_tasks a t)) = t_base_priority (k_tasks a t)"
    and used: "t_state (f (k_tasks a t)) = OS_TASK_UNUSED \<longleftrightarrow> t_state (k_tasks a t) = OS_TASK_UNUSED"
    and prio: "prio_ok (f (k_tasks a t))"
    and ended: "t_state (f (k_tasks a t)) = OS_TASK_TERMINATED \<Longrightarrow> \<forall>i. m_owner (k_mutexes a i) \<noteq> Some t"
    and eff: "t_effective_priority (f (k_tasks a t)) = t_effective_priority (k_tasks a t) \<or>
      sp_place (k_heap a) (SchedNode t) = None"
    and wake: "t_wake_tick (f (k_tasks a t)) = t_wake_tick (k_tasks a t) \<or>
      sp_place (k_heap a) (DelayNode t) = None"
  shows "kinv X (upd_task t f a)"
proof (rule kinvI)
  let ?b = "upd_task t f a"
  have heap: "k_heap ?b = k_heap a" by simp
  have tasks: "k_tasks ?b u = (if u = t then f (k_tasks a t) else k_tasks a u)" for u
    by (simp add: upd_task_def)
  have rest: "k_mutexes ?b = k_mutexes a" "k_task_count ?b = k_task_count a"
    "k_initialized ?b = k_initialized a" "px_ok ?b = px_ok a" "bits_ok ?b = bits_ok a"
    by (simp_all add: upd_task_def px_ok_def bits_ok_def)
  show "k_initialized ?b" "unat (k_task_count ?b) \<le> 8" "px_ok ?b" "qwf (k_heap ?b)" "bits_ok ?b"
    using kinvD(1-5) [OF inv] by (simp_all add: rest)
  show "sorted_ok ?b"
    unfolding sorted_ok_def heap
  proof (intro conjI allI impI)
    fix l assume l: "is_wait l"
    then have "sorted_wrt (\<lambda>m n. prio_of a n \<le> prio_of a m) (sp_nodes (k_heap a) l)"
      using kinv_sorted [OF inv] by (simp add: sorted_ok_def)
    moreover have "prio_of ?b n = prio_of a n" if n: "n \<in> set (sp_nodes (k_heap a) l)" for n
    proof -
      obtain u where "n = SchedNode u" using qwf_wait_nodes [OF kinv_qwf [OF inv] n] l by blast
      with n eff qwf_mem [OF kinv_qwf [OF inv], of n l] show ?thesis
        by (auto simp: prio_of_def tasks)
    qed
    ultimately show "sorted_wrt (\<lambda>m n. prio_of ?b n \<le> prio_of ?b m) (sp_nodes (k_heap a) l)"
      by (elim sorted_wrt_mono_rel [rotated]) simp
  next
    fix i
    have "sorted_wrt (\<lambda>m n. wake_of a m \<le> wake_of a n) (sp_nodes (k_heap a) (DelayedList i))"
      using kinv_sorted [OF inv] by (simp add: sorted_ok_def)
    moreover have "wake_of ?b n = wake_of a n" if n: "n \<in> set (sp_nodes (k_heap a) (DelayedList i))" for n
    proof -
      obtain u where "n = DelayNode u" using qwf_delay_nodes [OF kinv_qwf [OF inv] n] by blast
      with n wake qwf_mem [OF kinv_qwf [OF inv], of n "DelayedList i"] show ?thesis
        by (auto simp: wake_of_def tasks)
    qed
    ultimately show "sorted_wrt (\<lambda>m n. wake_of ?b m \<le> wake_of ?b n) (sp_nodes (k_heap a) (DelayedList i))"
      by (elim sorted_wrt_mono_rel [rotated]) simp
  qed
  show "mutex_ok ?b"
    using kinv_mutex [OF inv] same ended by (auto simp: mutex_ok_def rest tasks)
  show "base_ok ?b u" for u
    using kinv_base [OF inv, of u] same used prio by (auto simp: base_ok_def rest tasks)
  show "wait_ok (k_tasks ?b u)" "place_ok ?b u" if "u \<notin> X" for u
    using kinv_wait [OF inv that] kinv_place [OF inv that] that t by (auto simp: tasks place_ok_def)
  show "sp_place (k_heap ?b) (SchedNode u) \<noteq> Some (ReadyList p)" if "u \<in> X" for u p
    using kinv_limbo [OF inv that] by simp
qed

end
