(* ===== verification/Kernel_Lists.thy ===== *)
theory Kernel_Lists
  imports Kernel_Invariant
begin

section \<open>How the list primitives move a task\<close>

text \<open>
  Every list operation of the kernel is one of: taking the node of a task in hand out of a
  list, putting it into a list, moving a task between the ready queues and the hand. Each is
  shown to keep the invariant, with the resulting state written out (\<open>nput\<close>, \<open>ndrop\<close>), so
  that what does not change is visible to the simplifier.
\<close>

lemma nput_simps [simp]:
  "k_heap (nput l n xs a) = hput l n xs (k_heap a)" "k_tasks (nput l n xs a) = k_tasks a"
  "k_current (nput l n xs a) = k_current a" "k_tick (nput l n xs a) = k_tick a"
  "k_px_delayed (nput l n xs a) = k_px_delayed a"
  "k_px_overflow_delayed (nput l n xs a) = k_px_overflow_delayed a"
  "k_started (nput l n xs a) = k_started a" "k_mutexes (nput l n xs a) = k_mutexes a"
  "k_ready_bitmap (nput l n xs a) = k_ready_bitmap a" "k_task_count (nput l n xs a) = k_task_count a"
  "k_initialized (nput l n xs a) = k_initialized a" "k_queues (nput l n xs a) = k_queues a"
  "k_sems (nput l n xs a) = k_sems a" "k_critical_nesting (nput l n xs a) = k_critical_nesting a"
  "k_port (nput l n xs a) = k_port a" "k_idle_task (nput l n xs a) = k_idle_task a"
  "k_memory (nput l n xs a) = k_memory a" "k_sched_pending (nput l n xs a) = k_sched_pending a"
  by (simp_all add: nput_def)

lemma ndrop_simps [simp]:
  "k_heap (ndrop l n a) = hdrop l n (k_heap a)" "k_tasks (ndrop l n a) = k_tasks a"
  "k_current (ndrop l n a) = k_current a" "k_tick (ndrop l n a) = k_tick a"
  "k_px_delayed (ndrop l n a) = k_px_delayed a"
  "k_px_overflow_delayed (ndrop l n a) = k_px_overflow_delayed a"
  "k_started (ndrop l n a) = k_started a" "k_mutexes (ndrop l n a) = k_mutexes a"
  "k_ready_bitmap (ndrop l n a) = k_ready_bitmap a" "k_task_count (ndrop l n a) = k_task_count a"
  "k_initialized (ndrop l n a) = k_initialized a" "k_queues (ndrop l n a) = k_queues a"
  "k_sems (ndrop l n a) = k_sems a" "k_critical_nesting (ndrop l n a) = k_critical_nesting a"
  "k_port (ndrop l n a) = k_port a" "k_idle_task (ndrop l n a) = k_idle_task a"
  "k_memory (ndrop l n a) = k_memory a" "k_sched_pending (ndrop l n a) = k_sched_pending a"
  by (simp_all add: ndrop_def)

lemma keys_list_ops [simp]:
  "prio_of (nput l n xs a) = prio_of a" "wake_of (nput l n xs a) = wake_of a"
  "prio_of (ndrop l n a) = prio_of a" "wake_of (ndrop l n a) = wake_of a"
  "px_ok (nput l n xs a) = px_ok a" "px_ok (ndrop l n a) = px_ok a"
  "base_ok (nput l n xs a) = base_ok a" "base_ok (ndrop l n a) = base_ok a"
  by (simp_all add: fun_eq_iff prio_of_def wake_of_def px_ok_def base_ok_def)

text \<open>The list operations of the specification, as \<open>nput\<close> and \<open>ndrop\<close>.\<close>

lemma list_ops_eq:
  "on_heap (spec_PushBack l n) a =
     (if sp_place (k_heap a) n \<noteq> None \<or> 8 \<le> task_of n then None
      else Some (nput l n (sp_nodes (k_heap a) l @ [n]) a))"
  "on_heap (spec_Remove l n) a =
     (if sp_place (k_heap a) n \<noteq> Some l then None else Some (ndrop l n a))"
  "on_heap (spec_InsertWhere P l n) a =
     (if sp_place (k_heap a) n \<noteq> None \<or> 8 \<le> task_of n then None
      else Some (nput l n (insert_where (\<lambda>m. P (task_of m)) n (sp_nodes (k_heap a) l)) a))"
  by (simp_all add: on_heap_spec nput_def ndrop_def hput_def hdrop_def)

lemma pop_front_eq:
  "on_heap_value (spec_PopFront l) a =
     (case sp_nodes (k_heap a) l of [] \<Rightarrow> (None, a) | n # ns \<Rightarrow> (Some n, ndrop l n a))"
  by (simp add: on_heap_value_def spec_PopFront_def ndrop_def hdrop_def split: list.split)

subsection \<open>A task in hand and the lists of waiters and of delayed tasks\<close>

lemma kinv_put:
  assumes inv: "kinv X a" and t: "task_of n \<in> X" "task_of n < 8" and free: "sp_place (k_heap a) n = None"
    and xs: "set xs = insert n (set (sp_nodes (k_heap a) l))" "distinct xs"
    and kind: "(\<exists>t. n = SchedNode t) \<and> is_wait l \<or>
      (\<exists>t. n = DelayNode t) \<and> (l = DelayedList 0 \<or> l = DelayedList 1)"
    and owned: "\<And>i. l = MutexWaiters i \<Longrightarrow> m_owner (k_mutexes a i) \<noteq> None"
    and sorted: "is_wait l \<Longrightarrow> sorted_wrt (\<lambda>m n. prio_of a n \<le> prio_of a m) xs"
      "\<And>i. l = DelayedList i \<Longrightarrow> sorted_wrt (\<lambda>m n. wake_of a m \<le> wake_of a n) xs"
  shows "kinv X (nput l n xs a)"
proof (rule kinvI)
  have notready: "l \<noteq> ReadyList p" for p using kind by auto
  show "qwf (k_heap (nput l n xs a))"
    using kind by (auto intro!: qwf_hput [OF kinv_qwf [OF inv] free t(2) xs])
  show "bits_ok (nput l n xs a)"
    using kinv_bits [OF inv] notready notready [symmetric] by (simp add: bits_ok_def)
  show "sorted_ok (nput l n xs a)"
    using kinv_sorted [OF inv] sorted by (auto simp: sorted_ok_def)
  show "mutex_ok (nput l n xs a)"
    using kinv_mutex [OF inv] owned by (auto simp: mutex_ok_def)
  show "place_ok (nput l n xs a) u" if "u \<notin> X" for u
    using kinv_place [OF inv that] that t by (auto simp: place_ok_def)
  show "sp_place (k_heap (nput l n xs a)) (SchedNode u) \<noteq> Some (ReadyList p)" if "u \<in> X" for u p
    using kinv_limbo [OF inv that] notready by simp
qed (use kinvD(1-3) [OF inv] kinv_base [OF inv] kinv_wait [OF inv] in simp_all)

lemma kinv_drop:
  assumes inv: "kinv X a" and t: "task_of n \<in> X" and at: "sp_place (k_heap a) n = Some l"
  shows "kinv X (ndrop l n a)"
proof (rule kinvI)
  have notready: "l \<noteq> ReadyList p" for p
    using at kinv_limbo [OF inv t] qwf_delay [OF kinv_qwf [OF inv]] by (cases n) auto
  show "qwf (k_heap (ndrop l n a))"
    using qwf_hdrop [OF kinv_qwf [OF inv] at] by simp
  show "bits_ok (ndrop l n a)"
    using kinv_bits [OF inv] notready notready [symmetric] by (simp add: bits_ok_def)
  show "sorted_ok (ndrop l n a)"
    using kinv_sorted [OF inv] by (auto simp: sorted_ok_def intro: sorted_wrt_remove1)
  have "remove1 n ns \<noteq> [] \<Longrightarrow> ns \<noteq> []" for ns :: "node_ref list" by auto
  then show "mutex_ok (ndrop l n a)"
    using kinv_mutex [OF inv] unfolding mutex_ok_def by (auto split: if_splits)
  show "place_ok (ndrop l n a) u" if "u \<notin> X" for u
    using kinv_place [OF inv that] that t by (auto simp: place_ok_def)
  show "sp_place (k_heap (ndrop l n a)) (SchedNode u) \<noteq> Some (ReadyList p)" if "u \<in> X" for u p
    using kinv_limbo [OF inv that] by simp
qed (use kinvD(1-3) [OF inv] kinv_base [OF inv] kinv_wait [OF inv] in simp_all)

subsection \<open>Between the hand and the ready queues\<close>

definition ready_put :: "nat \<Rightarrow> 'p spec_kernel \<Rightarrow> 'p spec_kernel" where
  "ready_put t a =
     (let p = t_effective_priority (k_tasks a t) in
      nput (ReadyList p) (SchedNode t) (sp_nodes (k_heap a) (ReadyList p) @ [SchedNode t])
        (a\<lparr>k_ready_bitmap := k_ready_bitmap a OR os_PriorityMask p\<rparr>))"

definition ready_drop :: "u8 \<Rightarrow> nat \<Rightarrow> 'p spec_kernel \<Rightarrow> 'p spec_kernel" where
  "ready_drop p t a = clear_if_empty p (ndrop (ReadyList p) (SchedNode t) a)"

lemma bit_mask [simp]: "p < 8 \<Longrightarrow> q < 8 \<Longrightarrow> bit (os_PriorityMask p) (unat q) \<longleftrightarrow> q = p"
  using bit_mask_iff [of p "unat q"] by (auto simp: word_less_nat_alt intro: unsigned_word_eqI)

lemma ready_put_simps [simp]:
  "k_tasks (ready_put t a) = k_tasks a" "k_current (ready_put t a) = k_current a"
  "k_tick (ready_put t a) = k_tick a" "k_px_delayed (ready_put t a) = k_px_delayed a"
  "k_px_overflow_delayed (ready_put t a) = k_px_overflow_delayed a" "k_started (ready_put t a) = k_started a"
  "k_mutexes (ready_put t a) = k_mutexes a" "k_task_count (ready_put t a) = k_task_count a"
  "k_initialized (ready_put t a) = k_initialized a" "k_queues (ready_put t a) = k_queues a"
  "k_sems (ready_put t a) = k_sems a" "k_critical_nesting (ready_put t a) = k_critical_nesting a"
  "k_port (ready_put t a) = k_port a" "k_idle_task (ready_put t a) = k_idle_task a"
  "k_memory (ready_put t a) = k_memory a" "k_sched_pending (ready_put t a) = k_sched_pending a"
  "sp_place (k_heap (ready_put t a)) =
     (sp_place (k_heap a))(SchedNode t := Some (ReadyList (t_effective_priority (k_tasks a t))))"
  by (simp_all add: ready_put_def Let_def)

lemma ready_drop_simps [simp]:
  "k_tasks (ready_drop p t a) = k_tasks a" "k_current (ready_drop p t a) = k_current a"
  "k_tick (ready_drop p t a) = k_tick a" "k_px_delayed (ready_drop p t a) = k_px_delayed a"
  "k_px_overflow_delayed (ready_drop p t a) = k_px_overflow_delayed a" "k_started (ready_drop p t a) = k_started a"
  "k_mutexes (ready_drop p t a) = k_mutexes a" "k_task_count (ready_drop p t a) = k_task_count a"
  "k_initialized (ready_drop p t a) = k_initialized a" "k_queues (ready_drop p t a) = k_queues a"
  "k_sems (ready_drop p t a) = k_sems a" "k_critical_nesting (ready_drop p t a) = k_critical_nesting a"
  "k_port (ready_drop p t a) = k_port a" "k_idle_task (ready_drop p t a) = k_idle_task a"
  "k_memory (ready_drop p t a) = k_memory a" "k_sched_pending (ready_drop p t a) = k_sched_pending a"
  "k_heap (ready_drop p t a) = hdrop (ReadyList p) (SchedNode t) (k_heap a)"
  by (simp_all add: ready_drop_def clear_if_empty_def)

lemma kinv_ready_put:
  assumes inv: "kinv (insert t X) a" and t: "t \<notin> X" "t < 8" "t_state (k_tasks a t) = OS_TASK_READY"
    and free: "sp_place (k_heap a) (SchedNode t) = None" "sp_place (k_heap a) (DelayNode t) = None"
    and ok: "wait_ok (k_tasks a t)"
  shows "kinv X (ready_put t a)"
proof (rule kinvI)
  define p where "p = t_effective_priority (k_tasks a t)"
  have p: "p < 8"
    using kinv_base [OF inv, of t] by (auto simp: base_ok_def prio_ok_def p_def split: if_splits)
  have new: "SchedNode t \<notin> set (sp_nodes (k_heap a) l)" for l
    using free qwf_mem [OF kinv_qwf [OF inv]] by simp
  have heap: "k_heap (ready_put t a) =
      hput (ReadyList p) (SchedNode t) (sp_nodes (k_heap a) (ReadyList p) @ [SchedNode t]) (k_heap a)"
    by (simp add: ready_put_def p_def Let_def)
  show "qwf (k_heap (ready_put t a))"
    unfolding heap using new p t qwf_distinct [OF kinv_qwf [OF inv]]
    by (intro qwf_hput [OF kinv_qwf [OF inv] free(1)]) auto
  show "bits_ok (ready_put t a)"
    using kinv_bits [OF inv] p
    by (auto simp: bits_ok_def ready_put_def bit_or_iff Let_def p_def [symmetric])
  show "sorted_ok (ready_put t a)"
    using kinv_sorted [OF inv] by (auto simp: sorted_ok_def heap prio_of_def wake_of_def)
  show "mutex_ok (ready_put t a)"
    using kinv_mutex [OF inv] by (auto simp: mutex_ok_def heap)
  show "wait_ok (k_tasks (ready_put t a) u)" if "u \<notin> X" for u
    using that kinv_wait [OF inv, of u] ok by (cases "u = t") auto
  show "place_ok (ready_put t a) u" if "u \<notin> X" for u
    using that kinv_place [OF inv, of u] free t
    by (cases "u = t") (auto simp: place_ok_def sched_place_def delay_place_def)
  show "sp_place (k_heap (ready_put t a)) (SchedNode u) \<noteq> Some (ReadyList q)" if "u \<in> X" for u q
    using that kinv_limbo [OF inv, of u] t by auto
  show "base_ok (ready_put t a) u" "px_ok (ready_put t a)" for u
    using kinv_base [OF inv, of u] kinv_px [OF inv] by (simp_all add: base_ok_def px_ok_def)
qed (use kinvD(1,2) [OF inv] in simp_all)

lemma kinv_ready_drop:
  assumes inv: "kinv X a" and at: "sp_place (k_heap a) (SchedNode t) = Some (ReadyList p)"
  shows "kinv (insert t X) (ready_drop p t a)"
proof (rule kinvI)
  have p: "p < 8" using qwf_sched [OF kinv_qwf [OF inv] at] by auto
  show "qwf (k_heap (ready_drop p t a))"
    using qwf_hdrop [OF kinv_qwf [OF inv] at] by simp
  have clear: "bit (NOT (os_PriorityMask p)) (unat q) \<longleftrightarrow> q \<noteq> p" if "q < 8" for q
    using that p by (simp add: bit_not_iff word_less_nat_alt)
  show "bits_ok (ready_drop p t a)"
    using kinv_bits [OF inv] p at qwf_mem [OF kinv_qwf [OF inv], of "SchedNode t" "ReadyList p"]
    by (auto simp: bits_ok_def ready_drop_def clear_if_empty_def bit_and_iff clear)
  show "sorted_ok (ready_drop p t a)"
    using kinv_sorted [OF inv] by (auto simp: sorted_ok_def prio_of_def wake_of_def)
  show "mutex_ok (ready_drop p t a)"
    using kinv_mutex [OF inv] by (auto simp: mutex_ok_def)
  show "wait_ok (k_tasks (ready_drop p t a) u)" if "u \<notin> insert t X" for u
    using that kinv_wait [OF inv, of u] by simp
  show "place_ok (ready_drop p t a) u" if "u \<notin> insert t X" for u
    using that kinv_place [OF inv, of u] by (auto simp: place_ok_def)
  show "sp_place (k_heap (ready_drop p t a)) (SchedNode u) \<noteq> Some (ReadyList q)" if "u \<in> insert t X" for u q
    using that kinv_limbo [OF inv, of u] by auto
  show "base_ok (ready_drop p t a) u" "px_ok (ready_drop p t a)" for u
    using kinv_base [OF inv, of u] kinv_px [OF inv] by (simp_all add: base_ok_def px_ok_def)
qed (use kinvD(1,2) [OF inv] in simp_all)

end
