(* ===== verification/Kernel_Sched.thy ===== *)
theory Kernel_Sched
  imports Kernel_Lists
begin

section \<open>Scheduling keeps the kernel in order\<close>

text \<open>
  The remaining parts of the state invariant (the running task, the delay deadlines, the
  queue storage, the state before start) and the proofs that the scheduling operations
  return and keep it. \<open>live True X\<close> is the invariant inside an operation of the started kernel,
  \<open>kernel_ok\<close> the one between operations.
\<close>

subsection \<open>Partial computations that return\<close>

definition returns :: "'a option \<Rightarrow> ('a \<Rightarrow> bool) \<Rightarrow> bool" where
  "returns m Q = (case m of None \<Rightarrow> False | Some x \<Rightarrow> Q x)"

lemma returns_Some [simp]: "returns (Some x) Q = Q x"
  by (simp add: returns_def)

lemma returns_None [simp]: "\<not> returns None Q"
  by (simp add: returns_def)

lemma returnsD: "returns m Q \<Longrightarrow> \<exists>x. m = Some x \<and> Q x"
  by (cases m) (auto simp: returns_def)

lemma returns_bind:
  assumes "returns m P" and "\<And>x. P x \<Longrightarrow> returns (f x) Q"
  shows "returns (Option.bind m f) Q"
  using assms by (cases m) (auto simp: returns_def)

lemma returns_mono: "returns m P \<Longrightarrow> (\<And>x. P x \<Longrightarrow> Q x) \<Longrightarrow> returns m Q"
  by (cases m) (auto simp: returns_def)

subsection \<open>The other parts of the invariant\<close>

definition no_running :: "('h, 'p) os_kernel_t \<Rightarrow> bool" where
  "no_running a \<longleftrightarrow> (\<forall>t. t_state (k_tasks a t) \<noteq> OS_TASK_RUNNING)"

definition run_ok :: "('h, 'p) os_kernel_t \<Rightarrow> bool" where
  "run_ok a \<longleftrightarrow> (\<forall>t. t_state (k_tasks a t) = OS_TASK_RUNNING \<longrightarrow> k_current a = Some t)"

definition current_ok :: "('h, 'p) os_kernel_t \<Rightarrow> bool" where
  "current_ok a \<longleftrightarrow> (\<forall>t. t_state (k_tasks a t) = OS_TASK_RUNNING \<longleftrightarrow> k_current a = Some t)"

text \<open>
  A delayed task has between 1 and \<open>OS_MAX_DELAY_TICKS\<close> ticks left, and is in the overflow
  list exactly when the tick counter has to wrap around before its time comes. While the
  tick handler wakes the tasks that are due (\<open>tm\<close> is false), a task may have no tick left.
\<close>

definition time_ok :: "bool \<Rightarrow> 'p spec_kernel \<Rightarrow> bool" where
  "time_ok tm a \<longleftrightarrow>
     (\<forall>t l. sp_place (k_heap a) (DelayNode t) = Some l \<longrightarrow>
        (k_px_delayed a = Some l \<longrightarrow> k_tick a \<le> t_wake_tick (k_tasks a t) \<and>
           (tm \<longrightarrow> k_tick a \<noteq> t_wake_tick (k_tasks a t))) \<and>
        (k_px_overflow_delayed a = Some l \<longrightarrow> t_wake_tick (k_tasks a t) < k_tick a) \<and>
        t_wake_tick (k_tasks a t) - k_tick a \<le> OS_MAX_DELAY_TICKS)"

text \<open>
  The storage of a queue is an object in memory, so it does not wrap around address 0, and the
  write index is the read index advanced by the number of messages. A semaphore never counts
  beyond its maximum.
\<close>

definition queue_ok :: "os_queue_t \<Rightarrow> bool" where
  "queue_ok Q \<longleftrightarrow> (q_used Q \<longrightarrow> queue_valid Q \<and>
     unat (q_buffer Q) + unat (q_item_size Q) * unat (q_capacity Q) \<le> 2 ^ 32 \<and>
     unat (q_tail Q) = (unat (q_head Q) + unat (q_count Q)) mod unat (q_capacity Q))"

definition sem_ok :: "os_sem_t \<Rightarrow> bool" where
  "sem_ok S \<longleftrightarrow> s_count S \<le> s_maximum_count S"

definition objects_ok :: "('h, 'p) os_kernel_t \<Rightarrow> bool" where
  "objects_ok a \<longleftrightarrow> (\<forall>i. queue_ok (k_queues a i)) \<and> (\<forall>i. sem_ok (k_sems a i))"

definition boot_ok :: "('h, 'p) os_kernel_t \<Rightarrow> bool" where
  "boot_ok a \<longleftrightarrow> (\<not> k_started a \<longrightarrow> k_current a = None \<and>
     (\<forall>t. t_state (k_tasks a t) = OS_TASK_UNUSED \<or> t_state (k_tasks a t) = OS_TASK_READY))"

definition live :: "bool \<Rightarrow> nat set \<Rightarrow> 'p spec_kernel \<Rightarrow> bool" where
  "live tm X a \<longleftrightarrow> kinv X a \<and> run_ok a \<and> time_ok tm a \<and> objects_ok a \<and> k_started a"

definition kernel_ok :: "'p spec_kernel \<Rightarrow> bool" where
  "kernel_ok a \<longleftrightarrow> kinv {} a \<and> current_ok a \<and> time_ok True a \<and> objects_ok a \<and> boot_ok a"

lemma liveD:
  assumes "live tm X a"
  shows live_kinv: "kinv X a" and live_run: "run_ok a" and live_time: "time_ok tm a"
    and live_objects: "objects_ok a" and live_started: "k_started a"
  using assms by (simp_all add: live_def)

lemma kernel_ok_live: "kernel_ok a \<Longrightarrow> k_started a \<Longrightarrow> live True {} a"
  by (simp add: kernel_ok_def live_def run_ok_def current_ok_def)

lemma live_kernel_ok: "live True {} a \<Longrightarrow> current_ok a \<Longrightarrow> kernel_ok a"
  by (simp add: kernel_ok_def live_def boot_ok_def)

lemma kernel_ok_current:
  "kernel_ok a \<Longrightarrow> k_current a = Some c \<Longrightarrow> k_started a \<and> t_state (k_tasks a c) = OS_TASK_RUNNING"
  by (auto simp: kernel_ok_def boot_ok_def current_ok_def)

text \<open>What the scheduling operations leave alone.\<close>

definition same_objects :: "'p spec_kernel \<Rightarrow> 'p spec_kernel \<Rightarrow> bool" where
  "same_objects a b \<longleftrightarrow> k_sems b = k_sems a \<and> k_queues b = k_queues a \<and> k_mutexes b = k_mutexes a \<and>
     k_memory b = k_memory a \<and> k_tick b = k_tick a \<and> k_px_delayed b = k_px_delayed a \<and>
     k_px_overflow_delayed b = k_px_overflow_delayed a \<and> k_task_count b = k_task_count a \<and>
     k_critical_nesting b = k_critical_nesting a \<and> k_started b = k_started a \<and>
     k_port b = k_port a \<and> k_idle_task b = k_idle_task a"

lemma same_objects_refl [simp]: "same_objects a a"
  by (simp add: same_objects_def)

lemma same_objects_trans: "same_objects a b \<Longrightarrow> same_objects b c \<Longrightarrow> same_objects a c"
  by (simp add: same_objects_def)

lemma same_objects_ops [simp]:
  "same_objects a (nput l n xs b) = same_objects a b" "same_objects a (ndrop l n b) = same_objects a b"
  "same_objects a (ready_put t b) = same_objects a b" "same_objects a (ready_drop p t b) = same_objects a b"
  "same_objects (nput l n xs a) b = same_objects a b" "same_objects (ndrop l n a) b = same_objects a b"
  "same_objects a (upd_task t f b) = same_objects a b" "same_objects (upd_task t f a) b = same_objects a b" "same_objects a (b\<lparr>k_current := c\<rparr>) = same_objects a b"
  by (simp_all add: same_objects_def upd_task_def nput_def ndrop_def ready_put_def ready_drop_def
      clear_if_empty_def Let_def)

subsection \<open>The parts of the invariant under the primitive steps\<close>

lemma live_upd:
  assumes "live tm X a" "t \<in> X"
    and "t_id (f (k_tasks a t)) = t_id (k_tasks a t)" "t_entry (f (k_tasks a t)) = t_entry (k_tasks a t)"
      "t_base_priority (f (k_tasks a t)) = t_base_priority (k_tasks a t)"
    and "t_state (f (k_tasks a t)) = OS_TASK_UNUSED \<longleftrightarrow> t_state (k_tasks a t) = OS_TASK_UNUSED"
    and "t_state (f (k_tasks a t)) = OS_TASK_RUNNING \<Longrightarrow> k_current a = Some t"
    and "prio_ok (f (k_tasks a t))"
    and "t_state (f (k_tasks a t)) = OS_TASK_TERMINATED \<Longrightarrow> \<forall>i. m_owner (k_mutexes a i) \<noteq> Some t"
    and "t_effective_priority (f (k_tasks a t)) = t_effective_priority (k_tasks a t) \<or>
      sp_place (k_heap a) (SchedNode t) = None"
    and "t_wake_tick (f (k_tasks a t)) = t_wake_tick (k_tasks a t) \<or>
      sp_place (k_heap a) (DelayNode t) = None"
  shows "live tm X (upd_task t f a)"
proof -
  have "kinv X (upd_task t f a)"
    using assms(2-6,8-11) by (intro kinv_upd live_kinv [OF assms(1)])
  moreover have "run_ok (upd_task t f a)"
    using live_run [OF assms(1)] assms(7) by (auto simp: run_ok_def upd_task_def)
  moreover have "time_ok tm (upd_task t f a)"
    using live_time [OF assms(1)] assms(11) by (fastforce simp: time_ok_def upd_task_def)
  ultimately show ?thesis
    using live_objects [OF assms(1)] live_started [OF assms(1)]
    by (simp add: live_def objects_ok_def upd_task_def)
qed

lemma live_take:
  "live tm X a \<Longrightarrow> (\<And>p. sp_place (k_heap a) (SchedNode t) \<noteq> Some (ReadyList p)) \<Longrightarrow> live tm (insert t X) a"
  by (simp add: live_def kinv_take)

lemma live_release:
  "live tm (insert t X) a \<Longrightarrow> wait_ok (k_tasks a t) \<Longrightarrow> place_ok a t \<Longrightarrow> live tm X a"
  by (auto simp: live_def intro: kinv_release)

lemma live_drop:
  "live tm X a \<Longrightarrow> task_of n \<in> X \<Longrightarrow> sp_place (k_heap a) n = Some l \<Longrightarrow> live tm X (ndrop l n a)"
  by (auto simp: live_def kinv_drop run_ok_def time_ok_def objects_ok_def)

lemma live_put_wait:
  assumes "live tm X a" "t \<in> X" "t < 8" "sp_place (k_heap a) (SchedNode t) = None" "is_wait l"
    and "set xs = insert (SchedNode t) (set (sp_nodes (k_heap a) l))" "distinct xs"
    and "sorted_wrt (\<lambda>m n. prio_of a n \<le> prio_of a m) xs"
    and "\<And>i. l = MutexWaiters i \<Longrightarrow> m_owner (k_mutexes a i) \<noteq> None"
  shows "live tm X (nput l (SchedNode t) xs a)"
proof -
  have "kinv X (nput l (SchedNode t) xs a)"
    using assms by (intro kinv_put) (auto dest: live_kinv)
  then show ?thesis
    using assms(1) by (auto simp: live_def run_ok_def time_ok_def objects_ok_def)
qed

lemma live_put_delay:
  assumes "live tm X a" "t \<in> X" "t < 8" "sp_place (k_heap a) (DelayNode t) = None"
    and "l = DelayedList 0 \<or> l = DelayedList 1"
    and "set xs = insert (DelayNode t) (set (sp_nodes (k_heap a) l))" "distinct xs"
    and "sorted_wrt (\<lambda>m n. wake_of a m \<le> wake_of a n) xs"
    and "k_px_delayed a = Some l \<Longrightarrow> k_tick a < t_wake_tick (k_tasks a t)"
    and "k_px_overflow_delayed a = Some l \<Longrightarrow> t_wake_tick (k_tasks a t) < k_tick a"
    and "t_wake_tick (k_tasks a t) - k_tick a \<le> OS_MAX_DELAY_TICKS"
  shows "live tm X (nput l (DelayNode t) xs a)"
proof -
  have "kinv X (nput l (DelayNode t) xs a)"
    using assms by (intro kinv_put) (auto dest: live_kinv)
  then show ?thesis
    using assms(1,9-11) by (auto simp: live_def run_ok_def time_ok_def objects_ok_def)
qed

lemma live_ready_put:
  assumes "live tm (insert t X) a" "t \<notin> X" "t < 8" "t_state (k_tasks a t) = OS_TASK_READY"
    and "sp_place (k_heap a) (SchedNode t) = None" "sp_place (k_heap a) (DelayNode t) = None"
    and "wait_ok (k_tasks a t)"
  shows "live tm X (ready_put t a)"
  using assms kinv_ready_put [OF live_kinv [OF assms(1)] assms(2-7)]
  by (auto simp: live_def run_ok_def time_ok_def objects_ok_def)

lemma live_ready_drop:
  "live tm X a \<Longrightarrow> sp_place (k_heap a) (SchedNode t) = Some (ReadyList p) \<Longrightarrow> live tm (insert t X) (ready_drop p t a)"
  by (auto simp: live_def kinv_ready_drop run_ok_def time_ok_def objects_ok_def)

subsection \<open>Ready queues\<close>

lemma ready_member:
  assumes "kinv X a" "SchedNode t \<in> set (sp_nodes (k_heap a) (ReadyList p))"
  shows "t \<notin> X \<and> t < 8 \<and> p < 8 \<and> t_state (k_tasks a t) = OS_TASK_READY \<and>
    t_effective_priority (k_tasks a t) = p \<and> sp_place (k_heap a) (SchedNode t) = Some (ReadyList p) \<and>
    sp_place (k_heap a) (DelayNode t) = None \<and> wait_ok (k_tasks a t)"
proof -
  have at: "sp_place (k_heap a) (SchedNode t) = Some (ReadyList p)"
    using assms(2) qwf_mem [OF kinv_qwf [OF assms(1)]] by blast
  have out: "t \<notin> X" using kinv_limbo [OF assms(1)] at by blast
  have "t < 8" using qwf_pool [OF kinv_qwf [OF assms(1)] at] by simp
  moreover have "p < 8" using qwf_sched [OF kinv_qwf [OF assms(1)] at] by simp
  moreover note place = kinv_place [OF assms(1) out] and wait = kinv_wait [OF assms(1) out]
  moreover have "t_state (k_tasks a t) = OS_TASK_READY"
  proof (rule ccontr)
    assume "t_state (k_tasks a t) \<noteq> OS_TASK_READY"
    then have "t_state (k_tasks a t) = OS_TASK_BLOCKED_OBJECT" "t_wait_list (k_tasks a t) = Some (ReadyList p)"
      using place at by (auto simp: place_ok_def sched_place_def split: if_splits)
    then have "wait_matches (t_wait_kind (k_tasks a t)) (Some (ReadyList p)) (t_wait_object (k_tasks a t))
        (t_wait_buffer (k_tasks a t)) (t_base_priority (k_tasks a t))"
      using wait by (simp add: wait_ok_def waits_on_def)
    then show False by (cases "t_wait_kind (k_tasks a t)") auto
  qed
  ultimately show ?thesis
    using at out by (auto simp: place_ok_def sched_place_def delay_place_def)
qed

lemma ready_list_out_of_range: "kinv X a \<Longrightarrow> \<not> p < 8 \<Longrightarrow> sp_nodes (k_heap a) (ReadyList p) = []"
proof (rule ccontr)
  assume a: "kinv X a" "\<not> p < 8" "sp_nodes (k_heap a) (ReadyList p) \<noteq> []"
  then obtain n where n: "n \<in> set (sp_nodes (k_heap a) (ReadyList p))" by (meson list.set_sel(1))
  then obtain t where "n = SchedNode t" using qwf_wait_nodes [OF kinv_qwf [OF a(1)] n] by auto
  with ready_member [OF a(1), of t p] n a(2) show False by simp
qed

lemma ReadyScan_8:
  "(os_ReadyScan b 8 = - 1 \<and> (\<forall>p::u8. p < 8 \<longrightarrow> \<not> bit b (unat p))) \<or>
   (\<exists>p::u8. p < 8 \<and> os_ReadyScan b 8 = uint p \<and> bit b (unat p) \<and> (\<forall>q::u8. p < q \<and> q < 8 \<longrightarrow> \<not> bit b (unat q)))"
  using ReadyScan_cases [of 8 b, OF order_refl]
proof (elim disjE)
  assume "\<exists>p<8. os_ReadyScan b 8 = int p \<and> bit b p \<and> (\<forall>q<8. p < q \<longrightarrow> \<not> bit b q)"
  then obtain p where p: "p < 8" "os_ReadyScan b 8 = int p" "bit b p" "\<forall>q<8. p < q \<longrightarrow> \<not> bit b q" by blast
  then have "unat (of_nat p :: u8) = p" by (simp add: unat_of_nat)
  with p show ?thesis
    by (intro disjI2 exI [of _ "of_nat p :: u8"]) (auto simp: word_less_nat_alt uint_nat)
qed (auto simp: word_less_nat_alt)

text \<open>The highest ready priority is read off the bitmap; its queue is not empty.\<close>

lemma HighestPriority_cases:
  assumes "kinv X a"
  obtains (none) "os_ReadyHighestPriority a = - 1" "\<And>p. sp_nodes (k_heap a) (ReadyList p) = []"
  | (some) p t ns where "p < 8" "os_ReadyHighestPriority a = uint p"
      "sp_nodes (k_heap a) (ReadyList p) = SchedNode t # ns"
      "\<And>q. p < q \<Longrightarrow> sp_nodes (k_heap a) (ReadyList q) = []"
proof -
  have bits: "bit (k_ready_bitmap a) (unat p) \<longleftrightarrow> sp_nodes (k_heap a) (ReadyList p) \<noteq> []" if "p < 8" for p
    using kinv_bits [OF assms] that by (simp add: bits_ok_def)
  have scan: "os_ReadyHighestPriority a = os_ReadyScan (k_ready_bitmap a) 8"
    by (simp add: os_ReadyHighestPriority_def)
  from ReadyScan_8 [of "k_ready_bitmap a"] show ?thesis
  proof (elim disjE exE conjE)
    assume "os_ReadyScan (k_ready_bitmap a) 8 = - 1" "\<forall>p::u8. p < 8 \<longrightarrow> \<not> bit (k_ready_bitmap a) (unat p)"
    then show thesis using none bits ready_list_out_of_range [OF assms] scan by metis
  next
    fix p :: u8
    assume p: "p < 8" "os_ReadyScan (k_ready_bitmap a) 8 = uint p" "bit (k_ready_bitmap a) (unat p)"
      "\<forall>q. p < q \<and> q < 8 \<longrightarrow> \<not> bit (k_ready_bitmap a) (unat q)"
    then obtain n ns where n: "sp_nodes (k_heap a) (ReadyList p) = n # ns"
      using bits by (meson list.exhaust)
    then obtain t where "n = SchedNode t"
      using qwf_wait_nodes [OF kinv_qwf [OF assms], of n "ReadyList p"] by auto
    with n p show thesis
      using some [of p t ns] bits ready_list_out_of_range [OF assms] scan by metis
  qed
qed

lemma ReadyPopHighest_cases:
  assumes "kinv X a"
  obtains (none) "spec_ReadyPopHighest a = Some (None, a)" "\<And>p. sp_nodes (k_heap a) (ReadyList p) = []"
  | (some) p t ns where "spec_ReadyPopHighest a = Some (Some t, ready_drop p t a)"
      "sp_nodes (k_heap a) (ReadyList p) = SchedNode t # ns"
      "\<And>q. p < q \<Longrightarrow> sp_nodes (k_heap a) (ReadyList q) = []"
proof (rule HighestPriority_cases [OF assms])
  assume "os_ReadyHighestPriority a = - 1" "\<And>p. sp_nodes (k_heap a) (ReadyList p) = []"
  then show thesis using none by (simp add: spec_ReadyPopHighest_def)
next
  fix p t ns
  assume p: "p < 8" "os_ReadyHighestPriority a = uint p" "sp_nodes (k_heap a) (ReadyList p) = SchedNode t # ns"
    "\<And>q. p < q \<Longrightarrow> sp_nodes (k_heap a) (ReadyList q) = []"
  moreover have "\<not> uint p < 0" by simp
  ultimately show thesis
    by (intro some [of t p ns]) (simp_all add: spec_ReadyPopHighest_def pop_front_eq ready_drop_def)
qed


subsection \<open>Dispatching\<close>

text \<open>
  No task is running and the highest ready task is dispatched: the invariant holds between
  operations again, and the task that runs has the highest priority of all ready tasks.
\<close>

definition top_running :: "('h, 'p) os_kernel_t \<Rightarrow> bool" where
  "top_running a \<longleftrightarrow> (\<forall>t. t_state (k_tasks a t) = OS_TASK_READY \<longrightarrow>
     (\<exists>c. k_current a = Some c \<and> t_effective_priority (k_tasks a t) \<le> t_effective_priority (k_tasks a c)))"

lemma ready_tasks:
  assumes "kinv {} a" "t_state (k_tasks a t) = OS_TASK_READY"
  shows "SchedNode t \<in> set (sp_nodes (k_heap a) (ReadyList (t_effective_priority (k_tasks a t))))"
  using kinv_place [OF assms(1), of t] assms(2) qwf_mem [OF kinv_qwf [OF assms(1)]]
  by (simp add: place_ok_def sched_place_def)

definition dispatched :: "'p spec_kernel \<Rightarrow> 'p spec_kernel \<Rightarrow> bool" where
  "dispatched a b \<longleftrightarrow> live True {} b \<and> current_ok b \<and> top_running b \<and> same_objects a b"

lemma CommitSwitch_Some:
  "snd (os_CommitSwitch prev (Some t) r a) =
     (let b = (upd_task t (\<lambda>T. T\<lparr>t_state := OS_TASK_RUNNING, t_slice_remaining := OS_TIME_SLICE_TICKS\<rparr>) a)
                \<lparr>k_current := Some t\<rparr>
      in if prev \<noteq> Some t then b\<lparr>k_last_from := prev, k_last_to := Some t, k_last_reason := r,
           k_switch_count := k_switch_count b + 1\<rparr> else b)"
  by (simp add: os_CommitSwitch_def Let_def)

lemma dispatched_frame [simp]:
  "dispatched a (b\<lparr>k_last_from := p, k_last_to := n, k_last_reason := r, k_switch_count := w\<rparr>) = dispatched a b"
  by (simp add: dispatched_def live_def current_ok_def top_running_def same_objects_def run_ok_def
      time_ok_def objects_ok_def)

lemma commit_none:
  assumes "live True {} a" "no_running a" "\<And>p. sp_nodes (k_heap a) (ReadyList p) = []"
  shows "dispatched a (snd (os_CommitSwitch prev None r a))"
proof -
  have "t_state (k_tasks a t) \<noteq> OS_TASK_READY" for t
    using ready_tasks [OF live_kinv [OF assms(1)], of t] assms(3) by auto
  then have "dispatched a (a\<lparr>k_current := None\<rparr>)"
    using assms(1,2) by (simp add: dispatched_def live_def current_ok_def top_running_def no_running_def
        run_ok_def time_ok_def objects_ok_def)
  then show ?thesis by (simp add: os_CommitSwitch_def Let_def)
qed

lemma commit_some:
  assumes live: "live True {} a" and idle: "no_running a"
    and front: "sp_nodes (k_heap a) (ReadyList p) = SchedNode t # ns"
    and top: "\<And>q. p < q \<Longrightarrow> sp_nodes (k_heap a) (ReadyList q) = []"
  shows "dispatched a (snd (os_CommitSwitch prev (Some t) r (ready_drop p t a)))"
proof -
  define b where "b = ready_drop p t a"
  define f where "f = (\<lambda>T :: os_task_t. T\<lparr>t_state := OS_TASK_RUNNING, t_slice_remaining := OS_TIME_SLICE_TICKS\<rparr>)"
  note mem = ready_member [OF live_kinv [OF live], of t p, unfolded front, simplified]
  have "live True {t} b" using live_ready_drop [OF live, of t p] mem by (simp add: b_def)
  then have "live True {t} (b\<lparr>k_current := Some t\<rparr>)"
    using idle by (auto simp: live_def run_ok_def no_running_def time_ok_def objects_ok_def b_def)
  then have "live True {t} (upd_task t f (b\<lparr>k_current := Some t\<rparr>))"
    using kinv_base [OF live_kinv [OF live], of t] mem
    by (intro live_upd) (auto simp: f_def b_def base_ok_def prio_ok_def)
  then have live': "live True {} (upd_task t f (b\<lparr>k_current := Some t\<rparr>))"
    using mem by (elim live_release)
      (auto simp: wait_ok_def place_ok_def sched_place_def delay_place_def upd_task_def f_def b_def)
  have "t_effective_priority (k_tasks a u) \<le> p" if "t_state (k_tasks a u) = OS_TASK_READY" for u
    using ready_tasks [OF live_kinv [OF live] that] top
    by (metis empty_iff empty_set linorder_not_less)
  then have "dispatched a (upd_task t f (b\<lparr>k_current := Some t\<rparr>))"
    using live' idle mem
    by (auto simp: dispatched_def current_ok_def top_running_def no_running_def upd_task_def f_def b_def)
      (simp add: same_objects_def ready_drop_def clear_if_empty_def ndrop_def)
  moreover have "(upd_task t f b)\<lparr>k_current := Some t\<rparr> = upd_task t f (b\<lparr>k_current := Some t\<rparr>)"
    by (simp add: upd_task_def)
  ultimately show ?thesis
    by (simp add: CommitSwitch_Some Let_def b_def [symmetric] f_def)
qed

lemma dispatch:
  assumes "live True {} a" "no_running a"
  shows "returns (spec_ReadyPopHighest a) (\<lambda>(n, b). dispatched a (snd (os_CommitSwitch prev n r b)))"
  by (rule ReadyPopHighest_cases [OF live_kinv [OF assms(1)]])
    (use commit_none [OF assms] commit_some [OF assms] in auto)


subsection \<open>The scheduling operations\<close>

text \<open>The running task is in no list, so that it can be taken in hand.\<close>

lemma running_task:
  assumes "live tm {} a" "t_state (k_tasks a c) = OS_TASK_RUNNING"
  shows "live tm {c} a" "sp_place (k_heap a) (SchedNode c) = None" "sp_place (k_heap a) (DelayNode c) = None"
    "wait_ok (k_tasks a c)" "c < 8" "t_wait_kind (k_tasks a c) = OS_WAIT_NONE"
    "t_wait_list (k_tasks a c) = None" "t_delay_list (k_tasks a c) = None"
proof -
  have place: "place_ok a c" and wait: "wait_ok (k_tasks a c)" and base: "base_ok a c"
    using kinv_place [OF live_kinv [OF assms(1)]] kinv_wait [OF live_kinv [OF assms(1)]]
      kinv_base [OF live_kinv [OF assms(1)]] by auto
  then show free: "sp_place (k_heap a) (SchedNode c) = None" "sp_place (k_heap a) (DelayNode c) = None"
    using assms(2) by (simp_all add: place_ok_def sched_place_def delay_place_def)
  show "live tm {c} a" using live_take [OF assms(1), of c] free by simp
  show "wait_ok (k_tasks a c)" by (rule wait)
  show "c < 8" using base assms(2) kinv_count [OF live_kinv [OF assms(1)]] by (auto simp: base_ok_def)
  show "t_wait_kind (k_tasks a c) = OS_WAIT_NONE" "t_wait_list (k_tasks a c) = None"
    "t_delay_list (k_tasks a c) = None"
    using wait assms(2) by (auto simp: wait_ok_def)
qed

lemma no_running_after:
  "run_ok a \<Longrightarrow> k_current a = Some c \<Longrightarrow> t_state (f (k_tasks a c)) \<noteq> OS_TASK_RUNNING \<Longrightarrow>
   no_running (upd_task c f a)"
  by (auto simp: no_running_def run_ok_def upd_task_def)

lemma dispatched_trans: "same_objects a b \<Longrightarrow> dispatched b c \<Longrightarrow> dispatched a c"
  by (auto simp: dispatched_def intro: same_objects_trans)

lemma ReadyEnqueue_eq:
  assumes "kinv X a" "t_state (k_tasks a t) = OS_TASK_READY" "t < 8"
    and "sp_place (k_heap a) (SchedNode t) = None"
  shows "spec_ReadyEnqueue (Some t) a = Some (ready_put t a)"
proof -
  have "t_effective_priority (k_tasks a t) < 8"
    using kinv_base [OF assms(1), of t] by (auto simp: base_ok_def prio_ok_def split: if_splits)
  then show ?thesis
    using assms(2-4)
    by (simp add: spec_ReadyEnqueue_def list_ops_eq ready_put_def Let_def) (simp add: nput_def)
qed

lemma SchedRequeue_ok:
  assumes live: "live True {} a" and c: "k_current a = Some c" "t_state (k_tasks a c) = OS_TASK_RUNNING"
  shows "returns (spec_SchedRequeue c r a) (\<lambda>(n, b). dispatched a b)"
proof -
  note run = running_task [OF live c(2)]
  define b where "b = set_state c OS_TASK_READY a"
  have "live True {c} b"
    unfolding b_def set_state_def using run c kinv_base [OF live_kinv [OF live], of c]
    by (intro live_upd) (auto simp: base_ok_def prio_ok_def)
  moreover have tasks: "k_tasks b c = (k_tasks a c)\<lparr>t_state := OS_TASK_READY\<rparr>"
    by (simp add: b_def set_state_def upd_task_def)
  moreover have "wait_ok (k_tasks b c)" using run by (simp add: tasks wait_ok_def)
  ultimately have put: "live True {} (ready_put c b)"
      and enq: "spec_ReadyEnqueue (Some c) b = Some (ready_put c b)"
    using run by (auto intro!: live_ready_put ReadyEnqueue_eq simp: b_def dest: live_kinv)
  have "no_running b"
    unfolding b_def set_state_def using live_run [OF live] c(1) by (intro no_running_after) auto
  then have "no_running (ready_put c b)" by (simp add: no_running_def)
  from dispatch [OF put this, of "Some c" r] show ?thesis
    by (auto simp: spec_SchedRequeue_def b_def [symmetric] enq returns_def split: option.splits prod.splits
        intro: dispatched_trans [rotated]) (auto simp: b_def set_state_def intro: dispatched_trans [rotated])
qed

text \<open>Any scheduling decision leaves a task of the highest priority running.\<close>

lemma SchedSchedule_ok:
  assumes live: "live True {} a" and current: "current_ok a"
  shows "returns (spec_SchedSchedule r e a) (\<lambda>(n, b). dispatched a b)"
proof (cases "k_current a")
  case None
  then have "no_running a" using current by (simp add: no_running_def current_ok_def)
  with dispatch [OF live this, of None r] None live_started [OF live] show ?thesis
    by (auto simp: spec_SchedSchedule_def is_running_def returns_def split: option.splits prod.splits)
next
  case (Some c)
  then have run: "t_state (k_tasks a c) = OS_TASK_RUNNING" using current by (simp add: current_ok_def)
  note requeue = SchedRequeue_ok [OF live Some run, of r]
  have stay: "dispatched a a" if "\<And>t. t_state (k_tasks a t) = OS_TASK_READY \<Longrightarrow>
      t_effective_priority (k_tasks a t) \<le> t_effective_priority (k_tasks a c)"
    using that live current Some by (simp add: dispatched_def top_running_def)
  show ?thesis
  proof (rule HighestPriority_cases [OF live_kinv [OF live]])
    assume none: "os_ReadyHighestPriority a = - 1" "\<And>p. sp_nodes (k_heap a) (ReadyList p) = []"
    then have "dispatched a a" using stay ready_tasks [OF live_kinv [OF live]] by fastforce
    then show ?thesis
      using Some run none live_started [OF live] by (simp add: spec_SchedSchedule_def is_running_def)
  next
    fix p t ns
    assume p: "p < 8" "os_ReadyHighestPriority a = uint p"
      and top: "\<And>q. p < q \<Longrightarrow> sp_nodes (k_heap a) (ReadyList q) = []"
    have "dispatched a a" if "\<not> t_effective_priority (k_tasks a c) < p"
    proof (rule stay)
      fix u assume "t_state (k_tasks a u) = OS_TASK_READY"
      from ready_tasks [OF live_kinv [OF live] this] top
      have "\<not> p < t_effective_priority (k_tasks a u)" by fastforce
      with that show "t_effective_priority (k_tasks a u) \<le> t_effective_priority (k_tasks a c)" by simp
    qed
    then show ?thesis
      using Some run p requeue live_started [OF live]
      by (simp add: spec_SchedSchedule_def is_running_def Let_def)
  qed
qed

lemma SchedCurrentBlocked_ok:
  assumes "live True {} a" "no_running a" "k_current a = Some c"
  shows "returns (spec_SchedCurrentBlocked r a) (\<lambda>(n, b). dispatched a b)"
  using dispatch [OF assms(1,2), of "Some c" r] assms(2,3)
  by (auto simp: spec_SchedCurrentBlocked_def no_running_def returns_def split: option.splits prod.splits)

text \<open>Starting the scheduler.\<close>

lemma SchedStart_ok:
  assumes ok: "kernel_ok a"
  shows "returns (spec_SchedStart a) (\<lambda>(n, b). kernel_ok b \<and>
    (b = a \<and> (k_started a \<or> (\<forall>t. t_state (k_tasks a t) \<noteq> OS_TASK_READY)) \<or>
     \<not> k_started a \<and> dispatched (a\<lparr>k_started := True\<rparr>) b))"
proof (cases "k_started a")
  case False
  define b where "b = a\<lparr>k_started := True\<rparr>"
  have b: "live True {} b" "no_running b"
    using ok False by (auto simp: b_def live_def kernel_ok_def current_ok_def run_ok_def time_ok_def
        objects_ok_def no_running_def boot_ok_def)
  have init: "k_initialized a" using ok kinv_initialized by (auto simp: kernel_ok_def)
  show ?thesis
  proof (rule ReadyPopHighest_cases [of "{}" a])
    show "kinv {} a" using ok by (simp add: kernel_ok_def)
  next
    assume "spec_ReadyPopHighest a = Some (None, a)" "\<And>p. sp_nodes (k_heap a) (ReadyList p) = []"
    then show ?thesis
      using False init ok ready_tasks [of a] by (fastforce simp: spec_SchedStart_def kernel_ok_def)
  next
    fix p t ns
    assume pop: "spec_ReadyPopHighest a = Some (Some t, ready_drop p t a)"
      and front: "sp_nodes (k_heap a) (ReadyList p) = SchedNode t # ns"
      and top: "\<And>q. p < q \<Longrightarrow> sp_nodes (k_heap a) (ReadyList q) = []"
    have "(ready_drop p t a)\<lparr>k_started := True\<rparr> = ready_drop p t b"
      by (simp add: b_def ready_drop_def clear_if_empty_def ndrop_def)
    moreover have "dispatched b (snd (os_CommitSwitch None (Some t) OS_SWITCH_START (ready_drop p t b)))"
      using commit_some [OF b, of p t ns] front top by (simp add: b_def)
    ultimately show ?thesis
      using False init pop
      by (auto simp: spec_SchedStart_def split_beta b_def [symmetric])
        (simp add: dispatched_def live_kernel_ok)
  qed
qed (use ok in \<open>simp add: spec_SchedStart_def\<close>)

end
