(* ===== verification/Kernel_Effects.thy ===== *)
theory Kernel_Effects
  imports Kernel_Sched
begin

section \<open>What the operations change\<close>

text \<open>
  A scheduling decision moves tasks between READY and RUNNING and refills time slices, and does
  nothing else. \<open>view\<close> forgets just that part of a TCB, so that the effect of an operation is
  an equation between the views of the tasks before and after it, whatever the scheduler
  decides at its end. The lemmas of this theory give these equations for the primitives that wait, wake
  and switch.
\<close>

subsection \<open>Writes to a TCB\<close>

lemma upd_upd [simp]: "upd_task t f (upd_task t g a) = upd_task t (\<lambda>T. f (g T)) a"
  by (simp add: upd_task_def)

lemma upd_task_sel [simp]: "k_tasks (upd_task t f a) u = (if u = t then f (k_tasks a t) else k_tasks a u)"
  by (simp add: upd_task_def)

lemma upd_task_frame [simp]:
  "k_current (upd_task t f a) = k_current a" "k_tick (upd_task t f a) = k_tick a"
  "k_px_delayed (upd_task t f a) = k_px_delayed a"
  "k_px_overflow_delayed (upd_task t f a) = k_px_overflow_delayed a"
  "k_started (upd_task t f a) = k_started a" "k_mutexes (upd_task t f a) = k_mutexes a"
  "k_ready_bitmap (upd_task t f a) = k_ready_bitmap a" "k_task_count (upd_task t f a) = k_task_count a"
  "k_initialized (upd_task t f a) = k_initialized a" "k_queues (upd_task t f a) = k_queues a"
  "k_sems (upd_task t f a) = k_sems a" "k_critical_nesting (upd_task t f a) = k_critical_nesting a"
  "k_port (upd_task t f a) = k_port a" "k_idle_task (upd_task t f a) = k_idle_task a"
  "k_memory (upd_task t f a) = k_memory a" "k_sched_pending (upd_task t f a) = k_sched_pending a"
  by (simp_all add: upd_task_def)

subsection \<open>The view of a task\<close>

definition view :: "os_task_t \<Rightarrow> os_task_t" where
  "view T = T\<lparr>t_state := (if t_state T = OS_TASK_RUNNING then OS_TASK_READY else t_state T),
     t_slice_remaining := 0\<rparr>"

lemma view_sel [simp]:
  "t_id (view T) = t_id T" "t_name (view T) = t_name T" "t_entry (view T) = t_entry T"
  "t_base_priority (view T) = t_base_priority T" "t_effective_priority (view T) = t_effective_priority T"
  "t_wait_kind (view T) = t_wait_kind T" "t_wait_object (view T) = t_wait_object T"
  "t_wait_buffer (view T) = t_wait_buffer T" "t_wait_list (view T) = t_wait_list T"
  "t_wait_deadline (view T) = t_wait_deadline T" "t_wait_result (view T) = t_wait_result T"
  "t_wake_tick (view T) = t_wake_tick T" "t_delay_list (view T) = t_delay_list T"
  by (simp_all add: view_def)

lemma view_state [simp]:
  "st \<noteq> OS_TASK_READY \<Longrightarrow> st \<noteq> OS_TASK_RUNNING \<Longrightarrow> t_state (view T) = st \<longleftrightarrow> t_state T = st"
  "t_state (view T) \<noteq> OS_TASK_RUNNING"
  by (auto simp: view_def)

lemma view_upd [simp]:
  "view (T\<lparr>t_slice_remaining := n\<rparr>) = view T"
  "view (T\<lparr>t_wait_result := r\<rparr>) = (view T)\<lparr>t_wait_result := r\<rparr>"
  "view (view T) = view T"
  by (simp_all add: view_def)

lemma view_ready: "t_state T = OS_TASK_READY \<or> t_state T = OS_TASK_RUNNING \<Longrightarrow>
  st = OS_TASK_READY \<or> st = OS_TASK_RUNNING \<Longrightarrow> view (T\<lparr>t_state := st\<rparr>) = view T"
  by (auto simp: view_def)

text \<open>The views of all tasks, and the contents of all lists of waiters.\<close>

definition views :: "('h, 'p) os_kernel_t \<Rightarrow> nat \<Rightarrow> os_task_t" where
  "views a t = view (k_tasks a t)"

definition waiters :: "'p spec_kernel \<Rightarrow> list_ref \<Rightarrow> node_ref list" where
  "waiters a l = (if is_wait l then sp_nodes (k_heap a) l else [])"

lemma views_state:
  "views b = views a \<Longrightarrow> st \<noteq> OS_TASK_READY \<Longrightarrow> st \<noteq> OS_TASK_RUNNING \<Longrightarrow>
   t_state (k_tasks b t) = st \<longleftrightarrow> t_state (k_tasks a t) = st"
  using view_state(1) [of st] by (metis views_def)

lemma views_frame [simp]:
  "views (a\<lparr>k_current := c\<rparr>) = views a" "views (a\<lparr>k_sched_pending := pend\<rparr>) = views a"
  "views (a\<lparr>k_last_from := p1, k_last_to := n', k_last_reason := r, k_switch_count := w\<rparr>) = views a"
  "views (a\<lparr>k_started := st\<rparr>) = views a" "views (a\<lparr>k_memory := m\<rparr>) = views a"
  "views (upd_task t f a) = (views a)(t := view (f (k_tasks a t)))"
  "views (upd_sem i g a) = views a" "views (upd_queue i g' a) = views a" "views (upd_mutex i g'' a) = views a"
  by (auto simp: views_def fun_eq_iff upd_task_def upd_sem_def upd_queue_def upd_mutex_def)

lemma views_list_ops [simp]:
  "views (nput l n xs a) = views a" "views (ndrop l n a) = views a"
  "views (ready_put t a) = views a" "views (ready_drop p t a) = views a"
  by (simp_all add: views_def fun_eq_iff)

lemma waiters_frame [simp]:
  "waiters (a\<lparr>k_current := c\<rparr>) = waiters a" "waiters (a\<lparr>k_sched_pending := pend\<rparr>) = waiters a"
  "waiters (a\<lparr>k_last_from := p1, k_last_to := n', k_last_reason := r, k_switch_count := w\<rparr>) = waiters a"
  "waiters (a\<lparr>k_started := st\<rparr>) = waiters a" "waiters (a\<lparr>k_memory := m\<rparr>) = waiters a"
  "waiters (upd_task t f a) = waiters a" "waiters (upd_sem i g a) = waiters a"
  "waiters (upd_queue i g' a) = waiters a" "waiters (upd_mutex i g'' a) = waiters a"
  by (auto simp: waiters_def fun_eq_iff upd_task_def upd_sem_def upd_queue_def upd_mutex_def)

lemma waiters_list_ops [simp]:
  "waiters (nput l n xs a) = (if is_wait l then (waiters a)(l := xs) else waiters a)"
  "waiters (ndrop l n a) = (if is_wait l then (waiters a)(l := remove1 n (waiters a l)) else waiters a)"
  "waiters (ready_put t a) = waiters a" "waiters (ready_drop p t a) = waiters a"
  by (auto simp: waiters_def fun_eq_iff ready_put_def Let_def)

text \<open>Two states that differ by scheduling decisions only.\<close>

definition same_view :: "'p spec_kernel \<Rightarrow> 'p spec_kernel \<Rightarrow> bool" where
  "same_view a b \<longleftrightarrow> views b = views a \<and> waiters b = waiters a"

lemma same_view_refl [simp]: "same_view a a"
  by (simp add: same_view_def)

lemma same_view_pending [simp]: "same_view a (b\<lparr>k_sched_pending := pend\<rparr>) = same_view a b"
  by (simp add: same_view_def)

lemma same_view_trans: "same_view a b \<Longrightarrow> same_view b c \<Longrightarrow> same_view a c"
  by (simp add: same_view_def)

subsection \<open>Scheduling\<close>

lemma pop_commit_view:
  assumes kinv: "kinv {} a" and pop: "spec_ReadyPopHighest a = Some (n, b)"
  shows "same_view a (snd (os_CommitSwitch prev n r b))"
    and "os_CommitSwitch prev n r b = (n', e) \<Longrightarrow> same_view a e"
proof -
  show view: "same_view a (snd (os_CommitSwitch prev n r b))"
    using kinv
  proof (cases rule: ReadyPopHighest_cases)
    case none
    with pop have "n = None" "b = a" by auto
    then show ?thesis by (simp add: os_CommitSwitch_def Let_def same_view_def)
  next
    case (some p t ns)
    with pop have n: "n = Some t" "b = ready_drop p t a" by auto
    have "t_state (k_tasks a t) = OS_TASK_READY"
      using ready_member [OF kinv, of t p] some(2) by simp
    then show ?thesis
      unfolding n CommitSwitch_Some Let_def
      by (auto simp: same_view_def fun_eq_iff) (simp_all add: views_def view_def)
  qed
  show "os_CommitSwitch prev n r b = (n', e) \<Longrightarrow> same_view a e"
    using view by simp
qed

lemma Requeue_view:
  assumes live: "live True {} a" and c: "k_current a = Some c" "t_state (k_tasks a c) = OS_TASK_RUNNING"
    and run: "spec_SchedRequeue c r a = Some (n, b)"
  shows "same_view a b"
proof -
  note cur = running_task [OF live c(2)]
  define d where "d = set_state c OS_TASK_READY a"
  have live_d: "live True {c} d"
    unfolding d_def set_state_def using cur c live kinv_base [OF live_kinv [OF live], of c]
    by (intro live_upd) (auto simp: base_ok_def prio_ok_def)
  have enq: "spec_ReadyEnqueue (Some c) d = Some (ready_put c d)"
    using cur by (intro ReadyEnqueue_eq [OF live_kinv [OF live_d]]) (auto simp: d_def set_state_def)
  have kinv: "kinv {} (ready_put c d)"
    using live_kinv [OF live_ready_put [OF live_d]] cur
    by (auto simp: d_def set_state_def wait_ok_def)
  have "same_view a (ready_put c d)"
    using c by (simp add: d_def set_state_def same_view_def view_ready fun_eq_iff) (simp add: views_def)
  then have "same_view a e" if "same_view (ready_put c d) e" for e
    using that by (simp add: same_view_def)
  with run pop_commit_view(2) [OF kinv] show ?thesis
    by (auto simp: spec_SchedRequeue_def d_def [symmetric] enq split: Option.bind_splits)
qed

lemma Schedule_view:
  assumes "live True {} a" "current_ok a" and run: "spec_SchedSchedule r e a = Some (n, b)"
  shows "same_view a b"
proof (cases "is_running (k_current a) a")
  case False
  with run pop_commit_view(2) [OF live_kinv [OF assms(1)]] show ?thesis
    by (auto simp: spec_SchedSchedule_def split: if_splits Option.bind_splits)
next
  case True
  then obtain c where c: "k_current a = Some c" "t_state (k_tasks a c) = OS_TASK_RUNNING"
    by (auto simp: is_running_def split: option.splits)
  from run True c Requeue_view [OF assms(1) c] show ?thesis
    by (auto simp: spec_SchedSchedule_def Let_def split: if_splits)
qed

lemma CurrentBlocked_view:
  assumes "live True {} a" and run: "spec_SchedCurrentBlocked r a = Some (n, b)"
  shows "same_view a b"
  using run pop_commit_view(2) [OF live_kinv [OF assms(1)]]
  by (auto simp: spec_SchedCurrentBlocked_def split: if_splits Option.bind_splits option.splits)

lemma MaybePreempt_view:
  assumes "live True {} a" "current_ok a" and run: "spec_WaitMaybePreempt w a = Some b"
  shows "same_view a b"
  using run Schedule_view [OF assms(1,2)]
  by (auto simp: spec_WaitMaybePreempt_def Let_def split: option.splits if_splits Option.bind_splits)

subsection \<open>What priority inheritance and preemption depend on\<close>

text \<open>The mutex that a task waits for, and its two priorities.\<close>

definition mwait :: "os_task_t \<Rightarrow> nat option" where
  "mwait T = (if t_state T = OS_TASK_BLOCKED_OBJECT
     then (case t_wait_list T of Some (MutexWaiters i) \<Rightarrow> Some i | _ \<Rightarrow> None) else None)"

definition mview :: "('h, 'p) os_kernel_t \<Rightarrow> nat \<Rightarrow> nat option \<times> u8 \<times> u8" where
  "mview a t = (let T = k_tasks a t in (mwait T, t_base_priority T, t_effective_priority T))"

lemma mview_of_views: "mview a t = (mwait (views a t), t_base_priority (views a t), t_effective_priority (views a t))"
  by (simp add: mview_def mwait_def views_def Let_def)

lemma views_mview: "views b = views a \<Longrightarrow> mview b = mview a"
  by (simp add: fun_eq_iff mview_of_views)

text \<open>Every ready task outside \<open>X\<close> is at most as urgent as the running one.\<close>

definition top_but :: "nat set \<Rightarrow> ('h, 'p) os_kernel_t \<Rightarrow> bool" where
  "top_but X a \<longleftrightarrow> (\<forall>t. t \<notin> X \<and> t_state (k_tasks a t) = OS_TASK_READY \<longrightarrow>
     (\<exists>c. k_current a = Some c \<and> t_effective_priority (k_tasks a t) \<le> t_effective_priority (k_tasks a c)))"

lemma top_but_empty [simp]: "top_but {} a = top_running a"
  by (simp add: top_but_def top_running_def)

text \<open>
  A calm step leaves the waiting for mutexes and all priorities alone, and, outside critical
  sections, does not leave a ready task more urgent than the running one, except those in \<open>X\<close>.
\<close>

definition calm_but :: "nat set \<Rightarrow> ('h, 'p) os_kernel_t \<Rightarrow> ('h, 'p) os_kernel_t \<Rightarrow> bool" where
  "calm_but X a b \<longleftrightarrow> mview b = mview a \<and> k_mutexes b = k_mutexes a \<and> k_task_count b = k_task_count a \<and>
     k_critical_nesting b = k_critical_nesting a \<and> k_started b = k_started a \<and>
     (k_critical_nesting a = 0 \<and> top_running a \<longrightarrow> top_but X b)"

abbreviation calm :: "('h, 'p) os_kernel_t \<Rightarrow> ('h, 'p) os_kernel_t \<Rightarrow> bool" where
  "calm \<equiv> calm_but {}"

lemma calm_refl [simp]: "calm a a"
  by (simp add: calm_but_def)

lemma calm_trans: "calm a b \<Longrightarrow> calm_but X b c \<Longrightarrow> calm_but X a c"
  by (auto simp: calm_but_def)

lemma calm_dispatched: "dispatched a b \<Longrightarrow> mview b = mview a \<Longrightarrow> calm a b"
  by (auto simp: calm_but_def dispatched_def same_objects_def)

text \<open>Writes that do not touch states, priorities and waiting.\<close>

lemma calm_frame [simp]:
  "calm_but X a (b\<lparr>k_memory := m\<rparr>) = calm_but X a b" "calm_but X a (b\<lparr>k_sched_pending := pend\<rparr>) = calm_but X a b"
  "calm_but X a (b\<lparr>k_port := prt\<rparr>) = calm_but X a b" "calm_but X a (b\<lparr>k_last_error := e\<rparr>) = calm_but X a b"
  "calm_but X a (upd_sem i g b) = calm_but X a b" "calm_but X a (upd_queue i g' b) = calm_but X a b"
  "calm_but X (b\<lparr>k_memory := m\<rparr>) c = calm_but X b c" "calm_but X (b\<lparr>k_port := prt\<rparr>) c = calm_but X b c"
  "calm_but X (upd_sem i g b) c = calm_but X b c" "calm_but X (upd_queue i g' b) c = calm_but X b c"
  by (simp_all add: calm_but_def mview_def top_but_def top_running_def fun_eq_iff upd_sem_def upd_queue_def)

lemma calm_tcb_write:
  assumes "\<And>T. t_state (f T) = t_state T" "\<And>T. t_effective_priority (f T) = t_effective_priority T"
    "\<And>T. t_base_priority (f T) = t_base_priority T" "\<And>T. t_wait_list (f T) = t_wait_list T"
  shows "calm_but X a (upd_task t f b) = calm_but X a b" "calm_but X (upd_task t f b) c = calm_but X b c"
proof -
  have sel: "t_state (k_tasks (upd_task t f b) u) = t_state (k_tasks b u)"
    "t_effective_priority (k_tasks (upd_task t f b) u) = t_effective_priority (k_tasks b u)"
    "t_base_priority (k_tasks (upd_task t f b) u) = t_base_priority (k_tasks b u)"
    "t_wait_list (k_tasks (upd_task t f b) u) = t_wait_list (k_tasks b u)" for u
    using assms by simp_all
  have "mview (upd_task t f b) = mview b" by (simp add: mview_def mwait_def fun_eq_iff assms Let_def)
  then show "calm_but X a (upd_task t f b) = calm_but X a b" "calm_but X (upd_task t f b) c = calm_but X b c"
    unfolding calm_but_def top_running_def top_but_def sel by simp_all
qed

lemma calm_result [simp]:
  "calm_but X a (set_result t r b) = calm_but X a b" "calm_but X (set_result t r b) c = calm_but X b c"
  "calm_but X a (upd_task t (\<lambda>T. T\<lparr>t_slice_remaining := k T\<rparr>) b) = calm_but X a b"
  unfolding set_result_def by (rule calm_tcb_write; simp)+

text \<open>A yield.\<close>

lemma SchedYieldCurrent_ok:
  assumes ok: "kernel_ok a"
  shows "returns (spec_SchedYieldCurrent a) (\<lambda>(n, b). kernel_ok b \<and> calm a b)"
proof (cases "k_current a")
  case (Some c)
  note run = kernel_ok_current [OF ok Some]
  have live: "live True {} a" using kernel_ok_live [OF ok] run by simp
  from returnsD [OF SchedRequeue_ok [OF live Some, of OS_SWITCH_YIELD]] run
  obtain n b where b: "spec_SchedRequeue c OS_SWITCH_YIELD a = Some (n, b)" "dispatched a b" by auto
  have "calm a b"
    using Requeue_view [OF live Some _ b(1)] run b(2)
    by (intro calm_dispatched views_mview) (auto simp: same_view_def)
  then show ?thesis
    using run Some b by (simp add: spec_SchedYieldCurrent_def dispatched_def live_kernel_ok)
qed (use ok in \<open>simp add: spec_SchedYieldCurrent_def\<close>)

end
