(* ===== verification/Kernel_Wait.thy ===== *)
theory Kernel_Wait
  imports Kernel_Effects
begin

section \<open>Waiting, waking and delaying keep the kernel in order\<close>

text \<open>
  The operations of theory \<open>OS_Wait\<close> and \<open>os_TimeDelayCurrent\<close>: each returns (no assertion
  fails, no pointer is NULL), keeps the invariant, and its effect on the task it moves is
  written out.
\<close>

subsection \<open>Frames\<close>

lemma live_frame [simp]:
  "live tm X (a\<lparr>k_sched_pending := b1\<rparr>) = live tm X a" "live tm X (a\<lparr>k_last_error := e\<rparr>) = live tm X a"
  "live tm X (a\<lparr>k_memory := m\<rparr>) = live tm X a" "live tm X (a\<lparr>k_port := p\<rparr>) = live tm X a"
  "live tm X (a\<lparr>k_critical_nesting := n\<rparr>) = live tm X a"
  by (simp_all add: live_def run_ok_def time_ok_def objects_ok_def)

lemma current_ok_frame [simp]:
  "current_ok (a\<lparr>k_sched_pending := b1\<rparr>) = current_ok a" "current_ok (a\<lparr>k_last_error := e\<rparr>) = current_ok a"
  "current_ok (a\<lparr>k_memory := m\<rparr>) = current_ok a" "current_ok (a\<lparr>k_port := p\<rparr>) = current_ok a"
  "current_ok (a\<lparr>k_critical_nesting := n\<rparr>) = current_ok a" "current_ok (upd_sem i g a) = current_ok a"
  "current_ok (upd_queue i q a) = current_ok a" "current_ok (upd_mutex i m' a) = current_ok a"
  by (simp_all add: current_ok_def upd_sem_def upd_queue_def upd_mutex_def)

lemma live_tcb_view:
  assumes "live tm X a" "tcb_view (f (k_tasks a t)) = tcb_view (k_tasks a t)"
  shows "live tm X (upd_task t f a)"
  using assms(1) kinv_tcb_view [of X a f t, OF live_kinv [OF assms(1)] assms(2)] tcb_viewD [OF assms(2)]
  by (auto simp: live_def run_ok_def time_ok_def objects_ok_def)

lemma current_ok_tcb_view:
  "current_ok a \<Longrightarrow> tcb_view (f (k_tasks a t)) = tcb_view (k_tasks a t) \<Longrightarrow> current_ok (upd_task t f a)"
  using tcb_viewD [of "f (k_tasks a t)" "k_tasks a t"] by (auto simp: current_ok_def)

lemma result_frame [simp]:
  "live tm X a \<Longrightarrow> live tm X (set_result t r a)" "current_ok a \<Longrightarrow> current_ok (set_result t r a)"
  "same_objects a (set_result t r b) = same_objects a b"
  unfolding set_result_def
  by (auto intro!: live_tcb_view current_ok_tcb_view simp: tcb_view_def)

lemma slice_frame [simp]:
  "live tm X a \<Longrightarrow> live tm X (upd_task t (\<lambda>T. T\<lparr>t_slice_remaining := g T\<rparr>) a)"
  "current_ok a \<Longrightarrow> current_ok (upd_task t (\<lambda>T. T\<lparr>t_slice_remaining := g T\<rparr>) a)"
  by (auto intro!: live_tcb_view current_ok_tcb_view simp: tcb_view_def)

lemma kernel_ok_result [simp]: "kernel_ok a \<Longrightarrow> kernel_ok (set_result t r a)"
  by (auto simp: kernel_ok_def set_result_def boot_ok_def time_ok_def objects_ok_def
      intro!: kinv_tcb_view current_ok_tcb_view) (auto simp: tcb_view_def)

subsection \<open>Delay lists\<close>

lemma TimeDelayListRemove_eq:
  assumes "sp_place (k_heap a) (DelayNode t) = t_delay_list (k_tasks a t)"
  shows "spec_TimeDelayListRemove (Some t) a = Some
    (case t_delay_list (k_tasks a t) of None \<Rightarrow> a
     | Some l \<Rightarrow> upd_task t (\<lambda>T. T\<lparr>t_delay_list := None\<rparr>) (ndrop l (DelayNode t) a))"
  using assms by (simp add: spec_TimeDelayListRemove_def list_ops_eq split: option.split)

lemma TimeDelayListRemove_ok:
  assumes live: "live tm X a" and t: "t \<in> X"
    and at: "sp_place (k_heap a) (DelayNode t) = t_delay_list (k_tasks a t)"
  shows "returns (spec_TimeDelayListRemove (Some t) a) (\<lambda>b. live tm X b \<and> same_objects a b \<and>
     k_current b = k_current a \<and> k_tasks b = (k_tasks a)(t := (k_tasks a t)\<lparr>t_delay_list := None\<rparr>) \<and>
     sp_place (k_heap b) = (sp_place (k_heap a))(DelayNode t := None) \<and> waiters b = waiters a)"
proof (cases "t_delay_list (k_tasks a t)")
  case None
  then have "(k_tasks a)(t := (k_tasks a t)\<lparr>t_delay_list := None\<rparr>) = k_tasks a"
    by (auto simp: fun_eq_iff)
  with None at live show ?thesis
    by (auto simp: TimeDelayListRemove_eq fun_eq_iff)
next
  case (Some l)
  have drop: "live tm X (ndrop l (DelayNode t) a)" using live t at Some by (intro live_drop) auto
  have "live tm X (upd_task t (\<lambda>T. T\<lparr>t_delay_list := None\<rparr>) (ndrop l (DelayNode t) a))"
    using t live_run [OF live] kinv_base [OF live_kinv [OF live], of t] kinv_mutex [OF live_kinv [OF live]]
    by (intro live_upd [OF drop]) (auto simp: run_ok_def base_ok_def prio_ok_def mutex_ok_def)
  moreover have "\<not> is_wait l"
    using qwf_delay [OF kinv_qwf [OF live_kinv [OF live]]] at Some by fastforce
  ultimately show ?thesis using at Some by (auto simp: TimeDelayListRemove_eq fun_eq_iff)
qed

text \<open>
  Inserting a task in hand into the delay lists with a deadline between 1 and
  \<open>OS_MAX_DELAY_TICKS\<close> ticks ahead.
\<close>

lemma TimeDelayListInsert_ok:
  assumes live: "live tm X a" and t: "t \<in> X" "t < 8"
    and free: "sp_place (k_heap a) (DelayNode t) = None"
    and w: "w \<noteq> k_tick a" "w - k_tick a \<le> OS_MAX_DELAY_TICKS"
  shows "\<exists>l b. spec_TimeDelayListInsert (Some t) w a = Some b \<and> live tm X b \<and> same_objects a b \<and>
     k_current b = k_current a \<and> sp_place (k_heap b) = (sp_place (k_heap a))(DelayNode t := Some l) \<and>
     k_tasks b = (k_tasks a)(t := (k_tasks a t)\<lparr>t_wake_tick := w, t_delay_list := Some l\<rparr>) \<and>
     waiters b = waiters a"
proof -
  obtain l where l: "(if w < k_tick a then k_px_overflow_delayed a else k_px_delayed a) = Some l"
    and l01: "l = DelayedList 0 \<or> l = DelayedList 1"
    using kinv_px [OF live_kinv [OF live]] by (cases "w < k_tick a") (auto simp: px_ok_def)
  have cond: "k_px_delayed a = Some l \<Longrightarrow> k_tick a < w" "k_px_overflow_delayed a = Some l \<Longrightarrow> w < k_tick a"
    using l w(1) kinv_px [OF live_kinv [OF live]] by (auto simp: px_ok_def split: if_splits)
  define b where "b = upd_task t (\<lambda>T. T\<lparr>t_wake_tick := w, t_delay_list := Some l\<rparr>) a"
  define xs where "xs = insert_where (\<lambda>m. w < wake_of b m) (DelayNode t) (sp_nodes (k_heap a) l)"
  have b: "live tm X b"
    unfolding b_def using t live_run [OF live] kinv_base [OF live_kinv [OF live], of t] free
      kinv_mutex [OF live_kinv [OF live]]
    by (intro live_upd [OF live]) (auto simp: run_ok_def base_ok_def prio_ok_def mutex_ok_def)
  have new: "DelayNode t \<notin> set (sp_nodes (k_heap a) l)"
    using free qwf_mem [OF kinv_qwf [OF live_kinv [OF live]]] by simp
  have notin: "SchedNode t \<notin> set (sp_nodes (k_heap a) l)"
    using l01 qwf_delay_nodes [OF kinv_qwf [OF live_kinv [OF live]], of "SchedNode t"] by auto
  have same: "wake_of b m = wake_of a m" if "m \<in> set (sp_nodes (k_heap a) l)" for m
  proof -
    have "m \<noteq> DelayNode t" "m \<noteq> SchedNode t" using that new notin by metis+
    then show ?thesis by (cases m) (auto simp: b_def wake_of_def)
  qed
  have "sorted_wrt (\<lambda>m n. wake_of a m \<le> wake_of a n) (sp_nodes (k_heap a) l)"
    using kinv_sorted [OF live_kinv [OF live]] l01 by (auto simp: sorted_ok_def)
  then have "sorted_wrt (\<lambda>m n. wake_of b m \<le> wake_of b n) (sp_nodes (k_heap a) l)"
    by (rule sorted_wrt_mono_rel [rotated]) (simp add: same)
  then have "sorted_wrt (\<lambda>m n. wake_of b m \<le> wake_of b n) xs"
    unfolding xs_def
    by (rule sorted_wrt_insert_where) (auto simp: transp_def b_def wake_of_def)
  then have "live tm X (nput l (DelayNode t) xs b)"
    using cond w(2) new qwf_distinct [OF kinv_qwf [OF live_kinv [OF live]]] free
    by (intro live_put_delay [OF b t _ l01]) (auto simp: b_def xs_def)
  moreover have "spec_TimeDelayListInsert (Some t) w a = Some (nput l (DelayNode t) xs b)"
    using free t l
    by (simp add: spec_TimeDelayListInsert_def xTaskGetTickCount_def list_ops_eq b_def xs_def Let_def
        wake_of_def if_distrib [of "\<lambda>f. f _"] cong: if_cong)
  ultimately show ?thesis
    using l01 by (intro exI [of _ l] exI [of _ "nput l (DelayNode t) xs b"]) (auto simp: b_def)
qed


subsection \<open>Waiting lists\<close>

lemma WaitInsertByPriority_ok:
  assumes live: "live tm X a" and t: "t \<in> X" "t < 8"
    and free: "sp_place (k_heap a) (SchedNode t) = None" and l: "is_wait l"
    and owned: "\<And>i. l = MutexWaiters i \<Longrightarrow> m_owner (k_mutexes a i) \<noteq> None"
  shows "\<exists>b. spec_WaitInsertByPriority l t a = Some b \<and> live tm X b \<and> same_objects a b \<and>
     k_current b = k_current a \<and> sp_place (k_heap b) = (sp_place (k_heap a))(SchedNode t := Some l) \<and>
     k_tasks b = k_tasks a \<and> waiters b = (waiters a)(l :=
       insert_where (\<lambda>m. prio_of a m < t_effective_priority (k_tasks a t)) (SchedNode t) (waiters a l))"
proof -
  define xs where "xs = insert_where (\<lambda>m. prio_of a m < t_effective_priority (k_tasks a t))
    (SchedNode t) (sp_nodes (k_heap a) l)"
  have new: "SchedNode t \<notin> set (sp_nodes (k_heap a) l)"
    using free qwf_mem [OF kinv_qwf [OF live_kinv [OF live]]] by simp
  have "sorted_wrt (\<lambda>m n. prio_of a n \<le> prio_of a m) (sp_nodes (k_heap a) l)"
    using kinv_sorted [OF live_kinv [OF live]] l by (auto simp: sorted_ok_def)
  then have "sorted_wrt (\<lambda>m n. prio_of a n \<le> prio_of a m) xs"
    unfolding xs_def by (rule sorted_wrt_insert_where) (auto simp: transp_def prio_of_def)
  then have "live tm X (nput l (SchedNode t) xs a)"
    using new qwf_distinct [OF kinv_qwf [OF live_kinv [OF live]]] owned
    by (intro live_put_wait [OF live t free l]) (auto simp: xs_def)
  moreover have "spec_WaitInsertByPriority l t a = Some (nput l (SchedNode t) xs a)"
    using free t by (simp add: spec_WaitInsertByPriority_def list_ops_eq xs_def prio_of_def)
  moreover have "waiters a l = sp_nodes (k_heap a) l" using l by (simp add: waiters_def)
  ultimately show ?thesis using l by (auto simp: xs_def)
qed

text \<open>The task at the front of a waiting list: popping it takes it in hand.\<close>

definition in_hand :: "bool \<Rightarrow> nat \<Rightarrow> 'p spec_kernel \<Rightarrow> bool" where
  "in_hand tm t a \<longleftrightarrow> t < 8 \<and> live tm {t} a \<and> t_state (k_tasks a t) = OS_TASK_BLOCKED_OBJECT \<and>
     waits_on (k_tasks a t) \<and> sp_place (k_heap a) (SchedNode t) = None \<and>
     sp_place (k_heap a) (DelayNode t) = t_delay_list (k_tasks a t)"

lemma waiter_member:
  assumes live: "live tm {} a" and l: "is_wait l" and n: "n \<in> set (sp_nodes (k_heap a) l)"
  obtains t where "n = SchedNode t" "t < 8" "t_state (k_tasks a t) = OS_TASK_BLOCKED_OBJECT"
    "t_wait_list (k_tasks a t) = Some l" "sp_place (k_heap a) (SchedNode t) = Some l"
    "sp_place (k_heap a) (DelayNode t) = t_delay_list (k_tasks a t)" "wait_ok (k_tasks a t)"
    "live tm {t} a"
proof -
  note qwf = kinv_qwf [OF live_kinv [OF live]]
  obtain t where t: "n = SchedNode t" "t < 8" using qwf_wait_nodes [OF qwf n] l by blast
  have at: "sp_place (k_heap a) (SchedNode t) = Some l" using n t qwf_mem [OF qwf] by simp
  have place: "place_ok a t" "wait_ok (k_tasks a t)"
    using kinv_place [OF live_kinv [OF live]] kinv_wait [OF live_kinv [OF live]] by auto
  then have "t_state (k_tasks a t) = OS_TASK_BLOCKED_OBJECT" "t_wait_list (k_tasks a t) = Some l"
    using at l by (auto simp: place_ok_def sched_place_def split: if_splits)
  moreover have "l \<noteq> ReadyList p" for p using l by auto
  then have "live tm {t} a" using live_take [OF live, of t] at by simp
  ultimately show thesis
    using that [OF t] at place by (simp add: place_ok_def delay_place_def)
qed

lemma WaitPop_cases:
  assumes live: "live tm {} a" and l: "is_wait l"
  obtains (empty) "spec_WaitPop (Some l) a = (None, a)" "sp_nodes (k_heap a) l = []"
  | (waiter) t ns where "spec_WaitPop (Some l) a = (Some t, ndrop l (SchedNode t) a)"
      "sp_nodes (k_heap a) l = SchedNode t # ns" "in_hand tm t (ndrop l (SchedNode t) a)"
      "t_wait_list (k_tasks a t) = Some l"
proof (cases "sp_nodes (k_heap a) l")
  case Nil
  then show thesis using empty by (simp add: spec_WaitPop_def pop_front_eq)
next
  case (Cons n ns)
  then have "n \<in> set (sp_nodes (k_heap a) l)" by simp
  then obtain t where t: "n = SchedNode t" "t < 8" "t_state (k_tasks a t) = OS_TASK_BLOCKED_OBJECT"
    "t_wait_list (k_tasks a t) = Some l" "sp_place (k_heap a) (SchedNode t) = Some l"
    "sp_place (k_heap a) (DelayNode t) = t_delay_list (k_tasks a t)" "wait_ok (k_tasks a t)" "live tm {t} a"
    by (rule waiter_member [OF live l])
  then have "in_hand tm t (ndrop l (SchedNode t) a)"
    using live_drop [of tm "{t}" a "SchedNode t" l] by (simp add: in_hand_def wait_ok_def)
  with t Cons show thesis using waiter [of t ns] by (simp add: spec_WaitPop_def pop_front_eq)
qed

text \<open>Waking a task in hand: it is ready, in no other list, and its wait fields are clear.\<close>

lemma WaitMakeReady_ok:
  assumes hand: "in_hand tm t a"
  shows "returns (spec_WaitMakeReady (Some t) r a) (\<lambda>b. live tm {} b \<and> same_objects a b \<and>
    k_current b = k_current a \<and>
    k_tasks b = (k_tasks a)(t := clear_wait r ((k_tasks a t)\<lparr>t_delay_list := None\<rparr>)) \<and>
    waiters b = waiters a)"
proof -
  have live: "live tm {t} a" and t: "t < 8" "t_state (k_tasks a t) = OS_TASK_BLOCKED_OBJECT"
    and free: "sp_place (k_heap a) (SchedNode t) = None"
    and at: "sp_place (k_heap a) (DelayNode t) = t_delay_list (k_tasks a t)"
    using hand by (simp_all add: in_hand_def)
  obtain b where b: "spec_TimeDelayListRemove (Some t) a = Some b" "live tm {t} b" "same_objects a b"
    "k_current b = k_current a" "k_tasks b = (k_tasks a)(t := (k_tasks a t)\<lparr>t_delay_list := None\<rparr>)"
    "sp_place (k_heap b) = (sp_place (k_heap a))(DelayNode t := None)" "waiters b = waiters a"
    using returnsD [OF TimeDelayListRemove_ok [OF live _ at]] by auto
  have c: "live tm {t} (upd_task t (clear_wait r) b)"
    using kinv_base [OF live_kinv [OF b(2)], of t] b(5) t free b(6)
    by (intro live_upd [OF b(2)]) (auto simp: clear_wait_def base_ok_def prio_ok_def)
  have enq: "spec_ReadyEnqueue (Some t) (upd_task t (clear_wait r) b) =
      Some (ready_put t (upd_task t (clear_wait r) b))"
    using free b(6) t by (intro ReadyEnqueue_eq [OF live_kinv [OF c]]) (auto simp: clear_wait_def)
  have "live tm {} (ready_put t (upd_task t (clear_wait r) b))"
    using c free b(5,6) t
    by (intro live_ready_put) (auto simp: clear_wait_def wait_ok_def)
  then show ?thesis
    using t free b enq by (simp add: spec_WaitMakeReady_def fun_eq_iff)
qed

lemma WaitMaybePreempt_ok:
  assumes "live True {} a" "current_ok a"
  shows "returns (spec_WaitMaybePreempt w a) (\<lambda>b. live True {} b \<and> current_ok b \<and> same_objects a b \<and> same_view a b)"
proof -
  have "same_objects a (a\<lparr>k_sched_pending := True\<rparr>)" by (simp add: same_objects_def)
  moreover obtain n b where "spec_SchedSchedule OS_SWITCH_HIGHER_PRIORITY_WAKEUP False a = Some (n, b)"
    "dispatched a b"
    using returnsD [OF SchedSchedule_ok [OF assms, of OS_SWITCH_HIGHER_PRIORITY_WAKEUP False]] by auto
  moreover from this(1) have "same_view a b" by (rule Schedule_view [OF assms])
  ultimately show ?thesis
    using assms by (auto simp: spec_WaitMaybePreempt_def dispatched_def split: option.split)
qed

subsection \<open>Blocking and delaying the current task\<close>

lemma blocked_task:
  assumes "live True {} a" "k_current a = Some c" "t_state (k_tasks a c) = OS_TASK_RUNNING"
    and "t_state (f (k_tasks a c)) = OS_TASK_BLOCKED_OBJECT \<or> t_state (f (k_tasks a c)) = OS_TASK_BLOCKED_DELAY"
    and "t_id (f (k_tasks a c)) = t_id (k_tasks a c)" "t_entry (f (k_tasks a c)) = t_entry (k_tasks a c)"
      "t_base_priority (f (k_tasks a c)) = t_base_priority (k_tasks a c)"
      "t_effective_priority (f (k_tasks a c)) = t_effective_priority (k_tasks a c)"
  shows "live True {c} (upd_task c f a)" "no_running (upd_task c f a)"
proof -
  note run = running_task [OF assms(1,3)]
  show "live True {c} (upd_task c f a)"
    using assms run kinv_base [OF live_kinv [OF assms(1)], of c]
    by (intro live_upd) (auto simp: base_ok_def prio_ok_def)
  show "no_running (upd_task c f a)"
    using assms live_run [OF assms(1)] by (intro no_running_after) auto
qed

lemma no_running_write:
  "no_running a \<Longrightarrow> k_tasks b = (k_tasks a)(c := T) \<Longrightarrow> t_state T = t_state (k_tasks a c) \<Longrightarrow> no_running b"
  by (auto simp: no_running_def)

text \<open>The effect of blocking: the TCB of the task, and its place behind the waiters of its priority.\<close>

definition block_tcb :: "list_ref \<Rightarrow> os_wait_kind_t \<Rightarrow> obj_ref option \<Rightarrow> addr \<Rightarrow> u32 \<Rightarrow> os_task_t \<Rightarrow> os_task_t" where
  "block_tcb l kind obj buf deadline T = T\<lparr>t_wait_kind := kind, t_wait_object := obj, t_wait_buffer := buf,
     t_wait_list := Some l, t_wait_deadline := deadline, t_wait_result := OS_STATUS_BAD_STATE,
     t_state := OS_TASK_BLOCKED_OBJECT\<rparr>"

definition block_deadline :: "u32 \<Rightarrow> ('h, 'p) os_kernel_t \<Rightarrow> u32" where
  "block_deadline timeout a = (if timeout = OS_WAIT_FOREVER then OS_WAIT_FOREVER
     else k_tick a + min timeout OS_MAX_DELAY_TICKS)"

definition blocked_on :: "nat \<Rightarrow> list_ref \<Rightarrow> os_wait_kind_t \<Rightarrow> obj_ref option \<Rightarrow> addr \<Rightarrow> u32 \<Rightarrow>
    'p spec_kernel \<Rightarrow> 'p spec_kernel \<Rightarrow> bool" where
  "blocked_on c l kind obj buf timeout a b \<longleftrightarrow>
     (\<exists>w d. views b = (views a)(c := view ((block_tcb l kind obj buf (block_deadline timeout a)
        (k_tasks a c))\<lparr>t_wake_tick := w, t_delay_list := d\<rparr>))) \<and>
     waiters b = (waiters a)(l :=
       insert_where (\<lambda>m. prio_of a m < t_effective_priority (k_tasks a c)) (SchedNode c) (waiters a l))"

lemma WaitBlockCurrent_ok:
  assumes ok: "kernel_ok a" and c: "k_current a = Some c" and t: "timeout \<noteq> 0"
    and l: "wait_matches kind (Some l) obj buf (t_base_priority (k_tasks a c))"
    and owned: "\<And>i. l = MutexWaiters i \<Longrightarrow> m_owner (k_mutexes a i) \<noteq> None"
  shows "returns (spec_WaitBlockCurrent (Some l) kind obj buf timeout a)
    (\<lambda>(n, b). dispatched a b \<and> blocked_on c l kind obj buf timeout a b)"
proof -
  have live: "live True {} a" and running: "t_state (k_tasks a c) = OS_TASK_RUNNING"
    using kernel_ok_current [OF ok c] kernel_ok_live [OF ok] by auto
  note run = running_task [OF live running]
  have wait: "is_wait l" "kind \<noteq> OS_WAIT_NONE" using l by (cases kind; cases l; simp)+
  define timeout' where
    "timeout' = (if timeout \<noteq> OS_WAIT_FOREVER \<and> OS_MAX_DELAY_TICKS < timeout
                then OS_MAX_DELAY_TICKS else timeout)"
  define deadline where
    "deadline = (if timeout' = OS_WAIT_FOREVER then OS_WAIT_FOREVER else xTaskGetTickCount a + timeout')"
  define f where "f = (\<lambda>T. T\<lparr>t_wait_kind := kind, t_wait_object := obj, t_wait_buffer := buf,
    t_wait_list := Some l, t_wait_deadline := deadline, t_wait_result := OS_STATUS_BAD_STATE,
    t_state := OS_TASK_BLOCKED_OBJECT\<rparr> :: os_task_t)"
  have "timeout' = OS_WAIT_FOREVER \<longleftrightarrow> timeout = OS_WAIT_FOREVER" by (simp add: timeout'_def)
  moreover have "timeout \<noteq> OS_WAIT_FOREVER \<Longrightarrow> timeout' = min timeout OS_MAX_DELAY_TICKS"
    unfolding timeout'_def min_def by (metis linorder_not_less)
  ultimately have "deadline = block_deadline timeout a"
    by (simp add: deadline_def block_deadline_def xTaskGetTickCount_def del: OS_WAIT_FOREVER_def OS_MAX_DELAY_TICKS_def)
  then have eff: "f = block_tcb l kind obj buf (block_deadline timeout a)"
    by (simp add: f_def block_tcb_def fun_eq_iff)
  note blocked = blocked_task [OF live c running, of f, simplified f_def, simplified, folded f_def]
  obtain b where b: "spec_WaitInsertByPriority l c (upd_task c f a) = Some b" "live True {c} b"
    "same_objects a b" "k_current b = Some c" "k_tasks b = k_tasks (upd_task c f a)"
    "sp_place (k_heap b) = (sp_place (k_heap a))(SchedNode c := Some l)"
    "waiters b = (waiters a)(l := insert_where (\<lambda>m. prio_of (upd_task c f a) m <
       t_effective_priority (k_tasks (upd_task c f a) c)) (SchedNode c) (waiters a l))"
    using WaitInsertByPriority_ok [OF blocked(1) _ run(5) _ wait(1)] run owned c by auto
  have prio: "prio_of (upd_task c f a) = prio_of a" by (simp add: prio_of_def fun_eq_iff f_def)
  have idle: "no_running b" using blocked(2) b(5) by (simp add: no_running_def)
  obtain d where d: "(if timeout' \<noteq> OS_WAIT_FOREVER
      then spec_TimeDelayListInsert (Some c) (t_wait_deadline (k_tasks b c)) b
      else if sp_place (k_heap b) (DelayNode c) \<noteq> None then None
      else Some (upd_task c (\<lambda>T. T\<lparr>t_delay_list := None\<rparr>) b)) = Some d"
    and live_d: "live True {} d" and same: "same_objects a d" "k_current d = Some c" "no_running d"
    and tasks: "\<exists>w dl. k_tasks d = (k_tasks a)(c := (f (k_tasks a c))\<lparr>t_wake_tick := w, t_delay_list := dl\<rparr>)"
    and wl: "waiters d = waiters b"
  proof (cases "timeout' = OS_WAIT_FOREVER")
    case True
    have "(k_tasks b c)\<lparr>t_delay_list := None\<rparr> = k_tasks b c"
      using run(8) b(5) by (simp add: f_def)
    then have same: "upd_task c (\<lambda>T. T\<lparr>t_delay_list := None\<rparr>) b = b" by (simp add: upd_task_def)
    have "(f (k_tasks a c))\<lparr>t_wake_tick := t_wake_tick (k_tasks a c), t_delay_list := None\<rparr> = f (k_tasks a c)"
      using run(8) by (simp add: f_def)
    moreover have "k_tasks b = (k_tasks a)(c := f (k_tasks a c))" using b(5) by (auto simp: fun_eq_iff)
    ultimately have tasks: "\<exists>w dl. k_tasks b =
        (k_tasks a)(c := (f (k_tasks a c))\<lparr>t_wake_tick := w, t_delay_list := dl\<rparr>)" by metis
    have "live True {} b"
      using b run wait True l
      by (intro live_release [OF b(2)]) 
        (auto simp: wait_ok_def waits_on_def f_def deadline_def place_ok_def sched_place_def delay_place_def)
    then show thesis
      using that [of b] True b(3,4,6) idle run(3) tasks by (simp add: same)
  next
    case False
    have "deadline \<noteq> k_tick b" "deadline - k_tick b \<le> OS_MAX_DELAY_TICKS"
      using False t b(3) by (auto simp: deadline_def timeout'_def xTaskGetTickCount_def same_objects_def
          split: if_splits)
    then obtain l' d where d: "spec_TimeDelayListInsert (Some c) deadline b = Some d" "live True {c} d"
        "same_objects b d" "k_current d = k_current b"
        "sp_place (k_heap d) = (sp_place (k_heap b))(DelayNode c := Some l')"
        "k_tasks d = (k_tasks b)(c := (k_tasks b c)\<lparr>t_wake_tick := deadline, t_delay_list := Some l'\<rparr>)"
        "waiters d = waiters b"
      using TimeDelayListInsert_ok [OF b(2) _ run(5), of deadline] b(6) run(3) by auto
    have "live True {} d"
      using b d run wait l
      by (intro live_release [OF d(2)])
        (auto simp: wait_ok_def waits_on_def f_def place_ok_def sched_place_def delay_place_def)
    moreover have "no_running d" by (rule no_running_write [OF idle d(6)]) simp
    moreover have "k_tasks d = (k_tasks a)(c := (f (k_tasks a c))\<lparr>t_wake_tick := deadline, t_delay_list := Some l'\<rparr>)"
      unfolding d(6) b(5) by (simp add: fun_eq_iff)
    moreover have "t_wait_deadline (k_tasks b c) = deadline" using b(5) by (simp add: f_def)
    ultimately show thesis
      using that [of d] False b(4) d(1,4,7) same_objects_trans [OF b(3) d(3)] by auto
  qed
  obtain n e where e: "spec_SchedCurrentBlocked OS_SWITCH_BLOCKED d = Some (n, e)" "dispatched a e"
    using returnsD [OF SchedCurrentBlocked_ok [OF live_d same(3,2), of OS_SWITCH_BLOCKED]] same(1)
    by (auto intro: dispatched_trans)
  have view: "views e = views d" "waiters e = waiters d"
    using CurrentBlocked_view [OF live_d e(1)] by (simp_all add: same_view_def)
  have "t_effective_priority (f (k_tasks a c)) = t_effective_priority (k_tasks a c)" by (simp add: f_def)
  then have "waiters e = (waiters a)(l :=
      insert_where (\<lambda>m. prio_of a m < t_effective_priority (k_tasks a c)) (SchedNode c) (waiters a l))"
    using b(7) wl view(2) prio by simp
  moreover obtain w dl where "k_tasks d = (k_tasks a)(c := (f (k_tasks a c))\<lparr>t_wake_tick := w, t_delay_list := dl\<rparr>)"
    using tasks by blast
  then have "views d = (views a)(c := view ((f (k_tasks a c))\<lparr>t_wake_tick := w, t_delay_list := dl\<rparr>))"
    by (auto simp: views_def fun_eq_iff)
  ultimately have "blocked_on c l kind obj buf timeout a e"
    unfolding blocked_on_def eff [symmetric] view(1) by blast
  with b(1) d wait running c e
  show ?thesis
    by (auto simp: spec_WaitBlockCurrent_def Let_def timeout'_def [symmetric] deadline_def [symmetric]
        f_def [symmetric] simp del: OS_MAX_DELAY_TICKS_def OS_WAIT_FOREVER_def)
qed

lemma TimeDelayCurrent_blocks:
  assumes ok: "kernel_ok a" and c: "k_current a = Some c" and ticks: "ticks \<noteq> 0"
  shows "returns (spec_TimeDelayCurrent ticks a) (\<lambda>(n, b). dispatched a b \<and> waiters b = waiters a \<and>
    (\<exists>l. views b = (views a)(c := view ((k_tasks a c)\<lparr>t_state := OS_TASK_BLOCKED_DELAY,
       t_wake_tick := k_tick a + min ticks OS_MAX_DELAY_TICKS, t_delay_list := Some l\<rparr>))))"
proof -
  have live: "live True {} a" and running: "t_state (k_tasks a c) = OS_TASK_RUNNING"
    using kernel_ok_current [OF ok c] kernel_ok_live [OF ok] by auto
  note run = running_task [OF live running]
  define n where "n = (if OS_MAX_DELAY_TICKS < ticks then OS_MAX_DELAY_TICKS else ticks)"
  have n: "n = min ticks OS_MAX_DELAY_TICKS" unfolding n_def min_def by (metis linorder_not_less)
  define b where "b = set_state c OS_TASK_BLOCKED_DELAY a"
  have b: "live True {c} b" "no_running b"
    using blocked_task [OF live c running, of "\<lambda>T. T\<lparr>t_state := OS_TASK_BLOCKED_DELAY\<rparr>"]
    by (simp_all add: b_def set_state_def)
  have "xTaskGetTickCount b + n \<noteq> k_tick b" "xTaskGetTickCount b + n - k_tick b \<le> OS_MAX_DELAY_TICKS"
    using ticks by (auto simp: xTaskGetTickCount_def n_def)
  then obtain l d where d: "spec_TimeDelayListInsert (Some c) (xTaskGetTickCount b + n) b = Some d" "live True {c} d"
      "same_objects b d" "k_current d = k_current b"
      "sp_place (k_heap d) = (sp_place (k_heap b))(DelayNode c := Some l)"
      "k_tasks d = (k_tasks b)(c := (k_tasks b c)\<lparr>t_wake_tick := xTaskGetTickCount b + n, t_delay_list := Some l\<rparr>)"
      "waiters d = waiters b"
    using TimeDelayListInsert_ok [OF b(1) _ run(5), of "xTaskGetTickCount b + n"] run(3)
    by (auto simp: b_def)
  have live_d: "live True {} d"
    using d run
    by (intro live_release [OF d(2)])
      (auto simp: wait_ok_def b_def set_state_def place_ok_def sched_place_def delay_place_def)
  have idle: "no_running d" by (rule no_running_write [OF b(2) d(6)]) simp
  have same: "k_current d = Some c" "same_objects a d"
    using d c by (auto simp: b_def set_state_def same_objects_def)
  have tasks: "k_tasks d = (k_tasks a)(c := (k_tasks a c)\<lparr>t_state := OS_TASK_BLOCKED_DELAY,
      t_wake_tick := k_tick a + n, t_delay_list := Some l\<rparr>)"
    unfolding d(6) by (simp add: b_def set_state_def fun_eq_iff xTaskGetTickCount_def)
  obtain m e where e: "spec_SchedCurrentBlocked OS_SWITCH_BLOCKED d = Some (m, e)" "dispatched a e"
    using returnsD [OF SchedCurrentBlocked_ok [OF live_d idle same(1), of OS_SWITCH_BLOCKED]] same(2)
    by (auto intro: dispatched_trans)
  have "same_view d e" by (rule CurrentBlocked_view [OF live_d e(1)])
  moreover have "views d = (views a)(c := view ((k_tasks a c)\<lparr>t_state := OS_TASK_BLOCKED_DELAY,
      t_wake_tick := k_tick a + n, t_delay_list := Some l\<rparr>))"
    unfolding views_def tasks by (auto simp: fun_eq_iff)
  moreover have "waiters d = waiters a" using d(7) by (simp add: b_def set_state_def)
  ultimately show ?thesis
    using ticks running c d(1) e
    by (auto simp: spec_TimeDelayCurrent_def Let_def n_def [symmetric] b_def [symmetric] n [symmetric]
        same_view_def simp del: OS_MAX_DELAY_TICKS_def)
qed

lemma TimeDelayCurrent_ok:
  assumes ok: "kernel_ok a"
  shows "returns (spec_TimeDelayCurrent ticks a) (\<lambda>(n, b). kernel_ok b \<and> calm a b)"
proof (cases "k_current a")
  case (Some c)
  note run = kernel_ok_current [OF ok Some]
  show ?thesis
  proof (cases "ticks = 0")
    case True
    then show ?thesis
      using SchedYieldCurrent_ok [OF ok] run Some
      by (simp add: spec_TimeDelayCurrent_def)
  next
    case False
    from returnsD [OF TimeDelayCurrent_blocks [OF ok Some this]] obtain n b l
      where b: "spec_TimeDelayCurrent ticks a = Some (n, b)" "dispatched a b"
        "views b = (views a)(c := view ((k_tasks a c)\<lparr>t_state := OS_TASK_BLOCKED_DELAY,
           t_wake_tick := k_tick a + min ticks OS_MAX_DELAY_TICKS, t_delay_list := Some l\<rparr>))"
      by auto
    have "mview b = mview a"
      unfolding mview_of_views b(3) using run by (auto simp: fun_eq_iff mwait_def views_def)
    then show ?thesis using b(1,2) calm_dispatched by (auto simp: dispatched_def intro: live_kernel_ok)
  qed
qed (use ok in \<open>simp add: spec_TimeDelayCurrent_def\<close>)

end
