(* ===== verification/Kernel_IPC.thy ===== *)
theory Kernel_IPC
  imports Kernel_Wait
begin

section \<open>Waking a waiter, and semaphores: they keep the kernel in order\<close>

text \<open>
  Every request on a semaphore returns and keeps \<open>kernel_ok\<close>, whatever its
  arguments: a popped waiter can be made ready, and a waiter that the caller blocks is in
  order. The effects are written out: who is woken, and what the others see.
\<close>

subsection \<open>Frames\<close>

lemma kernel_ok_frame [simp]:
  "kernel_ok (a\<lparr>k_sched_pending := b1\<rparr>) = kernel_ok a" "kernel_ok (a\<lparr>k_last_error := e\<rparr>) = kernel_ok a"
  "kernel_ok (a\<lparr>k_memory := m\<rparr>) = kernel_ok a" "kernel_ok (a\<lparr>k_port := p\<rparr>) = kernel_ok a"
  "kernel_ok (a\<lparr>k_critical_nesting := n\<rparr>) = kernel_ok a"
  by (simp_all add: kernel_ok_def current_ok_def time_ok_def objects_ok_def boot_ok_def)

lemma upd_sem_kernel_ok:
  assumes "sem_ok (k_sems a i) \<Longrightarrow> sem_ok (g (k_sems a i))" and "kernel_ok a"
  shows "kernel_ok (upd_sem i g a)"
proof -
  have "objects_ok (upd_sem i g a)"
    using assms by (simp add: kernel_ok_def objects_ok_def upd_sem_def)
  then show ?thesis
    using assms(2) by (simp add: kernel_ok_def) (simp add: time_ok_def boot_ok_def upd_sem_def)
qed

lemma sem_count_steps:
  assumes "kernel_ok a"
  shows "0 < s_count (k_sems a i) \<Longrightarrow> kernel_ok (upd_sem i (\<lambda>S. S\<lparr>s_count := s_count S - 1\<rparr>) a)"
    and "\<not> s_maximum_count (k_sems a i) \<le> s_count (k_sems a i) \<Longrightarrow>
      kernel_ok (upd_sem i (\<lambda>S. S\<lparr>s_count := s_count S + 1\<rparr>) a)"
  using assms
  by (auto simp: sem_ok_def word_le_nat_alt unat_minus_one intro!: upd_sem_kernel_ok)
    (metis Suc_leI not_le word_less_nat_alt word_step(3))

lemma current_ok_list_ops [simp]:
  "current_ok (nput l n xs a) = current_ok a" "current_ok (ndrop l n a) = current_ok a"
  "current_ok (ready_put t a) = current_ok a" "current_ok (ready_drop p t a) = current_ok a"
  by (simp_all add: current_ok_def)

lemma upd_queue_frame:
  assumes "queue_ok (k_queues a i) \<Longrightarrow> queue_ok (g (k_queues a i))"
  shows "live tm X a \<Longrightarrow> live tm X (upd_queue i g a)" and "kernel_ok a \<Longrightarrow> kernel_ok (upd_queue i g a)"
proof -
  have "objects_ok a \<Longrightarrow> objects_ok (upd_queue i g a)"
    using assms by (simp add: objects_ok_def upd_queue_def)
  then show "live tm X a \<Longrightarrow> live tm X (upd_queue i g a)" and "kernel_ok a \<Longrightarrow> kernel_ok (upd_queue i g a)"
    by (auto simp: live_def kernel_ok_def) (auto simp: upd_queue_def run_ok_def time_ok_def boot_ok_def)
qed

text \<open>Before the scheduler starts, nobody waits.\<close>

lemma boot_no_waiters:
  assumes ok: "kernel_ok a" and "\<not> k_started a" "is_wait l"
  shows "sp_nodes (k_heap a) l = []"
proof (rule ccontr)
  assume "sp_nodes (k_heap a) l \<noteq> []"
  then obtain n where n: "n \<in> set (sp_nodes (k_heap a) l)" by (meson list.set_sel(1))
  have kinv: "kinv {} a" using ok by (simp add: kernel_ok_def)
  obtain t where t: "n = SchedNode t" using qwf_wait_nodes [OF kinv_qwf [OF kinv] n] assms(3) by blast
  then have "sched_place (k_tasks a t) = Some l"
    using n qwf_mem [OF kinv_qwf [OF kinv]] kinv_place [OF kinv, of t] by (auto simp: place_ok_def)
  moreover have "t_state (k_tasks a t) = OS_TASK_UNUSED \<or> t_state (k_tasks a t) = OS_TASK_READY"
    using ok assms(2) by (simp add: kernel_ok_def boot_ok_def)
  ultimately show False using assms(3) by (auto simp: sched_place_def split: if_splits)
qed

lemma boot_WaitPop: "kernel_ok a \<Longrightarrow> \<not> k_started a \<Longrightarrow> is_wait l \<Longrightarrow> spec_WaitPop (Some l) a = (None, a)"
  by (simp add: spec_WaitPop_def pop_front_eq boot_no_waiters)

subsection \<open>Waking a waiter and giving it the processor when it deserves it\<close>

lemma in_hand_frame [simp]:
  "in_hand tm t (a\<lparr>k_memory := m\<rparr>) = in_hand tm t a"
  "in_hand tm t a \<Longrightarrow> in_hand tm t (set_result c r a)"
  unfolding set_result_def
  by (auto simp: in_hand_def tcb_view_def wait_ok_def waits_on_def intro!: live_tcb_view)

lemma in_hand_queue:
  "(queue_ok (k_queues a i) \<Longrightarrow> queue_ok (g (k_queues a i))) \<Longrightarrow> in_hand tm t a \<Longrightarrow> in_hand tm t (upd_queue i g a)"
  by (auto simp: in_hand_def intro!: upd_queue_frame) (auto simp: upd_queue_def)

lemma current_ok_wake:
  assumes "current_ok a" "k_current b = k_current a" "k_tasks b = (k_tasks a)(t := T)"
    and "t_state (k_tasks a t) \<noteq> OS_TASK_RUNNING" "t_state T \<noteq> OS_TASK_RUNNING"
  shows "current_ok b"
  using assms unfolding current_ok_def by (metis fun_upd_apply)

lemma set_result_frame [simp]:
  "k_started (set_result t r a) = k_started a" "k_current (set_result t r a) = k_current a"
  "k_queues (set_result t r a) = k_queues a" "k_mutexes (set_result t r a) = k_mutexes a"
  "k_sems (set_result t r a) = k_sems a" "k_memory (set_result t r a) = k_memory a"
  "k_heap (set_result t r a) = k_heap a" "waiters (set_result t r b) = waiters b"
  "views (set_result t r a) = (views a)(t := (views a t)\<lparr>t_wait_result := r\<rparr>)"
  by (simp_all add: set_result_def views_def)

lemma MaybePreempt_top:
  assumes "live True {} a" "current_ok a" and top: "top_but (set_option w) a"
    and run: "spec_WaitMaybePreempt w a = Some b"
  shows "top_running b \<or> 0 < k_critical_nesting a \<and> k_sched_pending b"
proof -
  have sched: "top_running e" if "spec_SchedSchedule r f a = Some (n, e)" for r f n e
    using returnsD [OF SchedSchedule_ok [OF assms(1,2), of r f]] that by (auto simp: dispatched_def)
  have "top_running a" if "\<And>t. w = Some t \<Longrightarrow> \<exists>c. k_current a = Some c \<and>
      t_effective_priority (k_tasks a t) \<le> t_effective_priority (k_tasks a c)"
    using that top by (auto simp: top_running_def top_but_def)
  then show ?thesis
    using run sched
    by (auto simp: spec_WaitMaybePreempt_def Let_def not_less split: option.splits if_splits Option.bind_splits)
qed

definition woken_tcb :: "os_status_t \<Rightarrow> os_task_t \<Rightarrow> os_task_t" where
  "woken_tcb r T = clear_wait r (T\<lparr>t_delay_list := None\<rparr>)"

lemma woken_tcb_simps [simp]:
  "t_state (woken_tcb r T) = OS_TASK_READY" "t_effective_priority (woken_tcb r T) = t_effective_priority T"
  "t_base_priority (woken_tcb r T) = t_base_priority T" "mwait (woken_tcb r T) = None"
  by (simp_all add: woken_tcb_def clear_wait_def mwait_def)

lemma wake_kernel_ok:
  assumes hand: "in_hand True t a" and current: "current_ok a"
  shows "returns (spec_WaitMakeReady (Some t) r a) (\<lambda>b. kernel_ok b \<and> same_objects a b \<and>
    k_current b = k_current a \<and> waiters b = waiters a \<and> k_tasks b = (k_tasks a)(t := woken_tcb r (k_tasks a t)) \<and>
    (top_running a \<longrightarrow> top_but {t} b))"
proof (rule returns_mono [OF WaitMakeReady_ok [OF hand, folded woken_tcb_def]], elim conjE, intro conjI)
  fix b
  assume b: "live True {} b" "same_objects a b" "k_current b = k_current a"
    "k_tasks b = (k_tasks a)(t := woken_tcb r (k_tasks a t))" "waiters b = waiters a"
  have "current_ok b"
    using hand by (intro current_ok_wake [OF current b(3,4)]) (simp_all add: in_hand_def)
  then show "kernel_ok b" by (rule live_kernel_ok [OF b(1)])
  show "top_running a \<longrightarrow> top_but {t} b"
    by (auto simp: top_running_def top_but_def b(3,4))
qed

text \<open>From the state with the waiter in hand to the state after the scheduling decision.\<close>

definition woken_by :: "nat \<Rightarrow> os_status_t \<Rightarrow> 'p spec_kernel \<Rightarrow> 'p spec_kernel \<Rightarrow> bool" where
  "woken_by t r a b \<longleftrightarrow> kernel_ok b \<and> same_objects a b \<and> waiters b = waiters a \<and>
     views b = (views a)(t := view (woken_tcb r (k_tasks a t))) \<and>
     (k_critical_nesting a = 0 \<and> top_running a \<longrightarrow> top_running b)"

lemma wake_and_preempt:
  assumes hand: "in_hand True t a" and current: "current_ok a"
  shows "returns (Option.bind (spec_WaitMakeReady (Some t) r a) (spec_WaitMaybePreempt (Some t))) (woken_by t r a)"
proof (rule returns_bind [OF wake_kernel_ok [OF hand current]], elim conjE)
  fix b
  assume b: "kernel_ok b" "same_objects a b" "k_current b = k_current a" "waiters b = waiters a"
    "k_tasks b = (k_tasks a)(t := woken_tcb r (k_tasks a t))" "top_running a \<longrightarrow> top_but {t} b"
  have live: "live True {} b" "current_ok b"
    using b(1,2) hand live_started [of True "{t}" a]
    by (auto simp: in_hand_def same_objects_def kernel_ok_def intro: kernel_ok_live [OF b(1)])
  obtain e where e: "spec_WaitMaybePreempt (Some t) b = Some e" "live True {} e" "current_ok e" "same_objects b e"
    "same_view b e"
    using returnsD [OF WaitMaybePreempt_ok [OF live, of "Some t"]] by blast
  have "views b = (views a)(t := view (woken_tcb r (k_tasks a t)))"
    by (auto simp: views_def b(5))
  moreover have "k_critical_nesting b = k_critical_nesting a" using b(2) by (simp add: same_objects_def)
  then have "k_critical_nesting a = 0 \<and> top_running a \<longrightarrow> top_running e"
    using MaybePreempt_top [OF live _ e(1)] b(6) by auto
  ultimately show "returns (spec_WaitMaybePreempt (Some t) b) (woken_by t r a)"
    using e b(2,4) live_kernel_ok [OF e(2,3)]
    by (auto simp: woken_by_def same_view_def intro: same_objects_trans)
qed

text \<open>Seen from the state before the waiter was taken from its list \<open>l\<close>.\<close>

lemma mwait_other:
  "t_wait_list T = Some l \<Longrightarrow> (\<And>i. l \<noteq> MutexWaiters i) \<Longrightarrow> mwait T = None"
  by (cases l) (auto simp: mwait_def)

lemma woken_by_calm:
  assumes "woken_by t r a b" and "t_wait_list (k_tasks a t) = Some l" "\<And>i. l \<noteq> MutexWaiters i"
  shows "calm a b"
proof -
  have "mview b = mview a"
    using assms mwait_other [of "k_tasks a t" l]
    by (auto simp: woken_by_def fun_eq_iff mview_of_views) (auto simp: views_def mwait_def)
  then show ?thesis using assms(1) by (auto simp: woken_by_def calm_but_def same_objects_def)
qed

subsection \<open>Blocking the caller\<close>

lemma block_ok:
  assumes "kernel_ok a" "k_current a = Some c" "timeout \<noteq> 0"
    and "wait_matches kind (Some l) obj buf (t_base_priority (k_tasks a c))" "\<And>i. l \<noteq> MutexWaiters i"
  shows "returns (do { (_, s) \<leftarrow> spec_WaitBlockCurrent (Some l) kind obj buf timeout a; Some s })
    (\<lambda>b. dispatched a b \<and> blocked_on c l kind obj buf timeout a b \<and> kernel_ok b \<and> calm a b)"
proof (rule returns_bind [OF WaitBlockCurrent_ok [OF assms(1-4)]], goal_cases)
  case (2 nb)
  then obtain n b where b: "nb = (n, b)" "dispatched a b" "blocked_on c l kind obj buf timeout a b" by auto
  have "t_state (k_tasks a c) = OS_TASK_RUNNING" using kernel_ok_current [OF assms(1,2)] by simp
  then have "mwait (k_tasks a c) = None" by (simp add: mwait_def)
  moreover have "mwait (view ((block_tcb l kind obj buf d T)\<lparr>t_wake_tick := w, t_delay_list := m\<rparr>)) = None" for d T w m
    using mwait_other [of "view ((block_tcb l kind obj buf d T)\<lparr>t_wake_tick := w, t_delay_list := m\<rparr>)" l] assms(5)
    by (simp add: block_tcb_def)
  ultimately have "mview b = mview a"
    using b(3) by (auto simp: blocked_on_def fun_eq_iff mview_of_views)
      (auto simp: views_def mwait_def block_tcb_def)
  then show ?case
    using b calm_dispatched live_kernel_ok by (auto simp: dispatched_def)
qed (use assms in auto)

subsection \<open>Semaphores\<close>

lemma SemTakeCurrent_ok:
  assumes ok: "kernel_ok a"
  shows "returns (spec_SemTakeCurrent sem timeout a) (\<lambda>b. kernel_ok b \<and> calm a b)"
proof (cases "k_current a")
  case (Some c)
  note run = kernel_ok_current [OF ok Some]
  have "returns (do { (_, s) \<leftarrow> spec_WaitBlockCurrent (Some (SemWaiters i)) OS_WAIT_SEMAPHORE (Some (SemObj i)) 0
      timeout a; Some s }) (\<lambda>b. kernel_ok b \<and> calm a b)" if "timeout \<noteq> 0" for i
    by (rule returns_mono [OF block_ok [OF ok Some that]]) auto
  then show ?thesis
    using ok run Some
    by (auto simp: spec_SemTakeCurrent_def sem_count_steps split: option.split)
qed (use ok in \<open>simp add: spec_SemTakeCurrent_def\<close>)

text \<open>A give with a waiter hands over to the first one and leaves the count alone.\<close>

lemma SemGive_wakes:
  assumes ok: "kernel_ok a" and i: "os_SemIsValid (Some i) a"
    and w: "sp_nodes (k_heap a) (SemWaiters i) = SchedNode t # ns"
  shows "\<exists>b. spec_SemGiveFromIsrContext (Some i) a = Some ((OS_STATUS_OK, Some t), b) \<and> kernel_ok b \<and>
    same_objects a b \<and> k_current b = k_current a \<and> waiters b = (waiters a)(SemWaiters i := ns) \<and>
    k_tasks b = (k_tasks a)(t := woken_tcb OS_STATUS_OK (k_tasks a t)) \<and> calm_but {t} a b \<and>
    (top_running a \<longrightarrow> top_but {t} b)"
proof -
  have started: "k_started a" using boot_no_waiters [OF ok, of "SemWaiters i"] w by auto
  have live: "live True {} a" by (rule kernel_ok_live [OF ok started])
  have "is_wait (SemWaiters i)" by simp
  then obtain hand: "in_hand True t (ndrop (SemWaiters i) (SchedNode t) a)"
    and pop: "spec_WaitPop (Some (SemWaiters i)) a = (Some t, ndrop (SemWaiters i) (SchedNode t) a)"
    and wl: "t_wait_list (k_tasks a t) = Some (SemWaiters i)"
    using WaitPop_cases [OF live, of "SemWaiters i"] w by auto
  have current: "current_ok (ndrop (SemWaiters i) (SchedNode t) a)" using ok by (simp add: kernel_ok_def)
  obtain b where b: "spec_WaitMakeReady (Some t) OS_STATUS_OK (ndrop (SemWaiters i) (SchedNode t) a) = Some b"
    "kernel_ok b" "same_objects (ndrop (SemWaiters i) (SchedNode t) a) b"
    "k_current b = k_current a" "waiters b = waiters (ndrop (SemWaiters i) (SchedNode t) a)"
    "k_tasks b = (k_tasks a)(t := woken_tcb OS_STATUS_OK (k_tasks a t))"
    "top_running (ndrop (SemWaiters i) (SchedNode t) a) \<longrightarrow> top_but {t} b"
    using returnsD [OF wake_kernel_ok [OF hand current, of OS_STATUS_OK]] by auto
  have "mview b = mview a"
    using mwait_other [OF wl] by (auto simp: fun_eq_iff mview_def b(6) Let_def)
  moreover have "top_running (ndrop (SemWaiters i) (SchedNode t) a) = top_running a" by (simp add: top_running_def)
  ultimately have "calm_but {t} a b" "top_running a \<longrightarrow> top_but {t} b"
    using b(3,7) by (simp_all add: calm_but_def same_objects_def)
  moreover have "waiters b = (waiters a)(SemWaiters i := ns)" using b(5) w by (simp add: waiters_def)
  ultimately show ?thesis
    using i b(1-4,6) pop by (simp add: spec_SemGiveFromIsrContext_def)
qed

lemma SemGive_counts:
  assumes ok: "kernel_ok a" and w: "sp_nodes (k_heap a) (SemWaiters i) = []"
  shows "spec_SemGiveFromIsrContext (Some i) a =
    Some (if \<not> os_SemIsValid (Some i) a then ((OS_STATUS_INVALID_ARGUMENT, None), a)
      else if s_count (k_sems a i) = s_maximum_count (k_sems a i) then ((OS_STATUS_LIMIT_REACHED, None), a)
      else ((OS_STATUS_OK, None), upd_sem i (\<lambda>S. S\<lparr>s_count := s_count S + 1\<rparr>) a))"
  using w by (auto simp: spec_SemGiveFromIsrContext_def spec_WaitPop_def pop_front_eq os_SemIsValid_def)

lemma SemGiveFromIsrContext_ok:
  assumes ok: "kernel_ok a"
  shows "returns (spec_SemGiveFromIsrContext sem a) (\<lambda>((status, woken), b). kernel_ok b \<and>
    k_started b = k_started a \<and> k_current b = k_current a \<and> calm_but (set_option woken) a b \<and>
    (top_running a \<longrightarrow> top_but (set_option woken) b))"
proof (cases "\<exists>i. sem = Some i \<and> os_SemIsValid sem a \<and> sp_nodes (k_heap a) (SemWaiters i) \<noteq> []")
  case True
  then obtain i n ns where i: "sem = Some i" "os_SemIsValid (Some i) a" "sp_nodes (k_heap a) (SemWaiters i) = n # ns"
    by (auto simp: neq_Nil_conv)
  moreover obtain t where "n = SchedNode t"
    using qwf_wait_nodes [OF kinv_qwf, of "{}" a n "SemWaiters i"] ok i(3) by (auto simp: kernel_ok_def)
  ultimately show ?thesis using SemGive_wakes [OF ok i(2), of t ns] by (auto simp: same_objects_def)
next
  case False
  show ?thesis
  proof (cases sem)
    case (Some i)
    show ?thesis
    proof (cases "os_SemIsValid sem a")
      case True
      have "s_count (k_sems a i) \<noteq> s_maximum_count (k_sems a i) \<Longrightarrow>
          kernel_ok (upd_sem i (\<lambda>S. S\<lparr>s_count := s_count S + 1\<rparr>) a)"
        using True Some by (intro sem_count_steps(2) [OF ok]) (auto simp: os_SemIsValid_def)
      then show ?thesis
        using False True Some ok SemGive_counts [OF ok, of i] by simp (simp add: upd_sem_def top_running_def)
    qed (use Some ok in \<open>simp add: spec_SemGiveFromIsrContext_def\<close>)
  qed (use ok in \<open>simp add: spec_SemGiveFromIsrContext_def\<close>)
qed

lemma WaitMaybePreempt_kernel_ok:
  assumes "kernel_ok a" "k_started a"
  shows "returns (spec_WaitMaybePreempt w a) (\<lambda>b. kernel_ok b \<and> same_objects a b \<and> same_view a b \<and>
    (top_but (set_option w) a \<longrightarrow> top_running b \<or> 0 < k_critical_nesting a \<and> k_sched_pending b))"
proof -
  have live: "live True {} a" "current_ok a"
    using kernel_ok_live [OF assms] assms(1) by (simp_all add: kernel_ok_def)
  obtain b where b: "spec_WaitMaybePreempt w a = Some b" "live True {} b" "current_ok b" "same_objects a b"
    "same_view a b"
    using returnsD [OF WaitMaybePreempt_ok [OF live, of w]] by blast
  then show ?thesis using live_kernel_ok [OF b(2,3)] MaybePreempt_top [OF live _ b(1)] by auto
qed

lemma SemGiveCurrent_ok:
  assumes ok: "kernel_ok a"
  shows "returns (spec_SemGiveCurrent sem a) (\<lambda>b. kernel_ok b \<and> calm a b)"
proof (cases "k_current a")
  case (Some c)
  note run = kernel_ok_current [OF ok Some]
  obtain st w b where b: "spec_SemGiveFromIsrContext sem a = Some ((st, w), b)" "kernel_ok b" "k_started b"
    "calm_but (set_option w) a b"
    using returnsD [OF SemGiveFromIsrContext_ok [OF ok, of sem]] run by auto
  let ?b = "set_result c st b"
  have calm: "calm_but (set_option w) a ?b" using b(4) by simp
  obtain e where e: "spec_WaitMaybePreempt w ?b = Some e" "kernel_ok e" "same_objects ?b e" "same_view ?b e"
    "top_but (set_option w) ?b \<longrightarrow> top_running e \<or> 0 < k_critical_nesting ?b \<and> k_sched_pending e"
    using returnsD [OF WaitMaybePreempt_kernel_ok [of ?b w]] b by auto
  have "mview e = mview ?b" by (rule views_mview) (use e(4) in \<open>simp add: same_view_def\<close>)
  then have "calm a e" using calm e(3,5) by (auto simp: calm_but_def same_objects_def)
  then show ?thesis
    using b(1,2,4) e(1,2) run Some
    by (cases w) (auto simp: spec_SemGiveCurrent_def Let_def)
qed (use ok in \<open>simp add: spec_SemGiveCurrent_def\<close>)

end
