(* ===== verification/Kernel_Queue.thy ===== *)
theory Kernel_Queue
  imports Kernel_IPC
begin

section \<open>Queues keep the kernel in order and are first-in first-out\<close>

text \<open>
  Every request on a queue returns and keeps \<open>kernel_ok\<close>, whatever its arguments: the
  pointers that the operations copy through are never NULL. \<open>queue_items\<close> reads the messages of a
  queue off its ring, oldest first; a send appends to this list, a receive takes its
  head, and a waiting partner is served directly.
\<close>

subsection \<open>The ring\<close>

text \<open>The address of a slot is computed without wrapping around, and is not NULL.\<close>

lemma QueueSlot_unat:
  assumes "queue_ok Q" "q_used Q" "index < q_capacity Q"
  shows "unat (os_QueueSlot Q index) = unat (q_buffer Q) + unat index * unat (q_item_size Q)"
proof -
  have bound: "unat (q_buffer Q) + unat (q_item_size Q) * unat (q_capacity Q) \<le> 2 ^ 32"
    using assms by (simp add: queue_ok_def)
  have item: "0 < unat (q_item_size Q)"
    using assms by (simp add: queue_ok_def queue_valid_def word_less_nat_alt)
  have "Suc (unat index) * unat (q_item_size Q) \<le> unat (q_capacity Q) * unat (q_item_size Q)"
    using assms(3) by (intro mult_le_mono1) (simp add: word_less_nat_alt)
  with bound item have *: "unat (q_buffer Q) + unat index * unat (q_item_size Q) < 2 ^ 32"
    by (simp add: mult.commute)
  then have "unat (index * q_item_size Q) = unat index * unat (q_item_size Q)"
    by (simp add: unat_word_ariths)
  with * show ?thesis
    by (simp add: os_QueueSlot_def unat_word_ariths)
qed

lemma QueueSlot_nonzero:
  assumes "queue_ok Q" "q_used Q" "index < q_capacity Q"
  shows "os_QueueSlot Q index \<noteq> 0"
proof -
  have "0 < unat (q_buffer Q)"
    using assms by (simp add: queue_ok_def queue_valid_def unat_gt_0)
  then have "0 < unat (os_QueueSlot Q index)" using QueueSlot_unat [OF assms] by simp
  then show ?thesis by (auto simp: unat_gt_0)
qed

lemma ring_next_less: "queue_valid Q \<Longrightarrow> ring_next Q i < q_capacity Q"
  by (simp add: ring_next_def queue_valid_def word_less_nat_alt unat_mod_distrib)

lemma ring_next_unat:
  "i < q_capacity Q \<Longrightarrow> unat (ring_next Q i) = Suc (unat i) mod unat (q_capacity Q)"
  by (simp add: ring_next_def unat_mod_distrib word_step)

lemma queue_ok_push:
  "queue_ok Q \<Longrightarrow> q_count Q < q_capacity Q \<Longrightarrow>
   queue_ok (Q\<lparr>q_tail := ring_next Q (q_tail Q), q_count := q_count Q + 1\<rparr>)"
  using ring_next_less [of Q "q_tail Q"] ring_next_unat [of "q_tail Q" Q]
  by (auto simp: queue_ok_def queue_valid_def word_step mod_Suc_eq)

lemma queue_ok_pop:
  assumes "queue_ok Q" "0 < q_count Q"
  shows "queue_ok (Q\<lparr>q_head := ring_next Q (q_head Q), q_count := q_count Q - 1\<rparr>)"
proof -
  let ?c = "unat (q_capacity Q)"
  have "0 < unat (q_count Q)" using assms(2) by (simp add: word_less_nat_alt)
  then have "(Suc (unat (q_head Q)) mod ?c + (unat (q_count Q) - 1)) mod ?c =
      (unat (q_head Q) + unat (q_count Q)) mod ?c"
    using mod_add_left_eq [of "Suc (unat (q_head Q))" ?c "unat (q_count Q) - 1"] by simp
  then show ?thesis
    using assms ring_next_less [of Q "q_head Q"] ring_next_unat [of "q_head Q" Q]
    by (auto simp: queue_ok_def queue_valid_def word_le_nat_alt unat_minus_one word_neq_0_conv)
qed

subsection \<open>Memory\<close>

definition mem_copy :: "addr \<Rightarrow> addr \<Rightarrow> size_t \<Rightarrow> (addr \<Rightarrow> u8) \<Rightarrow> addr \<Rightarrow> u8" where
  "mem_copy d r n m = (\<lambda>a. if a - d < n then m (r + (a - d)) else m a)"

lemma memcpy_eq: "d \<noteq> 0 \<Longrightarrow> r \<noteq> 0 \<Longrightarrow> os_memcpy d r n a = Some (a\<lparr>k_memory := mem_copy d r n (k_memory a)\<rparr>)"
  by (simp add: os_memcpy_def mem_copy_def Let_def)

definition bytes_at :: "(addr \<Rightarrow> u8) \<Rightarrow> addr \<Rightarrow> size_t \<Rightarrow> u8 list" where
  "bytes_at m a n = map (\<lambda>k. m (a + of_nat k)) [0..<unat n]"

lemma bytes_at_copied: "bytes_at (mem_copy d r n m) d n = bytes_at m r n"
proof -
  have "(of_nat k :: size_t) < n" if "k < unat n" for k
    using that le_unat_uoi [of k n] by (simp add: word_less_nat_alt)
  then show ?thesis by (auto simp: bytes_at_def mem_copy_def)
qed

lemma diff_less_iff:
  fixes a d n :: "32 word"
  assumes "unat d + unat n \<le> 2 ^ 32"
  shows "a - d < n \<longleftrightarrow> unat d \<le> unat a \<and> unat a < unat d + unat n"
proof (cases "d \<le> a")
  case True
  then show ?thesis by (auto simp: word_less_nat_alt word_le_nat_alt unat_sub)
next
  case False
  then have "unat a < unat d" by (simp add: word_le_nat_alt)
  moreover have "unat (a - d) = unat a + 2 ^ 32 - unat d"
    using False unat_sub_if_size [of a d] by (simp add: word_le_nat_alt word_size)
  ultimately show ?thesis using assms by (simp add: word_less_nat_alt)
qed

text \<open>The storage of a queue, and memory that lies apart from it.\<close>

definition apart :: "os_queue_t \<Rightarrow> addr \<Rightarrow> size_t \<Rightarrow> bool" where
  "apart Q d n \<longleftrightarrow> unat d + unat n \<le> unat (q_buffer Q) \<or>
     (unat (q_buffer Q) + unat (q_item_size Q) * unat (q_capacity Q) \<le> unat d \<and> unat d + unat n \<le> 2 ^ 32)"

definition slot :: "os_queue_t \<Rightarrow> nat \<Rightarrow> addr" where
  "slot Q k = os_QueueSlot Q (of_nat (k mod unat (q_capacity Q)))"

definition queue_items :: "(addr \<Rightarrow> u8) \<Rightarrow> os_queue_t \<Rightarrow> u8 list list" where
  "queue_items m Q = map (\<lambda>k. bytes_at m (slot Q (unat (q_head Q) + k)) (q_item_size Q)) [0..<unat (q_count Q)]"

lemma slot_index:
  assumes "queue_valid Q"
  shows "(of_nat (k mod unat (q_capacity Q)) :: size_t) < q_capacity Q"
    and "unat (of_nat (k mod unat (q_capacity Q)) :: size_t) = k mod unat (q_capacity Q)"
proof -
  have "0 < unat (q_capacity Q)" using assms by (simp add: queue_valid_def word_less_nat_alt)
  then have "k mod unat (q_capacity Q) < unat (q_capacity Q)" by simp
  moreover from this have "unat (of_nat (k mod unat (q_capacity Q)) :: size_t) = k mod unat (q_capacity Q)"
    by (intro le_unat_uoi [of _ "q_capacity Q"]) simp
  ultimately show "(of_nat (k mod unat (q_capacity Q)) :: size_t) < q_capacity Q"
    "unat (of_nat (k mod unat (q_capacity Q)) :: size_t) = k mod unat (q_capacity Q)"
    by (simp_all add: word_less_nat_alt)
qed

lemma slot_unat:
  assumes "queue_ok Q" "q_used Q"
  shows "unat (slot Q k) = unat (q_buffer Q) + (k mod unat (q_capacity Q)) * unat (q_item_size Q)"
    and "unat (slot Q k) + unat (q_item_size Q) \<le>
      unat (q_buffer Q) + unat (q_item_size Q) * unat (q_capacity Q)"
    and "unat (slot Q k) + unat (q_item_size Q) \<le> 2 ^ 32"
proof -
  have valid: "queue_valid Q" and bound: "unat (q_buffer Q) + unat (q_item_size Q) * unat (q_capacity Q) \<le> 2 ^ 32"
    using assms by (simp_all add: queue_ok_def)
  show eq: "unat (slot Q k) = unat (q_buffer Q) + (k mod unat (q_capacity Q)) * unat (q_item_size Q)"
    using QueueSlot_unat [OF assms slot_index(1) [OF valid]] by (simp add: slot_def slot_index(2) [OF valid])
  have "Suc (k mod unat (q_capacity Q)) \<le> unat (q_capacity Q)"
    using slot_index [OF valid, of k] by (simp add: word_less_nat_alt Suc_le_eq)
  then have "Suc (k mod unat (q_capacity Q)) * unat (q_item_size Q) \<le> unat (q_capacity Q) * unat (q_item_size Q)"
    by (rule mult_le_mono1)
  then show le: "unat (slot Q k) + unat (q_item_size Q) \<le>
      unat (q_buffer Q) + unat (q_item_size Q) * unat (q_capacity Q)"
    by (simp add: eq mult.commute)
  show "unat (slot Q k) + unat (q_item_size Q) \<le> 2 ^ 32" using le bound by linarith
qed

lemma byte_unat:
  fixes x :: addr and n :: size_t
  assumes "unat x + unat n \<le> 2 ^ 32" "j < unat n"
  shows "unat (x + of_nat j :: addr) = unat x + j"
proof -
  have "unat (of_nat j :: addr) = j" using assms(2) by (intro le_unat_uoi [of _ n]) simp
  then show ?thesis using assms by (simp add: unat_word_ariths)
qed

lemma bytes_frame:
  assumes "unat x + unat n \<le> 2 ^ 32" "unat d + unat l \<le> 2 ^ 32"
    and "unat d + unat l \<le> unat x \<or> unat x + unat n \<le> unat d"
  shows "bytes_at (mem_copy d r l m) x n = bytes_at m x n"
  unfolding bytes_at_def
proof (rule map_cong [OF refl])
  fix j assume "j \<in> set [0..<unat n]"
  then show "mem_copy d r l m (x + of_nat j) = m (x + of_nat j)"
    using assms byte_unat [OF assms(1), of j] by (auto simp: mem_copy_def diff_less_iff)
qed

lemma slots_disjoint:
  assumes "queue_ok Q" "q_used Q" and "j mod unat (q_capacity Q) \<noteq> k mod unat (q_capacity Q)"
  shows "unat (slot Q j) + unat (q_item_size Q) \<le> unat (slot Q k) \<or>
    unat (slot Q k) + unat (q_item_size Q) \<le> unat (slot Q j)"
proof -
  have "x * unat (q_item_size Q) + unat (q_item_size Q) \<le> y * unat (q_item_size Q)" if "x < y" for x y :: nat
    using mult_le_mono1 [of "Suc x" y "unat (q_item_size Q)"] that by (simp add: add.commute)
  then show ?thesis
    using assms(3) by (auto simp: slot_unat(1) [OF assms(1,2)] neq_iff)
qed

lemma ring_distinct:
  assumes "k < n" "n < (c::nat)"
  shows "(h + k) mod c \<noteq> (h + n) mod c"
proof
  assume "(h + k) mod c = (h + n) mod c"
  then have "c dvd n - k" using assms mod_eq_dvd_iff_nat [of "h + k" "h + n" c] by simp
  then show False using assms by (auto dest: dvd_imp_le)
qed

text \<open>Messages are not disturbed by writes elsewhere, and the ring operations act on their list.\<close>

definition push_item :: "os_queue_t \<Rightarrow> os_queue_t" where
  "push_item Q = Q\<lparr>q_tail := ring_next Q (q_tail Q), q_count := q_count Q + 1\<rparr>"

definition pop_item :: "os_queue_t \<Rightarrow> os_queue_t" where
  "pop_item Q = Q\<lparr>q_head := ring_next Q (q_head Q), q_count := q_count Q - 1\<rparr>"

lemma items_frame:
  assumes "queue_ok Q" "q_used Q" "apart Q d n"
  shows "queue_items (mem_copy d r n m) Q = queue_items m Q"
  unfolding queue_items_def
proof (rule map_cong [OF refl], rule bytes_frame)
  fix k
  note s = slot_unat [OF assms(1,2), of "unat (q_head Q) + k"]
  show "unat (slot Q (unat (q_head Q) + k)) + unat (q_item_size Q) \<le> 2 ^ 32" by (rule s(3))
  have "unat (q_buffer Q) \<le> 2 ^ 32" using s by linarith
  then show "unat d + unat n \<le> 2 ^ 32" using assms(3) by (auto simp: apart_def)
  show "unat d + unat n \<le> unat (slot Q (unat (q_head Q) + k)) \<or>
    unat (slot Q (unat (q_head Q) + k)) + unat (q_item_size Q) \<le> unat d"
    using assms(3) s(1,2) by (auto simp: apart_def)
qed

lemma slot_tail:
  assumes "queue_ok Q" "q_used Q"
  shows "os_QueueSlot Q (q_tail Q) = slot Q (unat (q_head Q) + unat (q_count Q))"
proof -
  have "unat (q_tail Q) = (unat (q_head Q) + unat (q_count Q)) mod unat (q_capacity Q)"
    using assms by (simp add: queue_ok_def)
  from this [symmetric] show ?thesis by (simp add: slot_def)
qed

lemma slot_head:
  assumes "queue_ok Q" "q_used Q"
  shows "os_QueueSlot Q (q_head Q) = slot Q (unat (q_head Q))"
  using assms by (simp add: slot_def queue_ok_def queue_valid_def word_less_nat_alt)

lemma items_push:
  assumes "queue_ok Q" "q_used Q" "q_count Q < q_capacity Q"
  shows "queue_items (mem_copy (os_QueueSlot Q (q_tail Q)) item (q_item_size Q) m) (push_item Q) =
    queue_items m Q @ [bytes_at m item (q_item_size Q)]"
proof -
  let ?m = "mem_copy (os_QueueSlot Q (q_tail Q)) item (q_item_size Q) m"
  have slot: "slot (push_item Q) = slot Q" by (simp add: push_item_def slot_def os_QueueSlot_def fun_eq_iff)
  have "unat (q_count (push_item Q)) = Suc (unat (q_count Q))"
    using assms(3) word_step(3) by (auto simp: push_item_def)
  then have "queue_items ?m (push_item Q) = map (\<lambda>k. bytes_at ?m (slot Q (unat (q_head Q) + k)) (q_item_size Q))
      [0..<unat (q_count Q)] @ [bytes_at ?m (slot Q (unat (q_head Q) + unat (q_count Q))) (q_item_size Q)]"
    by (simp add: queue_items_def slot) (simp add: push_item_def)
  moreover have "bytes_at ?m (slot Q (unat (q_head Q) + k)) (q_item_size Q) =
      bytes_at m (slot Q (unat (q_head Q) + k)) (q_item_size Q)" if "k < unat (q_count Q)" for k
    unfolding slot_tail [OF assms(1,2)]
  proof (rule bytes_frame)
    show "unat (slot Q (unat (q_head Q) + unat (q_count Q))) + unat (q_item_size Q) \<le> unat (slot Q (unat (q_head Q) + k)) \<or>
      unat (slot Q (unat (q_head Q) + k)) + unat (q_item_size Q) \<le> unat (slot Q (unat (q_head Q) + unat (q_count Q)))"
      using that assms(3) ring_distinct [of k "unat (q_count Q)" "unat (q_capacity Q)" "unat (q_head Q)"]
      by (intro slots_disjoint [OF assms(1,2)]) (auto simp: word_less_nat_alt)
  qed (rule slot_unat(3) [OF assms(1,2)])+
  ultimately show ?thesis by (simp add: queue_items_def slot_tail [OF assms(1,2)] bytes_at_copied)
qed

lemma items_pop:
  assumes "queue_ok Q" "q_used Q" "0 < q_count Q"
  shows "queue_items m Q = bytes_at m (os_QueueSlot Q (q_head Q)) (q_item_size Q) # queue_items m (pop_item Q)"
proof -
  have count: "unat (q_count Q) = Suc (unat (q_count (pop_item Q)))"
    using assms(3) by (simp add: pop_item_def word_less_nat_alt unat_minus_one unat_gt_0)
  have "slot (pop_item Q) (unat (q_head (pop_item Q)) + k) = slot Q (unat (q_head Q) + Suc k)" for k
    using ring_next_unat [of "q_head Q" Q] assms(1,2)
    by (simp add: pop_item_def slot_def os_QueueSlot_def queue_ok_def queue_valid_def mod_simps)
  then have "queue_items m (pop_item Q) =
      map (\<lambda>k. bytes_at m (slot Q (unat (q_head Q) + Suc k)) (q_item_size Q)) [0..<unat (q_count (pop_item Q))]"
    by (simp add: queue_items_def) (simp add: pop_item_def)
  then show ?thesis
    by (simp add: queue_items_def count map_upt_Suc slot_head [OF assms(1,2)] del: upt_Suc)
qed

subsection \<open>Sending\<close>

lemma queue_ok_steps:
  assumes "queue_ok Q"
  shows "q_count Q < q_capacity Q \<Longrightarrow> queue_ok (push_item Q)" and "0 < q_count Q \<Longrightarrow> queue_ok (pop_item Q)"
  unfolding push_item_def pop_item_def using assms by (auto intro: queue_ok_push queue_ok_pop)

lemma queue_valid_ok: "kernel_ok a \<Longrightarrow> os_QueueIsValid (Some i) a \<Longrightarrow>
   queue_ok (k_queues a i) \<and> queue_valid (k_queues a i) \<and> q_used (k_queues a i)"
  by (auto simp: kernel_ok_def objects_ok_def os_QueueIsValid_def queue_valid_def)

lemma waiting_buffer:
  "in_hand tm t a \<Longrightarrow> t_wait_list (k_tasks a t) = Some l \<Longrightarrow>
   l = QueueSendWaiters i \<or> l = QueueReceiveWaiters i \<Longrightarrow> t_wait_buffer (k_tasks a t) \<noteq> 0"
proof -
  assume "in_hand tm t a" "t_wait_list (k_tasks a t) = Some l" "l = QueueSendWaiters i \<or> l = QueueReceiveWaiters i"
  then have "wait_matches (t_wait_kind (k_tasks a t)) (Some l) (t_wait_object (k_tasks a t))
      (t_wait_buffer (k_tasks a t)) (t_base_priority (k_tasks a t))"
    by (auto simp: in_hand_def wait_ok_def waits_on_def)
  with \<open>l = QueueSendWaiters i \<or> l = QueueReceiveWaiters i\<close> show ?thesis
    by (elim wait_matches.elims) auto
qed

lemma WaitPop_empty: "sp_nodes (k_heap a) l = [] \<Longrightarrow> spec_WaitPop (Some l) a = (None, a)"
  by (simp add: spec_WaitPop_def pop_front_eq)

text \<open>The waiter at the front of a list, taken in hand.\<close>

lemma WaitPop_front:
  assumes "kernel_ok a" "k_started a" "is_wait l" "sp_nodes (k_heap a) l = SchedNode t # ns"
  shows "spec_WaitPop (Some l) a = (Some t, ndrop l (SchedNode t) a)"
    and "in_hand True t (ndrop l (SchedNode t) a)" and "t_wait_list (k_tasks a t) = Some l"
    and "current_ok (ndrop l (SchedNode t) a)" and "waiters (ndrop l (SchedNode t) a) = (waiters a)(l := ns)"
proof -
  have live: "live True {} a" by (rule kernel_ok_live [OF assms(1,2)])
  show "spec_WaitPop (Some l) a = (Some t, ndrop l (SchedNode t) a)"
    "in_hand True t (ndrop l (SchedNode t) a)" "t_wait_list (k_tasks a t) = Some l"
    using WaitPop_cases [OF live assms(3)] assms(4) by auto
  show "current_ok (ndrop l (SchedNode t) a)" using assms(1) by (simp add: kernel_ok_def)
  show "waiters (ndrop l (SchedNode t) a) = (waiters a)(l := ns)" using assms(3,4) by (simp add: waiters_def)
qed

lemma front_waiter:
  assumes "kernel_ok a" "is_wait l"
  obtains (nobody) "sp_nodes (k_heap a) l = []" | (waiter) t ns where "sp_nodes (k_heap a) l = SchedNode t # ns"
proof (cases "sp_nodes (k_heap a) l")
  case (Cons n ns)
  then obtain t where "n = SchedNode t"
    using qwf_wait_nodes [OF kinv_qwf, of "{}" a n l] assms by (auto simp: kernel_ok_def)
  with Cons show thesis using waiter by blast
qed (use nobody in blast)

lemma QueueSend_no_receiver:
  assumes ok: "kernel_ok a" and c: "k_current a = Some c" and i: "os_QueueIsValid (Some i) a" "item \<noteq> 0"
    and none: "sp_nodes (k_heap a) (QueueReceiveWaiters i) = []"
  shows "spec_QueueSendCurrent (Some i) item timeout a =
    (if q_count (k_queues a i) < q_capacity (k_queues a i) then
       Some (set_result c OS_STATUS_OK (upd_queue i push_item (a\<lparr>k_memory :=
         mem_copy (os_QueueSlot (k_queues a i) (q_tail (k_queues a i))) item (q_item_size (k_queues a i)) (k_memory a)\<rparr>)))
     else if timeout = 0 then Some (set_result c OS_STATUS_TIMEOUT a)
     else do { (_, s) \<leftarrow> spec_WaitBlockCurrent (Some (QueueSendWaiters i)) OS_WAIT_QUEUE_SEND
         (Some (QueueObj i)) item timeout a; Some s })"
proof -
  note q = queue_valid_ok [OF ok i(1)]
  have "os_QueueSlot (k_queues a i) (q_tail (k_queues a i)) \<noteq> 0"
    using q by (intro QueueSlot_nonzero) (auto simp: queue_valid_def)
  then show ?thesis
    using kernel_ok_current [OF ok c] c i WaitPop_empty [OF none]
    by (simp add: spec_QueueSendCurrent_def memcpy_eq push_item_def [abs_def])
qed

lemma QueueSend_hands_over:
  assumes ok: "kernel_ok a" and c: "k_current a = Some c" and i: "os_QueueIsValid (Some i) a" "item \<noteq> 0"
    and w: "sp_nodes (k_heap a) (QueueReceiveWaiters i) = SchedNode r # ns"
  shows "\<exists>b. spec_QueueSendCurrent (Some i) item timeout a = Some b \<and>
    woken_by r OS_STATUS_OK (set_result c OS_STATUS_OK ((ndrop (QueueReceiveWaiters i) (SchedNode r) a)\<lparr>k_memory :=
      mem_copy (t_wait_buffer (k_tasks a r)) item (q_item_size (k_queues a i)) (k_memory a)\<rparr>)) b \<and> calm a b"
proof -
  note run = kernel_ok_current [OF ok c]
  note pop = WaitPop_front [OF ok run [THEN conjunct1] _ w, simplified]
  define b where "b = ndrop (QueueReceiveWaiters i) (SchedNode r) a"
  have buf: "t_wait_buffer (k_tasks a r) \<noteq> 0"
    using waiting_buffer [OF pop(2), of "QueueReceiveWaiters i" i] pop(3) by auto
  let ?d = "set_result c OS_STATUS_OK (b\<lparr>k_memory :=
    mem_copy (t_wait_buffer (k_tasks a r)) item (q_item_size (k_queues a i)) (k_memory a)\<rparr>)"
  have "in_hand True r ?d" "current_ok ?d" using pop(2,4) by (simp_all add: b_def)
  then obtain e where e: "Option.bind (spec_WaitMakeReady (Some r) OS_STATUS_OK ?d) (spec_WaitMaybePreempt (Some r)) = Some e"
    "woken_by r OS_STATUS_OK ?d e" using returnsD [OF wake_and_preempt] by blast
  have "t_wait_list (k_tasks ?d r) = Some (QueueReceiveWaiters i)"
    using pop(3) by (auto simp: b_def set_result_def)
  from woken_by_calm [OF e(2) this] have "calm ?d e" by simp
  then have "calm b e" by simp
  moreover have "calm a b" by (simp add: b_def calm_but_def mview_def fun_eq_iff top_running_def)
  ultimately have "calm a e" by (rule calm_trans [rotated])
  moreover have "spec_QueueSendCurrent (Some i) item timeout a = Some e"
    using run c i pop(1) e(1) memcpy_eq [OF buf i(2), of "q_item_size (k_queues a i)" b]
    by (simp add: spec_QueueSendCurrent_def b_def)
  ultimately show ?thesis using e(2) by (auto simp: b_def)
qed

lemma QueueSendCurrent_ok:
  assumes ok: "kernel_ok a"
  shows "returns (spec_QueueSendCurrent queue item timeout a) (\<lambda>b. kernel_ok b \<and> calm a b)"
proof (cases "\<exists>c i. k_current a = Some c \<and> queue = Some i \<and> os_QueueIsValid queue a \<and> item \<noteq> 0")
  case False
  then show ?thesis
    using ok kernel_ok_current [OF ok] by (auto simp: spec_QueueSendCurrent_def split: option.split)
next
  case True
  then obtain c i where i: "k_current a = Some c" "queue = Some i" "os_QueueIsValid (Some i) a" "item \<noteq> 0" by blast
  have "is_wait (QueueReceiveWaiters i)" by simp
  with ok show ?thesis
  proof (cases rule: front_waiter)
    case nobody
    have "kernel_ok (upd_queue i push_item (a\<lparr>k_memory := m\<rparr>))" if "q_count (k_queues a i) < q_capacity (k_queues a i)" for m
      using ok that by (intro upd_queue_frame(2) queue_ok_steps) simp_all
    moreover have "returns (do { (_, s) \<leftarrow> spec_WaitBlockCurrent (Some (QueueSendWaiters i)) OS_WAIT_QUEUE_SEND
        (Some (QueueObj i)) item timeout a; Some s }) (\<lambda>b. kernel_ok b \<and> calm a b)" if "timeout \<noteq> 0"
      by (rule returns_mono [OF block_ok [OF ok i(1) that]]) (use i(4) in auto)
    ultimately show ?thesis
      using ok QueueSend_no_receiver [OF ok i(1,3,4) nobody, of timeout] i(2) by simp
  next
    case (waiter r ns)
    from QueueSend_hands_over [OF ok i(1,3,4) this, of timeout] i(2) show ?thesis by (auto simp: woken_by_def)
  qed
qed

subsection \<open>Receiving\<close>

lemma QueueReceive_empty:
  assumes "kernel_ok a" "k_current a = Some c" "os_QueueIsValid (Some i) a" "out \<noteq> 0"
    and "q_count (k_queues a i) = 0"
  shows "spec_QueueReceiveCurrent (Some i) out timeout a =
    (if timeout = 0 then Some (set_result c OS_STATUS_TIMEOUT a)
     else do { (_, s) \<leftarrow> spec_WaitBlockCurrent (Some (QueueReceiveWaiters i)) OS_WAIT_QUEUE_RECEIVE
         (Some (QueueObj i)) out timeout a; Some s })"
  using assms kernel_ok_current [OF assms(1,2)] by (simp add: spec_QueueReceiveCurrent_def)

text \<open>The message goes to the caller, and its slot is free.\<close>

definition taken :: "nat \<Rightarrow> addr \<Rightarrow> ('h, 'p) os_kernel_t \<Rightarrow> ('h, 'p) os_kernel_t" where
  "taken i out a = upd_queue i pop_item (a\<lparr>k_memory :=
     mem_copy out (os_QueueSlot (k_queues a i) (q_head (k_queues a i))) (q_item_size (k_queues a i)) (k_memory a)\<rparr>)"

lemma taken_simps [simp]:
  "k_queues (taken i out a) = (k_queues a)(i := pop_item (k_queues a i))" "k_current (taken i out a) = k_current a"
  "k_heap (taken i out a) = k_heap a" "k_tasks (taken i out a) = k_tasks a" "k_started (taken i out a) = k_started a"
  "k_memory (taken i out a) = mem_copy out (os_QueueSlot (k_queues a i) (q_head (k_queues a i)))
     (q_item_size (k_queues a i)) (k_memory a)"
  by (simp_all add: taken_def upd_queue_def)

lemma taken_ok:
  assumes "kernel_ok a" "os_QueueIsValid (Some i) a" "0 < q_count (k_queues a i)"
  shows "kernel_ok (taken i out a)" "calm a (taken i out a)"
    "queue_ok (pop_item (k_queues a i))" "q_used (pop_item (k_queues a i))"
    "q_count (pop_item (k_queues a i)) < q_capacity (pop_item (k_queues a i))"
proof -
  note q = queue_valid_ok [OF assms(1,2)]
  show "kernel_ok (taken i out a)"
    unfolding taken_def using assms by (intro upd_queue_frame(2) queue_ok_steps) simp_all
  show "calm a (taken i out a)" by (simp add: taken_def)
  show "queue_ok (pop_item (k_queues a i))" using q assms(3) by (simp add: queue_ok_steps)
  show "q_used (pop_item (k_queues a i))" using q by (simp add: pop_item_def)
  show "q_count (pop_item (k_queues a i)) < q_capacity (pop_item (k_queues a i))"
    using q assms(3)
    by (auto simp: pop_item_def queue_valid_def word_less_nat_alt word_le_nat_alt unat_minus_one unat_gt_0)
qed

lemma QueueReceive_start:
  assumes "kernel_ok a" "k_current a = Some c" "os_QueueIsValid (Some i) a" "out \<noteq> 0"
    and "0 < q_count (k_queues a i)"
  shows "spec_QueueReceiveCurrent (Some i) out timeout a =
    (let (sender, s) = spec_WaitPop (Some (QueueSendWaiters i)) (taken i out a) in
     case sender of
       Some t \<Rightarrow> do {
         s \<leftarrow> os_memcpy (os_QueueSlot (k_queues s i) (q_tail (k_queues s i)))
                (t_wait_buffer (k_tasks s t)) (q_item_size (k_queues s i)) s;
         s \<leftarrow> spec_WaitMakeReady (Some t) OS_STATUS_OK (set_result c OS_STATUS_OK (upd_queue i push_item s));
         spec_WaitMaybePreempt (Some t) s
       }
     | None \<Rightarrow> Some (set_result c OS_STATUS_OK s))"
proof -
  note q = queue_valid_ok [OF assms(1,3)]
  have "os_QueueSlot (k_queues a i) (q_head (k_queues a i)) \<noteq> 0"
    using q by (intro QueueSlot_nonzero) (auto simp: queue_valid_def)
  then show ?thesis
    using kernel_ok_current [OF assms(1,2)] assms(2-)
    by (simp add: spec_QueueReceiveCurrent_def memcpy_eq taken_def push_item_def [abs_def] pop_item_def [abs_def] Let_def
        split: prod.split option.split)
qed

lemma QueueReceive_no_sender:
  assumes "kernel_ok a" "k_current a = Some c" "os_QueueIsValid (Some i) a" "out \<noteq> 0"
    and "0 < q_count (k_queues a i)" and none: "sp_nodes (k_heap a) (QueueSendWaiters i) = []"
  shows "spec_QueueReceiveCurrent (Some i) out timeout a = Some (set_result c OS_STATUS_OK (taken i out a))"
  using WaitPop_empty [of "taken i out a" "QueueSendWaiters i"] none by (simp add: QueueReceive_start [OF assms(1-5)])

text \<open>With a blocked sender, its message takes the free slot and the sender is woken.\<close>

lemma QueueReceive_refills:
  assumes ok: "kernel_ok a" and c: "k_current a = Some c" and i: "os_QueueIsValid (Some i) a" "out \<noteq> 0"
    and count: "0 < q_count (k_queues a i)" and w: "sp_nodes (k_heap a) (QueueSendWaiters i) = SchedNode t # ns"
  defines "Q \<equiv> pop_item (k_queues a i)"
  shows "\<exists>b. spec_QueueReceiveCurrent (Some i) out timeout a = Some b \<and>
    woken_by t OS_STATUS_OK (set_result c OS_STATUS_OK (upd_queue i push_item
      ((ndrop (QueueSendWaiters i) (SchedNode t) (taken i out a))\<lparr>k_memory :=
        mem_copy (os_QueueSlot Q (q_tail Q)) (t_wait_buffer (k_tasks a t)) (q_item_size Q)
          (k_memory (taken i out a))\<rparr>))) b \<and> calm a b"
proof -
  note run = kernel_ok_current [OF ok c]
  note tk = taken_ok [OF ok i(1) count]
  have w': "sp_nodes (k_heap (taken i out a)) (QueueSendWaiters i) = SchedNode t # ns" using w by simp
  have "k_started (taken i out a)" using run by simp
  note pop = WaitPop_front [OF tk(1) this _ w', simplified]
  define d where "d = ndrop (QueueSendWaiters i) (SchedNode t) (taken i out a)"
  have buf: "t_wait_buffer (k_tasks a t) \<noteq> 0"
    using waiting_buffer [OF pop(2), of "QueueSendWaiters i" i] pop(3) by auto
  have slot: "os_QueueSlot Q (q_tail Q) \<noteq> 0"
    using tk(3-5) by (intro QueueSlot_nonzero) (auto simp: Q_def queue_ok_def queue_valid_def)
  let ?e = "set_result c OS_STATUS_OK (upd_queue i push_item (d\<lparr>k_memory :=
    mem_copy (os_QueueSlot Q (q_tail Q)) (t_wait_buffer (k_tasks a t)) (q_item_size Q) (k_memory (taken i out a))\<rparr>))"
  have "in_hand True t ?e"
    using pop(2) tk(5) by (intro in_hand_frame(2) in_hand_queue queue_ok_steps(1)) (auto simp: d_def)
  moreover have "current_ok ?e" using pop(4) by (simp add: d_def)
  ultimately obtain b where b: "woken_by t OS_STATUS_OK ?e b"
    "Option.bind (spec_WaitMakeReady (Some t) OS_STATUS_OK ?e) (spec_WaitMaybePreempt (Some t)) = Some b"
    using returnsD [OF wake_and_preempt] by blast
  have "t_wait_list (k_tasks ?e t) = Some (QueueSendWaiters i)"
    using pop(3) by (auto simp: d_def set_result_def upd_queue_def)
  from woken_by_calm [OF b(1) this] have "calm d b" by simp
  moreover have "calm (taken i out a) d" by (simp add: d_def calm_but_def mview_def fun_eq_iff top_running_def)
  ultimately have "calm a b" using tk(2) by (blast intro: calm_trans)
  moreover have "spec_QueueReceiveCurrent (Some i) out timeout a = Some b"
    using pop(1) b(2) memcpy_eq [OF slot buf, of "q_item_size Q" d]
    by (simp add: QueueReceive_start [OF ok c i count] d_def Q_def)
  ultimately show ?thesis using b(1) by (auto simp: d_def)
qed

lemma QueueReceiveCurrent_ok:
  assumes ok: "kernel_ok a"
  shows "returns (spec_QueueReceiveCurrent queue out timeout a) (\<lambda>b. kernel_ok b \<and> calm a b)"
proof (cases "\<exists>c i. k_current a = Some c \<and> queue = Some i \<and> os_QueueIsValid queue a \<and> out \<noteq> 0")
  case False
  then show ?thesis
    using ok kernel_ok_current [OF ok] by (auto simp: spec_QueueReceiveCurrent_def split: option.split)
next
  case True
  then obtain c i where i: "k_current a = Some c" "queue = Some i" "os_QueueIsValid (Some i) a" "out \<noteq> 0" by blast
  show ?thesis
  proof (cases "q_count (k_queues a i) = 0")
    case True
    have "returns (do { (_, s) \<leftarrow> spec_WaitBlockCurrent (Some (QueueReceiveWaiters i)) OS_WAIT_QUEUE_RECEIVE
        (Some (QueueObj i)) out timeout a; Some s }) (\<lambda>b. kernel_ok b \<and> calm a b)" if "timeout \<noteq> 0"
      by (rule returns_mono [OF block_ok [OF ok i(1) that]]) (use i(4) in auto)
    then show ?thesis using ok QueueReceive_empty [OF ok i(1,3,4) True, of timeout] i(2) by simp
  next
    case False
    then have count: "0 < q_count (k_queues a i)" by (simp add: word_neq_0_conv)
    have "is_wait (QueueSendWaiters i)" by simp
    with ok show ?thesis
    proof (cases rule: front_waiter)
      case nobody
      from QueueReceive_no_sender [OF ok i(1,3,4) count this, of timeout] taken_ok [OF ok i(3) count] i(2)
      show ?thesis by simp
    next
      case (waiter t ns)
      from QueueReceive_refills [OF ok i(1,3,4) count this, of timeout] i(2) show ?thesis by (auto simp: woken_by_def)
    qed
  qed
qed

end
