(* ===== verification/Kernel_Priority.thy ===== *)
theory Kernel_Priority
  imports Kernel_Queue
begin

section \<open>Changing effective priorities keeps the kernel in order\<close>

text \<open>
  Changing an effective priority moves the task within the list it is in; the recomputation
  of all effective priorities stays between the base priority and the highest priority, and
  never raises the Idle task.
\<close>

subsection \<open>Changing one effective priority\<close>

definition set_eff :: "u8 \<Rightarrow> os_task_t \<Rightarrow> os_task_t" where
  "set_eff p T = T\<lparr>t_effective_priority := p\<rparr>"

lemma set_eff_simps [simp]:
  "t_state (set_eff p T) = t_state T" "t_id (set_eff p T) = t_id T" "t_entry (set_eff p T) = t_entry T"
  "t_base_priority (set_eff p T) = t_base_priority T" "t_effective_priority (set_eff p T) = p"
  "t_wake_tick (set_eff p T) = t_wake_tick T" "t_wait_list (set_eff p T) = t_wait_list T"
  "t_wait_kind (set_eff p T) = t_wait_kind T" "t_delay_list (set_eff p T) = t_delay_list T"
  "wait_ok (set_eff p T) = wait_ok T" "waits_on (set_eff p T) = waits_on T" "delay_place (set_eff p T) = delay_place T"
  "t_wait_deadline (set_eff p T) = t_wait_deadline T" "set_eff (t_effective_priority T) T = T"
  by (simp_all add: set_eff_def wait_ok_def waits_on_def delay_place_def)

definition prio_allowed :: "u8 \<Rightarrow> os_task_t \<Rightarrow> bool" where
  "prio_allowed p T \<longleftrightarrow> (if t_base_priority T = 0 then p = 0 else t_base_priority T \<le> p \<and> p < 8)"

text \<open>The result: the priority is as wanted, everything else about the task and its place is kept.\<close>

definition prio_changed :: "bool \<Rightarrow> nat set \<Rightarrow> nat \<Rightarrow> u8 \<Rightarrow> 'p spec_kernel \<Rightarrow> 'p spec_kernel \<Rightarrow> bool" where
  "prio_changed tm X t p a b \<longleftrightarrow> live tm X b \<and> same_objects a b \<and> k_current b = k_current a \<and>
     k_tasks b = (k_tasks a)(t := set_eff p (k_tasks a t)) \<and>
     (\<forall>u. sp_place (k_heap b) (DelayNode u) = sp_place (k_heap a) (DelayNode u)) \<and>
     (\<forall>u\<in>X. sp_place (k_heap b) (SchedNode u) = sp_place (k_heap a) (SchedNode u))"

lemma live_set_eff:
  assumes "live tm X a" "t \<in> X" "sp_place (k_heap a) (SchedNode t) = None" "prio_allowed p (k_tasks a t)"
  shows "live tm X (upd_task t (set_eff p) a)"
  using assms live_run [OF assms(1)] kinv_mutex [OF live_kinv [OF assms(1)]]
  by (intro live_upd) (auto simp: prio_ok_def prio_allowed_def run_ok_def mutex_ok_def)

lemma set_eff_ready:
  assumes live: "live tm X a" and t: "t \<notin> X" and st: "t_state (k_tasks a t) = OS_TASK_READY"
    and p: "prio_allowed p (k_tasks a t)"
  shows "\<exists>b. Option.bind (spec_ReadyRemove (Some t) a) (\<lambda>(removed, s). if \<not> removed then Some s
      else spec_ReadyEnqueue (Some t) (upd_task t (set_eff p) s)) = Some b \<and> prio_changed tm X t p a b"
proof -
  define q where "q = t_effective_priority (k_tasks a t)"
  have at: "sp_place (k_heap a) (SchedNode t) = Some (ReadyList q)"
    using kinv_place [OF live_kinv [OF live] t] st by (simp add: place_ok_def sched_place_def q_def)
  then have "SchedNode t \<in> set (sp_nodes (k_heap a) (ReadyList q))"
    using qwf_mem [OF kinv_qwf [OF live_kinv [OF live]]] by simp
  note mem = ready_member [OF live_kinv [OF live] this]
  have remove: "spec_ReadyRemove (Some t) a = Some (True, ready_drop q t a)"
    using at mem
    by (simp add: spec_ReadyRemove_def list_ops_eq ready_drop_def q_def [symmetric] linorder_not_le)
  define b where "b = upd_task t (set_eff p) (ready_drop q t a)"
  have live_b: "live tm (insert t X) b"
    unfolding b_def using live_ready_drop [OF live at] p by (intro live_set_eff) auto
  have enq: "spec_ReadyEnqueue (Some t) b = Some (ready_put t b)"
    using mem st by (intro ReadyEnqueue_eq [OF live_kinv [OF live_b]]) (auto simp: b_def)
  have "live tm X (ready_put t b)"
    using live_b t mem st by (intro live_ready_put) (auto simp: b_def)
  then have "prio_changed tm X t p a (ready_put t b)"
    using t by (auto simp: prio_changed_def b_def fun_eq_iff)
  then show ?thesis using remove enq by (simp add: b_def)
qed

lemma set_eff_waiting:
  assumes live: "live tm X a" and t: "t \<notin> X" and st: "t_state (k_tasks a t) = OS_TASK_BLOCKED_OBJECT"
    and p: "prio_allowed p (k_tasks a t)" and l: "t_wait_list (k_tasks a t) = Some l"
  shows "\<exists>b. Option.bind (on_heap (spec_Remove l (SchedNode t)) a) (\<lambda>s.
      spec_WaitInsertByPriority l t (upd_task t (set_eff p) s)) = Some b \<and> prio_changed tm X t p a b"
proof -
  have place: "place_ok a t" and wait: "wait_ok (k_tasks a t)"
    using kinv_place [OF live_kinv [OF live] t] kinv_wait [OF live_kinv [OF live] t] by auto
  then have at: "sp_place (k_heap a) (SchedNode t) = Some l"
    using st l by (simp add: place_ok_def sched_place_def)
  have t8: "t < 8" using qwf_pool [OF kinv_qwf [OF live_kinv [OF live]] at] by simp
  have "wait_matches (t_wait_kind (k_tasks a t)) (Some l) (t_wait_object (k_tasks a t))
      (t_wait_buffer (k_tasks a t)) (t_base_priority (k_tasks a t))"
    using wait st l by (simp add: wait_ok_def waits_on_def)
  then have is_wait: "is_wait l" by (elim wait_matches.elims) auto
  then have notready: "l \<noteq> ReadyList q" for q by auto
  have owned: "m_owner (k_mutexes a i) \<noteq> None" if "l = MutexWaiters i" for i
    using kinv_mutex [OF live_kinv [OF live]] that at qwf_mem [OF kinv_qwf [OF live_kinv [OF live]], of "SchedNode t" l]
    by (force simp: mutex_ok_def)
  define b where "b = upd_task t (set_eff p) (ndrop l (SchedNode t) a)"
  have "live tm (insert t X) a" using live_take [OF live, of t] at notready by simp
  then have "live tm (insert t X) (ndrop l (SchedNode t) a)" using at by (intro live_drop) auto
  then have live_b: "live tm (insert t X) b" unfolding b_def using p by (intro live_set_eff) auto
  obtain d where d: "spec_WaitInsertByPriority l t b = Some d" "live tm (insert t X) d" "same_objects b d"
    "k_current d = k_current b" "sp_place (k_heap d) = (sp_place (k_heap b))(SchedNode t := Some l)"
    "k_tasks d = k_tasks b"
    using WaitInsertByPriority_ok [OF live_b _ t8 _ is_wait] owned by (auto simp: b_def)
  have "live tm X d"
    using d wait place st l
    by (intro live_release [OF d(2)]) (auto simp: b_def place_ok_def sched_place_def)
  then have "prio_changed tm X t p a d"
    using t d(3-6) by (auto simp: prio_changed_def b_def fun_eq_iff)
  then show ?thesis using at d(1) by (simp add: list_ops_eq b_def)
qed

lemma set_eff_other:
  assumes live: "live tm X a" and free: "sp_place (k_heap a) (SchedNode t) = None"
    and p: "prio_allowed p (k_tasks a t)"
    and st: "t \<in> X \<or> t_state (k_tasks a t) \<noteq> OS_TASK_READY"
  shows "prio_changed tm X t p a (upd_task t (set_eff p) a)"
proof (cases "t \<in> X")
  case True
  then show ?thesis
    using live_set_eff [OF live True free p] by (auto simp: prio_changed_def fun_eq_iff)
next
  case False
  have place: "place_ok a t" and wait: "wait_ok (k_tasks a t)"
    using kinv_place [OF live_kinv [OF live] False] kinv_wait [OF live_kinv [OF live] False] by auto
  have "live tm (insert t X) a" using live_take [OF live, of t] free by simp
  then have "live tm (insert t X) (upd_task t (set_eff p) a)" using free p by (intro live_set_eff) auto
  then have "live tm X (upd_task t (set_eff p) a)"
    using wait place st False
    by (elim live_release) (auto simp: place_ok_def sched_place_def)
  then show ?thesis by (auto simp: prio_changed_def fun_eq_iff)
qed

text \<open>\<open>os_TaskSetEffectivePriority\<close> as a whole. Tasks in hand are unlinked.\<close>

lemma TaskSetEffectivePriority_ok:
  assumes live: "live tm X a"
    and hand: "\<And>u. u \<in> X \<Longrightarrow> sp_place (k_heap a) (SchedNode u) = None \<and>
      t_state (k_tasks a u) \<noteq> OS_TASK_READY"
    and p: "prio_allowed p (k_tasks a t)"
  shows "returns (spec_TaskSetEffectivePriority (Some t) p a) (prio_changed tm X t p a)"
proof (cases "p = 0 \<or> t_effective_priority (k_tasks a t) = p")
  case True
  have "prio_ok (k_tasks a t)" using kinv_base [OF live_kinv [OF live], of t] by (simp add: base_ok_def)
  then have "t_effective_priority (k_tasks a t) = p"
    using True p by (auto simp: prio_ok_def prio_allowed_def split: if_splits)
  then have "prio_changed tm X t p a a" using live by (auto simp: prio_changed_def fun_eq_iff)
  then show ?thesis using True by (auto simp: spec_TaskSetEffectivePriority_def)
next
  case False
  have "p < 8" using False p by (auto simp: prio_allowed_def split: if_splits)
  then have p8: "\<not> p \<le> 0" "\<not> 8 \<le> p" using False by auto
  have fold_eff: "(\<lambda>T. T\<lparr>t_effective_priority := p\<rparr>) = set_eff p" by (simp add: set_eff_def fun_eq_iff)
  note unfold = spec_TaskSetEffectivePriority_def Let_def fold_eff
  consider (ready) "t_state (k_tasks a t) = OS_TASK_READY"
    | (waiting) "t_state (k_tasks a t) = OS_TASK_BLOCKED_OBJECT" "sp_place (k_heap a) (SchedNode t) \<noteq> None"
    | (other) "t_state (k_tasks a t) \<noteq> OS_TASK_READY"
        "\<not> (t_state (k_tasks a t) = OS_TASK_BLOCKED_OBJECT \<and> sp_place (k_heap a) (SchedNode t) \<noteq> None)"
    by blast
  then show ?thesis
  proof cases
    case ready
    then have "t \<notin> X" using hand [of t] by auto
    then obtain b where "Option.bind (spec_ReadyRemove (Some t) a) (\<lambda>(removed, s). if \<not> removed then Some s
        else spec_ReadyEnqueue (Some t) (upd_task t (set_eff p) s)) = Some b" "prio_changed tm X t p a b"
      using set_eff_ready [OF live _ ready p] by blast
    then show ?thesis using p8 False ready by (simp add: unfold)
  next
    case waiting
    then have t: "t \<notin> X" using hand [of t] by auto
    obtain l where l: "t_wait_list (k_tasks a t) = Some l"
      using kinv_place [OF live_kinv [OF live] t] waiting by (auto simp: place_ok_def sched_place_def)
    obtain b where "Option.bind (on_heap (spec_Remove l (SchedNode t)) a) (\<lambda>s.
        spec_WaitInsertByPriority l t (upd_task t (set_eff p) s)) = Some b" "prio_changed tm X t p a b"
      using set_eff_waiting [OF live t waiting(1) p l] by blast
    then show ?thesis using p8 False waiting l by (simp add: unfold)
  next
    case other
    have "sp_place (k_heap a) (SchedNode t) = None"
      using hand kinv_place [OF live_kinv [OF live], of t] other
      by (cases "t \<in> X") (auto simp: place_ok_def sched_place_def split: if_splits)
    then have "prio_changed tm X t p a (upd_task t (set_eff p) a)"
      using live p other by (intro set_eff_other) auto
    then show ?thesis using p8 False other by (auto simp: unfold)
  qed
qed


subsection \<open>The recomputation of all effective priorities\<close>

text \<open>The map \<open>desired\<close> stays within what the base priorities allow.\<close>

definition desired_ok :: "'p spec_kernel \<Rightarrow> (nat \<Rightarrow> u8) \<Rightarrow> bool" where
  "desired_ok a d \<longleftrightarrow> (\<forall>t < unat (k_task_count a). prio_allowed (d t) (k_tasks a t))"

text \<open>What the computation relies on: owners and waiters are tasks other than Idle.\<close>

definition waiters_ok :: "'p spec_kernel \<Rightarrow> bool" where
  "waiters_ok a \<longleftrightarrow> (\<forall>i n. n \<in> set (sp_nodes (k_heap a) (MutexWaiters i)) \<longrightarrow>
     task_of n < unat (k_task_count a) \<and> unat (t_id (k_tasks a (task_of n))) = task_of n \<and>
     t_base_priority (k_tasks a (task_of n)) \<noteq> 0)"

lemma live_waiters_ok:
  assumes live: "live tm X a" and hand: "\<And>u. u \<in> X \<Longrightarrow> sp_place (k_heap a) (SchedNode u) = None"
  shows "waiters_ok a"
  unfolding waiters_ok_def
proof (intro allI impI)
  fix i n assume n: "n \<in> set (sp_nodes (k_heap a) (MutexWaiters i))"
  note qwf = kinv_qwf [OF live_kinv [OF live]]
  obtain t where t: "n = SchedNode t" "t < 8" using qwf_wait_nodes [OF qwf n] by auto
  have at: "sp_place (k_heap a) (SchedNode t) = Some (MutexWaiters i)"
    using n t qwf_mem [OF qwf] by simp
  then have out: "t \<notin> X" using hand by fastforce
  have st: "t_state (k_tasks a t) = OS_TASK_BLOCKED_OBJECT" "t_wait_list (k_tasks a t) = Some (MutexWaiters i)"
    using kinv_place [OF live_kinv [OF live] out] at by (auto simp: place_ok_def sched_place_def split: if_splits)
  then have "wait_matches (t_wait_kind (k_tasks a t)) (Some (MutexWaiters i)) (t_wait_object (k_tasks a t))
      (t_wait_buffer (k_tasks a t)) (t_base_priority (k_tasks a t))"
    using kinv_wait [OF live_kinv [OF live] out] by (simp add: wait_ok_def waits_on_def)
  then have "t_base_priority (k_tasks a t) \<noteq> 0" by (elim wait_matches.elims) auto
  then show "task_of n < unat (k_task_count a) \<and> unat (t_id (k_tasks a (task_of n))) = task_of n \<and>
     t_base_priority (k_tasks a (task_of n)) \<noteq> 0"
    using kinv_base [OF live_kinv [OF live], of t] t st by (simp add: base_ok_def)
qed

lemma fold_waiter_max:
  assumes "\<And>n. n \<in> set ns \<Longrightarrow> d (unat (t_id (k_tasks a (task_of n)))) < 8" "p < 8"
  shows "p \<le> fold (\<lambda>n. waiter_max d a (task_of n)) ns p \<and> fold (\<lambda>n. waiter_max d a (task_of n)) ns p < 8"
  using assms
proof (induction ns arbitrary: p)
  case (Cons n ns)
  let ?q = "waiter_max d a (task_of n) p"
  have q: "p \<le> ?q" "?q < 8" using Cons.prems by (auto simp: waiter_max_def Let_def)
  then show ?case using Cons.IH [of ?q] Cons.prems(1) by auto
qed simp

lemma MutexPassStep_desired:
  assumes live: "live tm X a" and waiters: "waiters_ok a" and d: "desired_ok a d"
  shows "desired_ok a (fst (spec_MutexPassStep a i (d, ch)))"
proof (cases "m_owner (k_mutexes a i)")
  case (Some w)
  have w: "w < unat (k_task_count a)" "t_base_priority (k_tasks a w) \<noteq> 0"
    using kinv_mutex [OF live_kinv [OF live]] Some by (auto simp: mutex_ok_def)
  have "w < 8" using w(1) kinv_count [OF live_kinv [OF live]] by simp
  then have id: "unat (t_id (k_tasks a w)) = w"
    using kinv_base [OF live_kinv [OF live], of w] by (simp add: base_ok_def)
  have dw: "t_base_priority (k_tasks a w) \<le> d w" "d w < 8"
    using d w by (auto simp: desired_ok_def prio_allowed_def)
  have "d (unat (t_id (k_tasks a (task_of n)))) < 8" if "n \<in> set (sp_nodes (k_heap a) (MutexWaiters i))" for n
    using waiters that d by (auto simp: waiters_ok_def desired_ok_def prio_allowed_def)
  from fold_waiter_max [of "sp_nodes (k_heap a) (MutexWaiters i)" d a "d w", OF this dw(2)]
  have "d w \<le> spec_MutexInherited d a i (d w)" "spec_MutexInherited d a i (d w) < 8"
    by (auto simp: spec_MutexInherited_def)
  moreover from order_trans [OF dw(1) this(1)]
  have "t_base_priority (k_tasks a w) \<le> spec_MutexInherited d a i (d w)" .
  ultimately show ?thesis
    using d w dw Some id
    by (auto simp: spec_MutexPassStep_def Let_def desired_ok_def prio_allowed_def)
qed (use d in \<open>simp add: spec_MutexPassStep_def\<close>)

lemma MutexPass_desired:
  assumes "live tm X a" "waiters_ok a" "desired_ok a (fst dc)"
  shows "desired_ok a (fst (fold (spec_MutexPassStep a) is dc))"
  using assms(3)
proof (induction "is" arbitrary: dc)
  case (Cons i js)
  then show ?case using MutexPassStep_desired [OF assms(1,2), of "fst dc" i "snd dc"] by simp
qed simp

lemma MutexPasses_desired:
  assumes "live tm X a" "waiters_ok a"
  shows "desired_ok a d \<Longrightarrow> desired_ok a (spec_MutexPasses n d a)"
proof (induction n arbitrary: d)
  case (Suc n)
  then show ?case
    using MutexPass_desired [OF assms, of "(d, False)" "[0..<OS_MAX_MUTEXES]"]
    by (auto simp: split_beta simp del: OS_MAX_MUTEXES_def)
qed simp

lemma MutexBase_desired: "live tm X a \<Longrightarrow> desired_ok a (os_MutexBase a)"
proof -
  assume live: "live tm X a"
  have "t_base_priority (k_tasks a t) < 8" for t
    using kinv_base [OF live_kinv [OF live], of t]
    by (auto simp: base_ok_def prio_ok_def split: if_splits)
  then show ?thesis by (simp add: desired_ok_def os_MutexBase_def prio_allowed_def)
qed

definition desired_of :: "'p spec_kernel \<Rightarrow> nat \<Rightarrow> u8" where
  "desired_of a = spec_MutexPasses OS_MAX_TASKS (os_MutexBase a) a"

text \<open>The result of a recomputation: every task has its desired priority, nothing else changes.\<close>

definition priorities_set :: "bool \<Rightarrow> nat set \<Rightarrow> (nat \<Rightarrow> u8) \<Rightarrow> nat \<Rightarrow> 'p spec_kernel \<Rightarrow> 'p spec_kernel \<Rightarrow> bool" where
  "priorities_set tm X d n a b \<longleftrightarrow> live tm X b \<and> same_objects a b \<and> k_current b = k_current a \<and>
     k_tasks b = (\<lambda>u. if u < n then set_eff (d u) (k_tasks a u) else k_tasks a u) \<and>
     (\<forall>u. sp_place (k_heap b) (DelayNode u) = sp_place (k_heap a) (DelayNode u)) \<and>
     (\<forall>u\<in>X. sp_place (k_heap b) (SchedNode u) = sp_place (k_heap a) (SchedNode u))"

lemma set_all_priorities:
  assumes live: "live tm X a"
    and hand: "\<And>u. u \<in> X \<Longrightarrow> sp_place (k_heap a) (SchedNode u) = None \<and> t_state (k_tasks a u) \<noteq> OS_TASK_READY"
    and d: "\<And>t. t < n \<Longrightarrow> prio_allowed (d t) (k_tasks a t)"
  shows "returns (foldM (\<lambda>i. spec_TaskSetEffectivePriority (Some i) (d i)) [0..<n] a) (priorities_set tm X d n a)"
  using d
proof (induction n)
  case 0
  then show ?case using live by (simp add: priorities_set_def)
next
  case (Suc n)
  have "returns (spec_TaskSetEffectivePriority (Some n) (d n) b) (priorities_set tm X d (Suc n) a)"
    if b: "priorities_set tm X d n a b" for b
  proof (rule returns_mono [OF TaskSetEffectivePriority_ok])
    show "live tm X b" using b by (simp add: priorities_set_def)
    show "sp_place (k_heap b) (SchedNode u) = None \<and> t_state (k_tasks b u) \<noteq> OS_TASK_READY" if "u \<in> X" for u
      using b hand [OF that] that by (simp add: priorities_set_def)
    show "prio_allowed (d n) (k_tasks b n)" using b Suc.prems [of n] by (simp add: priorities_set_def)
    show "priorities_set tm X d (Suc n) a c" if "prio_changed tm X n (d n) b c" for c
      using b that
      by (auto simp: priorities_set_def prio_changed_def fun_eq_iff less_Suc_eq intro: same_objects_trans)
  qed
  with Suc show ?case by (auto simp: foldM_append intro!: returns_bind)
qed

lemma MutexWaitersChanged_ok:
  assumes live: "live tm X a"
    and hand: "\<And>u. u \<in> X \<Longrightarrow> sp_place (k_heap a) (SchedNode u) = None \<and> t_state (k_tasks a u) \<noteq> OS_TASK_READY"
  shows "returns (spec_MutexWaitersChanged a) (priorities_set tm X (desired_of a) (unat (k_task_count a)) a)"
proof -
  have "desired_ok a (desired_of a)"
    unfolding desired_of_def using live live_waiters_ok [OF live] hand
    by (intro MutexPasses_desired MutexBase_desired) auto
  then show ?thesis
    unfolding spec_MutexWaitersChanged_def desired_of_def [symmetric]
    by (intro set_all_priorities [OF live hand]) (auto simp: desired_ok_def)
qed


lemma priorities_set_current: "priorities_set tm X d n a b \<Longrightarrow> current_ok a \<Longrightarrow> current_ok b"
  by (simp add: priorities_set_def current_ok_def)

lemma priorities_set_in_hand: "priorities_set tm {t} d n a b \<Longrightarrow> in_hand tm t a \<Longrightarrow> in_hand tm t b"
  by (simp add: priorities_set_def in_hand_def)

lemma WaitersChanged_kernel_ok:
  assumes "live True {} a" "current_ok a"
  shows "returns (spec_MutexWaitersChanged a) (\<lambda>b. live True {} b \<and> current_ok b \<and> same_objects a b \<and>
    k_current b = k_current a)"
proof (rule returns_mono [OF MutexWaitersChanged_ok [OF assms(1)]])
  fix b assume b: "priorities_set True {} (desired_of a) (unat (k_task_count a)) a b"
  from priorities_set_current [OF b assms(2)] b
  show "live True {} b \<and> current_ok b \<and> same_objects a b \<and> k_current b = k_current a"
    by (simp add: priorities_set_def)
qed auto

end
