(* ===== verification/Kernel_Inherit.thy ===== *)
theory Kernel_Inherit
  imports Kernel_Priority
begin

section \<open>Priority inheritance is exact\<close>

text \<open>
  A task waits for the owner of the mutex in whose list it is. The priority that the
  recomputation gives to a task is the highest base priority among the tasks that wait for it
  directly or through other owners, and itself: the bounded number of passes over the mutexes
  always reaches the fixpoint. The argument looks at the set of tasks whose computed priority
  has reached a threshold: a pass enlarges this set or has nothing more to do for this threshold.
\<close>

subsection \<open>Inherited priorities\<close>

definition inherits :: "(nat \<times> nat) set \<Rightarrow> (nat \<Rightarrow> u8) \<Rightarrow> nat \<Rightarrow> u8 \<Rightarrow> bool" where
  "inherits R base t p \<longleftrightarrow> (\<forall>u. (u, t) \<in> R\<^sup>* \<longrightarrow> base u \<le> p) \<and> (\<exists>u. (u, t) \<in> R\<^sup>* \<and> base u = p)"

lemma inherits_unique: "inherits R base t p \<Longrightarrow> inherits R base t q \<Longrightarrow> p = q"
  by (auto simp: inherits_def intro: order.antisym)

lemma inherits_alone: "(\<And>u. (u, t) \<notin> R) \<Longrightarrow> inherits R base t (base t)"
  by (auto simp: inherits_def elim: rtranclE)

lemma inherits_edge:
  assumes "(u, t) \<in> R" "inherits R base u p" "inherits R base t q"
  shows "p \<le> q"
  using assms by (auto simp: inherits_def intro: rtrancl_into_rtrancl)

text \<open>An edge from a task to itself does not matter, nor does one that leaves an unrelated task.\<close>

lemma rtrancl_loop: "(insert (t, t) R)\<^sup>* = R\<^sup>*"
proof
  show "(insert (t, t) R)\<^sup>* \<subseteq> R\<^sup>*"
    using rtrancl_subset_rtrancl [of "insert (t, t) R" R] by auto
qed (auto intro: rtrancl_mono [THEN subsetD])

subsection \<open>One pass, seen through a threshold\<close>

definition grow :: "'p spec_kernel \<Rightarrow> nat \<Rightarrow> nat set \<Rightarrow> nat set" where
  "grow a i S = S \<union> {t. m_owner (k_mutexes a i) = Some t \<and>
     (\<exists>n \<in> set (sp_nodes (k_heap a) (MutexWaiters i)). task_of n \<in> S)}"

lemma fold_grow: "S \<subseteq> fold (grow a) is S"
proof (induction "is" arbitrary: S)
  case (Cons i js)
  have "S \<subseteq> grow a i S" by (auto simp: grow_def)
  also have "\<dots> \<subseteq> fold (grow a) js (grow a i S)" by (rule Cons.IH)
  finally show ?case by simp
qed simp

lemma fold_grow_fix:
  "fold (grow a) is S = S \<Longrightarrow> i \<in> set is \<Longrightarrow> grow a i S = S"
proof (induction "is" arbitrary: S)
  case (Cons j js)
  have "S \<subseteq> grow a j S" by (auto simp: grow_def)
  moreover have "grow a j S \<subseteq> fold (grow a) js (grow a j S)" by (rule fold_grow)
  ultimately have "grow a j S = S" using Cons.prems(1) by auto
  then show ?case using Cons by auto
qed simp

lemma fold_max_threshold:
  assumes "\<And>n. n \<in> set ns \<Longrightarrow> unat (t_id (k_tasks a (task_of n))) = task_of n"
  shows "p \<le> fold (\<lambda>n. waiter_max d a (task_of n)) ns q \<longleftrightarrow> p \<le> q \<or> (\<exists>n \<in> set ns. p \<le> d (task_of n))"
  using assms
proof (induction ns arbitrary: q)
  case (Cons n ns)
  have "p \<le> waiter_max d a (task_of n) q \<longleftrightarrow> p \<le> q \<or> p \<le> d (task_of n)"
    using Cons.prems [of n] by (auto simp: waiter_max_def Let_def)
  then show ?case using Cons by auto
qed simp

definition ids_ok :: "'p spec_kernel \<Rightarrow> bool" where
  "ids_ok a \<longleftrightarrow> (\<forall>i. (\<forall>w. m_owner (k_mutexes a i) = Some w \<longrightarrow> m_used (k_mutexes a i) \<and> i < 4 \<and>
       unat (t_id (k_tasks a w)) = w \<and> w < unat (k_task_count a)) \<and>
     (\<forall>n \<in> set (sp_nodes (k_heap a) (MutexWaiters i)). unat (t_id (k_tasks a (task_of n))) = task_of n))"

lemma PassStep_threshold:
  assumes ids: "ids_ok a"
  shows "{t. p \<le> fst (spec_MutexPassStep a i (d, ch)) t} = grow a i {t. p \<le> d t}"
    and "\<not> snd (spec_MutexPassStep a i (d, ch)) \<Longrightarrow> \<not> ch \<and> fst (spec_MutexPassStep a i (d, ch)) = d"
proof -
  show "{t. p \<le> fst (spec_MutexPassStep a i (d, ch)) t} = grow a i {t. p \<le> d t}"
  proof (cases "m_owner (k_mutexes a i)")
    case (Some w)
    have w: "unat (t_id (k_tasks a w)) = w" "m_used (k_mutexes a i)"
      "\<And>n. n \<in> set (sp_nodes (k_heap a) (MutexWaiters i)) \<Longrightarrow> unat (t_id (k_tasks a (task_of n))) = task_of n"
      using ids Some by (auto simp: ids_ok_def)
    let ?q = "spec_MutexInherited d a i (d w)"
    have q: "p \<le> ?q \<longleftrightarrow> p \<le> d w \<or> (\<exists>n \<in> set (sp_nodes (k_heap a) (MutexWaiters i)). p \<le> d (task_of n))" for p
      unfolding spec_MutexInherited_def by (rule fold_max_threshold [OF w(3)])
    have "fst (spec_MutexPassStep a i (d, ch)) = d(w := ?q)"
      using w Some q [of "d w"] by (auto simp: spec_MutexPassStep_def Let_def fun_eq_iff not_less)
    then show ?thesis using q [of p] Some by (auto simp: grow_def)
  qed (auto simp: spec_MutexPassStep_def grow_def)
qed (auto simp: spec_MutexPassStep_def Let_def split: option.splits if_splits)

lemma Pass_threshold:
  assumes ids: "ids_ok a"
  shows "{t. p \<le> fst (fold (spec_MutexPassStep a) is dc) t} = fold (grow a) is {t. p \<le> fst dc t}"
    and "\<not> snd (fold (spec_MutexPassStep a) is dc) \<Longrightarrow> \<not> snd dc \<and> fst (fold (spec_MutexPassStep a) is dc) = fst dc"
proof (induction "is" arbitrary: dc)
  case (Cons i js)
  {
    case 1
    then show ?case
      using Cons(1) [of "spec_MutexPassStep a i dc"] PassStep_threshold(1) [OF ids, of p i "fst dc" "snd dc"] by simp
  next
    case 2
    then show ?case
      using Cons(2) [of "spec_MutexPassStep a i dc"] PassStep_threshold(2) [OF ids, of i "fst dc" "snd dc"] by auto
  }
qed simp_all

subsection \<open>The passes reach the fixpoint\<close>

abbreviation pass :: "'p spec_kernel \<Rightarrow> nat set \<Rightarrow> nat set" where
  "pass a \<equiv> fold (grow a) [0..<OS_MAX_MUTEXES]"

lemma grow_chain:
  fixes f :: "nat set \<Rightarrow> nat set"
  assumes "\<And>S. S \<subseteq> f S" "\<And>S. S \<subseteq> {..<m} \<Longrightarrow> f S \<subseteq> {..<m}" "S \<subseteq> {..<m}"
  shows "(f ^^ n) S \<subseteq> {..<m} \<and> (f ((f ^^ n) S) = (f ^^ n) S \<or> card S + n < card (f ((f ^^ n) S)))"
proof (induction n)
  case 0
  have "finite (f S)" using assms(2,3) finite_subset [of "f S" "{..<m}"] by auto
  then have "f S = S \<or> card S < card (f S)" using assms(1) [of S] by (metis psubsetI psubset_card_mono)
  then show ?case using assms(3) by auto
next
  case (Suc n)
  let ?T = "f ((f ^^ n) S)"
  have T: "?T \<subseteq> {..<m}" "f ?T \<subseteq> {..<m}" using Suc assms(2) by auto
  then have "finite (f ?T)" using finite_subset by auto
  then have "f ?T = ?T \<or> card ?T < card (f ?T)" using assms(1) [of ?T] by (metis psubsetI psubset_card_mono)
  then show ?case using Suc T by auto
qed

lemma pass_fixpoint:
  assumes ids: "ids_ok a" and count: "unat (k_task_count a) \<le> 8" and S: "S \<subseteq> {..<unat (k_task_count a)}"
  shows "pass a ((pass a ^^ 8) S) = (pass a ^^ 8) S"
proof (cases "S = {}")
  case True
  have "fold (grow a) is {} = {}" for "is" by (induction "is") (auto simp: grow_def)
  moreover from this have "(pass a ^^ n) {} = {}" for n by (induction n) auto
  ultimately show ?thesis using True by simp
next
  case False
  let ?m = "unat (k_task_count a)"
  have "grow a i T \<subseteq> {..<?m}" if "T \<subseteq> {..<?m}" for i T
    using that ids by (auto simp: grow_def ids_ok_def)
  then have closed: "fold (grow a) is T \<subseteq> {..<?m}" if "T \<subseteq> {..<?m}" for "is" T
    using that by (induction "is" arbitrary: T) auto
  have chain: "(pass a ^^ 8) S \<subseteq> {..<?m} \<and> (pass a ((pass a ^^ 8) S) = (pass a ^^ 8) S \<or>
      card S + 8 < card (pass a ((pass a ^^ 8) S)))"
    by (rule grow_chain [OF fold_grow closed S])
  then have "card (pass a ((pass a ^^ 8) S)) \<le> ?m"
    using card_mono [OF _ closed [of "(pass a ^^ 8) S" "[0..<OS_MAX_MUTEXES]"]] by simp
  moreover have "finite S" using S finite_subset by auto
  then have "0 < card S" using False by (simp add: card_gt_0_iff)
  ultimately have "\<not> card S + 8 < card (pass a ((pass a ^^ 8) S))" using count by linarith
  with chain show ?thesis by blast
qed

lemma Passes_threshold:
  assumes ids: "ids_ok a"
  shows "{t. p \<le> spec_MutexPasses n d a t} = (pass a ^^ n) {t. p \<le> d t}"
proof (induction n arbitrary: d)
  case (Suc n)
  define r where "r = fold (spec_MutexPassStep a) [0..<OS_MAX_MUTEXES] (d, False)"
  have step: "{t. p \<le> fst r t} = pass a {t. p \<le> d t}" for p
    using Pass_threshold(1) [OF ids, of p "[0..<OS_MAX_MUTEXES]" "(d, False)"] by (simp add: r_def)
  show ?case
  proof (cases "snd r")
    case True
    then have "spec_MutexPasses (Suc n) d a = spec_MutexPasses n (fst r) a"
      by (simp add: r_def [symmetric] split_beta del: OS_MAX_MUTEXES_def)
    then show ?thesis using Suc [of "fst r"] step [of p] by (simp add: funpow_swap1 del: OS_MAX_MUTEXES_def)
  next
    case False
    then have same: "fst r = d"
      using Pass_threshold(2) [OF ids, of "[0..<OS_MAX_MUTEXES]" "(d, False)"] by (simp add: r_def)
    then have "pass a {t. p \<le> d t} = {t. p \<le> d t}" using step [of p] by simp
    then have stays: "(pass a ^^ m) {t. p \<le> d t} = {t. p \<le> d t}" for m
      by (induction m) (simp_all del: OS_MAX_MUTEXES_def)
    have "spec_MutexPasses (Suc n) d a = d"
      using False same by (simp add: r_def [symmetric] split_beta del: OS_MAX_MUTEXES_def)
    then show ?thesis unfolding stays by (simp only:)
  qed
qed simp

subsection \<open>The result\<close>

definition edges :: "'p spec_kernel \<Rightarrow> (nat \<times> nat) set" where
  "edges a = {(u, w). \<exists>i. u \<in> task_of ` set (sp_nodes (k_heap a) (MutexWaiters i)) \<and>
     m_owner (k_mutexes a i) = Some w}"

lemma desired_edge:
  assumes ids: "ids_ok a" and count: "unat (k_task_count a) \<le> 8" and e: "(u, w) \<in> edges a"
  shows "desired_of a u \<le> desired_of a w"
proof -
  obtain i n where i: "n \<in> set (sp_nodes (k_heap a) (MutexWaiters i))" "task_of n = u" "m_owner (k_mutexes a i) = Some w"
    using e by (auto simp: edges_def)
  have "i < 4" using ids i(3) by (auto simp: ids_ok_def)
  let ?p = "desired_of a u"
  let ?S = "{t. ?p \<le> os_MutexBase a t}"
  have set: "{t. ?p \<le> desired_of a t} = (pass a ^^ 8) ?S"
    using Passes_threshold [OF ids, of ?p 8 "os_MutexBase a"] by (simp add: desired_of_def)
  show ?thesis
  proof (cases "?p = 0")
    case False
    then have "?S \<subseteq> {..<unat (k_task_count a)}" by (auto simp: os_MutexBase_def split: if_splits)
    from pass_fixpoint [OF ids count this]
    have "pass a {t. ?p \<le> desired_of a t} = {t. ?p \<le> desired_of a t}" unfolding set .
    then have "grow a i {t. ?p \<le> desired_of a t} = {t. ?p \<le> desired_of a t}"
      using \<open>i < 4\<close> by (intro fold_grow_fix) auto
    moreover have "w \<in> grow a i {t. ?p \<le> desired_of a t}" using i by (auto simp: grow_def)
    ultimately show ?thesis by blast
  qed simp
qed

lemma grow_reached:
  assumes "\<And>t. t \<in> S \<Longrightarrow> \<exists>u. (u, t) \<in> (edges a)\<^sup>* \<and> P u" and "t \<in> fold (grow a) is S"
  shows "\<exists>u. (u, t) \<in> (edges a)\<^sup>* \<and> P u"
  using assms
proof (induction "is" arbitrary: S)
  case (Cons i js)
  have "\<exists>u. (u, t) \<in> (edges a)\<^sup>* \<and> P u" if t: "t \<in> grow a i S" for t
  proof (cases "t \<in> S")
    case False
    then obtain n where n: "n \<in> set (sp_nodes (k_heap a) (MutexWaiters i))" "task_of n \<in> S"
        "m_owner (k_mutexes a i) = Some t"
      using t by (auto simp: grow_def)
    then have "(task_of n, t) \<in> edges a" by (auto simp: edges_def)
    with Cons.prems(1) [OF n(2)] show ?thesis by (blast intro: rtrancl_into_rtrancl)
  qed (use Cons.prems(1) in blast)
  then show ?case using Cons.IH [of "grow a i S"] Cons.prems(2) by simp
qed simp

lemma passes_reached:
  assumes "t \<in> (pass a ^^ n) {t. P t}"
  shows "\<exists>u. (u, t) \<in> (edges a)\<^sup>* \<and> P u"
  using assms
proof (induction n arbitrary: t)
  case (Suc n)
  then show ?case
    using grow_reached [of "(pass a ^^ n) {t. P t}" a P t "[0..<OS_MAX_MUTEXES]"]
    by (simp del: OS_MAX_MUTEXES_def)
qed auto

theorem desired_exact:
  assumes ids: "ids_ok a" and count: "unat (k_task_count a) \<le> 8"
  shows "inherits (edges a) (os_MutexBase a) t (desired_of a t)"
  unfolding inherits_def
proof (intro conjI allI impI)
  have set: "{t. p \<le> desired_of a t} = (pass a ^^ 8) {t. p \<le> os_MutexBase a t}" for p
    using Passes_threshold [OF ids, of p 8 "os_MutexBase a"] by (simp add: desired_of_def)
  have below: "os_MutexBase a u \<le> desired_of a u" for u
  proof -
    have "S \<subseteq> (pass a ^^ n) S" for S n
    proof (induction n)
      case (Suc n)
      also have "(pass a ^^ n) S \<subseteq> pass a ((pass a ^^ n) S)" by (rule fold_grow)
      finally show ?case by (simp del: OS_MAX_MUTEXES_def)
    qed simp
    then have "u \<in> (pass a ^^ 8) {t. os_MutexBase a u \<le> os_MutexBase a t}" by (rule subsetD) simp
    then show ?thesis unfolding set [symmetric] by simp
  qed
  show "os_MutexBase a u \<le> desired_of a t" if "(u, t) \<in> (edges a)\<^sup>*" for u
    using that
  proof (induction rule: rtrancl_induct)
    case (step w v)
    then show ?case using desired_edge [OF ids count step.hyps(2)] by simp
  qed (rule below)
  then have "os_MutexBase a u \<le> desired_of a t" if "(u, t) \<in> (edges a)\<^sup>*" for u using that .
  moreover have "t \<in> (pass a ^^ 8) {u. desired_of a t \<le> os_MutexBase a u}"
    unfolding set [symmetric] by simp
  then obtain u where "(u, t) \<in> (edges a)\<^sup>*" "desired_of a t \<le> os_MutexBase a u"
    using passes_reached by blast
  ultimately show "\<exists>u. (u, t) \<in> (edges a)\<^sup>* \<and> os_MutexBase a u = desired_of a t"
    by (meson order.antisym)
qed

subsection \<open>The invariant of priority inheritance\<close>

definition waits_for :: "('h, 'p) os_kernel_t \<Rightarrow> (nat \<times> nat) set" where
  "waits_for a = {(u, w). \<exists>i. mwait (k_tasks a u) = Some i \<and> m_owner (k_mutexes a i) = Some w}"

definition inherit_ok :: "('h, 'p) os_kernel_t \<Rightarrow> bool" where
  "inherit_ok a \<longleftrightarrow> (\<forall>t. inherits (waits_for a) (\<lambda>u. t_base_priority (k_tasks a u)) t (t_effective_priority (k_tasks a t)))"

definition spare_ok :: "('h, 'p) os_kernel_t \<Rightarrow> bool" where
  "spare_ok a \<longleftrightarrow> (\<forall>t \<ge> unat (k_task_count a). t_effective_priority (k_tasks a t) = t_base_priority (k_tasks a t))"

lemma waits_for_mview: "waits_for a = {(u, w). \<exists>i. fst (mview a u) = Some i \<and> m_owner (k_mutexes a i) = Some w}"
  by (simp add: waits_for_def mview_def Let_def)

lemma inherit_ok_mview:
  assumes "mview b = mview a" "waits_for b = waits_for a"
  shows "inherit_ok b = inherit_ok a"
proof -
  have "t_base_priority (k_tasks b u) = t_base_priority (k_tasks a u)"
    "t_effective_priority (k_tasks b u) = t_effective_priority (k_tasks a u)" for u
    using fun_cong [OF assms(1), of u] by (simp_all add: mview_def Let_def)
  then show ?thesis by (simp add: inherit_ok_def assms(2))
qed

lemma inherit_ok_same: "mview b = mview a \<Longrightarrow> k_mutexes b = k_mutexes a \<Longrightarrow> inherit_ok b = inherit_ok a"
  by (rule inherit_ok_mview) (simp_all add: waits_for_mview)

lemma inherit_ok_calm: "calm_but X a b \<Longrightarrow> inherit_ok b = inherit_ok a"
  unfolding calm_but_def by (elim conjE) (rule inherit_ok_same)

lemma inheritD:
  assumes "inherit_ok a"
  shows inherit_le: "(u, t) \<in> (waits_for a)\<^sup>* \<Longrightarrow> t_base_priority (k_tasks a u) \<le> t_effective_priority (k_tasks a t)"
    and inherit_ex: "\<exists>u. (u, t) \<in> (waits_for a)\<^sup>* \<and> t_base_priority (k_tasks a u) = t_effective_priority (k_tasks a t)"
  using assms by (auto simp: inherit_ok_def inherits_def)

text \<open>The waiters lists and the waiting fields describe the same relation, a task in hand apart.\<close>

lemma live_waiting:
  assumes live: "live tm X a" and hand: "\<And>u. u \<in> X \<Longrightarrow> sp_place (k_heap a) (SchedNode u) = None"
  shows "u \<in> task_of ` set (sp_nodes (k_heap a) (MutexWaiters i)) \<longleftrightarrow> u \<notin> X \<and> mwait (k_tasks a u) = Some i"
proof -
  note qwf = kinv_qwf [OF live_kinv [OF live]]
  have node: "u \<in> task_of ` set (sp_nodes (k_heap a) (MutexWaiters i)) \<longleftrightarrow>
      sp_place (k_heap a) (SchedNode u) = Some (MutexWaiters i)"
  proof
    assume "u \<in> task_of ` set (sp_nodes (k_heap a) (MutexWaiters i))"
    then obtain n where n: "n \<in> set (sp_nodes (k_heap a) (MutexWaiters i))" "task_of n = u" by blast
    moreover obtain t where "n = SchedNode t" using qwf_wait_nodes [OF qwf n(1)] by auto
    ultimately show "sp_place (k_heap a) (SchedNode u) = Some (MutexWaiters i)" using qwf_mem [OF qwf] by simp
  qed (use qwf_mem [OF qwf, of "SchedNode u"] in force)
  show ?thesis
  proof (cases "u \<in> X")
    case False
    then have "place_ok a u" by (rule kinv_place [OF live_kinv [OF live]])
    then show ?thesis
      using False node by (auto simp: place_ok_def sched_place_def mwait_def split: option.splits list_ref.splits)
  qed (use hand node in auto)
qed

lemma edges_waits:
  assumes "live tm X a" and "\<And>u. u \<in> X \<Longrightarrow> sp_place (k_heap a) (SchedNode u) = None"
  shows "edges a = {(u, w). (u, w) \<in> waits_for a \<and> u \<notin> X}"
  unfolding edges_def waits_for_def using live_waiting [OF assms] by simp blast

lemma live_owner:
  assumes "live tm X a" "m_owner (k_mutexes a i) = Some w"
  shows "m_used (k_mutexes a i)" "i < 4" "w < unat (k_task_count a)"
proof -
  have "mutex_ok a" by (rule kinv_mutex [OF live_kinv [OF assms(1)]])
  then show "m_used (k_mutexes a i)" "i < 4" "w < unat (k_task_count a)"
    unfolding mutex_ok_def using assms(2) by blast+
qed

lemma live_ids:
  assumes live: "live tm X a" and hand: "\<And>u. u \<in> X \<Longrightarrow> sp_place (k_heap a) (SchedNode u) = None"
  shows "ids_ok a"
  unfolding ids_ok_def
proof (intro allI conjI impI ballI)
  fix i w assume w: "m_owner (k_mutexes a i) = Some w"
  then show "m_used (k_mutexes a i)" "i < 4" "w < unat (k_task_count a)"
    by (rule live_owner [OF live])+
  then have "w < 8" using kinv_count [OF live_kinv [OF live]] by simp
  then show "unat (t_id (k_tasks a w)) = w"
    using kinv_base [OF live_kinv [OF live], of w] by (simp add: base_ok_def)
next
  fix i n assume "n \<in> set (sp_nodes (k_heap a) (MutexWaiters i))"
  then show "unat (t_id (k_tasks a (task_of n))) = task_of n"
    using live_waiters_ok [OF live hand] by (auto simp: waiters_ok_def)
qed

text \<open>After a recomputation with nothing, or one new owner, in hand, priorities are exact.\<close>

lemma recomputed:
  assumes live: "live tm X a" and hand: "\<And>u. u \<in> X \<Longrightarrow> sp_place (k_heap a) (SchedNode u) = None"
    and spare: "spare_ok a" and d: "priorities_set tm X (desired_of a) (unat (k_task_count a)) a b"
  shows "inherits (edges a) (\<lambda>u. t_base_priority (k_tasks b u)) t (t_effective_priority (k_tasks b t))"
    and "spare_ok b"
proof -
  let ?n = "unat (k_task_count a)"
  have tasks: "k_tasks b = (\<lambda>u. if u < ?n then set_eff (desired_of a u) (k_tasks a u) else k_tasks a u)"
    and count: "k_task_count b = k_task_count a"
    using d by (simp_all add: priorities_set_def same_objects_def)
  show "spare_ok b" using spare by (simp add: spare_ok_def tasks count)
  note ids = live_ids [OF live hand]
  have owner: "w < ?n" if "(u, w) \<in> edges a" for u w
    using that ids by (auto simp: edges_def ids_ok_def)
  have waiter: "u < ?n" if "(u, w) \<in> edges a" for u w
    using that live_waiters_ok [OF live hand] by (auto simp: edges_def waiters_ok_def)
  show "inherits (edges a) (\<lambda>u. t_base_priority (k_tasks b u)) t (t_effective_priority (k_tasks b t))"
  proof (cases "t < ?n")
    case True
    have "u < ?n" if "(u, t) \<in> (edges a)\<^sup>*" for u
      using that
    proof (cases rule: converse_rtranclE)
      case (step w)
      then show ?thesis using waiter by blast
    qed (use True in simp)
    then have "os_MutexBase a u = t_base_priority (k_tasks a u)" if "(u, t) \<in> (edges a)\<^sup>*" for u
      using that by (simp add: os_MutexBase_def)
    moreover have "t_base_priority (k_tasks b u) = t_base_priority (k_tasks a u)" for u by (simp add: tasks)
    moreover have "t_effective_priority (k_tasks b t) = desired_of a t" using True by (simp add: tasks)
    ultimately show ?thesis
      using desired_exact [OF ids kinv_count [OF live_kinv [OF live]], of t] unfolding inherits_def by metis
  next
    case False
    then have "inherits (edges a) (\<lambda>u. t_base_priority (k_tasks b u)) t (t_base_priority (k_tasks b t))"
      using owner by (intro inherits_alone) auto
    then show ?thesis using False spare by (simp add: spare_ok_def tasks)
  qed
qed

lemma spare_of_inherit:
  assumes "live tm X a" "inherit_ok a"
  shows "spare_ok a"
  unfolding spare_ok_def
proof (intro allI impI)
  fix t assume t: "unat (k_task_count a) \<le> t"
  have "(u, t) \<notin> waits_for a" for u
    using t live_owner(3) [OF assms(1)] by (fastforce simp: waits_for_def)
  then have "inherits (waits_for a) (\<lambda>u. t_base_priority (k_tasks a u)) t (t_base_priority (k_tasks a t))"
    by (intro inherits_alone) auto
  with assms(2) show "t_effective_priority (k_tasks a t) = t_base_priority (k_tasks a t)"
    unfolding inherit_ok_def by (blast intro: inherits_unique)
qed

text \<open>The recomputation with nobody in hand.\<close>

lemma mwait_set_eff [simp]: "mwait (set_eff p T) = mwait T"
  by (simp add: mwait_def)

lemma WaitersChanged_exact:
  assumes live: "live tm {} a" and current: "current_ok a"
  shows "returns (spec_MutexWaitersChanged a) (\<lambda>b. live tm {} b \<and> current_ok b \<and> same_objects a b \<and>
    k_current b = k_current a \<and> (spare_ok a \<longrightarrow> inherit_ok b) \<and> waits_for b = waits_for a \<and>
    (\<forall>t. \<exists>p. k_tasks b t = set_eff p (k_tasks a t)))"
proof (rule returns_mono [OF MutexWaitersChanged_ok [OF live]])
  fix b assume b: "priorities_set tm {} (desired_of a) (unat (k_task_count a)) a b"
  have tasks: "\<exists>p. k_tasks b t = set_eff p (k_tasks a t)" for t
    using b by (intro exI [of _ "t_effective_priority (k_tasks b t)"]) (simp add: priorities_set_def)
  then have mwait: "mwait (k_tasks b t) = mwait (k_tasks a t)" for t by (metis mwait_set_eff)
  then have waits: "waits_for b = waits_for a"
    using b by (simp add: waits_for_def priorities_set_def same_objects_def)
  have "edges a = waits_for b" using edges_waits [OF live] waits by auto
  then have "spare_ok a \<longrightarrow> inherit_ok b" using recomputed(1) [OF live _ _ b] by (simp add: inherit_ok_def)
  then show "live tm {} b \<and> current_ok b \<and> same_objects a b \<and> k_current b = k_current a \<and> (spare_ok a \<longrightarrow> inherit_ok b) \<and>
      waits_for b = waits_for a \<and> (\<forall>t. \<exists>p. k_tasks b t = set_eff p (k_tasks a t))"
    using b waits tasks priorities_set_current [OF b current] by (simp add: priorities_set_def)
qed auto

subsection \<open>Strict priority scheduling\<close>

text \<open>
  Between kernel calls, all inherited priorities are exact and no ready task is more urgent than
  the running one.
\<close>

definition strict :: "'p spec_kernel \<Rightarrow> bool" where
  "strict a \<longleftrightarrow> kernel_ok a \<and> inherit_ok a \<and> k_critical_nesting a = 0 \<and> (k_started a \<longrightarrow> top_running a)"

lemma strict_calm:
  assumes "strict a" "kernel_ok b" "calm a b"
  shows "strict b"
proof -
  have "inherit_ok b" using inherit_ok_calm [OF assms(3)] assms(1) by (simp add: strict_def)
  then show ?thesis using assms by (auto simp: strict_def calm_but_def)
qed

text \<open>
  How the priority of the running task \<open>c\<close> changes when the edges of a task \<open>t\<close> into it are
  redirected: whoever reached \<open>c\<close> before still reaches \<open>c\<close> or \<open>t\<close>.
\<close>

lemma redirected:
  assumes "(x, c) \<in> R\<^sup>*" and "\<And>x y. (x, y) \<in> R \<Longrightarrow> (x, y) \<in> S \<or> x = t \<or> (x, t) \<in> S"
  shows "(x, c) \<in> S\<^sup>* \<or> (x, t) \<in> S\<^sup>*"
  using assms(1)
proof (induction rule: converse_rtrancl_induct)
  case (step x y)
  from assms(2) [OF step.hyps(1)] step.IH show ?case
    by (blast intro: converse_rtrancl_into_rtrancl)
qed simp

lemma not_through:
  assumes "(x, u) \<in> S\<^sup>*" "u \<noteq> t" and "\<And>y. (t, y) \<notin> S" and "\<And>x y. (x, y) \<in> S \<Longrightarrow> y \<noteq> t \<Longrightarrow> (x, y) \<in> R"
  shows "(x, u) \<in> R\<^sup>*"
  using assms(1,2)
proof (induction rule: rtrancl_induct)
  case (step y z)
  then show ?case using assms(3,4) by (metis rtrancl.rtrancl_into_rtrancl)
qed simp

text \<open>
  Two kernels with exact priorities, before and after task \<open>t\<close> has stopped waiting: when
  \<open>t\<close> is not more urgent than the running task afterwards, nobody else is.
\<close>

lemma top_after_redirect:
  assumes a: "inherit_ok a" and b: "inherit_ok b" and base: "\<And>u. t_base_priority (k_tasks b u) = t_base_priority (k_tasks a u)"
    and top: "\<And>u. u \<noteq> t \<Longrightarrow> t_state (k_tasks b u) = OS_TASK_READY \<Longrightarrow>
      t_effective_priority (k_tasks a u) \<le> t_effective_priority (k_tasks a c)"
    and lost: "\<And>x y. (x, y) \<in> waits_for a \<Longrightarrow> (x, y) \<in> waits_for b \<or> x = t \<or> (x, t) \<in> waits_for b"
    and new: "\<And>x y. (x, y) \<in> waits_for b \<Longrightarrow> y \<noteq> t \<Longrightarrow> (x, y) \<in> waits_for a"
    and free: "\<And>y. (t, y) \<notin> waits_for b"
    and le: "t_effective_priority (k_tasks b t) \<le> t_effective_priority (k_tasks b c)"
    and u: "t_state (k_tasks b u) = OS_TASK_READY"
  shows "t_effective_priority (k_tasks b u) \<le> t_effective_priority (k_tasks b c)"
proof (cases "u = t")
  case False
  obtain x where x: "(x, u) \<in> (waits_for b)\<^sup>*" "t_base_priority (k_tasks b x) = t_effective_priority (k_tasks b u)"
    using inherit_ex [OF b] by blast
  have "(x, u) \<in> (waits_for a)\<^sup>*" by (rule not_through [OF x(1) False free new])
  then have "t_effective_priority (k_tasks b u) \<le> t_effective_priority (k_tasks a c)"
    using inherit_le [OF a] top [OF False u] x(2) base by (metis order_trans)
  moreover obtain y where y: "(y, c) \<in> (waits_for a)\<^sup>*" "t_base_priority (k_tasks a y) = t_effective_priority (k_tasks a c)"
    using inherit_ex [OF a] by blast
  have "t_base_priority (k_tasks b y) \<le> t_effective_priority (k_tasks b c)"
    using redirected [OF y(1), of "waits_for b" t] lost inherit_le [OF b] le by (meson order_trans)
  then have "t_effective_priority (k_tasks a c) \<le> t_effective_priority (k_tasks b c)" using y(2) base by simp
  ultimately show ?thesis by simp
qed (use le in simp)

text \<open>Blocking on a mutex adds one edge; whoever gains by it has the owner's new priority.\<close>

lemma top_after_block:
  assumes b: "inherit_ok a" and d: "inherit_ok d" and base: "\<And>u. t_base_priority (k_tasks d u) = t_base_priority (k_tasks a u)"
    and edge: "waits_for d = insert (c, w) (waits_for a)"
    and top: "t_effective_priority (k_tasks a u) \<le> t_effective_priority (k_tasks a r)"
    and le: "t_effective_priority (k_tasks d w) \<le> t_effective_priority (k_tasks d r)"
  shows "t_effective_priority (k_tasks d u) \<le> t_effective_priority (k_tasks d r)"
proof -
  obtain x where x: "(x, u) \<in> (waits_for d)\<^sup>*" "t_base_priority (k_tasks d x) = t_effective_priority (k_tasks d u)"
    using inherit_ex [OF d] by blast
  obtain y where y: "(y, r) \<in> (waits_for a)\<^sup>*" "t_base_priority (k_tasks a y) = t_effective_priority (k_tasks a r)"
    using inherit_ex [OF b] by blast
  have "(y, r) \<in> (waits_for d)\<^sup>*" using y(1) by (simp add: edge rtrancl_insert)
  then have mono: "t_effective_priority (k_tasks a r) \<le> t_effective_priority (k_tasks d r)"
    using inherit_le [OF d, of y r] y(2) base by simp
  have "(x, u) \<in> (waits_for a)\<^sup>* \<or> (x, c) \<in> (waits_for a)\<^sup>*" using x(1) by (auto simp: edge rtrancl_insert)
  then show ?thesis
  proof
    assume "(x, u) \<in> (waits_for a)\<^sup>*"
    then show ?thesis using inherit_le [OF b] top mono x(2) base by (metis order_trans)
  next
    assume "(x, c) \<in> (waits_for a)\<^sup>*"
    then have "(x, w) \<in> (waits_for d)\<^sup>*" by (auto simp: edge rtrancl_insert)
    then show ?thesis using inherit_le [OF d] le x(2) by (metis order_trans)
  qed
qed

end
