(* ===== verification/Kernel_Mutex.thy ===== *)
theory Kernel_Mutex
  imports Kernel_Inherit
begin

section \<open>Mutexes keep the kernel in order, strictly by priority\<close>

text \<open>
  Locking, unlocking with handover and terminating return and keep the invariant; moreover
  they keep the priorities exact, and leave no ready task more urgent than the running one. For a
  lock, that the code compares the new running task with the owner only is enough; for an unlock,
  that it compares the caller with the new owner only.
\<close>

subsection \<open>Ownership\<close>

lemma live_upd_owner:
  assumes live: "live tm X a" and used: "m_used (k_mutexes a i)"
    and ow: "\<And>w. ow = Some w \<Longrightarrow> w < unat (k_task_count a) \<and> t_base_priority (k_tasks a w) \<noteq> 0 \<and>
      t_state (k_tasks a w) \<noteq> OS_TASK_TERMINATED"
    and free: "ow = None \<Longrightarrow> sp_nodes (k_heap a) (MutexWaiters i) = []"
  shows "live tm X (upd_mutex i (\<lambda>M. M\<lparr>m_owner := ow\<rparr>) a)"
proof -
  let ?b = "upd_mutex i (\<lambda>M. M\<lparr>m_owner := ow\<rparr>) a"
  have "mutex_ok ?b"
    using kinv_mutex [OF live_kinv [OF live]] used ow free by (auto simp: mutex_ok_def upd_mutex_def)
  then have "kinv X ?b"
    using live_kinv [OF live]
    by (simp add: kinv_def px_ok_def bits_ok_def sorted_ok_def base_ok_def place_ok_def prio_of_def wake_of_def)
      (simp add: upd_mutex_def)
  then show ?thesis
    using live by (simp add: live_def) (simp add: upd_mutex_def run_ok_def time_ok_def objects_ok_def)
qed

lemma upd_mutex_simps [simp]:
  "k_mutexes (upd_mutex i f a) = (k_mutexes a)(i := f (k_mutexes a i))"
  "k_tasks (upd_mutex i f a) = k_tasks a" "k_current (upd_mutex i f a) = k_current a"
  "k_task_count (upd_mutex i f a) = k_task_count a" "k_started (upd_mutex i f a) = k_started a"
  "k_critical_nesting (upd_mutex i f a) = k_critical_nesting a" "k_heap (upd_mutex i f a) = k_heap a"
  "mview (upd_mutex i f a) = mview a" "top_but X (upd_mutex i f a) = top_but X a"
  by (simp_all add: upd_mutex_def mview_def fun_eq_iff top_but_def)

lemma top_running_upd_mutex [simp]: "top_running (upd_mutex i f a) = top_running a"
  by (simp add: top_running_def)

lemma running_count:
  "live tm X a \<Longrightarrow> t_state (k_tasks a c) = OS_TASK_RUNNING \<Longrightarrow> c < unat (k_task_count a)"
  using kinv_base [OF live_kinv, of tm X a c] by (simp add: base_ok_def)

text \<open>The task that a mutex is handed to: it waited for it, so it is not the Idle task.\<close>

lemma mutex_waiter:
  assumes hand: "in_hand tm t a" and l: "t_wait_list (k_tasks a t) = Some (MutexWaiters i)"
  shows "t < unat (k_task_count a)" "t_base_priority (k_tasks a t) \<noteq> 0"
proof -
  have "t_state (k_tasks a t) = OS_TASK_BLOCKED_OBJECT" and live: "live tm {t} a" using hand by (simp_all add: in_hand_def)
  then show "t < unat (k_task_count a)" using kinv_base [OF live_kinv [OF live], of t] by (simp add: base_ok_def)
  have "wait_matches (t_wait_kind (k_tasks a t)) (Some (MutexWaiters i)) (t_wait_object (k_tasks a t))
      (t_wait_buffer (k_tasks a t)) (t_base_priority (k_tasks a t))"
    using hand l by (simp add: in_hand_def wait_ok_def waits_on_def)
  then show "t_base_priority (k_tasks a t) \<noteq> 0" by (elim wait_matches.elims) auto
qed

lemma handover:
  assumes hand: "in_hand tm t a" and l: "t_wait_list (k_tasks a t) = Some (MutexWaiters i)"
    and used: "m_used (k_mutexes a i)"
  shows "in_hand tm t (upd_mutex i (\<lambda>M. M\<lparr>m_owner := Some t\<rparr>) a)"
proof -
  have "live tm {t} (upd_mutex i (\<lambda>M. M\<lparr>m_owner := Some t\<rparr>) a)"
    using hand mutex_waiter [OF hand l] used by (intro live_upd_owner) (auto simp: in_hand_def)
  then show ?thesis using hand by (simp add: in_hand_def)
qed

lemma strict_result [simp]: "strict a \<Longrightarrow> strict (set_result t r a)"
  by (rule strict_calm [of a]) (simp_all, simp add: strict_def)

subsection \<open>Locking\<close>

lemma running_mwait: "t_state (k_tasks a c) = OS_TASK_RUNNING \<Longrightarrow> mwait (k_tasks a c) = None"
  by (simp add: mwait_def)

lemma nobody_waits:
  assumes "live tm {} a" "m_owner (k_mutexes a i) = None"
  shows "mwait (k_tasks a u) \<noteq> Some i"
proof -
  have "sp_nodes (k_heap a) (MutexWaiters i) = []"
    using kinv_mutex [OF live_kinv [OF assms(1)]] assms(2) by (auto simp: mutex_ok_def)
  then show ?thesis using live_waiting [OF assms(1), of u i] by simp
qed

lemma mview_result [simp]: "mview (set_result t r a) = mview a"
  by (simp add: set_result_def mview_def mwait_def fun_eq_iff Let_def)

lemma Lock_free:
  assumes ok: "kernel_ok a" and c: "k_current a = Some c" "t_base_priority (k_tasks a c) \<noteq> 0"
    and i: "m_used (k_mutexes a i)" "m_owner (k_mutexes a i) = None"
  shows "kernel_ok (upd_mutex i (\<lambda>M. M\<lparr>m_owner := Some c\<rparr>) a)"
    and "strict a \<Longrightarrow> strict (upd_mutex i (\<lambda>M. M\<lparr>m_owner := Some c\<rparr>) a)"
proof -
  note run = kernel_ok_current [OF ok c(1)]
  have live: "live True {} a" using kernel_ok_live [OF ok] run by simp
  show ok': "kernel_ok (upd_mutex i (\<lambda>M. M\<lparr>m_owner := Some c\<rparr>) a)"
    using run c(2) running_count [OF live, of c] ok
    by (intro live_kernel_ok live_upd_owner [OF live i(1)]) (auto simp: kernel_ok_def)
  have "waits_for (upd_mutex i (\<lambda>M. M\<lparr>m_owner := Some c\<rparr>) a) = waits_for a"
    unfolding waits_for_def using nobody_waits [OF live i(2)] by (auto, metis)
  then show "strict (upd_mutex i (\<lambda>M. M\<lparr>m_owner := Some c\<rparr>) a)" if "strict a"
    using that ok' inherit_ok_mview [of "upd_mutex i (\<lambda>M. M\<lparr>m_owner := Some c\<rparr>) a" a]
    by (simp add: strict_def)
qed

text \<open>The waiting relation after the caller has been put into the waiters list of a mutex.\<close>

lemma block_mview:
  assumes "blocked_on c (MutexWaiters i) OS_WAIT_MUTEX obj 0 timeout a b"
  shows "mview b = (mview a)(c := (Some i, snd (mview a c)))"
proof -
  obtain w d where v: "views b = (views a)(c := view ((block_tcb (MutexWaiters i) OS_WAIT_MUTEX obj 0
      (block_deadline timeout a) (k_tasks a c))\<lparr>t_wake_tick := w, t_delay_list := d\<rparr>))"
    using assms by (auto simp: blocked_on_def)
  show ?thesis
  proof
    fix u show "mview b u = ((mview a)(c := (Some i, snd (mview a c)))) u"
      by (cases "u = c") (simp_all add: mview_of_views [of b] v,
        simp_all add: mview_def mwait_def block_tcb_def views_def Let_def)
  qed
qed

lemma block_waits:
  assumes "blocked_on c (MutexWaiters i) OS_WAIT_MUTEX obj 0 timeout a b" "k_mutexes b = k_mutexes a"
    and "m_owner (k_mutexes a i) = Some w" "t_state (k_tasks a c) = OS_TASK_RUNNING"
  shows "waits_for b = insert (c, w) (waits_for a)"
proof -
  have "mwait (k_tasks b u) = (if u = c then Some i else mwait (k_tasks a u))" for u
    using fun_cong [OF block_mview [OF assms(1)], of u] by (simp add: mview_def Let_def split: if_splits)
  then show ?thesis
    using assms(2,3) running_mwait [OF assms(4)] by (auto simp: waits_for_def split: if_splits)
qed

lemma Lock_blocks:
  assumes ok: "kernel_ok a" and c: "k_current a = Some c" "t_base_priority (k_tasks a c) \<noteq> 0"
    and i: "m_used (k_mutexes a i)" "m_owner (k_mutexes a i) = Some w" "w \<noteq> c" "timeout \<noteq> 0"
  shows "returns (spec_MutexLockCurrent (Some i) timeout a) (\<lambda>b. kernel_ok b \<and> (strict a \<longrightarrow> strict b) \<and>
    k_mutexes b = k_mutexes a \<and> mwait (k_tasks b c) = Some i \<and> waits_for b = insert (c, w) (waits_for a) \<and>
    (\<forall>u. t_base_priority (k_tasks b u) = t_base_priority (k_tasks a u)))"
proof -
  note run = kernel_ok_current [OF ok c(1)]
  have live: "live True {} a" using kernel_ok_live [OF ok] run by simp
  have "wait_matches OS_WAIT_MUTEX (Some (MutexWaiters i)) (Some (MutexObj i)) 0 (t_base_priority (k_tasks a c))"
    using c(2) by simp
  from WaitBlockCurrent_ok [OF ok c(1) i(4) this] i(2)
  obtain n b where b: "spec_WaitBlockCurrent (Some (MutexWaiters i)) OS_WAIT_MUTEX (Some (MutexObj i)) 0 timeout a
      = Some (n, b)" "dispatched a b" "blocked_on c (MutexWaiters i) OS_WAIT_MUTEX (Some (MutexObj i)) 0 timeout a b"
    by (auto dest!: returnsD)
  have same: "k_mutexes b = k_mutexes a" "k_critical_nesting b = k_critical_nesting a" "k_task_count b = k_task_count a"
    using b(2) by (simp_all add: dispatched_def same_objects_def)
  have prio: "t_base_priority (k_tasks b u) = t_base_priority (k_tasks a u)"
    "t_effective_priority (k_tasks b u) = t_effective_priority (k_tasks a u)"
    "mwait (k_tasks b u) = (if u = c then Some i else mwait (k_tasks a u))" for u
    using fun_cong [OF block_mview [OF b(3)], of u] by (auto simp: mview_def Let_def split: if_splits)
  have live_b: "live True {} b" "current_ok b" using b(2) by (simp_all add: dispatched_def)
  obtain d where d: "spec_MutexWaitersChanged b = Some d" "live True {} d" "current_ok d" "same_objects b d"
    "k_current d = k_current b" "spare_ok b \<longrightarrow> inherit_ok d" "waits_for d = waits_for b"
    "\<forall>t. \<exists>p. k_tasks d t = set_eff p (k_tasks b t)"
    using returnsD [OF WaitersChanged_exact [OF live_b]] by blast
  have owner: "m_owner (k_mutexes d i) = Some w" and mutexes: "k_mutexes d = k_mutexes a"
    using d(4) same(1) i(2) by (simp_all add: same_objects_def)
  have fields: "t_base_priority (k_tasks d u) = t_base_priority (k_tasks a u)" "t_state (k_tasks d u) = t_state (k_tasks b u)"
    "mwait (k_tasks d u) = mwait (k_tasks b u)" for u
    using d(8) prio(1) by (metis set_eff_simps(1,4) mwait_set_eff)+
  have exact: "inherit_ok d" if "strict a"
    using that d(6) spare_of_inherit [OF live] prio same(3) by (simp add: strict_def spare_ok_def)
  define next_step where "next_step = (case k_current d of None \<Rightarrow> Some d | Some r \<Rightarrow>
    if t_effective_priority (k_tasks d r) < t_effective_priority (k_tasks d w)
    then do { (_, s) \<leftarrow> spec_SchedSchedule OS_SWITCH_HIGHER_PRIORITY_WAKEUP False d; Some s } else Some d)"
  have "returns next_step (\<lambda>e. kernel_ok e \<and> mview e = mview d \<and> same_objects d e \<and> (strict a \<longrightarrow> top_running e))"
  proof (cases "\<exists>r. k_current d = Some r \<and> t_effective_priority (k_tasks d r) < t_effective_priority (k_tasks d w)")
    case True
    obtain m e where e: "spec_SchedSchedule OS_SWITCH_HIGHER_PRIORITY_WAKEUP False d = Some (m, e)" "dispatched d e"
      using returnsD [OF SchedSchedule_ok [OF d(2,3), of OS_SWITCH_HIGHER_PRIORITY_WAKEUP False]] by auto
    moreover have "mview e = mview d"
      using Schedule_view [OF d(2,3) e(1)] by (intro views_mview) (simp add: same_view_def)
    ultimately show ?thesis
      using True by (auto simp: next_step_def dispatched_def intro: live_kernel_ok)
  next
    case False
    have "top_running d" if "strict a"
      unfolding top_running_def
    proof (intro allI impI)
      fix t assume t: "t_state (k_tasks d t) = OS_TASK_READY"
      then obtain r where r: "k_current d = Some r" "t_effective_priority (k_tasks a t) \<le> t_effective_priority (k_tasks a r)"
        using b(2) d(5) fields(2) prio(2) by (auto simp: dispatched_def top_running_def)
      have "t_effective_priority (k_tasks d t) \<le> t_effective_priority (k_tasks d r)"
      proof (rule top_after_block [OF _ exact [OF that] fields(1) _ r(2)])
        show "waits_for d = insert (c, w) (waits_for a)"
          using block_waits [OF b(3) same(1) i(2)] run d(7) by simp
      qed (use that False r(1) in \<open>auto simp: strict_def\<close>)
      with r(1) show "\<exists>c. k_current d = Some c \<and> t_effective_priority (k_tasks d t) \<le> t_effective_priority (k_tasks d c)"
        by blast
    qed
    then show ?thesis using False live_kernel_ok [OF d(2,3)] by (auto simp: next_step_def split: option.split)
  qed
  then obtain e where e: "next_step = Some e" "kernel_ok e" "mview e = mview d" "same_objects d e" "strict a \<longrightarrow> top_running e"
    by (auto dest: returnsD)
  have "strict e" if "strict a"
    using that e exact inherit_ok_same [OF e(3)] d(4) same(2) by (auto simp: strict_def same_objects_def)
  moreover have "waits_for e = insert (c, w) (waits_for a)"
    using block_waits [OF b(3) same(1) i(2)] run d(7) e(3,4) mutexes by (simp add: waits_for_mview same_objects_def d(4))
  moreover have "t_base_priority (k_tasks e u) = t_base_priority (k_tasks a u)" for u
    using fun_cong [OF e(3), of u] fields(1) [of u] by (simp add: mview_def Let_def)
  moreover have "mwait (k_tasks e c) = Some i"
    using fun_cong [OF e(3), of c] fields(3) [of c] prio(3) [of c] by (simp add: mview_def Let_def)
  moreover have "spec_MutexLockCurrent (Some i) timeout a = Some e"
    using run c i b(1) d(1) owner e(1)
    by (simp add: spec_MutexLockCurrent_def os_MutexIsValid_def next_step_def cong: option.case_cong)
  ultimately show ?thesis using e(2,4) mutexes by (simp add: same_objects_def)
qed

lemma MutexLockCurrent_ok:
  assumes ok: "kernel_ok a"
    and not_idle: "\<And>c. k_current a = Some c \<Longrightarrow> t_base_priority (k_tasks a c) \<noteq> 0"
  shows "returns (spec_MutexLockCurrent mutex timeout a) (\<lambda>b. kernel_ok b \<and> (strict a \<longrightarrow> strict b))"
proof (cases "\<exists>c i w. k_current a = Some c \<and> mutex = Some i \<and> m_used (k_mutexes a i) \<and>
    m_owner (k_mutexes a i) = Some w \<and> w \<noteq> c \<and> timeout \<noteq> 0")
  case True
  then obtain c i w where i: "k_current a = Some c" "mutex = Some i" "m_used (k_mutexes a i)"
    "m_owner (k_mutexes a i) = Some w" "w \<noteq> c" "timeout \<noteq> 0" by blast
  from Lock_blocks [OF ok i(1) not_idle [OF i(1)] i(3-6)] show ?thesis
    unfolding i(2) by (rule returns_mono) simp
next
  case False
  show ?thesis
  proof (cases "k_current a")
    case (Some c)
    note run = kernel_ok_current [OF ok Some]
    show ?thesis
      using False ok run Some Lock_free [OF ok Some not_idle [OF Some]]
      by (auto simp: spec_MutexLockCurrent_def os_MutexIsValid_def split: option.split)
  qed (use ok in \<open>simp add: spec_MutexLockCurrent_def\<close>)
qed

subsection \<open>Unlocking\<close>

lemma MaybePreempt_decides:
  assumes "live True {} a" "current_ok a"
    and "\<And>c. k_current a = Some c \<Longrightarrow> t_effective_priority (k_tasks a t) \<le> t_effective_priority (k_tasks a c) \<Longrightarrow>
      top_running a"
    and run: "spec_WaitMaybePreempt (Some t) a = Some b"
  shows "top_running b \<or> 0 < k_critical_nesting a \<and> k_sched_pending b"
proof -
  have "top_running e" if "spec_SchedSchedule r f a = Some (n, e)" for r f n e
    using returnsD [OF SchedSchedule_ok [OF assms(1,2), of r f]] that by (auto simp: dispatched_def)
  then show ?thesis
    using run assms(3)
    by (auto simp: spec_WaitMaybePreempt_def Let_def not_less split: option.splits if_splits Option.bind_splits)
qed

text \<open>Handing mutex \<open>i\<close> of the running task \<open>c\<close> over to the waiter \<open>t\<close> in hand.\<close>

definition hand_over :: "nat \<Rightarrow> nat \<Rightarrow> 'p spec_kernel \<Rightarrow> 'p spec_kernel" where
  "hand_over i t a = upd_mutex i (\<lambda>M. M\<lparr>m_owner := Some t\<rparr>) (ndrop (MutexWaiters i) (SchedNode t) a)"

lemma hand_over_simps [simp]:
  "k_tasks (hand_over i t a) = k_tasks a" "k_current (hand_over i t a) = k_current a"
  "k_task_count (hand_over i t a) = k_task_count a" "k_started (hand_over i t a) = k_started a"
  "k_critical_nesting (hand_over i t a) = k_critical_nesting a"
  "k_mutexes (hand_over i t a) = (k_mutexes a)(i := (k_mutexes a i)\<lparr>m_owner := Some t\<rparr>)"
  by (simp_all add: hand_over_def)

lemma waits_hand_over:
  assumes a: "m_owner (k_mutexes a i) = Some c" "mwait (k_tasks a t) = Some i"
    and b: "\<And>u. mwait (k_tasks b u) = (if u = t then None else mwait (k_tasks a u))"
      "k_mutexes b = (k_mutexes a)(i := (k_mutexes a i)\<lparr>m_owner := Some t\<rparr>)"
  shows "(x, y) \<in> waits_for a \<Longrightarrow> (x, y) \<in> waits_for b \<or> x = t \<or> (x, t) \<in> waits_for b"
    and "(x, y) \<in> waits_for b \<Longrightarrow> y \<noteq> t \<Longrightarrow> (x, y) \<in> waits_for a" and "(t, y) \<notin> waits_for b"
proof -
  have eq: "(x, y) \<in> waits_for b \<longleftrightarrow> x \<noteq> t \<and> (\<exists>j. mwait (k_tasks a x) = Some j \<and>
      (if j = i then y = t else m_owner (k_mutexes a j) = Some y))" for x y
    unfolding waits_for_def b by auto
  show "(x, y) \<in> waits_for a \<Longrightarrow> (x, y) \<in> waits_for b \<or> x = t \<or> (x, t) \<in> waits_for b"
    unfolding eq using a by (auto simp: waits_for_def)
  show "(x, y) \<in> waits_for b \<Longrightarrow> y \<noteq> t \<Longrightarrow> (x, y) \<in> waits_for a"
    unfolding eq by (auto simp: waits_for_def split: if_splits)
  show "(t, y) \<notin> waits_for b" unfolding eq by simp
qed

text \<open>The recomputation with the new owner in hand, and the wake-up after it.\<close>

lemma recompute_and_wake:
  assumes hand: "in_hand True t a" and current: "current_ok a"
  shows "\<exists>d b. spec_MutexWaitersChanged a = Some d \<and> spec_WaitMakeReady (Some t) r d = Some b \<and>
    kernel_ok b \<and> same_objects a b \<and> k_current b = k_current a \<and>
    (\<forall>u. \<exists>p. k_tasks b u = set_eff p (if u = t then woken_tcb r (k_tasks a u) else k_tasks a u)) \<and>
    (spare_ok a \<longrightarrow> inherit_ok b)"
proof -
  have live: "live True {t} a" and free: "sp_place (k_heap a) (SchedNode t) = None"
    and wait: "t_state (k_tasks a t) = OS_TASK_BLOCKED_OBJECT"
    using hand by (simp_all add: in_hand_def)
  have "returns (spec_MutexWaitersChanged a) (priorities_set True {t} (desired_of a) (unat (k_task_count a)) a)"
    using live free wait by (intro MutexWaitersChanged_ok) auto
  then obtain d where d: "spec_MutexWaitersChanged a = Some d"
    "priorities_set True {t} (desired_of a) (unat (k_task_count a)) a d" by (auto dest: returnsD)
  note hand_d = priorities_set_in_hand [OF d(2) hand] and current_d = priorities_set_current [OF d(2) current]
  obtain b where b: "spec_WaitMakeReady (Some t) r d = Some b" "kernel_ok b" "same_objects d b" "k_current b = k_current d"
    "k_tasks b = (k_tasks d)(t := woken_tcb r (k_tasks d t))"
    using returnsD [OF wake_kernel_ok [OF hand_d current_d, of r]] by blast
  have tasks: "k_tasks d u = set_eff (t_effective_priority (k_tasks d u)) (k_tasks a u)" for u
    using d(2) by (simp add: priorities_set_def)
  have set_woken: "woken_tcb r (set_eff p T) = set_eff p (woken_tcb r T)" for p T
    by (simp add: woken_tcb_def clear_wait_def set_eff_def)
  have follow: "\<forall>u. \<exists>p. k_tasks b u = set_eff p (if u = t then woken_tcb r (k_tasks a u) else k_tasks a u)"
  proof
    fix u
    obtain p where p: "k_tasks d u = set_eff p (k_tasks a u)" using tasks [of u] by blast
    show "\<exists>p. k_tasks b u = set_eff p (if u = t then woken_tcb r (k_tasks a u) else k_tasks a u)"
      by (intro exI [of _ p], cases "u = t") (use p in \<open>simp_all add: b(5) set_woken\<close>)
  qed
  have same: "same_objects a b" using d(2) b(3) by (auto simp: priorities_set_def intro: same_objects_trans)
  have mwait: "mwait (k_tasks b u) = (if u = t then None else mwait (k_tasks a u))" for u
    using follow by (metis mwait_set_eff woken_tcb_simps(4))
  have "edges a = {(u, w). (u, w) \<in> waits_for a \<and> u \<noteq> t}" using edges_waits [OF live] free by simp
  moreover have "k_mutexes b = k_mutexes a" using same by (simp add: same_objects_def)
  ultimately have "waits_for b = edges a" unfolding waits_for_def mwait by (auto split: if_splits)
  moreover have "t_base_priority (k_tasks b u) = t_base_priority (k_tasks d u)"
    "t_effective_priority (k_tasks b u) = t_effective_priority (k_tasks d u)" for u by (simp_all add: b(5))
  ultimately have "spare_ok a \<longrightarrow> inherit_ok b"
    using recomputed(1) [OF live _ _ d(2)] free by (simp add: inherit_ok_def)
  then show ?thesis using d b(1,2,4) same follow by (auto simp: priorities_set_def)
qed

lemma Unlock_hands_over:
  assumes ok: "kernel_ok a" and c: "k_current a = Some c"
    and i: "m_used (k_mutexes a i)" "m_owner (k_mutexes a i) = Some c"
    and w: "sp_nodes (k_heap a) (MutexWaiters i) = SchedNode t # ns"
  shows "returns (spec_MutexUnlockCurrent (Some i) a) (\<lambda>b. kernel_ok b \<and> (strict a \<longrightarrow> strict b) \<and> k_started b \<and>
    k_mutexes b = (k_mutexes a)(i := (k_mutexes a i)\<lparr>m_owner := Some t\<rparr>) \<and>
    (\<forall>u. \<exists>p. views b u = set_eff p (view (if u = t then woken_tcb OS_STATUS_OK (k_tasks a u)
       else if u = c then (k_tasks a u)\<lparr>t_wait_result := OS_STATUS_OK\<rparr> else k_tasks a u))))"
proof -
  note run = kernel_ok_current [OF ok c]
  have live: "live True {} a" using kernel_ok_live [OF ok] run by simp
  note pop = WaitPop_front [OF ok run [THEN conjunct1] _ w, simplified]
  define a1 where "a1 = set_result c OS_STATUS_OK (hand_over i t a)"
  have hand: "in_hand True t a1"
    using pop(2,3) i(1) by (auto simp: a1_def hand_over_def intro!: in_hand_frame(2) handover)
  have blocked: "t_state (k_tasks a t) = OS_TASK_BLOCKED_OBJECT" using pop(2) by (simp add: in_hand_def)
  then have tc: "t \<noteq> c" and mt: "mwait (k_tasks a t) = Some i" using run pop(3) by (auto simp: mwait_def)
  have current: "current_ok a1" using pop(4) by (simp add: a1_def hand_over_def)
  obtain d b where d: "spec_MutexWaitersChanged a1 = Some d" "spec_WaitMakeReady (Some t) OS_STATUS_OK d = Some b"
    "kernel_ok b" "same_objects a1 b" "k_current b = k_current a1"
    "\<forall>u. \<exists>p. k_tasks b u = set_eff p (if u = t then woken_tcb OS_STATUS_OK (k_tasks a1 u) else k_tasks a1 u)"
    "spare_ok a1 \<longrightarrow> inherit_ok b"
    using recompute_and_wake [OF hand current, of OS_STATUS_OK] by blast
  have a1_tasks: "k_tasks a1 u = (if u = c then (k_tasks a u)\<lparr>t_wait_result := OS_STATUS_OK\<rparr> else k_tasks a u)" for u
    by (simp add: a1_def set_result_def)
  have mutexes: "k_mutexes b = (k_mutexes a)(i := (k_mutexes a i)\<lparr>m_owner := Some t\<rparr>)" and kb: "k_started b"
    "k_critical_nesting b = k_critical_nesting a" "k_current b = Some c"
    using d(4,5) run c by (simp_all add: a1_def same_objects_def set_result_def)
  have fields: "t_base_priority (k_tasks b u) = t_base_priority (k_tasks a u)"
    "mwait (k_tasks b u) = (if u = t then None else mwait (k_tasks a u))"
    "u \<noteq> t \<Longrightarrow> t_state (k_tasks b u) = t_state (k_tasks a u)" for u
    using spec [OF d(6), of u] by (auto simp: a1_tasks mwait_def split: if_splits)
  have exact: "inherit_ok b" if "strict a"
    using that d(7) spare_of_inherit [OF live] by (simp add: strict_def spare_ok_def a1_tasks) (simp add: a1_def set_result_def)
  have live_b: "live True {} b" "current_ok b" using d(3) kb(1) by (simp_all add: kernel_ok_live) (simp add: kernel_ok_def)
  have decide: "top_running b" if "strict a" and tle: "t_effective_priority (k_tasks b t) \<le> t_effective_priority (k_tasks b c)"
  proof -
    have "t_effective_priority (k_tasks b u) \<le> t_effective_priority (k_tasks b c)" if u: "t_state (k_tasks b u) = OS_TASK_READY" for u
    proof (rule top_after_redirect [OF _ exact [OF \<open>strict a\<close>] fields(1), where t = t])
      show "t_effective_priority (k_tasks a v) \<le> t_effective_priority (k_tasks a c)"
        if "v \<noteq> t" "t_state (k_tasks b v) = OS_TASK_READY" for v
        using \<open>strict a\<close> that fields(3) [of v] run c by (auto simp: strict_def top_running_def)
    qed (use \<open>strict a\<close> tle u waits_hand_over [OF i(2) mt fields(2) mutexes] in \<open>auto simp: strict_def\<close>)
    then show ?thesis using kb(3) by (auto simp: top_running_def)
  qed
  obtain e where e: "spec_WaitMaybePreempt (Some t) b = Some e" "kernel_ok e" "same_objects b e" "same_view b e"
    using returnsD [OF WaitMaybePreempt_kernel_ok [OF d(3) kb(1), of "Some t"]] by blast
  have "top_running e" if "strict a"
    using MaybePreempt_decides [OF live_b _ e(1)] decide [OF that] kb that by (auto simp: strict_def)
  moreover have "mview e = mview b" using e(4) by (intro views_mview) (simp add: same_view_def)
  ultimately have "strict e" if "strict a"
    using that exact [OF that] e(2,3) kb(2) inherit_ok_same [of e b] by (auto simp: strict_def same_objects_def)
  moreover have "\<exists>p. views e u = set_eff p (view (if u = t then woken_tcb OS_STATUS_OK (k_tasks a u)
       else if u = c then (k_tasks a u)\<lparr>t_wait_result := OS_STATUS_OK\<rparr> else k_tasks a u))" for u
  proof -
    obtain p where "k_tasks b u = set_eff p (if u = t then woken_tcb OS_STATUS_OK (k_tasks a1 u) else k_tasks a1 u)"
      using d(6) by blast
    moreover have "views e u = view (k_tasks b u)" using e(4) by (simp add: same_view_def views_def fun_eq_iff)
    ultimately show ?thesis using tc by (intro exI [of _ p]) (simp add: a1_tasks view_def set_eff_def)
  qed
  moreover have "spec_MutexUnlockCurrent (Some i) a = Some e"
    using run c i pop(1) d(1,2) e(1) by (simp add: spec_MutexUnlockCurrent_def os_MutexIsValid_def a1_def hand_over_def)
  ultimately show ?thesis using e(2,3) mutexes kb(1) by (simp add: same_objects_def)
qed

lemma Unlock_free:
  assumes ok: "kernel_ok a" and c: "k_current a = Some c"
    and i: "m_used (k_mutexes a i)" "m_owner (k_mutexes a i) = Some c"
    and w: "sp_nodes (k_heap a) (MutexWaiters i) = []"
  shows "returns (spec_MutexUnlockCurrent (Some i) a) (\<lambda>b. kernel_ok b \<and> (strict a \<longrightarrow> strict b) \<and>
    k_mutexes b = (k_mutexes a)(i := (k_mutexes a i)\<lparr>m_owner := None\<rparr>) \<and>
    (strict a \<longrightarrow> k_tasks b = (k_tasks a)(c := (k_tasks a c)\<lparr>t_wait_result := OS_STATUS_OK\<rparr>)))"
proof -
  note run = kernel_ok_current [OF ok c]
  have live: "live True {} a" using kernel_ok_live [OF ok] run by simp
  define a1 where "a1 = set_result c OS_STATUS_OK (upd_mutex i (\<lambda>M. M\<lparr>m_owner := None\<rparr>) a)"
  have live1: "live True {} a1" "current_ok a1"
    using live_upd_owner [OF live i(1), of None] w ok by (auto simp: a1_def kernel_ok_def)
  obtain d where d: "spec_MutexWaitersChanged a1 = Some d" "live True {} d" "current_ok d" "same_objects a1 d"
    "k_current d = k_current a1" "spare_ok a1 \<longrightarrow> inherit_ok d" "waits_for d = waits_for a1"
    "\<forall>t. \<exists>p. k_tasks d t = set_eff p (k_tasks a1 t)"
    using returnsD [OF WaitersChanged_exact [OF live1]] by blast
  have a1_tasks: "k_tasks a1 u = (if u = c then (k_tasks a u)\<lparr>t_wait_result := OS_STATUS_OK\<rparr> else k_tasks a u)" for u
    by (simp add: a1_def set_result_def)
  have mutexes: "k_mutexes d = (k_mutexes a)(i := (k_mutexes a i)\<lparr>m_owner := None\<rparr>)"
    using d(4) by (simp add: a1_def same_objects_def)
  have fields: "t_base_priority (k_tasks d u) = t_base_priority (k_tasks a u)"
    "t_state (k_tasks d u) = t_state (k_tasks a u)" "mwait (k_tasks d u) = mwait (k_tasks a u)" for u
    using spec [OF d(8), of u] by (auto simp: a1_tasks mwait_def split: if_splits)
  have none: "mwait (k_tasks a u) \<noteq> Some i" for u using live_waiting [OF live, of u i] w by simp
  have "(u, v) \<in> waits_for d \<longleftrightarrow> (u, v) \<in> waits_for a" for u v
    unfolding waits_for_def mem_Collect_eq prod.case fields(3) mutexes fun_upd_apply
    using none [of u] by (cases "mwait (k_tasks a u)") simp_all
  then have waits: "waits_for d = waits_for a" by auto
  have exact: "inherit_ok d" if "strict a"
    using that d(6) spare_of_inherit [OF live] by (simp add: strict_def spare_ok_def a1_tasks) (simp add: a1_def set_result_def)
  have eff: "t_effective_priority (k_tasks d u) = t_effective_priority (k_tasks a u)" if "strict a" for u
  proof (rule inherits_unique)
    show "inherits (waits_for a) (\<lambda>u. t_base_priority (k_tasks a u)) u (t_effective_priority (k_tasks d u))"
      using exact [OF that] waits fields(1) by (simp add: inherit_ok_def)
    show "inherits (waits_for a) (\<lambda>u. t_base_priority (k_tasks a u)) u (t_effective_priority (k_tasks a u))"
      using that by (simp add: strict_def inherit_ok_def)
  qed
  have "k_current d = k_current a" "k_started d = k_started a" "k_critical_nesting d = k_critical_nesting a"
    using d(4,5) by (simp_all add: same_objects_def a1_def) (simp add: set_result_def)
  then have "strict d" if "strict a"
    using that exact [OF that] live_kernel_ok [OF d(2,3)] eff [OF that] fields(2)
    by (simp add: strict_def top_running_def)
  moreover have "k_tasks d = (k_tasks a)(c := (k_tasks a c)\<lparr>t_wait_result := OS_STATUS_OK\<rparr>)" if "strict a"
  proof
    fix u
    obtain p where "k_tasks d u = set_eff p (k_tasks a1 u)" using d(8) by blast
    then show "k_tasks d u = ((k_tasks a)(c := (k_tasks a c)\<lparr>t_wait_result := OS_STATUS_OK\<rparr>)) u"
      using eff [OF that, of u] by (cases "k_tasks a u") (auto simp: a1_tasks set_eff_def)
  qed
  moreover have "spec_MutexUnlockCurrent (Some i) a = Some d"
    using run c i d(1) WaitPop_empty [OF w] by (simp add: spec_MutexUnlockCurrent_def os_MutexIsValid_def a1_def)
  ultimately show ?thesis using live_kernel_ok [OF d(2,3)] mutexes by simp
qed

lemma MutexUnlockCurrent_ok:
  assumes ok: "kernel_ok a"
  shows "returns (spec_MutexUnlockCurrent mutex a) (\<lambda>b. kernel_ok b \<and> (strict a \<longrightarrow> strict b))"
proof (cases "\<exists>c i. k_current a = Some c \<and> mutex = Some i \<and> m_used (k_mutexes a i) \<and> m_owner (k_mutexes a i) = Some c")
  case False
  then show ?thesis
    using ok kernel_ok_current [OF ok]
    by (auto simp: spec_MutexUnlockCurrent_def os_MutexIsValid_def split: option.split)
next
  case True
  then obtain c i where i: "k_current a = Some c" "mutex = Some i" "m_used (k_mutexes a i)" "m_owner (k_mutexes a i) = Some c"
    by blast
  have "is_wait (MutexWaiters i)" by simp
  with ok show ?thesis
  proof (cases rule: front_waiter)
    case nobody
    from Unlock_free [OF ok i(1,3,4) this] show ?thesis unfolding i(2) by (rule returns_mono) simp
  next
    case (waiter t ns)
    from Unlock_hands_over [OF ok i(1,3,4) this] show ?thesis unfolding i(2) by (rule returns_mono) simp
  qed
qed

subsection \<open>Termination\<close>

lemma MutexReleaseStep_ok:
  assumes live: "live tm {} a" and current: "current_ok a" and c: "k_current a = Some c"
  shows "returns (spec_MutexReleaseStep c i (flag, a)) (\<lambda>(flag', b). live tm {} b \<and> current_ok b \<and>
    k_current b = Some c \<and> m_owner (k_mutexes b i) \<noteq> Some c \<and>
    (\<forall>j. j \<noteq> i \<longrightarrow> k_mutexes b j = k_mutexes a j) \<and> (flag' \<or> \<not> flag \<and> b = a) \<and>
    (spare_ok a \<longrightarrow> spare_ok b) \<and> k_critical_nesting b = k_critical_nesting a)"
proof (cases "m_used (k_mutexes a i) \<and> m_owner (k_mutexes a i) = Some c")
  case False
  then have "m_owner (k_mutexes a i) \<noteq> Some c"
    using kinv_mutex [OF live_kinv [OF live]] by (auto simp: mutex_ok_def)
  with False assms show ?thesis by (simp add: spec_MutexReleaseStep_def)
next
  case True
  have running: "t_state (k_tasks a c) = OS_TASK_RUNNING" using current c by (simp add: current_ok_def)
  have "is_wait (MutexWaiters i)" by simp
  with live show ?thesis
  proof (cases rule: WaitPop_cases)
    case empty
    then have "live tm {} (upd_mutex i (\<lambda>M. M\<lparr>m_owner := None\<rparr>) a)"
      using True by (intro live_upd_owner [OF live]) auto
    then show ?thesis using empty True current c by (simp add: spec_MutexReleaseStep_def spare_ok_def)
  next
    case (waiter t ns)
    let ?b = "upd_mutex i (\<lambda>M. M\<lparr>m_owner := Some t\<rparr>) (ndrop (MutexWaiters i) (SchedNode t) a)"
    have hand: "in_hand tm t ?b" using waiter True by (intro handover) auto
    obtain d where d: "spec_WaitMakeReady (Some t) OS_STATUS_OK ?b = Some d" "live tm {} d"
      "same_objects ?b d" "k_current d = k_current ?b"
      "k_tasks d = (k_tasks ?b)(t := clear_wait OS_STATUS_OK ((k_tasks ?b t)\<lparr>t_delay_list := None\<rparr>))"
      using returnsD [OF WaitMakeReady_ok [OF hand]] by blast
    have "current_ok d"
      using current hand by (intro current_ok_wake [OF _ d(4,5)]) (simp_all add: in_hand_def clear_wait_def)
    moreover have "t \<noteq> c" using hand running by (auto simp: in_hand_def)
    ultimately show ?thesis
      using waiter True d c
      by (auto simp: spec_MutexReleaseStep_def same_objects_def spare_ok_def clear_wait_def)
  qed
qed

lemma MutexReleaseTask_ok:
  assumes live: "live True {} a" and current: "current_ok a" and c: "k_current a = Some c"
  shows "returns (spec_MutexReleaseTask (Some c) a) (\<lambda>b. live True {} b \<and> current_ok b \<and>
    k_current b = Some c \<and> (\<forall>i. m_owner (k_mutexes b i) \<noteq> Some c) \<and>
    k_critical_nesting b = k_critical_nesting a \<and> (inherit_ok a \<longrightarrow> inherit_ok b))"
proof -
  define good_step where "good_step n = (\<lambda>(flag, b). live True {} b \<and> current_ok b \<and> k_current b = Some c \<and>
    (\<forall>i<n. m_owner (k_mutexes b i) \<noteq> Some c) \<and> (flag \<or> b = a) \<and> (spare_ok a \<longrightarrow> spare_ok b) \<and>
    k_critical_nesting b = k_critical_nesting a)" for n
  have steps: "returns (foldM (spec_MutexReleaseStep c) [0..<n] (False, a)) (good_step n)" for n
  proof (induction n)
    case (Suc n)
    show ?case
      unfolding upt_Suc_append [OF le0] foldM_append
    proof (rule returns_bind [OF Suc], clarify)
      fix flag b
      assume b: "good_step n (flag, b)"
      then have "live True {} b" "current_ok b" "k_current b = Some c" by (simp_all add: good_step_def)
      from MutexReleaseStep_ok [OF this, of n flag]
      have "returns (spec_MutexReleaseStep c n (flag, b)) (good_step (Suc n))"
        by (rule returns_mono) (use b in \<open>auto simp: less_Suc_eq good_step_def\<close>)
      then show "returns (foldM (spec_MutexReleaseStep c) [n] (flag, b)) (good_step (Suc n))"
        by (cases "spec_MutexReleaseStep c n (flag, b)") (auto simp: returns_def)
    qed
  qed (use assms in \<open>simp add: good_step_def\<close>)
  show ?thesis
    unfolding spec_MutexReleaseTask_def option.case
  proof (rule returns_bind [OF steps], clarify)
    fix flag b
    assume "good_step OS_MAX_MUTEXES (flag, b)"
    then have b: "live True {} b" "current_ok b" "k_current b = Some c" "\<forall>i<OS_MAX_MUTEXES. m_owner (k_mutexes b i) \<noteq> Some c"
      "flag \<or> b = a" "spare_ok a \<longrightarrow> spare_ok b" "k_critical_nesting b = k_critical_nesting a"
      by (simp_all add: good_step_def)
    have owners: "m_owner (k_mutexes b i) \<noteq> Some c" for i
      using b(4) live_owner [OF b(1)] by (metis OS_MAX_MUTEXES_def)
    show "returns (if flag then spec_MutexWaitersChanged b else Some b) (\<lambda>b. live True {} b \<and> current_ok b \<and>
        k_current b = Some c \<and> (\<forall>i. m_owner (k_mutexes b i) \<noteq> Some c) \<and>
        k_critical_nesting b = k_critical_nesting a \<and> (inherit_ok a \<longrightarrow> inherit_ok b))"
    proof (cases flag)
      case True
      have "returns (spec_MutexWaitersChanged b) (\<lambda>b. live True {} b \<and> current_ok b \<and>
          k_current b = Some c \<and> (\<forall>i. m_owner (k_mutexes b i) \<noteq> Some c) \<and>
          k_critical_nesting b = k_critical_nesting a \<and> (inherit_ok a \<longrightarrow> inherit_ok b))"
        by (rule returns_mono [OF WaitersChanged_exact [OF b(1,2)]])
          (use owners b(3,6,7) spare_of_inherit [OF live] in \<open>auto simp: same_objects_def\<close>)
      then show ?thesis using True by simp
    qed (use b owners in auto)
  qed
qed

lemma Terminate_ends:
  assumes ok: "kernel_ok a" and c: "k_current a = Some c"
  shows "returns (spec_SchedTerminateCurrent a) (\<lambda>(n, b). kernel_ok b \<and> (strict a \<longrightarrow> strict b) \<and> top_running b \<and>
    t_state (k_tasks b c) = OS_TASK_TERMINATED \<and> (\<forall>i. m_owner (k_mutexes b i) \<noteq> Some c))"
proof -
  note run = kernel_ok_current [OF ok c]
  have live: "live True {} a" using kernel_ok_live [OF ok] run by simp
  have current: "current_ok a" using ok by (simp add: kernel_ok_def)
  obtain b where b: "spec_MutexReleaseTask (Some c) a = Some b" "live True {} b" "current_ok b" "k_current b = Some c"
    "\<And>i. m_owner (k_mutexes b i) \<noteq> Some c" "k_critical_nesting b = k_critical_nesting a" "inherit_ok a \<longrightarrow> inherit_ok b"
    using returnsD [OF MutexReleaseTask_ok [OF live current c]] by blast
  have running: "t_state (k_tasks b c) = OS_TASK_RUNNING" using b by (simp add: current_ok_def)
  note rb = running_task [OF b(2) running]
  define d where "d = set_state c OS_TASK_TERMINATED b"
  have "live True {c} d"
    unfolding d_def set_state_def using rb b running kinv_base [OF live_kinv [OF b(2)], of c]
    by (intro live_upd) (auto simp: base_ok_def prio_ok_def)
  then have live_d: "live True {} d"
    using rb by (elim live_release)
      (auto simp: wait_ok_def d_def set_state_def place_ok_def sched_place_def delay_place_def)
  have "no_running d"
    unfolding d_def set_state_def using live_run [OF b(2)] b(4) by (intro no_running_after) auto
  from returnsD [OF dispatch [OF live_d this, of "Some c" OS_SWITCH_EXIT]] obtain n e where
    e: "spec_ReadyPopHighest d = Some (n, e)" "dispatched d (snd (os_CommitSwitch (Some c) n OS_SWITCH_EXIT e))"
    by auto
  let ?f = "snd (os_CommitSwitch (Some c) n OS_SWITCH_EXIT e)"
  have "mview d = mview b"
    using running_mwait [OF running] by (auto simp: d_def set_state_def mview_def fun_eq_iff Let_def mwait_def)
  moreover have "mview ?f = mview d"
    using pop_commit_view(1) [OF live_kinv [OF live_d] e(1)] by (intro views_mview) (simp add: same_view_def)
  moreover have mutexes: "k_mutexes ?f = k_mutexes b" "k_critical_nesting ?f = k_critical_nesting b"
    using e(2) by (simp_all add: dispatched_def same_objects_def d_def set_state_def)
  ultimately have "strict ?f" if "strict a"
    using that b(6,7) e(2) inherit_ok_same [of ?f b] live_kernel_ok [of ?f] by (auto simp: strict_def dispatched_def)
  moreover have "t_state (k_tasks ?f c) = OS_TASK_TERMINATED"
    using views_state [of ?f d OS_TASK_TERMINATED c] pop_commit_view(1) [OF live_kinv [OF live_d] e(1)]
    by (simp add: same_view_def d_def set_state_def)
  ultimately show ?thesis
    using run c b(1,5) e mutexes
    by (auto simp: spec_SchedTerminateCurrent_def d_def [symmetric] dispatched_def split_beta live_started
        intro: live_kernel_ok)
qed

lemma SchedTerminateCurrent_ok:
  assumes ok: "kernel_ok a"
  shows "returns (spec_SchedTerminateCurrent a) (\<lambda>(n, b). kernel_ok b \<and> (strict a \<longrightarrow> strict b))"
proof (cases "k_current a")
  case (Some c)
  from Terminate_ends [OF ok Some] show ?thesis by (rule returns_mono) auto
qed (use ok in \<open>simp add: spec_SchedTerminateCurrent_def\<close>)

end
