(* ===== verification/Kernel_Time.thy ===== *)
theory Kernel_Time
  imports Kernel_Mutex
begin

section \<open>The tick handler keeps the kernel in order\<close>

text \<open>
  One tick wakes exactly the tasks whose deadline is the new tick count, wherever the 32-bit
  counter stands: a deadline lies less than half the counter's range ahead, the overflow list
  becomes the current list when the counter wraps, and the loop over the front of the sorted
  list stops at the first task that is not due.
\<close>

subsection \<open>Deadlines\<close>

lemma TickReached_iff:
  assumes "w - now \<le> OS_MAX_DELAY_TICKS"
  shows "os_TickReached now w \<longleftrightarrow> w = now"
proof -
  define x where "x = w - now"
  have x: "uint x < 2 ^ 31" using assms by (simp add: x_def word_le_def)
  have "now - w = - x" by (simp add: x_def)
  have "0 \<le> sint (- x) \<longleftrightarrow> x = 0"
  proof (cases "x = 0")
    case False
    then have "0 < uint x" by (metis word_neq_0_conv word_less_def uint_0_eq)
    then have "uint (- x) = 2 ^ 32 - uint x" using x by (simp add: uint_word_ariths zmod_zminus1_eq_if)
    then have "uint (- x) div 2 ^ 31 = 1" using x \<open>0 < uint x\<close> by simp
    then have "bit (uint (- x)) 31" by (simp add: bit_iff_odd)
    then have "\<not> 0 \<le> sint (- x)" by (simp add: sint_uint)
    with False show ?thesis by simp
  qed simp
  then show ?thesis by (simp add: os_TickReached_def \<open>now - w = - x\<close>) (auto simp: x_def)
qed


subsection \<open>Waking one task\<close>

text \<open>The TCB of a task after its deadline has woken it.\<close>

definition woken :: "os_task_t \<Rightarrow> os_task_t" where
  "woken T = (if t_state T = OS_TASK_BLOCKED_DELAY then T\<lparr>t_delay_list := None, t_state := OS_TASK_READY\<rparr>
     else clear_wait OS_STATUS_TIMEOUT (T\<lparr>t_delay_list := None\<rparr>))"

text \<open>Tasks change only in their effective priorities, apart from the ones that \<open>f\<close> changes.\<close>

definition tasks_follow :: "(nat \<Rightarrow> os_task_t \<Rightarrow> os_task_t) \<Rightarrow> 'p spec_kernel \<Rightarrow> 'p spec_kernel \<Rightarrow> bool" where
  "tasks_follow f a b \<longleftrightarrow> (\<forall>u. \<exists>e. k_tasks b u = set_eff e (f u (k_tasks a u)))"

lemma delay_member:
  assumes live: "live tm {} a" and n: "n \<in> set (sp_nodes (k_heap a) (DelayedList i))"
  obtains t where "n = DelayNode t" "t < 8" "sp_place (k_heap a) (DelayNode t) = Some (DelayedList i)"
    "t_delay_list (k_tasks a t) = Some (DelayedList i)"
    "t_state (k_tasks a t) = OS_TASK_BLOCKED_DELAY \<or> t_state (k_tasks a t) = OS_TASK_BLOCKED_OBJECT"
proof -
  note qwf = kinv_qwf [OF live_kinv [OF live]]
  obtain t where t: "n = DelayNode t" "t < 8" using qwf_delay_nodes [OF qwf n] by blast
  then have at: "sp_place (k_heap a) (DelayNode t) = Some (DelayedList i)" using n qwf_mem [OF qwf] by simp
  have "place_ok a t" using kinv_place [OF live_kinv [OF live]] by simp
  then have "delay_place (k_tasks a t) = Some (DelayedList i)" using at by (simp add: place_ok_def)
  then have "t_delay_list (k_tasks a t) = Some (DelayedList i)"
    "t_state (k_tasks a t) = OS_TASK_BLOCKED_DELAY \<or> t_state (k_tasks a t) = OS_TASK_BLOCKED_OBJECT"
    by (simp_all add: delay_place_def split: if_splits)
  then show thesis by (rule that [OF t at])
qed

lemma woken_fields [simp]:
  "t_state (woken T) = OS_TASK_READY" "t_base_priority (woken T) = t_base_priority T"
  "t_effective_priority (woken T) = t_effective_priority T" "mwait (woken T) = None"
  by (simp_all add: woken_def clear_wait_def mwait_def)

lemma woken_set_eff [simp]: "set_eff (t_effective_priority T) (woken T) = woken T"
  by (cases T) (simp add: woken_def clear_wait_def set_eff_def)

text \<open>
  What a wake-up keeps: exact priorities; and the running task is at least as urgent as the ready
  ones unless it is less urgent than the task that has been woken.
\<close>

definition kept_top :: "nat \<Rightarrow> 'p spec_kernel \<Rightarrow> 'p spec_kernel \<Rightarrow> bool" where
  "kept_top t a b \<longleftrightarrow> (inherit_ok a \<longrightarrow> inherit_ok b) \<and>
     (inherit_ok a \<and> top_running a \<and> \<not> os_TimeHigher t b \<longrightarrow> top_running b)"

lemma kept_top_calm:
  assumes "mview b = mview a" "k_mutexes b = k_mutexes a" "k_current b = k_current a"
    and "\<And>u. u \<noteq> t \<Longrightarrow> t_state (k_tasks b u) = t_state (k_tasks a u)"
  shows "kept_top t a b"
proof -
  have eff: "t_effective_priority (k_tasks b u) = t_effective_priority (k_tasks a u)" for u
    using fun_cong [OF assms(1), of u] by (simp add: mview_def Let_def)
  have "top_running b" if "top_running a" "\<not> os_TimeHigher t b"
    unfolding top_running_def
  proof (intro allI impI)
    fix u assume u: "t_state (k_tasks b u) = OS_TASK_READY"
    show "\<exists>c. k_current b = Some c \<and> t_effective_priority (k_tasks b u) \<le> t_effective_priority (k_tasks b c)"
      using that u assms(3,4) by (cases "u = t") (auto simp: top_running_def eff os_TimeHigher_def not_less split: option.splits)
  qed
  then show ?thesis using inherit_ok_same [OF assms(1,2)] by (simp add: kept_top_def)
qed

lemma wake_delayed:
  assumes live: "live False {} a" and st: "t_state (k_tasks a t) = OS_TASK_BLOCKED_DELAY"
    and at: "sp_place (k_heap a) (DelayNode t) = Some l" and t: "t < 8"
  shows "\<exists>b. spec_TimeWake t (upd_task t (\<lambda>T. T\<lparr>t_delay_list := None\<rparr>) (ndrop l (DelayNode t) a)) = Some b \<and>
    live False {} b \<and> same_objects a b \<and> k_current b = k_current a \<and>
    k_tasks b = (k_tasks a)(t := woken (k_tasks a t)) \<and> kept_top t a b"
proof -
  have place: "place_ok a t" and wait: "wait_ok (k_tasks a t)" and base: "base_ok a t"
    using kinv_place [OF live_kinv [OF live]] kinv_wait [OF live_kinv [OF live]] kinv_base [OF live_kinv [OF live]]
    by auto
  have free: "sp_place (k_heap a) (SchedNode t) = None" using place st by (simp add: place_ok_def sched_place_def)
  define b where "b = upd_task t woken (ndrop l (DelayNode t) a)"
  have "live False {t} a" using live_take [OF live, of t] free by simp
  then have "live False {t} (ndrop l (DelayNode t) a)" using at by (intro live_drop) auto
  then have b: "live False {t} b"
    unfolding b_def using st base free by (intro live_upd) (auto simp: woken_def base_ok_def prio_ok_def)
  have step: "set_state t OS_TASK_READY (upd_task t (\<lambda>T. T\<lparr>t_delay_list := None\<rparr>) (ndrop l (DelayNode t) a)) = b"
    using st by (simp add: b_def set_state_def) (simp add: upd_task_def woken_def)
  have "spec_ReadyEnqueue (Some t) b = Some (ready_put t b)"
    using t free st by (intro ReadyEnqueue_eq [OF live_kinv [OF b]]) (auto simp: b_def woken_def)
  moreover have "live False {} (ready_put t b)"
    using b t free st wait by (intro live_ready_put) (auto simp: b_def woken_def wait_ok_def)
  moreover have "kept_top t a (ready_put t b)"
    using st by (intro kept_top_calm) (simp_all add: b_def fun_eq_iff woken_def mview_def mwait_def Let_def)
  ultimately show ?thesis
    using st step by (auto simp: spec_TimeWake_def b_def fun_eq_iff)
qed

lemma wake_waiting:
  assumes live: "live False {} a" and st: "t_state (k_tasks a t) = OS_TASK_BLOCKED_OBJECT"
    and at: "sp_place (k_heap a) (DelayNode t) = Some l" and t: "t < 8"
    and run: "current_ok a"
  shows "\<exists>b. spec_TimeWake t (upd_task t (\<lambda>T. T\<lparr>t_delay_list := None\<rparr>) (ndrop l (DelayNode t) a)) = Some b \<and>
    live False {} b \<and> same_objects a b \<and> k_current b = k_current a \<and>
    tasks_follow (\<lambda>u. if u = t then woken else id) a b \<and> kept_top t a b"
proof -
  have place: "place_ok a t" and wait: "wait_ok (k_tasks a t)" and base: "base_ok a t"
    using kinv_place [OF live_kinv [OF live]] kinv_wait [OF live_kinv [OF live]] kinv_base [OF live_kinv [OF live]]
    by auto
  have wo: "waits_on (k_tasks a t)" using wait st by (simp add: wait_ok_def)
  then obtain w where w: "t_wait_list (k_tasks a t) = Some w" "is_wait w"
    unfolding waits_on_def by (elim wait_matches.elims) auto
  have sched: "sp_place (k_heap a) (SchedNode t) = Some w"
    using place st w by (simp add: place_ok_def sched_place_def)
  define b where "b = upd_task t (\<lambda>T. T\<lparr>t_delay_list := None\<rparr>) (ndrop l (DelayNode t) a)"
  have "w \<noteq> ReadyList p" for p using w by auto
  then have "live False {t} a" using live_take [OF live, of t] sched by simp
  then have "live False {t} (ndrop l (DelayNode t) a)" using at by (intro live_drop) auto
  then have b: "live False {t} b"
    unfolding b_def using st base kinv_mutex [OF live_kinv [OF live]]
    by (intro live_upd) (auto simp: base_ok_def prio_ok_def)
  have tb: "k_tasks b = (k_tasks a)(t := (k_tasks a t)\<lparr>t_delay_list := None\<rparr>)"
    by (auto simp: b_def fun_eq_iff)
  define d where "d = ndrop w (SchedNode t) b"
  have "live False {t} d" unfolding d_def using b sched by (intro live_drop) (auto simp: b_def)
  moreover have "waits_on ((k_tasks a t)\<lparr>t_delay_list := None\<rparr>)" using wo by (simp add: waits_on_def)
  ultimately have hand: "in_hand False t d"
    using t st by (simp add: in_hand_def d_def tb) (simp add: b_def)
  obtain e where e: "spec_WaitMakeReady (Some t) OS_STATUS_TIMEOUT d = Some e" "live False {} e" "same_objects d e"
    "k_current e = k_current d"
    "k_tasks e = (k_tasks d)(t := clear_wait OS_STATUS_TIMEOUT ((k_tasks d t)\<lparr>t_delay_list := None\<rparr>))"
    using returnsD [OF WaitMakeReady_ok [OF hand]] by blast
  have te: "k_tasks e = (k_tasks a)(t := woken (k_tasks a t))"
    using st by (simp add: e(5) d_def tb woken_def)
  have se: "same_objects a e" "k_current e = k_current a" using e(3,4) by (simp_all add: d_def b_def)
  have follow: "tasks_follow (\<lambda>u. if u = t then woken else id) a e"
    unfolding tasks_follow_def
  proof
    fix u show "\<exists>p. k_tasks e u = set_eff p ((if u = t then woken else id) (k_tasks a u))"
      by (intro exI [of _ "t_effective_priority (k_tasks e u)"]) (simp add: te)
  qed
  have start: "spec_TimeWake t b = Option.bind (Some e) (\<lambda>s.
      if t_wait_kind (k_tasks b t) = OS_WAIT_MUTEX then spec_MutexWaitersChanged s else Some s)"
    using st w sched e(1) by (simp add: spec_TimeWake_def tb list_ops_eq d_def) (simp add: b_def)
  show ?thesis
  proof (cases "t_wait_kind (k_tasks b t) = OS_WAIT_MUTEX")
    case False
    have "w \<noteq> MutexWaiters i" for i
      using wo w False by (auto simp: waits_on_def tb elim!: wait_matches.elims)
    then have "mwait (k_tasks a t) = None" using w(1) by (intro mwait_other) auto
    then have "kept_top t a e"
      using se by (intro kept_top_calm) (simp_all add: te same_objects_def fun_eq_iff mview_def Let_def)
    then show ?thesis using start e(2) se follow False by (simp add: b_def [symmetric])
  next
    case True
    have "current_ok e"
      using run se(2) st by (intro current_ok_wake [OF _ _ te]) simp_all
    then obtain f where f: "spec_MutexWaitersChanged e = Some f" "live False {} f" "same_objects e f"
      "k_current f = k_current e" "spare_ok e \<longrightarrow> inherit_ok f" "waits_for f = waits_for e"
      "\<forall>t. \<exists>p. k_tasks f t = set_eff p (k_tasks e t)"
      using returnsD [OF WaitersChanged_exact [OF e(2)]] by blast
    have fields: "t_base_priority (k_tasks f u) = t_base_priority (k_tasks a u)"
      "u \<noteq> t \<Longrightarrow> t_state (k_tasks f u) = t_state (k_tasks a u)" for u
      using spec [OF f(7), of u] by (auto simp: te)
    have waits: "waits_for f = {(x, y) \<in> waits_for a. x \<noteq> t}"
      using se(1) f(6) by (auto simp: waits_for_def te same_objects_def split: if_splits)
    have exact: "inherit_ok f" if "inherit_ok a"
      using f(5) spare_of_inherit [OF live that] se(1) by (simp add: spare_ok_def te same_objects_def)
    have "top_running f" if "inherit_ok a" "top_running a" and lower: "\<not> os_TimeHigher t f"
    proof -
      obtain c where c: "k_current f = Some c" "k_current a = Some c"
          "t_effective_priority (k_tasks f t) \<le> t_effective_priority (k_tasks f c)"
        using lower se(2) f(4) by (auto simp: os_TimeHigher_def not_less split: option.splits)
      have "t_effective_priority (k_tasks f u) \<le> t_effective_priority (k_tasks f c)"
        if u: "t_state (k_tasks f u) = OS_TASK_READY" for u
        using \<open>top_running a\<close> c fields(2)
        by (intro top_after_redirect [OF \<open>inherit_ok a\<close> exact [OF \<open>inherit_ok a\<close>] fields(1) _ _ _ _ c(3) u])
          (auto simp: waits top_running_def)
      then show ?thesis using c(1) by (auto simp: top_running_def)
    qed
    then have kept: "kept_top t a f" using exact by (simp add: kept_top_def)
    have "tasks_follow (\<lambda>u. if u = t then woken else id) a f"
      unfolding tasks_follow_def
    proof
      fix u
      from follow obtain p where "k_tasks e u = set_eff p ((if u = t then woken else id) (k_tasks a u))"
        unfolding tasks_follow_def by blast
      moreover obtain q where "k_tasks f u = set_eff q (k_tasks e u)" using f(7) by blast
      ultimately show "\<exists>p. k_tasks f u = set_eff p ((if u = t then woken else id) (k_tasks a u))"
        by (intro exI [of _ q]) (simp add: set_eff_def)
    qed
    then show ?thesis
      using start True f(1-4) se kept by (auto simp: b_def [symmetric] intro: same_objects_trans)
  qed
qed


subsection \<open>The loop over the front of the delay list\<close>

definition due :: "u32 \<Rightarrow> os_task_t \<Rightarrow> bool" where
  "due now T \<longleftrightarrow> delay_place T \<noteq> None \<and> t_wake_tick T = now"

definition wake_due :: "u32 \<Rightarrow> os_task_t \<Rightarrow> os_task_t" where
  "wake_due now T = (if due now T then woken T else T)"

lemma woken_simps [simp]:
  "t_wake_tick (woken T) = t_wake_tick T"
  "woken (set_eff e T) = set_eff e (woken T)" "due now (set_eff e T) = due now T"
  "set_eff e (set_eff e' T) = set_eff e T" "wake_due now (set_eff e T) = set_eff e (wake_due now T)"
  by (simp_all add: woken_def clear_wait_def set_eff_def due_def wake_due_def delay_place_def)

lemma wake_due_woken [simp]: "wake_due now (woken T) = woken T"
  by (simp add: wake_due_def due_def delay_place_def)

lemma tasks_follow_trans:
  assumes "tasks_follow f a b" "tasks_follow g b c"
    and "\<And>u e T. g u (set_eff e T) = set_eff e (g u T)" and "\<And>u T. T = k_tasks a u \<Longrightarrow> g u (f u T) = h u T"
  shows "tasks_follow h a c"
  unfolding tasks_follow_def
proof
  fix u
  from assms(1,2) obtain e e' where "k_tasks b u = set_eff e (f u (k_tasks a u))" "k_tasks c u = set_eff e' (g u (k_tasks b u))"
    unfolding tasks_follow_def by metis
  then have "k_tasks c u = set_eff e' (set_eff e (g u (f u (k_tasks a u))))" by (simp add: assms(3))
  then show "\<exists>e. k_tasks c u = set_eff e (h u (k_tasks a u))" using assms(4) by auto
qed

lemma tasks_follow_id: "(\<And>u. f u (k_tasks a u) = k_tasks a u) \<Longrightarrow> tasks_follow f a a"
  unfolding tasks_follow_def
proof
  fix u assume "\<And>u. f u (k_tasks a u) = k_tasks a u"
  then show "\<exists>e. k_tasks a u = set_eff e (f u (k_tasks a u))"
    by (intro exI [of _ "t_effective_priority (k_tasks a u)"]) simp
qed

text \<open>Nothing is due any more: the strict form of the deadline invariant holds.\<close>

lemma nothing_due:
  assumes live: "live False {} a" and px: "k_px_delayed a = Some l"
    and late: "\<And>n. n \<in> set (sp_nodes (k_heap a) l) \<Longrightarrow> wake_of a n \<noteq> k_tick a"
  shows "live True {} a" "tasks_follow (\<lambda>u. wake_due (k_tick a)) a a"
proof -
  note qwf = kinv_qwf [OF live_kinv [OF live]]
  have pos: "t_wake_tick (k_tasks a t) \<noteq> k_tick a"
    if at: "sp_place (k_heap a) (DelayNode t) = Some l'" for t l'
  proof (cases "l' = l")
    case True
    then have "DelayNode t \<in> set (sp_nodes (k_heap a) l)" using at qwf_mem [OF qwf] by simp
    from late [OF this] show ?thesis by (simp add: wake_of_def)
  next
    case False
    then have "k_px_overflow_delayed a = Some l'"
      using qwf_delay [OF qwf at] px kinv_px [OF live_kinv [OF live]] by (auto simp: px_ok_def)
    then have "t_wake_tick (k_tasks a t) < k_tick a" using live_time [OF live] at by (auto simp: time_ok_def)
    then show ?thesis by auto
  qed
  then show "live True {} a"
    using live px by (fastforce simp: live_def time_ok_def)
  show "tasks_follow (\<lambda>u. wake_due (k_tick a)) a a"
  proof (rule tasks_follow_id)
    fix u
    have "sp_place (k_heap a) (DelayNode u) = delay_place (k_tasks a u)"
      using kinv_place [OF live_kinv [OF live], of u] by (simp add: place_ok_def)
    then show "wake_due (k_tick a) (k_tasks a u) = k_tasks a u"
      using pos [of u] by (auto simp: wake_due_def due_def)
  qed
qed

definition delayed_tasks :: "'p spec_kernel \<Rightarrow> nat set" where
  "delayed_tasks a = {t. t < 8 \<and> delay_place (k_tasks a t) \<noteq> None}"

lemma TimeTickLoop_ok:
  assumes "live False {} a" "current_ok a" "k_tick a = now" "card (delayed_tasks a) \<le> fuel"
  shows "returns (spec_TimeTickLoop fuel now w a) (\<lambda>(w', b). live True {} b \<and> current_ok b \<and>
    same_objects a b \<and> k_current b = k_current a \<and> tasks_follow (\<lambda>u. wake_due now) a b \<and>
    (inherit_ok a \<longrightarrow> inherit_ok b) \<and> (inherit_ok a \<and> (w \<or> top_running a) \<longrightarrow> w' \<or> top_running b))"
  using assms
proof (induction fuel arbitrary: w a)
  case 0
  note live = 0(1)
  obtain l where l: "k_px_delayed a = Some l" "l = DelayedList 0 \<or> l = DelayedList 1"
    using kinv_px [OF live_kinv [OF live]] by (auto simp: px_ok_def)
  have "sp_nodes (k_heap a) l = []"
  proof (rule ccontr)
    assume "sp_nodes (k_heap a) l \<noteq> []"
    then obtain n where n: "n \<in> set (sp_nodes (k_heap a) l)" by (meson list.set_sel(1))
    obtain i where i: "l = DelayedList i" using l by blast
    obtain t where "t < 8" "sp_place (k_heap a) (DelayNode t) = Some l"
      using delay_member [OF live n [unfolded i]] i by auto
    then have "t \<in> delayed_tasks a"
      using kinv_place [OF live_kinv [OF live], of t] by (auto simp: delayed_tasks_def place_ok_def intro: sym)
    moreover have "finite (delayed_tasks a)" by (simp add: delayed_tasks_def)
    ultimately show False using 0(4) by auto
  qed
  then show ?case
    using nothing_due [OF live l(1)] 0 l by (simp add: spec_TimeTickLoop.simps [of 0])
next
  case (Suc fuel)
  note live = Suc.prems(1)
  obtain i where px: "k_px_delayed a = Some (DelayedList i)"
    using kinv_px [OF live_kinv [OF live]] by (auto simp: px_ok_def)
  let ?l = "DelayedList i"
  show ?case
  proof (cases "sp_nodes (k_heap a) ?l")
    case Nil
    then show ?thesis
      using nothing_due [OF live px] Suc.prems(2,3) px by (simp add: spec_TimeTickLoop.simps [of "Suc fuel"])
  next
    case (Cons n ns)
    then have "n \<in> set (sp_nodes (k_heap a) ?l)" by simp
    then obtain t where n: "n = DelayNode t" and t: "t < 8" and at: "sp_place (k_heap a) (DelayNode t) = Some ?l"
      and st: "t_state (k_tasks a t) = OS_TASK_BLOCKED_DELAY \<or> t_state (k_tasks a t) = OS_TASK_BLOCKED_OBJECT"
      using delay_member [OF live] by metis
    have rem: "t_wake_tick (k_tasks a t) - now \<le> OS_MAX_DELAY_TICKS" and ge: "now \<le> t_wake_tick (k_tasks a t)"
      using live_time [OF live] at px Suc.prems(3) by (auto simp: time_ok_def)
    note reached = TickReached_iff [OF rem]
    show ?thesis
    proof (cases "t_wake_tick (k_tasks a t) = now")
      case False
      have sorted: "sorted_wrt (\<lambda>m n. wake_of a m \<le> wake_of a n) (n # ns)"
        using kinv_sorted [OF live_kinv [OF live]] Cons by (metis sorted_ok_def)
      have "wake_of a m \<noteq> k_tick a" if "m \<in> set (sp_nodes (k_heap a) ?l)" for m
      proof -
        have "t_wake_tick (k_tasks a t) \<le> wake_of a m"
          using that sorted Cons by (auto simp: n wake_of_def)
        with ge False Suc.prems(3) show ?thesis by (auto dest: order.antisym)
      qed
      note stop = nothing_due [OF live px this]
      show ?thesis
        using stop Suc.prems(2,3) px Cons n reached False
        by (simp add: spec_TimeTickLoop.simps [of "Suc fuel"] Let_def)
    next
      case True
      have tplace: "delay_place (k_tasks a t) = Some ?l"
        using kinv_place [OF live_kinv [OF live], of t] at by (simp add: place_ok_def)
      obtain b where b: "spec_TimeWake t (upd_task t (\<lambda>T. T\<lparr>t_delay_list := None\<rparr>) (ndrop ?l (DelayNode t) a)) = Some b"
        "live False {} b" "same_objects a b" "k_current b = k_current a"
        and follow: "tasks_follow (\<lambda>u. if u = t then woken else id) a b" and kept: "kept_top t a b"
      proof (cases "t_state (k_tasks a t) = OS_TASK_BLOCKED_DELAY")
        case True
        from wake_delayed [OF live True at t] obtain b where
          b: "spec_TimeWake t (upd_task t (\<lambda>T. T\<lparr>t_delay_list := None\<rparr>) (ndrop ?l (DelayNode t) a)) = Some b"
          "live False {} b" "same_objects a b" "k_current b = k_current a"
          "k_tasks b = (k_tasks a)(t := woken (k_tasks a t))" "kept_top t a b" by blast
        have "tasks_follow (\<lambda>u. if u = t then woken else id) a b"
          unfolding tasks_follow_def
        proof
          fix u show "\<exists>p. k_tasks b u = set_eff p ((if u = t then woken else id) (k_tasks a u))"
            by (intro exI [of _ "t_effective_priority (k_tasks b u)"]) (simp add: b(5))
        qed
        then show thesis by (rule that [OF b(1-4) _ b(6)])
      next
        case False
        then have "t_state (k_tasks a t) = OS_TASK_BLOCKED_OBJECT" using st by simp
        from wake_waiting [OF live this at t Suc.prems(2)] show thesis using that by blast
      qed
      have states: "t_state (k_tasks b u) = (if u = t then OS_TASK_READY else t_state (k_tasks a u)) \<and>
          delay_place (k_tasks b u) = (if u = t then None else delay_place (k_tasks a u))" for u
      proof -
        obtain e where "k_tasks b u = set_eff e ((if u = t then woken else id) (k_tasks a u))"
          using follow unfolding tasks_follow_def by blast
        moreover have "delay_place (woken T) = None" for T by (simp add: delay_place_def)
        ultimately show ?thesis by simp
      qed
      have "k_current a \<noteq> Some t"
        using Suc.prems(2) [unfolded current_ok_def, THEN spec, of t] st by auto
      then have "current_ok b"
        using Suc.prems(2) b(4) unfolding current_ok_def by (auto simp: states)
      moreover have "card (delayed_tasks b) \<le> fuel"
      proof -
        have "delayed_tasks b = delayed_tasks a - {t}" by (auto simp: delayed_tasks_def states)
        moreover have "t \<in> delayed_tasks a" using t tplace by (simp add: delayed_tasks_def)
        moreover have "finite (delayed_tasks a)" by (simp add: delayed_tasks_def)
        ultimately show ?thesis using Suc.prems(4) by (simp add: card_Diff_singleton)
      qed
      moreover have tick: "k_tick b = now" using b(3) Suc.prems(3) by (simp add: same_objects_def)
      ultimately have "returns (spec_TimeTickLoop fuel now (w \<or> os_TimeHigher t b) b) (\<lambda>(w', c). live True {} c \<and>
          current_ok c \<and> same_objects b c \<and> k_current c = k_current b \<and> tasks_follow (\<lambda>u. wake_due now) b c \<and>
          (inherit_ok b \<longrightarrow> inherit_ok c) \<and>
          (inherit_ok b \<and> (w \<or> os_TimeHigher t b \<or> top_running b) \<longrightarrow> w' \<or> top_running c))"
        using b(2) Suc.IH [of b "w \<or> os_TimeHigher t b"] by simp
      then have "returns (spec_TimeTickLoop fuel now (w \<or> os_TimeHigher t b) b) (\<lambda>(w', c). live True {} c \<and>
          current_ok c \<and> same_objects a c \<and> k_current c = k_current a \<and> tasks_follow (\<lambda>u. wake_due now) a c \<and>
          (inherit_ok a \<longrightarrow> inherit_ok c) \<and> (inherit_ok a \<and> (w \<or> top_running a) \<longrightarrow> w' \<or> top_running c))"
      proof (rule returns_mono, clarify, intro conjI)
        fix c assume "tasks_follow (\<lambda>u. wake_due now) b c"
        with follow show "tasks_follow (\<lambda>u. wake_due now) a c"
          by (rule tasks_follow_trans) (use True tplace in \<open>auto simp: wake_due_def due_def delay_place_def\<close>)
      qed (use b(3,4) kept in \<open>auto simp: kept_top_def intro: same_objects_trans\<close>)
      then show ?thesis
        using px Cons n reached True b(1)
        by (simp add: spec_TimeTickLoop.simps [of "Suc fuel"] Let_def pop_front_eq)
    qed
  qed
qed


subsection \<open>The whole tick\<close>

text \<open>Counting up, and swapping the lists when the counter wraps around.\<close>

definition next_tick :: "'p spec_kernel \<Rightarrow> 'p spec_kernel" where
  "next_tick a = (let s = a\<lparr>k_tick := k_tick a + 1\<rparr> in
     if k_tick s = 0
     then s\<lparr>k_px_delayed := k_px_overflow_delayed s, k_px_overflow_delayed := k_px_delayed s\<rparr> else s)"

lemma next_tick_simps [simp]:
  "k_tasks (next_tick a) = k_tasks a" "k_current (next_tick a) = k_current a"
  "k_heap (next_tick a) = k_heap a" "k_tick (next_tick a) = k_tick a + 1"
  "k_started (next_tick a) = k_started a" "k_queues (next_tick a) = k_queues a"
  "k_sems (next_tick a) = k_sems a" "k_mutexes (next_tick a) = k_mutexes a"
  "k_task_count (next_tick a) = k_task_count a" "current_ok (next_tick a) = current_ok a"
  by (simp_all add: next_tick_def Let_def current_ok_def)

lemma next_tick_kinv: "kinv {} a \<Longrightarrow> kinv {} (next_tick a)"
  by (auto simp: kinv_def next_tick_def Let_def px_ok_def bits_ok_def sorted_ok_def prio_of_def wake_of_def
      mutex_ok_def base_ok_def place_ok_def)

lemma next_tick_time:
  assumes time: "time_ok True a" and px: "px_ok a" and qwf: "qwf (k_heap a)"
  shows "time_ok False (next_tick a)"
  unfolding time_ok_def
proof (intro allI impI)
  fix t l assume "sp_place (k_heap (next_tick a)) (DelayNode t) = Some l"
  then have at: "sp_place (k_heap a) (DelayNode t) = Some l" by simp
  define w where "w = t_wake_tick (k_tasks a t)"
  have now: "k_px_delayed a = Some l \<Longrightarrow> k_tick a < w" and later: "k_px_overflow_delayed a = Some l \<Longrightarrow> w < k_tick a"
    and rem: "w - k_tick a \<le> OS_MAX_DELAY_TICKS"
    using time at by (auto simp: time_ok_def word_le_less_eq w_def)
  have "k_px_delayed a = Some l \<or> k_px_overflow_delayed a = Some l"
    using qwf_delay [OF qwf at] px by (auto simp: px_ok_def)
  then have "w \<noteq> k_tick a" using now later by auto
  then have "w - k_tick a \<noteq> 0" by simp
  then have "(w - k_tick a) - 1 < w - k_tick a" by (simp add: word_less_nat_alt unat_minus_one unat_gt_0)
  then have rem': "w - (k_tick a + 1) \<le> OS_MAX_DELAY_TICKS" using rem by (simp add: diff_diff_eq)
  show "(k_px_delayed (next_tick a) = Some l \<longrightarrow> k_tick (next_tick a) \<le> t_wake_tick (k_tasks (next_tick a) t) \<and>
        (False \<longrightarrow> k_tick (next_tick a) \<noteq> t_wake_tick (k_tasks (next_tick a) t))) \<and>
      (k_px_overflow_delayed (next_tick a) = Some l \<longrightarrow> t_wake_tick (k_tasks (next_tick a) t) < k_tick (next_tick a)) \<and>
      t_wake_tick (k_tasks (next_tick a) t) - k_tick (next_tick a) \<le> OS_MAX_DELAY_TICKS"
  proof (cases "k_tick a + 1 = 0")
    case True
    then have "k_px_delayed a \<noteq> Some l" using now word_step(2) by blast
    then show ?thesis using True rem' by (simp add: next_tick_def Let_def w_def)
  next
    case False
    have "unat (k_tick a + 1) = Suc (unat (k_tick a))"
      using False unatSuc [of "k_tick a"] by (simp add: add.commute)
    then have "w < k_tick a + 1" if "w < k_tick a"
      using that by (simp add: word_less_nat_alt)
    then show ?thesis using False rem' now later word_step(1) by (simp add: next_tick_def Let_def w_def)
  qed
qed

text \<open>The slice of the current task, and the scheduling decision at the end of a tick.\<close>

definition charge_slice :: "'p spec_kernel \<Rightarrow> bool \<times> 'p spec_kernel" where
  "charge_slice s =
     (case k_current s of
        None \<Rightarrow> (False, s)
      | Some c \<Rightarrow>
          let s = (if 0 < t_slice_remaining (k_tasks s c)
                   then upd_task c (\<lambda>T. T\<lparr>t_slice_remaining := t_slice_remaining T - 1\<rparr>) s else s)
          in (t_slice_remaining (k_tasks s c) = 0, s))"

definition tick_tail :: "bool \<Rightarrow> bool \<Rightarrow> 'p spec_kernel \<Rightarrow> (nat option \<times> 'p spec_kernel) option" where
  "tick_tail woke slice_expired s =
     (if k_current s = None \<and> 0 \<le> os_ReadyHighestPriority s
      then spec_SchedSchedule OS_SWITCH_HIGHER_PRIORITY_WAKEUP False s
      else if woke then spec_SchedSchedule OS_SWITCH_HIGHER_PRIORITY_WAKEUP False s
      else if slice_expired then do {
        let before_task = k_current s;
        (after, s) \<leftarrow> spec_SchedSchedule OS_SWITCH_TIME_SLICE True s;
        let s = (case after of
                   None \<Rightarrow> s
                 | Some t \<Rightarrow> if after = before_task
                     then upd_task t (\<lambda>T. T\<lparr>t_slice_remaining := OS_TIME_SLICE_TICKS\<rparr>) s else s);
        Some (after, s)
      }
      else Some (k_current s, s))"

lemma TimeTick_eq:
  "spec_TimeTick a = Option.bind (spec_TimeTickLoop OS_MAX_TASKS (k_tick a + 1) False (next_tick a))
     (\<lambda>(woke, s). case charge_slice s of (slice_expired, s) \<Rightarrow> tick_tail woke slice_expired s)"
  unfolding spec_TimeTick_def tick_tail_def charge_slice_def next_tick_def Let_def by simp

lemma top_running_slice [simp]:
  "top_running (upd_task t (\<lambda>T. T\<lparr>t_slice_remaining := k T\<rparr>) a) = top_running a"
proof -
  have "t_state (k_tasks (upd_task t (\<lambda>T. T\<lparr>t_slice_remaining := k T\<rparr>) a) u) = t_state (k_tasks a u)"
    "t_effective_priority (k_tasks (upd_task t (\<lambda>T. T\<lparr>t_slice_remaining := k T\<rparr>) a) u) =
      t_effective_priority (k_tasks a u)" for u by simp_all
  then show ?thesis unfolding top_running_def by simp
qed

lemma views_same [simp]: "views b = views a \<Longrightarrow> (views a)(t := view (k_tasks b t)) = views a"
  by (simp add: fun_eq_iff) (metis views_def)

text \<open>What a part of the tick leaves alone, apart from scheduling.\<close>

definition settles :: "bool \<Rightarrow> 'p spec_kernel \<Rightarrow> 'p spec_kernel \<Rightarrow> bool" where
  "settles w a b \<longleftrightarrow> kernel_ok b \<and> same_objects a b \<and> views b = views a \<and> (w \<or> top_running a \<longrightarrow> top_running b)"

lemma charge_slice_ok:
  "live True {} a \<Longrightarrow> current_ok a \<Longrightarrow> live True {} (snd (charge_slice a)) \<and> current_ok (snd (charge_slice a)) \<and>
    settles False a (snd (charge_slice a))"
  by (simp add: charge_slice_def Let_def settles_def live_kernel_ok split: option.split)

lemma tick_tail_ok:
  assumes "live True {} s" "current_ok s"
  shows "returns (tick_tail w e s) (\<lambda>(n, b). settles w s b)"
proof -
  have sched: "\<exists>n b. spec_SchedSchedule r f s = Some (n, b) \<and> live True {} b \<and> current_ok b \<and> top_running b \<and>
      same_objects s b \<and> views b = views s" for r f
  proof -
    obtain n b where b: "spec_SchedSchedule r f s = Some (n, b)" "dispatched s b"
      using returnsD [OF SchedSchedule_ok [OF assms, of r f]] by auto
    from Schedule_view [OF assms b(1)] b show ?thesis by (auto simp: dispatched_def same_view_def)
  qed
  from sched [of OS_SWITCH_HIGHER_PRIORITY_WAKEUP False] sched [of OS_SWITCH_TIME_SLICE True] assms
  show ?thesis
    by (auto simp: tick_tail_def settles_def intro!: live_kernel_ok split: option.split)
qed

text \<open>Before start, nobody is delayed, and a tick only counts.\<close>

lemma boot_not_delayed:
  "kernel_ok a \<Longrightarrow> \<not> k_started a \<Longrightarrow> sp_place (k_heap a) (DelayNode t) = None"
proof -
  assume ok: "kernel_ok a" "\<not> k_started a"
  then have "t_state (k_tasks a t) = OS_TASK_UNUSED \<or> t_state (k_tasks a t) = OS_TASK_READY"
    by (simp add: kernel_ok_def boot_ok_def)
  moreover have "place_ok a t" using ok kinv_place [of "{}" a t] by (simp add: kernel_ok_def)
  ultimately show ?thesis by (auto simp: place_ok_def delay_place_def)
qed

lemma boot_tick:
  assumes ok: "kernel_ok a" and boot: "\<not> k_started a"
  shows "spec_TimeTick a = Some (None, next_tick a)" "kernel_ok (next_tick a)"
proof -
  have kinv: "kinv {} (next_tick a)" using ok by (simp add: kernel_ok_def next_tick_kinv)
  obtain i where l: "k_px_delayed (next_tick a) = Some (DelayedList i)"
    using kinv_px [OF kinv] by (auto simp: px_ok_def)
  have "sp_nodes (k_heap a) (DelayedList i) = []"
  proof (rule ccontr)
    assume "sp_nodes (k_heap a) (DelayedList i) \<noteq> []"
    then obtain n where n: "n \<in> set (sp_nodes (k_heap a) (DelayedList i))" by (meson list.set_sel(1))
    have qwf: "qwf (k_heap a)" using kinv_qwf [OF kinv] by simp
    show False
      using qwf_delay_nodes [OF qwf n] n qwf_mem [OF qwf] boot_not_delayed [OF ok boot] by auto
  qed
  then have loop: "spec_TimeTickLoop OS_MAX_TASKS (k_tick a + 1) False (next_tick a) = Some (False, next_tick a)"
    using l by (simp add: spec_TimeTickLoop.simps [of _ _ _ "next_tick a"])
  have "k_current a = None" using ok boot by (simp add: kernel_ok_def boot_ok_def)
  then show "spec_TimeTick a = Some (None, next_tick a)"
    using boot by (simp add: TimeTick_eq loop charge_slice_def tick_tail_def spec_SchedSchedule_def del: OS_MAX_TASKS_def)
  show "kernel_ok (next_tick a)"
    using ok kinv boot_not_delayed [OF ok boot]
    by (simp add: kernel_ok_def time_ok_def) (simp add: boot_ok_def objects_ok_def)
qed

lemma card_delayed: "card (delayed_tasks a) \<le> OS_MAX_TASKS"
proof -
  have "delayed_tasks a \<subseteq> {..<8}" by (auto simp: delayed_tasks_def)
  from card_mono [OF _ this] show ?thesis by simp
qed

text \<open>The loop of a tick, from a state in order: it ends, and wakes the tasks that are due.\<close>

lemma next_tick_top [simp]: "inherit_ok (next_tick a) = inherit_ok a" "top_running (next_tick a) = top_running a"
proof -
  show "inherit_ok (next_tick a) = inherit_ok a" by (rule inherit_ok_same) (simp_all add: mview_def fun_eq_iff)
  show "top_running (next_tick a) = top_running a" by (simp add: top_running_def)
qed

lemma next_tick_live:
  assumes ok: "kernel_ok a" and started: "k_started a"
  shows "live False {} (next_tick a)"
proof -
  have live: "live True {} a" by (rule kernel_ok_live [OF ok started])
  have "time_ok False (next_tick a)"
    using next_tick_time [OF live_time [OF live] kinv_px kinv_qwf] live_kinv [OF live] by blast
  then show ?thesis
    using live by (simp add: live_def next_tick_kinv run_ok_def objects_ok_def)
qed

lemma TickLoop_start:
  assumes ok: "kernel_ok a" and started: "k_started a"
  shows "returns (spec_TimeTickLoop OS_MAX_TASKS (k_tick a + 1) False (next_tick a)) (\<lambda>(w, b). live True {} b \<and>
    current_ok b \<and> same_objects (next_tick a) b \<and> k_current b = k_current a \<and>
    tasks_follow (\<lambda>u. wake_due (k_tick a + 1)) (next_tick a) b \<and> (inherit_ok a \<longrightarrow> inherit_ok b) \<and>
    (inherit_ok a \<and> top_running a \<longrightarrow> w \<or> top_running b))"
proof -
  have "live False {} (next_tick a)" by (rule next_tick_live [OF ok started])
  moreover have "current_ok (next_tick a)" using ok by (simp add: kernel_ok_def)
  ultimately show ?thesis
    using TimeTickLoop_ok [of "next_tick a" "k_tick a + 1" OS_MAX_TASKS False] card_delayed [of "next_tick a"] by simp
qed

text \<open>
  The effect of a tick as a whole: objects and memory are left alone, and of the tasks exactly the
  due ones are woken, inherited priorities apart.
\<close>

definition ticked :: "'p spec_kernel \<Rightarrow> 'p spec_kernel \<Rightarrow> bool" where
  "ticked a b \<longleftrightarrow> same_objects (next_tick a) b \<and>
     (\<forall>u. \<exists>e. views b u = set_eff e (view (wake_due (k_tick a + 1) (k_tasks a u))))"

lemma TimeTick_started:
  assumes ok: "kernel_ok a" and started: "k_started a"
  shows "returns (spec_TimeTick a) (\<lambda>(n, b). kernel_ok b \<and> (strict a \<longrightarrow> strict b) \<and> ticked a b)"
proof -
  obtain w b where b: "spec_TimeTickLoop OS_MAX_TASKS (k_tick a + 1) False (next_tick a) = Some (w, b)"
    "live True {} b" "current_ok b" "same_objects (next_tick a) b"
    "tasks_follow (\<lambda>u. wake_due (k_tick a + 1)) (next_tick a) b" "inherit_ok a \<longrightarrow> inherit_ok b"
    "inherit_ok a \<and> top_running a \<longrightarrow> w \<or> top_running b"
    using returnsD [OF TickLoop_start [OF ok started]] by auto
  obtain e c where c: "charge_slice b = (e, c)" by (cases "charge_slice b")
  then have charged: "live True {} c" "current_ok c" "settles False b c" using charge_slice_ok [OF b(2,3)] by auto
  obtain n d where d: "tick_tail w e c = Some (n, d)" "settles w c d"
    using returnsD [OF tick_tail_ok [OF charged(1,2), of w e]] by auto
  have views: "views d = views b" and same: "same_objects b d" and top: "w \<or> top_running b \<longrightarrow> top_running d"
    using charged(3) d(2) by (auto simp: settles_def intro: same_objects_trans)
  have "ticked a d"
    unfolding ticked_def
  proof (intro conjI allI)
    show "same_objects (next_tick a) d" using same_objects_trans [OF b(4) same] .
    fix u
    obtain e where "k_tasks b u = set_eff e (wake_due (k_tick a + 1) (k_tasks a u))"
      using b(5) by (auto simp: tasks_follow_def)
    then have "views d u = set_eff e (view (wake_due (k_tick a + 1) (k_tasks a u)))"
      unfolding views by (simp add: views_def view_def set_eff_def)
    then show "\<exists>e. views d u = set_eff e (view (wake_due (k_tick a + 1) (k_tasks a u)))" by blast
  qed
  moreover have "k_mutexes d = k_mutexes b" "k_started d = k_started a" "k_critical_nesting d = k_critical_nesting a"
    using same b(4) by (simp_all add: same_objects_def next_tick_def Let_def)
  then have "strict d" if "strict a"
    using that b(6,7) top d(2) inherit_ok_same [OF views_mview [OF views]] started
    by (auto simp: strict_def settles_def)
  ultimately show ?thesis
    using d(2) by (simp add: TimeTick_eq b(1) c d(1) settles_def del: OS_MAX_TASKS_def)
qed

lemma next_tick_frame [simp]:
  "k_critical_nesting (next_tick a) = k_critical_nesting a" "k_memory (next_tick a) = k_memory a"
  "k_port (next_tick a) = k_port a" "k_idle_task (next_tick a) = k_idle_task a"
  by (simp_all add: next_tick_def Let_def)

lemma TimeTick_ok:
  assumes ok: "kernel_ok a"
  shows "returns (spec_TimeTick a) (\<lambda>(n, b). kernel_ok b \<and> (strict a \<longrightarrow> strict b))"
proof (cases "k_started a")
  case False
  then show ?thesis using boot_tick [OF ok] by (auto simp: strict_def)
next
  case True
  from TimeTick_started [OF ok this] show ?thesis by (rule returns_mono) auto
qed

end
