(* ===== verification/Kernel_Boot.thy ===== *)
theory Kernel_Boot
  imports Kernel_Time
begin

section \<open>Initialisation and creation put the kernel in order\<close>

text \<open>
  \<open>os_Init\<close> establishes the invariant from any memory contents, and the creation functions
  keep it on every path.
\<close>

subsection \<open>os_Init\<close>

definition init_spec :: "'p kernel \<Rightarrow> 'p spec_kernel" where
  "init_spec s = \<lparr>k_initialized = True, k_started = False,
     k_tasks = (\<lambda>t. if t < OS_MAX_TASKS then zero_task\<lparr>t_id := of_nat t\<rparr> else zero_task),
     k_task_count = 0, k_px_delayed = Some (DelayedList 0),
     k_px_overflow_delayed = Some (DelayedList 1), k_ready_bitmap = 0, k_tick = 0, k_current = None,
     k_last_from = None, k_last_to = None, k_last_reason = OS_SWITCH_NONE, k_switch_count = 0,
     k_critical_nesting = 0, k_sched_pending = False, k_idle_task = None, k_last_error = k_last_error s,
     k_sems = (\<lambda>_. zero_sem), k_queues = (\<lambda>_. zero_queue), k_mutexes = (\<lambda>_. zero_mutex),
     k_memory = k_memory s, k_port = k_port s, k_heap = spec_Empty\<rparr>"

definition init_heap :: list_heap where
  "init_heap = \<lparr>h_lists = (\<lambda>_. zero_list),
     h_nodes = (\<lambda>n. if task_of n < OS_MAX_TASKS then zero_node\<lparr>n_owner := Some (task_of n)\<rparr> else zero_node)\<rparr>"

lemma ListInit_clear: "os_ListInit l = clear_headers (\<lambda>k. k = l)"
proof
  fix h :: list_heap
  have "(h_lists h l)\<lparr>l_head := None, l_tail := None, l_size := 0\<rparr> = zero_list"
    by (simp add: zero_list_def)
  then show "os_ListInit l h = clear_headers (\<lambda>k. k = l) h"
    by (auto simp: os_ListInit_def upd_list_def clear_headers_def fun_eq_iff intro!: list_heap.equality)
qed

lemma clear_clear: "clear_headers P (clear_headers Q h) = clear_headers (\<lambda>l. P l \<or> Q l) h"
  by (auto simp: clear_headers_def fun_eq_iff intro!: list_heap.equality)

lemma fold_clear:
  "fold (\<lambda>i. clear_headers (Q i)) is (clear_headers P h) = clear_headers (\<lambda>l. (\<exists>i\<in>set is. Q i l) \<or> P l) h"
proof (induction "is" arbitrary: P)
  case (Cons i js)
  show ?case by (simp add: clear_clear Cons disj_ac)
qed simp

lemma clear_all: "(\<And>l. P l) \<Longrightarrow> clear_headers P h = h\<lparr>h_lists := (\<lambda>_. zero_list)\<rparr>"
  by (simp add: clear_headers_def)

lemma init_tasks:
  "fold init_task [0..<n] s =
     s\<lparr>k_tasks := (\<lambda>t. if t < n then (k_tasks s t)\<lparr>t_id := of_nat t, t_state := OS_TASK_UNUSED\<rparr> else k_tasks s t),
       k_heap := (k_heap s)\<lparr>h_nodes := (\<lambda>m. if task_of m < n
          then (h_nodes (k_heap s) m)\<lparr>n_owner := Some (task_of m)\<rparr> else h_nodes (k_heap s) m)\<rparr>\<rparr>"
proof (induction n)
  case (Suc n)
  have node: "task_of m = n \<longleftrightarrow> m = SchedNode n \<or> m = DelayNode n" for m by (cases m) auto
  have tasks: "(\<lambda>t. if t < n then (k_tasks s t)\<lparr>t_id := of_nat t, t_state := OS_TASK_UNUSED\<rparr> else k_tasks s t)
      (n := (k_tasks s n)\<lparr>t_id := of_nat n, t_state := OS_TASK_UNUSED\<rparr>) =
      (\<lambda>t. if t < Suc n then (k_tasks s t)\<lparr>t_id := of_nat t, t_state := OS_TASK_UNUSED\<rparr> else k_tasks s t)"
    by (auto simp: fun_eq_iff less_Suc_eq)
  have nodes: "(\<lambda>m. if task_of m < n then (h_nodes (k_heap s) m)\<lparr>n_owner := Some (task_of m)\<rparr> else h_nodes (k_heap s) m)
      (SchedNode n := (h_nodes (k_heap s) (SchedNode n))\<lparr>n_owner := Some n\<rparr>,
       DelayNode n := (h_nodes (k_heap s) (DelayNode n))\<lparr>n_owner := Some n\<rparr>) =
      (\<lambda>m. if task_of m < Suc n then (h_nodes (k_heap s) m)\<lparr>n_owner := Some (task_of m)\<rparr> else h_nodes (k_heap s) m)"
    by (auto simp: fun_eq_iff less_Suc_eq node)
  have "fold init_task [0..<Suc n] s = init_task n (fold init_task [0..<n] s)" by simp
  also have "\<dots> = s\<lparr>k_tasks := (\<lambda>t. if t < Suc n then (k_tasks s t)\<lparr>t_id := of_nat t, t_state := OS_TASK_UNUSED\<rparr> else k_tasks s t),
       k_heap := (k_heap s)\<lparr>h_nodes := (\<lambda>m. if task_of m < Suc n
          then (h_nodes (k_heap s) m)\<lparr>n_owner := Some (task_of m)\<rparr> else h_nodes (k_heap s) m)\<rparr>\<rparr>"
    unfolding Suc tasks [symmetric] nodes [symmetric]
    by (simp add: init_task_def upd_task_def upd_node_def Let_def)
  finally show ?case .
qed simp

definition cleared :: "'p kernel \<Rightarrow> 'p kernel" where
  "cleared s = conc \<lparr>h_lists = (\<lambda>_. zero_list), h_nodes = (\<lambda>_. zero_node)\<rparr>
     ((init_spec s)\<lparr>k_initialized := False, k_tasks := (\<lambda>_. zero_task)\<rparr>)"

lemma heap_literal: "(h :: list_heap)\<lparr>h_nodes := X, h_lists := Y\<rparr> = \<lparr>h_lists = Y, h_nodes = X\<rparr>"
  by (cases h) simp

lemma Init_cleared:
  "os_Init s = (fold init_task [0..<OS_MAX_TASKS] (cleared s))\<lparr>k_initialized := True\<rparr>"
proof (cases s)
  case fields
  show ?thesis
    unfolding fields
    apply (simp add: os_Init_def os_MutexKernelReset_def os_QueueKernelReset_def
      os_SemKernelReset_def memset_kernel_def ListInit_clear clear_clear fold_clear)
    apply (subst clear_all)
     apply (simp add: kernel_header_def split: list_ref.split)
    apply (simp add: cleared_def conc_def init_spec_def heap_literal)
    done
qed

lemma Init_eq: "os_Init s = conc init_heap (init_spec s)"
proof -
  have nodes: "(\<lambda>m. if task_of m < OS_MAX_TASKS then zero_node\<lparr>n_owner := Some (task_of m)\<rparr> else zero_node) = h_nodes init_heap"
    by (simp add: init_heap_def)
  have tasks: "(\<lambda>t. if t < OS_MAX_TASKS then zero_task\<lparr>t_id := of_nat t, t_state := OS_TASK_UNUSED\<rparr> else zero_task) = k_tasks (init_spec s)"
    by (simp add: init_spec_def fun_eq_iff zero_task_def)
  show ?thesis
    unfolding Init_cleared init_tasks
    by (simp add: cleared_def nodes tasks cong: if_cong del: OS_MAX_TASKS_def) (simp add: init_spec_def init_heap_def)
qed


lemma init_heap_rep: "list_rep init_heap spec_Empty"
  by (simp add: list_rep_def init_heap_def spec_Empty_def header_ok_def zero_list_def zero_node_def)

lemma init_spec_ok: "kernel_ok (init_spec s)"
proof -
  have "kinv {} (init_spec s)"
  proof (rule kinvI)
    show "base_ok (init_spec s) t" for t
      by (simp add: init_spec_def base_ok_def zero_task_def prio_ok_def unat_of_nat)
    show "wait_ok (k_tasks (init_spec s) t)" "place_ok (init_spec s) t" for t
      by (simp_all add: init_spec_def wait_ok_def place_ok_def zero_task_def spec_Empty_def
          sched_place_def delay_place_def)
  qed (simp_all add: init_spec_def px_ok_def qwf_def spec_Empty_def bits_ok_def sorted_ok_def mutex_ok_def
      zero_mutex_def)
  then show ?thesis
    by (simp add: kernel_ok_def) (simp add: init_spec_def current_ok_def time_ok_def objects_ok_def queue_ok_def sem_ok_def zero_sem_def
        boot_ok_def spec_Empty_def zero_task_def zero_queue_def)
qed

subsection \<open>Priorities before the start\<close>

text \<open>Nobody waits before the start, so exact priorities are the base priorities.\<close>

lemma boot_strict:
  assumes "kernel_ok a" "\<not> k_started a"
  shows "strict a \<longleftrightarrow> k_critical_nesting a = 0 \<and>
    (\<forall>t. t_effective_priority (k_tasks a t) = t_base_priority (k_tasks a t))"
proof -
  have "t_state (k_tasks a t) \<noteq> OS_TASK_BLOCKED_OBJECT" for t
    using assms by (metis kernel_ok_def boot_ok_def os_task_state_t.distinct)
  then have "mwait (k_tasks a t) = None" for t by (simp add: mwait_def)
  then have "waits_for a = {}" by (simp add: waits_for_def)
  then have "inherits (waits_for a) base t p \<longleftrightarrow> p = base t" for base t p
    by (auto simp: inherits_def)
  then show ?thesis using assms by (auto simp: strict_def inherit_ok_def)
qed

lemma boot_strictI:
  assumes "strict a" "kernel_ok b" "\<not> k_started a" "k_started b = k_started a"
    and "k_critical_nesting b = k_critical_nesting a"
    and "\<And>t. t_base_priority (k_tasks b t) = t_base_priority (k_tasks a t) \<and>
          t_effective_priority (k_tasks b t) = t_effective_priority (k_tasks a t) \<or>
        t_effective_priority (k_tasks b t) = t_base_priority (k_tasks b t)"
  shows "strict b"
proof -
  have "kernel_ok a" using assms(1) by (simp add: strict_def)
  then show ?thesis using assms by (metis boot_strict)
qed

lemma boot_strict_same:
  "strict a \<Longrightarrow> \<not> k_started a \<Longrightarrow> kernel_ok b \<Longrightarrow> k_tasks b = k_tasks a \<Longrightarrow> k_started b = k_started a \<Longrightarrow>
   k_critical_nesting b = k_critical_nesting a \<Longrightarrow> strict b"
  by (rule boot_strictI [of a]) simp_all

lemma init_spec_strict: "strict (init_spec s)"
  by (subst boot_strict [OF init_spec_ok]) (simp_all add: init_spec_def zero_task_def)

lemma strict_frame [simp]:
  "strict (a\<lparr>k_sched_pending := b1\<rparr>) = strict a" "strict (a\<lparr>k_last_error := e\<rparr>) = strict a"
  "strict (a\<lparr>k_memory := m\<rparr>) = strict a" "strict (a\<lparr>k_port := p\<rparr>) = strict a"
  by (simp_all add: strict_def inherit_ok_def waits_for_def top_running_def)

subsection \<open>Creating a task\<close>

lemma unused_slot:
  assumes "kinv {} a" "t = unat (k_task_count a)"
  shows "t_state (k_tasks a t) = OS_TASK_UNUSED" "sp_place (k_heap a) (SchedNode t) = None"
    "sp_place (k_heap a) (DelayNode t) = None"
proof -
  show st: "t_state (k_tasks a t) = OS_TASK_UNUSED"
    using kinv_base [OF assms(1), of t] assms(2) by (simp add: base_ok_def)
  show "sp_place (k_heap a) (SchedNode t) = None" "sp_place (k_heap a) (DelayNode t) = None"
    using kinv_place [OF assms(1), of t] st by (simp_all add: place_ok_def sched_place_def delay_place_def)
qed

lemma kinv_new_task:
  assumes kinv: "kinv {} a" and t: "t = unat (k_task_count a)" "t < 8"
    and f: "t_id (f (k_tasks a t)) = t_id (k_tasks a t)" "t_entry (f (k_tasks a t)) \<noteq> 0"
      "t_state (f (k_tasks a t)) = OS_TASK_READY" "prio_ok (f (k_tasks a t))"
  shows "kinv {t} ((upd_task t f a)\<lparr>k_task_count := k_task_count a + 1\<rparr>)"
proof -
  let ?b = "(upd_task t f a)\<lparr>k_task_count := k_task_count a + 1\<rparr>"
  note slot = unused_slot [OF kinv t(1)]
  have count: "unat (k_task_count ?b) = Suc t"
    using t by (simp add: unat_word_ariths)
  have notin: "n \<noteq> SchedNode t \<and> n \<noteq> DelayNode t" if "n \<in> set (sp_nodes (k_heap a) l)" for n l
    using that slot qwf_mem [OF kinv_qwf [OF kinv]] by fastforce
  have same: "prio_of ?b n = prio_of a n" "wake_of ?b n = wake_of a n" if "n \<in> set (sp_nodes (k_heap a) l)" for n l
    using notin [OF that] by (cases n; simp add: prio_of_def wake_of_def)+
  show ?thesis
  proof (rule kinvI)
    show "sorted_ok ?b"
      unfolding sorted_ok_def
    proof (intro conjI allI impI)
      fix l assume "is_wait l"
      then have "sorted_wrt (\<lambda>m n. prio_of a n \<le> prio_of a m) (sp_nodes (k_heap a) l)"
        using kinv_sorted [OF kinv] by (simp add: sorted_ok_def)
      then have "sorted_wrt (\<lambda>m n. prio_of ?b n \<le> prio_of ?b m) (sp_nodes (k_heap a) l)"
        by (rule sorted_wrt_mono_rel [rotated]) (simp add: same)
      then show "sorted_wrt (\<lambda>m n. prio_of ?b n \<le> prio_of ?b m) (sp_nodes (k_heap ?b) l)" by simp
    next
      fix i
      have "sorted_wrt (\<lambda>m n. wake_of a m \<le> wake_of a n) (sp_nodes (k_heap a) (DelayedList i))"
        using kinv_sorted [OF kinv] by (simp add: sorted_ok_def)
      then have "sorted_wrt (\<lambda>m n. wake_of ?b m \<le> wake_of ?b n) (sp_nodes (k_heap a) (DelayedList i))"
        by (rule sorted_wrt_mono_rel [rotated]) (simp add: same)
      then show "sorted_wrt (\<lambda>m n. wake_of ?b m \<le> wake_of ?b n) (sp_nodes (k_heap ?b) (DelayedList i))" by simp
    qed
    show "mutex_ok ?b"
      using kinv_mutex [OF kinv] t count unfolding mutex_ok_def by fastforce
    show "base_ok ?b u" for u
      using kinv_base [OF kinv, of u] f t count by (cases "u = t") (auto simp: base_ok_def less_Suc_eq)
    show "wait_ok (k_tasks ?b u)" "place_ok ?b u" if "u \<notin> {t}" for u
      using that kinv_wait [OF kinv, of u] kinv_place [OF kinv, of u] by (simp_all add: place_ok_def)
    show "sp_place (k_heap ?b) (SchedNode u) \<noteq> Some (ReadyList p)" if "u \<in> {t}" for u p
      using that slot by simp
    show "px_ok ?b" "bits_ok ?b" using kinv_px [OF kinv] kinv_bits [OF kinv]
      by (simp_all add: px_ok_def bits_ok_def)
    show "unat (k_task_count ?b) \<le> 8" using count t(2) by simp
  qed (use kinvD(1,4) [OF kinv] in simp_all)
qed


definition add_task :: "(os_task_t \<Rightarrow> os_task_t) \<Rightarrow> (addr \<Rightarrow> u8) \<Rightarrow> 'p spec_kernel \<Rightarrow> 'p spec_kernel" where
  "add_task f m a = ready_put (unat (k_task_count a))
     ((upd_task (unat (k_task_count a)) f (a\<lparr>k_memory := m\<rparr>))\<lparr>k_task_count := k_task_count a + 1\<rparr>)"

lemma add_task_sel:
  "k_tasks (add_task f m a) = (k_tasks a)(unat (k_task_count a) := f (k_tasks a (unat (k_task_count a))))"
  "k_task_count (add_task f m a) = k_task_count a + 1" "k_started (add_task f m a) = k_started a"
  "k_memory (add_task f m a) = m" "k_current (add_task f m a) = k_current a"
  "k_critical_nesting (add_task f m a) = k_critical_nesting a"
  by (simp_all add: add_task_def upd_task_def)

lemma add_task_ok:
  assumes ok: "kernel_ok a" and boot: "\<not> k_started a" and slot: "unat (k_task_count a) < 8"
    and f: "\<And>T. t_id (f T) = t_id T" "\<And>T. t_entry (f T) \<noteq> 0" "\<And>T. t_state (f T) = OS_TASK_READY"
      "\<And>T. prio_ok (f T)" "\<And>T. wait_ok (f T)" "\<And>T. t_delay_list (f T) = None"
  shows "kernel_ok (add_task f m a)"
proof -
  define t where "t = unat (k_task_count a)"
  define c where "c = (upd_task t f (a\<lparr>k_memory := m\<rparr>))\<lparr>k_task_count := k_task_count a + 1\<rparr>"
  have kinv: "kinv {} (a\<lparr>k_memory := m\<rparr>)" using ok by (simp add: kernel_ok_def)
  have free: "t_state (k_tasks a t) = OS_TASK_UNUSED" "sp_place (k_heap a) (SchedNode t) = None"
    "sp_place (k_heap a) (DelayNode t) = None"
    using unused_slot [OF kinv, of t] by (simp_all add: t_def)
  have "kinv {t} c"
    unfolding c_def using kinv_new_task [OF kinv, of t f] slot f by (simp add: t_def)
  then have "kinv {} (ready_put t c)"
    using slot free f by (intro kinv_ready_put) (auto simp: c_def t_def)
  moreover have "k_current a = None" using ok boot by (simp add: kernel_ok_def boot_ok_def)
  then have "current_ok (ready_put t c)"
    using ok free f by (auto simp: c_def kernel_ok_def current_ok_def)
  moreover have "time_ok True (ready_put t c)" "objects_ok (ready_put t c)" "boot_ok (ready_put t c)"
    using ok free f by (auto simp: kernel_ok_def time_ok_def objects_ok_def boot_ok_def c_def)
  ultimately show ?thesis by (simp add: kernel_ok_def add_task_def c_def t_def)
qed

text \<open>When the arguments pass the checks, the next free slot becomes a ready task.\<close>

lemma TaskCreateInternal_adds:
  assumes ok: "kernel_ok a" and boot: "k_initialized a" "\<not> k_started a"
    and args: "entry \<noteq> 0" "stack \<noteq> 0" "OS_MIN_STACK_BYTES \<le> sz"
      "0 < os_TaskNameLength (Some cs)" "os_TaskNameLength (Some cs) < OS_TASK_NAME_MAX"
      "prio < OS_PRIORITY_COUNT" "idle \<or> OS_IDLE_PRIORITY < prio"
    and slot: "unat (k_task_count a) < OS_MAX_TASKS"
    and hal: "hal_stack_init hal entry arg stack sz (k_memory a) = (sp, m)" "sp \<noteq> 0"
  shows "spec_TaskCreateInternal hal (Some cs) entry arg prio stack sz idle a =
    Some ((OS_STATUS_OK, Some (unat (k_task_count a))),
      add_task (new_task (take (os_TaskNameLength (Some cs)) cs) entry arg sp prio stack sz) m a)"
proof -
  define t where "t = unat (k_task_count a)"
  have kinv: "kinv {} (a\<lparr>k_memory := m\<rparr>)" using ok by (simp add: kernel_ok_def)
  have free: "t_state (k_tasks a t) = OS_TASK_UNUSED" "sp_place (k_heap a) (SchedNode t) = None"
    "sp_place (k_heap a) (DelayNode t) = None"
    using unused_slot [OF kinv, of t] by (simp_all add: t_def)
  have "spec_ReadyEnqueue (Some t) (upd_task t (new_task nm entry arg sp prio stack sz) (a\<lparr>k_memory := m\<rparr>))
      = Some (ready_put t (upd_task t (new_task nm entry arg sp prio stack sz) (a\<lparr>k_memory := m\<rparr>)))" for nm
    using free slot args(6)
    by (auto simp: spec_ReadyEnqueue_def list_ops_eq ready_put_def Let_def nput_def t_def new_task_def)
  moreover have "(ready_put t b)\<lparr>k_task_count := n\<rparr> = ready_put t (b\<lparr>k_task_count := n\<rparr>)" for b :: "'a spec_kernel" and n
    by (simp add: ready_put_def nput_def Let_def)
  ultimately show ?thesis
    using assms free
    by (auto simp: spec_TaskCreateInternal_def Let_def t_def [symmetric] add_task_def not_le)
qed

lemma new_task_strict:
  assumes "kernel_ok a" "\<not> k_started a" "unat (k_task_count a) < 8" "entry \<noteq> 0" "prio < 8"
  shows "kernel_ok (add_task (new_task nm entry arg sp prio stack sz) m a) \<and>
    (strict a \<longrightarrow> strict (add_task (new_task nm entry arg sp prio stack sz) m a))"
proof
  show ok: "kernel_ok (add_task (new_task nm entry arg sp prio stack sz) m a)"
    using assms by (intro add_task_ok) (simp_all add: new_task_def prio_ok_def wait_ok_def)
  show "strict a \<longrightarrow> strict (add_task (new_task nm entry arg sp prio stack sz) m a)"
    using assms ok by (auto intro!: boot_strictI [of a] simp: add_task_sel new_task_def)
qed

lemma TaskCreateInternal_ok:
  assumes ok: "kernel_ok a"
  shows "returns (spec_TaskCreateInternal hal name entry arg prio stack sz idle a)
    (\<lambda>(r, b). kernel_ok b \<and> (strict a \<longrightarrow> strict b))"
proof (cases "\<exists>cs. name = Some cs \<and> fst (hal_stack_init hal entry arg stack sz (k_memory a)) \<noteq> 0 \<and>
    k_initialized a \<and> \<not> k_started a \<and> entry \<noteq> 0 \<and> stack \<noteq> 0 \<and> OS_MIN_STACK_BYTES \<le> sz \<and>
    0 < os_TaskNameLength name \<and> os_TaskNameLength name < OS_TASK_NAME_MAX \<and>
    prio < OS_PRIORITY_COUNT \<and> (idle \<or> OS_IDLE_PRIORITY < prio) \<and> unat (k_task_count a) < OS_MAX_TASKS")
  case False
  then show ?thesis
    using ok by (auto simp: spec_TaskCreateInternal_def Let_def not_le not_less split: option.split prod.split)
next
  case True
  then obtain cs where cs: "name = Some cs" by blast
  obtain sp m where hal: "hal_stack_init hal entry arg stack sz (k_memory a) = (sp, m)" by fastforce
  have "spec_TaskCreateInternal hal name entry arg prio stack sz idle a =
    Some ((OS_STATUS_OK, Some (unat (k_task_count a))),
      add_task (new_task (take (os_TaskNameLength name) cs) entry arg sp prio stack sz) m a)"
    using True hal unfolding cs by (intro TaskCreateInternal_adds ok) auto
  moreover have "entry \<noteq> 0" "prio < 8" "unat (k_task_count a) < 8" "\<not> k_started a" using True by auto
  ultimately show ?thesis using new_task_strict [OF ok] by simp
qed

subsection \<open>Starting the scheduler\<close>

lemma Start_view:
  assumes ok: "kernel_ok a" and run: "spec_SchedStart a = Some (n, b)"
  shows "same_view a b"
proof -
  have started: "snd (os_CommitSwitch None m r (c\<lparr>k_started := True\<rparr>)) = (snd (os_CommitSwitch None m r c))\<lparr>k_started := True\<rparr>"
    for m r and c :: "'a spec_kernel"
    by (cases m) (simp_all add: os_CommitSwitch_def Let_def upd_task_def)
  have frame: "same_view a (snd (os_CommitSwitch None m r (c\<lparr>k_started := True\<rparr>)))"
    if "same_view a (snd (os_CommitSwitch None m r c))" for m r and c :: "'a spec_kernel"
    using that unfolding started same_view_def views_def waiters_def by (simp add: fun_eq_iff cong: if_cong)
  have kinv: "kinv {} a" using ok by (simp add: kernel_ok_def)
  from run consider "b = a" | c where "spec_ReadyPopHighest a = Some (None, c)" "b = c"
    | c m where "spec_ReadyPopHighest a = Some (m, c)"
        "b = snd (os_CommitSwitch None m OS_SWITCH_START (c\<lparr>k_started := True\<rparr>))"
    by (fastforce simp: spec_SchedStart_def split: if_splits Option.bind_splits dest: arg_cong [of _ _ snd])
  then show ?thesis
  proof cases
    case 2
    have "b = a" using kinv by (cases rule: ReadyPopHighest_cases) (use 2 in auto)
    then show ?thesis by simp
  qed (use frame [OF pop_commit_view(1) [OF kinv]] in auto)
qed

lemma SchedStart_strict:
  assumes ok: "kernel_ok a"
  shows "returns (spec_SchedStart a) (\<lambda>(n, b). kernel_ok b \<and> (strict a \<longrightarrow> strict b))"
proof -
  from returnsD [OF SchedStart_ok [OF ok]] obtain n b where run: "spec_SchedStart a = Some (n, b)"
    and b: "kernel_ok b" "b = a \<or> \<not> k_started a \<and> dispatched (a\<lparr>k_started := True\<rparr>) b" by auto
  have "strict b" if "strict a" "\<not> k_started a" "dispatched (a\<lparr>k_started := True\<rparr>) b"
  proof -
    have "mview b = mview a" using Start_view [OF ok run] by (intro views_mview) (simp add: same_view_def)
    moreover have "k_mutexes b = k_mutexes a" "k_critical_nesting b = k_critical_nesting a" "top_running b"
      using that(3) by (simp_all add: dispatched_def same_objects_def)
    ultimately show ?thesis using that(1) b(1) inherit_ok_same [of b a] by (simp add: strict_def)
  qed
  then show ?thesis using run b by auto
qed

subsection \<open>Creating kernel objects\<close>

lemma find_free: "find P [0..<n] = Some i \<Longrightarrow> i < n \<and> P i"
  by (auto simp: find_Some_iff)

lemma SemaphoreCreateCounting_ok:
  assumes ok: "kernel_ok a"
  shows "returns (spec_SemaphoreCreateCounting m n a) (\<lambda>(r, b). kernel_ok b \<and> (strict a \<longrightarrow> strict b))"
  using ok boot_no_waiters [OF ok]
  by (auto simp: spec_SemaphoreCreateCounting_def os_SetLastError_def sem_ok_def split: option.split
      intro!: upd_sem_kernel_ok elim!: boot_strict_same) (simp_all add: upd_sem_def)

lemma QueueCreate_ok:
  assumes ok: "kernel_ok a" and storage: "unat b + unat z * unat n \<le> 2 ^ 32"
  shows "returns (spec_QueueCreate n z b a) (\<lambda>(r, b). kernel_ok b \<and> (strict a \<longrightarrow> strict b))"
proof -
  have "kernel_ok (upd_queue i (\<lambda>Q. \<lparr>q_used = True, q_buffer = b, q_item_size = z, q_capacity = n,
      q_head = 0, q_tail = 0, q_count = 0\<rparr>) a)" if "b \<noteq> 0" "z \<noteq> 0" "n \<noteq> 0" for i
    using that storage by (intro upd_queue_frame(2) [OF _ ok]) (auto simp: queue_ok_def queue_valid_def word_neq_0_conv)
  then show ?thesis
    using ok boot_no_waiters [OF ok]
    by (auto simp: spec_QueueCreate_def os_SetLastError_def split: option.split elim!: boot_strict_same)
      (simp_all add: upd_queue_def)
qed

lemma MutexCreate_ok:
  assumes ok: "kernel_ok a"
  shows "returns (spec_MutexCreate a) (\<lambda>(r, b). kernel_ok b \<and> (strict a \<longrightarrow> strict b))"
proof -
  have "kernel_ok (upd_mutex i (\<lambda>M. M\<lparr>m_used := True, m_owner := None\<rparr>) a)"
    if i: "i < 4" "\<not> m_used (k_mutexes a i)" and boot: "\<not> k_started a" for i
  proof -
    let ?b = "upd_mutex i (\<lambda>M. M\<lparr>m_used := True, m_owner := None\<rparr>) a"
    have kinv: "kinv {} a" using ok by (simp add: kernel_ok_def)
    have "mutex_ok ?b"
      using kinv_mutex [OF kinv] i boot_no_waiters [OF ok boot] unfolding mutex_ok_def
      by (auto simp: upd_mutex_def)
    then have "kinv {} ?b"
      using kinv
      by (simp add: kinv_def px_ok_def bits_ok_def sorted_ok_def base_ok_def place_ok_def prio_of_def wake_of_def)
        (simp add: upd_mutex_def)
    then show ?thesis
      using ok by (simp add: kernel_ok_def) (simp add: upd_mutex_def time_ok_def objects_ok_def boot_ok_def)
  qed
  then show ?thesis
    using ok boot_no_waiters [OF ok]
    by (auto simp: spec_MutexCreate_def os_SetLastError_def dest!: find_free split: option.split
        simp del: upt.simps elim!: boot_strict_same)
qed

end
