(* ===== verification/Kernel_Validate.thy ===== *)
theory Kernel_Validate
  imports Kernel_Boot
begin

section \<open>The kernel's own check accepts every state in order\<close>

text \<open>
  \<open>os_KernelValidate\<close> walks the lists through their pointers. In a state whose heap
  represents the lists of a specification state that satisfies \<open>kernel_ok\<close>, every walk
  finds what it expects and the check returns true.
\<close>

lemma sched_list_length:
  assumes qwf: "qwf H" and l: "is_wait l \<or> (\<exists>p. l = ReadyList p)"
  shows "length (sp_nodes H l) \<le> 8"
proof -
  have "set (sp_nodes H l) \<subseteq> SchedNode ` {..<8}" using qwf_wait_nodes [OF qwf _ l] by fastforce
  from card_mono [OF _ this] have "card (set (sp_nodes H l)) \<le> 8" by (simp add: card_image inj_on_def)
  then show ?thesis using distinct_card [OF qwf_distinct [OF qwf, of l]] by simp
qed

lemma delay_list_length:
  assumes qwf: "qwf H"
  shows "length (sp_nodes H (DelayedList i)) \<le> 8"
proof -
  have "set (sp_nodes H (DelayedList i)) \<subseteq> DelayNode ` {..<8}" using qwf_delay_nodes [OF qwf] by fastforce
  from card_mono [OF _ this] have "card (set (sp_nodes H (DelayedList i))) \<le> 8"
    by (simp add: card_image inj_on_def)
  then show ?thesis using distinct_card [OF qwf_distinct [OF qwf, of "DelayedList i"]] by simp
qed

definition mark :: "(nat \<Rightarrow> bool) \<Rightarrow> membership \<Rightarrow> membership" where
  "mark P r = (\<lambda>i. r i + (if P i then 1 else 0))"

lemma mark_None [simp]: "mark (\<lambda>_. False) r = r"
  by (simp add: mark_def)

subsection \<open>The walks\<close>

lemma ready_walk:
  assumes rep: "list_rep h (k_heap a)" and kinv: "kinv {} a"
    and "sp_nodes (k_heap a) (ReadyList p) = xs @ ys"
  shows "validate_ready_walk (conc h a) p (first_or ys None) (last_or None xs) (length xs) r =
    Some (last_or None (xs @ ys), length (xs @ ys), mark (\<lambda>i. SchedNode i \<in> set ys) r)"
  using assms(3)
proof (induction ys arbitrary: xs r)
  case Nil
  then show ?case by (simp add: validate_ready_walk.simps)
next
  case (Cons y ys)
  have y_in: "y \<in> set (sp_nodes (k_heap a) (ReadyList p))" using Cons.prems by simp
  obtain t where t: "y = SchedNode t"
    using qwf_wait_nodes [OF kinv_qwf [OF kinv] y_in] by auto
  note mem = ready_member [OF kinv y_in [unfolded t]]
  have id: "unat (t_id (k_tasks a t)) = t" using kinv_base [OF kinv, of t] mem by (simp add: base_ok_def)
  have len: "length xs < 8"
    using sched_list_length [OF kinv_qwf [OF kinv], of "ReadyList p"] Cons.prems by simp
  have ptrs: "n_previous (h_nodes h y) = last_or None xs" "n_next (h_nodes h y) = first_or ys None"
    using rep_split_pointers [OF rep Cons.prems] .
  have linked: "n_linked (h_nodes h y)" using rep_linked [OF rep] mem t by simp
  have owner: "n_owner (h_nodes h y) = Some t" using rep_owner [OF rep, of y] mem t by simp
  have new: "y \<notin> set ys" using qwf_distinct [OF kinv_qwf [OF kinv], of "ReadyList p"] Cons.prems by simp
  have step: "validate_ready_walk (conc h a) p (first_or ys None) (last_or None (xs @ [y])) (length (xs @ [y]))
      (r(t := r t + 1)) = Some (last_or None ((xs @ [y]) @ ys), length ((xs @ [y]) @ ys),
        mark (\<lambda>i. SchedNode i \<in> set ys) (r(t := r t + 1)))"
    using Cons.prems by (intro Cons.IH) simp
  have "mark (\<lambda>i. SchedNode i \<in> set ys) (r(t := r t + 1)) = mark (\<lambda>i. SchedNode i \<in> set (y # ys)) r"
    using new by (auto simp: mark_def t fun_eq_iff)
  then show ?case
    using step mem id len ptrs linked owner
    by (simp add: validate_ready_walk.simps [of _ p "Some y"] Let_def)
qed

lemma delay_walk:
  assumes rep: "list_rep h (k_heap a)" and kinv: "kinv {} a"
    and "sp_nodes (k_heap a) (DelayedList d) = xs @ ys"
    and "\<And>w y. lt = Some w \<Longrightarrow> y \<in> set ys \<Longrightarrow> w \<le> wake_of a y"
  shows "validate_delay_walk (conc h a) (DelayedList d) (first_or ys None) (last_or None xs) (length xs) lt r =
    Some (last_or None (xs @ ys), length (xs @ ys), mark (\<lambda>i. DelayNode i \<in> set ys) r)"
  using assms(3,4)
proof (induction ys arbitrary: xs r lt)
  case Nil
  then show ?case by (simp add: validate_delay_walk.simps)
next
  case (Cons y ys)
  have y_in: "y \<in> set (sp_nodes (k_heap a) (DelayedList d))" using Cons.prems by simp
  obtain t where t: "y = DelayNode t" "t < 8"
    using qwf_delay_nodes [OF kinv_qwf [OF kinv] y_in] by auto
  have at: "sp_place (k_heap a) (DelayNode t) = Some (DelayedList d)"
    using y_in t qwf_mem [OF kinv_qwf [OF kinv]] by simp
  have "delay_place (k_tasks a t) = Some (DelayedList d)"
    using kinv_place [OF kinv, of t] at by (simp add: place_ok_def)
  then have st: "t_state (k_tasks a t) = OS_TASK_BLOCKED_DELAY \<or> t_state (k_tasks a t) = OS_TASK_BLOCKED_OBJECT"
    "t_delay_list (k_tasks a t) = Some (DelayedList d)"
    by (simp_all add: delay_place_def split: if_splits)
  have id: "unat (t_id (k_tasks a t)) = t" using kinv_base [OF kinv, of t] t by (simp add: base_ok_def)
  have len: "length xs < 8"
    using delay_list_length [OF kinv_qwf [OF kinv], of d] Cons.prems by simp
  have ptrs: "n_previous (h_nodes h y) = last_or None xs" "n_next (h_nodes h y) = first_or ys None"
    using rep_split_pointers [OF rep Cons.prems(1)] .
  have linked: "n_linked (h_nodes h y)" using rep_linked [OF rep] at t by simp
  have owner: "n_owner (h_nodes h y) = Some t" using rep_owner [OF rep, of y] t by simp
  have new: "y \<notin> set ys" using qwf_distinct [OF kinv_qwf [OF kinv], of "DelayedList d"] Cons.prems by simp
  have sorted: "sorted_wrt (\<lambda>m n. wake_of a m \<le> wake_of a n) (xs @ y # ys)"
    using kinv_sorted [OF kinv] Cons.prems(1) by (metis sorted_ok_def)
  have step: "validate_delay_walk (conc h a) (DelayedList d) (first_or ys None) (last_or None (xs @ [y]))
      (length (xs @ [y])) (Some (t_wake_tick (k_tasks a t)))
      (r(t := r t + 1)) = Some (last_or None ((xs @ [y]) @ ys), length ((xs @ [y]) @ ys),
        mark (\<lambda>i. DelayNode i \<in> set ys) (r(t := r t + 1)))"
    using Cons.prems(1) sorted
    by (intro Cons.IH) (auto simp: sorted_wrt_append t wake_of_def)
  have "mark (\<lambda>i. DelayNode i \<in> set ys) (r(t := r t + 1)) = mark (\<lambda>i. DelayNode i \<in> set (y # ys)) r"
    using new by (auto simp: mark_def t fun_eq_iff)
  moreover have "\<not> t_wake_tick (k_tasks a t) < w" if "lt = Some w" for w
    using Cons.prems(2) [OF that, of y] by (simp add: wake_of_def t linorder_not_less)
  ultimately show ?case
    using step st id len ptrs linked owner t(2)
    by (auto simp: validate_delay_walk.simps [of _ "DelayedList d" "Some y"] Let_def split: option.split)
qed

subsection \<open>All ready queues, both delay lists\<close>

lemma ready_list:
  assumes rep: "list_rep h (k_heap a)" and kinv: "kinv {} a"
  shows "validate_ready_list (conc h a) p (r, b) =
    Some (mark (\<lambda>i. sp_place (k_heap a) (SchedNode i) = Some (ReadyList (of_nat p))) r,
      if sp_nodes (k_heap a) (ReadyList (of_nat p)) \<noteq> [] then b OR os_PriorityMask (of_nat p) else b)"
  using ready_walk [OF rep kinv, of "of_nat p" "[]" "sp_nodes (k_heap a) (ReadyList (of_nat p))" r]
  by (simp add: validate_ready_list_def Let_def rep_head [OF rep] rep_tail [OF rep] rep_size [OF rep]
      qwf_mem [OF kinv_qwf [OF kinv]])

lemma delay_list:
  assumes rep: "list_rep h (k_heap a)" and kinv: "kinv {} a"
  shows "validate_delay_list (conc h a) d r =
    Some (mark (\<lambda>i. sp_place (k_heap a) (DelayNode i) = Some (DelayedList d)) r)"
  using delay_walk [OF rep kinv, of d "[]" "sp_nodes (k_heap a) (DelayedList d)" None r]
  by (simp add: validate_delay_list_def Let_def rep_head [OF rep] rep_tail [OF rep] rep_size [OF rep]
      qwf_mem [OF kinv_qwf [OF kinv]])

lemma ready_lists:
  assumes rep: "list_rep h (k_heap a)" and kinv: "kinv {} a"
  shows "n \<le> 8 \<Longrightarrow> \<exists>b. foldM (validate_ready_list (conc h a)) [0..<n] (\<lambda>_. 0, 0) =
    Some (\<lambda>i. if \<exists>p<n. sp_place (k_heap a) (SchedNode i) = Some (ReadyList (of_nat p)) then 1 else 0, b) \<and>
    (\<forall>p<8. bit b p \<longleftrightarrow> p < n \<and> sp_nodes (k_heap a) (ReadyList (of_nat p)) \<noteq> [])"
proof (induction n)
  case (Suc n)
  then obtain b where b: "foldM (validate_ready_list (conc h a)) [0..<n] (\<lambda>_. 0, 0) =
      Some (\<lambda>i. if \<exists>p<n. sp_place (k_heap a) (SchedNode i) = Some (ReadyList (of_nat p)) then 1 else 0, b)"
    "\<And>p. p < 8 \<Longrightarrow> bit b p \<longleftrightarrow> p < n \<and> sp_nodes (k_heap a) (ReadyList (of_nat p)) \<noteq> []"
    by auto
  have n8: "n < 8" "unat (of_nat n :: u8) = n" "(of_nat n :: u8) < 8"
    using Suc.prems by (auto simp: unat_of_nat word_less_nat_alt)
  have inj: "(of_nat p :: u8) \<noteq> of_nat n" if "p < n" for p
  proof
    assume "(of_nat p :: u8) = of_nat n"
    then have "unat (of_nat p :: u8) = n" using n8 by simp
    then show False using that n8(1) by (simp add: unat_of_nat)
  qed
  have "mark (\<lambda>i. sp_place (k_heap a) (SchedNode i) = Some (ReadyList (of_nat n)))
      (\<lambda>i. if \<exists>p<n. sp_place (k_heap a) (SchedNode i) = Some (ReadyList (of_nat p)) then 1 else 0) =
    (\<lambda>i. if \<exists>p<Suc n. sp_place (k_heap a) (SchedNode i) = Some (ReadyList (of_nat p)) then 1 else 0)"
    using inj by (auto simp: mark_def fun_eq_iff less_Suc_eq)
  moreover have "bit (if sp_nodes (k_heap a) (ReadyList (of_nat n)) \<noteq> [] then b OR os_PriorityMask (of_nat n) else b) p
      \<longleftrightarrow> p < Suc n \<and> sp_nodes (k_heap a) (ReadyList (of_nat p)) \<noteq> []" if "p < 8" for p
    using b(2) [OF that] bit_mask_iff [OF n8(3) that] n8(2) by (auto simp: bit_or_iff less_Suc_eq)
  ultimately show ?case
    using b(1) by (simp add: foldM_append ready_list [OF rep kinv])
qed simp

lemma ready_lists_all:
  assumes rep: "list_rep h (k_heap a)" and kinv: "kinv {} a"
  shows "foldM (validate_ready_list (conc h a)) [0..<unat OS_PRIORITY_COUNT] (\<lambda>_. 0, 0) =
    Some (\<lambda>i. if t_state (k_tasks a i) = OS_TASK_READY then 1 else 0, k_ready_bitmap a)"
proof -
  from ready_lists [OF rep kinv, of 8] obtain b where
    b: "foldM (validate_ready_list (conc h a)) [0..<8] (\<lambda>_. 0, 0) =
      Some (\<lambda>i. if \<exists>p<8. sp_place (k_heap a) (SchedNode i) = Some (ReadyList (of_nat p)) then 1 else 0, b)"
    "\<And>p. p < 8 \<Longrightarrow> bit b p \<longleftrightarrow> sp_nodes (k_heap a) (ReadyList (of_nat p)) \<noteq> []"
    by auto
  have "b = k_ready_bitmap a"
  proof (rule bit_word_eqI)
    fix n assume n: "n < LENGTH(8)"
    then have "unat (of_nat n :: u8) = n" "(of_nat n :: u8) < 8"
      by (auto simp: unat_of_nat word_less_nat_alt)
    then have "bit (k_ready_bitmap a) n \<longleftrightarrow> sp_nodes (k_heap a) (ReadyList (of_nat n)) \<noteq> []"
      using kinv_bits [OF kinv] by (metis bits_ok_def)
    then show "bit b n = bit (k_ready_bitmap a) n" using b(2) [of n] n by simp
  qed
  moreover have "(\<exists>p<8. sp_place (k_heap a) (SchedNode i) = Some (ReadyList (of_nat p))) \<longleftrightarrow>
      t_state (k_tasks a i) = OS_TASK_READY" for i
  proof
    assume "\<exists>p<8. sp_place (k_heap a) (SchedNode i) = Some (ReadyList (of_nat p))"
    then obtain p where "sp_place (k_heap a) (SchedNode i) = Some (ReadyList (of_nat p))" by blast
    then have "SchedNode i \<in> set (sp_nodes (k_heap a) (ReadyList (of_nat p)))"
      using qwf_mem [OF kinv_qwf [OF kinv]] by simp
    from ready_member [OF kinv this] show "t_state (k_tasks a i) = OS_TASK_READY" by simp
  next
    assume "t_state (k_tasks a i) = OS_TASK_READY"
    from ready_tasks [OF kinv this] qwf_mem [OF kinv_qwf [OF kinv]] ready_member [OF kinv]
    have "sp_place (k_heap a) (SchedNode i) = Some (ReadyList (t_effective_priority (k_tasks a i)))"
      "t_effective_priority (k_tasks a i) < 8" by blast+
    then show "\<exists>p<8. sp_place (k_heap a) (SchedNode i) = Some (ReadyList (of_nat p))"
      by (intro exI [of _ "unat (t_effective_priority (k_tasks a i))"]) (simp add: word_less_nat_alt)
  qed
  ultimately show ?thesis using b(1) by simp
qed

lemma delay_lists_all:
  assumes rep: "list_rep h (k_heap a)" and kinv: "kinv {} a"
  shows "foldM (validate_delay_list (conc h a)) [0..<2] (\<lambda>_. 0) =
    Some (\<lambda>i. if delay_place (k_tasks a i) \<noteq> None then 1 else 0)"
proof -
  have two: "[0..<2] = [0, Suc 0]" by (simp add: numeral_2_eq_2)
  have "mark (\<lambda>i. sp_place (k_heap a) (DelayNode i) = Some (DelayedList (Suc 0)))
     (mark (\<lambda>i. sp_place (k_heap a) (DelayNode i) = Some (DelayedList 0)) (\<lambda>_. 0)) =
    (\<lambda>i. if delay_place (k_tasks a i) \<noteq> None then 1 else 0)"
  proof
    fix i
    have "sp_place (k_heap a) (DelayNode i) = delay_place (k_tasks a i)"
      using kinv_place [OF kinv, of i] by (simp add: place_ok_def)
    then show "mark (\<lambda>i. sp_place (k_heap a) (DelayNode i) = Some (DelayedList (Suc 0)))
       (mark (\<lambda>i. sp_place (k_heap a) (DelayNode i) = Some (DelayedList 0)) (\<lambda>_. 0)) i =
      (if delay_place (k_tasks a i) \<noteq> None then 1 else 0)"
      using qwf_delay [OF kinv_qwf [OF kinv], of i] by (cases "delay_place (k_tasks a i)") (auto simp: mark_def)
  qed
  then show ?thesis by (simp add: two delay_list [OF rep kinv])
qed


subsection \<open>Every TCB\<close>

lemma valid_priorities:
  assumes kinv: "kinv {} a"
  shows "validate_priorities (conc h a) t"
  using kinv_base [OF kinv, of t]
  by (auto simp: validate_priorities_def os_TaskIsIdle_def Let_def base_ok_def prio_ok_def word_neq_0_conv
      linorder_not_le linorder_not_less split: if_splits)

lemma valid_state:
  assumes rep: "list_rep h (k_heap a)" and ok: "kernel_ok a" and used: "t_state (k_tasks a t) \<noteq> OS_TASK_UNUSED"
    and ready: "ready = (\<lambda>i. if t_state (k_tasks a i) = OS_TASK_READY then 1 else 0)"
    and delay: "delay = (\<lambda>i. if delay_place (k_tasks a i) \<noteq> None then 1 else 0)"
  shows "validate_state (conc h a) ready delay t"
proof -
  have kinv: "kinv {} a" and current: "current_ok a" using ok by (simp_all add: kernel_ok_def)
  have place: "place_ok a t" and wait: "wait_ok (k_tasks a t)"
    using kinv_place [OF kinv] kinv_wait [OF kinv] by auto
  have sched_linked: "n_linked (h_nodes h (SchedNode t)) \<longleftrightarrow> sched_place (k_tasks a t) \<noteq> None"
    and delay_linked: "n_linked (h_nodes h (DelayNode t)) \<longleftrightarrow> delay_place (k_tasks a t) \<noteq> None"
    using place rep_linked [OF rep] by (simp_all add: place_ok_def)
  show ?thesis
  proof (cases "t_state (k_tasks a t) = OS_TASK_BLOCKED_OBJECT")
    case False
    have "t_state (k_tasks a t) = OS_TASK_RUNNING \<Longrightarrow> k_current a = Some t"
      using current by (simp add: current_ok_def)
    then show ?thesis
      using used wait False sched_linked delay_linked
      by (cases "t_state (k_tasks a t)")
        (simp_all add: validate_state_def Let_def ready delay wait_ok_def sched_place_def delay_place_def)
  next
    case True
    have wm: "wait_matches (t_wait_kind (k_tasks a t)) (t_wait_list (k_tasks a t)) (t_wait_object (k_tasks a t))
        (t_wait_buffer (k_tasks a t)) (t_base_priority (k_tasks a t))"
      using wait True by (simp add: wait_ok_def waits_on_def)
    then obtain l where l: "t_wait_list (k_tasks a t) = Some l" "is_wait l" "t_wait_kind (k_tasks a t) \<noteq> OS_WAIT_NONE"
      by (elim wait_matches.elims) auto
    have "sp_place (k_heap a) (SchedNode t) = Some l"
      using place True l by (simp add: place_ok_def sched_place_def)
    then have "SchedNode t \<in> set (sp_nodes (k_heap a) l)" using qwf_mem [OF kinv_qwf [OF kinv]] by simp
    moreover have "length (sp_nodes (k_heap a) l) \<le> OS_MAX_TASKS + 1"
      using sched_list_length [OF kinv_qwf [OF kinv], of l] l(2) by simp
    ultimately have "os_ListContains (Some l) (Some (SchedNode t)) h"
      using os_list.contains_law [OF rep] by blast
    then show ?thesis
      using True l wait sched_linked delay_linked
      by (auto simp: validate_state_def Let_def ready delay wait_ok_def sched_place_def delay_place_def
          simp del: OS_WAIT_FOREVER_def split: if_splits)
  qed
qed

lemma valid_task:
  assumes rep: "list_rep h (k_heap a)" and ok: "kernel_ok a" and t: "t < 8"
    and ready: "ready = (\<lambda>i. if t_state (k_tasks a i) = OS_TASK_READY then 1 else 0)"
    and delay: "delay = (\<lambda>i. if delay_place (k_tasks a i) \<noteq> None then 1 else 0)"
  shows "validate_task (conc h a) ready delay t (u, r) =
    Some (if t < unat (k_task_count a) then u + 1 else u, if k_current a = Some t then r + 1 else r)"
proof -
  have kinv: "kinv {} a" and current: "current_ok a" using ok by (simp_all add: kernel_ok_def)
  have base: "base_ok a t" by (rule kinv_base [OF kinv])
  have owner: "n_owner (h_nodes h (SchedNode t)) = Some t" "n_owner (h_nodes h (DelayNode t)) = Some t"
    using rep_owner [OF rep, of "SchedNode t"] rep_owner [OF rep, of "DelayNode t"] t by simp_all
  have running: "t_state (k_tasks a t) = OS_TASK_RUNNING \<longleftrightarrow> k_current a = Some t"
    using current by (simp add: current_ok_def)
  show ?thesis
  proof (cases "t_state (k_tasks a t) = OS_TASK_UNUSED")
    case True
    have "sp_place (k_heap a) (SchedNode t) = None" "sp_place (k_heap a) (DelayNode t) = None"
      using kinv_place [OF kinv, of t] True by (simp_all add: place_ok_def sched_place_def delay_place_def)
    then show ?thesis
      using True base owner t running rep_linked [OF rep]
      by (auto simp: validate_task_def base_ok_def ready delay delay_place_def)
  next
    case False
    then show ?thesis
      using base owner t running valid_priorities [OF kinv, of h t] valid_state [OF rep ok False ready delay]
      by (simp add: validate_task_def base_ok_def)
  qed
qed

lemma valid_tasks:
  assumes rep: "list_rep h (k_heap a)" and ok: "kernel_ok a"
    and ready: "ready = (\<lambda>i. if t_state (k_tasks a i) = OS_TASK_READY then 1 else 0)"
    and delay: "delay = (\<lambda>i. if delay_place (k_tasks a i) \<noteq> None then 1 else 0)"
  shows "n \<le> 8 \<Longrightarrow> foldM (validate_task (conc h a) ready delay) [0..<n] (0, 0) =
    Some (min n (unat (k_task_count a)), if \<exists>c<n. k_current a = Some c then 1 else 0)"
proof (induction n)
  case (Suc n)
  have "validate_task (conc h a) ready delay n (min n (unat (k_task_count a)), if \<exists>c<n. k_current a = Some c then 1 else 0)
     = Some (min (Suc n) (unat (k_task_count a)), if \<exists>c<Suc n. k_current a = Some c then 1 else 0)"
    using Suc.prems by (subst valid_task [OF rep ok _ ready delay]) (auto simp: less_Suc_eq)
  then show ?case using Suc by (simp add: foldM_append)
qed simp

theorem kernel_ok_valid:
  assumes rep: "list_rep h (k_heap a)" and ok: "kernel_ok a"
  shows "os_KernelValidate (conc h a)"
proof -
  have kinv: "kinv {} a" and current: "current_ok a" using ok by (simp_all add: kernel_ok_def)
  have "k_px_delayed a \<noteq> None" "k_px_overflow_delayed a \<noteq> None" "k_px_delayed a \<noteq> k_px_overflow_delayed a"
    using kinv_px [OF kinv] by (auto simp: px_ok_def)
  then have "validate_kernel (conc h a) = Some (min 8 (unat (k_task_count a)), if \<exists>c<8. k_current a = Some c then 1 else 0)"
    using ready_lists_all [OF rep kinv] delay_lists_all [OF rep kinv] valid_tasks [OF rep ok refl refl, of 8]
      kinv_initialized [OF kinv] kinv_count [OF kinv]
    by (simp add: validate_kernel_def)
  then show ?thesis
    using kinv_count [OF kinv] current
    by (auto simp: os_KernelValidate_def current_ok_def split: option.split)
qed

end
