(* ===== verification/Kernel_Frame.thy ===== *)
theory Kernel_Frame
  imports Kernel_Validate
begin

section \<open>What no kernel operation touches\<close>

text \<open>
  The requests and the tick run without the port: they leave its state alone, create no tasks,
  and change neither base priorities nor, but for the tick itself, the time. A port that calls
  them keeps its own bookkeeping.
\<close>

definition frame :: "('h, 'p) os_kernel_t \<Rightarrow> 'p \<times> u32 \<times> bool \<times> u32 \<times> (nat \<Rightarrow> u8)" where
  "frame a = (k_port a, k_task_count a, k_started a, k_tick a, (\<lambda>t. t_base_priority (k_tasks a t)))"

text \<open>A result, if there is one, has the given frame.\<close>

definition framed :: "'p \<times> u32 \<times> bool \<times> u32 \<times> (nat \<Rightarrow> u8) \<Rightarrow> ('h, 'p) os_kernel_t option \<Rightarrow> bool" where
  "framed F m \<longleftrightarrow> (\<forall>b. m = Some b \<longrightarrow> frame b = F)"

definition framed_value :: "'p \<times> u32 \<times> bool \<times> u32 \<times> (nat \<Rightarrow> u8) \<Rightarrow> ('r \<times> ('h, 'p) os_kernel_t) option \<Rightarrow> bool" where
  "framed_value F m \<longleftrightarrow> (\<forall>r b. m = Some (r, b) \<longrightarrow> frame b = F)"

named_theorems frame_intros

lemma frame_update [simp]:
  "frame (a\<lparr>k_heap := h\<rparr>) = frame a" "frame (a\<lparr>k_ready_bitmap := r\<rparr>) = frame a" "frame (a\<lparr>k_current := c\<rparr>) = frame a"
  "frame (a\<lparr>k_last_from := c\<rparr>) = frame a" "frame (a\<lparr>k_last_to := c\<rparr>) = frame a" "frame (a\<lparr>k_last_reason := x\<rparr>) = frame a"
  "frame (a\<lparr>k_switch_count := n\<rparr>) = frame a" "frame (a\<lparr>k_sched_pending := q\<rparr>) = frame a"
  "frame (a\<lparr>k_px_delayed := l\<rparr>) = frame a" "frame (a\<lparr>k_px_overflow_delayed := l\<rparr>) = frame a"
  "frame (a\<lparr>k_memory := m\<rparr>) = frame a"
  "frame (upd_sem i f a) = frame a" "frame (upd_queue i g a) = frame a" "frame (upd_mutex i j a) = frame a"
  by (simp_all add: frame_def upd_sem_def upd_queue_def upd_mutex_def)

lemma frame_upd_task: "t_base_priority (f (k_tasks a t)) = t_base_priority (k_tasks a t) \<Longrightarrow> frame (upd_task t f a) = frame a"
  by (auto simp: frame_def upd_task_def)

lemma frame_set [simp]:
  "frame (set_state t st a) = frame a" "frame (set_result t r a) = frame a"
  "frame (clear_if_empty p b) = frame b"
  by (simp_all add: set_state_def set_result_def frame_upd_task clear_if_empty_def)

lemma frame_commit [simp]: "os_CommitSwitch prev nxt r a = (n, b) \<Longrightarrow> frame b = frame a"
  by (auto simp: os_CommitSwitch_def Let_def frame_upd_task split: option.splits if_splits)

lemma framed_Some [simp, intro]: "frame b = F \<Longrightarrow> framed F (Some b)" "framed F None"
  by (simp_all add: framed_def)

lemma framed_value_Some [simp, intro]: "frame (snd p) = F \<Longrightarrow> framed_value F (Some p)" "framed_value F None"
  by (auto simp: framed_value_def)

lemma framed_bind [frame_intros]:
  "framed F m \<Longrightarrow> (\<And>b. frame b = F \<Longrightarrow> framed F' (f b)) \<Longrightarrow> framed F' (Option.bind m f)"
  "framed F m \<Longrightarrow> (\<And>b. frame b = F \<Longrightarrow> framed_value F' (g b)) \<Longrightarrow> framed_value F' (Option.bind m g)"
  by (cases m; simp add: framed_def)+

lemma framed_value_bind [frame_intros]:
  "framed_value F m \<Longrightarrow> (\<And>r b. frame b = F \<Longrightarrow> framed F' (f r b)) \<Longrightarrow> framed F' (Option.bind m (\<lambda>(r, b). f r b))"
  "framed_value F m \<Longrightarrow> (\<And>r b. frame b = F \<Longrightarrow> framed_value F' (g r b)) \<Longrightarrow>
    framed_value F' (Option.bind m (\<lambda>(r, b). g r b))"
  by (cases m; auto simp: framed_value_def)+

lemma framed_if [frame_intros]:
  "framed F m \<Longrightarrow> framed F m' \<Longrightarrow> framed F (if c then m else m')"
  "framed_value F v \<Longrightarrow> framed_value F v' \<Longrightarrow> framed_value F (if c then v else v')"
  by simp_all

lemma framed_option [frame_intros]:
  "framed F m \<Longrightarrow> (\<And>y. framed F (f y)) \<Longrightarrow> framed F (case x of None \<Rightarrow> m | Some y \<Rightarrow> f y)"
  "framed_value F v \<Longrightarrow> (\<And>y. framed_value F (g y)) \<Longrightarrow> framed_value F (case x of None \<Rightarrow> v | Some y \<Rightarrow> g y)"
  by (simp_all split: option.split)

lemma framed_heap [frame_intros]: "frame a = F \<Longrightarrow> framed F (on_heap f a)"
  by (auto simp: framed_def on_heap_def)

lemma framed_heap_value [frame_intros]:
  "frame a = F \<Longrightarrow> (\<And>r b. frame b = F \<Longrightarrow> framed F' (f r b)) \<Longrightarrow> framed F' (case on_heap_value g a of (r, b) \<Rightarrow> f r b)"
  "frame a = F \<Longrightarrow> (\<And>r b. frame b = F \<Longrightarrow> framed_value F' (f' r b)) \<Longrightarrow>
    framed_value F' (case on_heap_value g a of (r, b) \<Rightarrow> f' r b)"
  by (auto simp: on_heap_value_def split: prod.split)

lemma framed_foldM [frame_intros]:
  assumes "frame a = F" "\<And>x b. frame b = F \<Longrightarrow> framed F (f x b)"
  shows "framed F (foldM f xs a)"
  using assms(1) by (induction xs arbitrary: a) (auto intro!: framed_bind assms(2))

subsection \<open>Scheduling and waiting\<close>

lemma ReadyEnqueue_frame [frame_intros]: "frame a = F \<Longrightarrow> framed F (spec_ReadyEnqueue t a)"
  unfolding spec_ReadyEnqueue_def Let_def by (auto intro!: frame_intros)

lemma ReadyRemove_frame [frame_intros]: "frame a = F \<Longrightarrow> framed_value F (spec_ReadyRemove t a)"
  unfolding spec_ReadyRemove_def Let_def by (auto intro!: frame_intros)

lemma ReadyPopHighest_frame [frame_intros]: "frame a = F \<Longrightarrow> framed_value F (spec_ReadyPopHighest a)"
  unfolding spec_ReadyPopHighest_def Let_def by (auto intro!: frame_intros)

lemma Commit_frame [frame_intros]: "frame a = F \<Longrightarrow> framed_value F (Some (os_CommitSwitch p n r a))"
  by (cases "os_CommitSwitch p n r a") (auto simp: framed_value_def)

lemma SchedRequeue_frame [frame_intros]: "frame a = F \<Longrightarrow> framed_value F (spec_SchedRequeue c r a)"
  unfolding spec_SchedRequeue_def by (auto intro!: frame_intros)

lemma SchedSchedule_frame [frame_intros]: "frame a = F \<Longrightarrow> framed_value F (spec_SchedSchedule r e a)"
  unfolding spec_SchedSchedule_def Let_def by (auto intro!: frame_intros)

lemma SchedYield_frame [frame_intros]: "frame a = F \<Longrightarrow> framed_value F (spec_SchedYieldCurrent a)"
  unfolding spec_SchedYieldCurrent_def by (auto intro!: frame_intros)

lemma CurrentBlocked_frame [frame_intros]: "frame a = F \<Longrightarrow> framed_value F (spec_SchedCurrentBlocked r a)"
  unfolding spec_SchedCurrentBlocked_def by (auto intro!: frame_intros)

lemma DelayRemove_frame [frame_intros]: "frame a = F \<Longrightarrow> framed F (spec_TimeDelayListRemove t a)"
  unfolding spec_TimeDelayListRemove_def by (auto intro!: frame_intros simp: frame_upd_task)

lemma DelayInsert_frame [frame_intros]: "frame a = F \<Longrightarrow> framed F (spec_TimeDelayListInsert t w a)"
  unfolding spec_TimeDelayListInsert_def Let_def by (auto intro!: frame_intros simp: frame_upd_task)

lemma InsertByPriority_frame [frame_intros]: "frame a = F \<Longrightarrow> framed F (spec_WaitInsertByPriority l t a)"
  unfolding spec_WaitInsertByPriority_def by (auto intro!: frame_intros)

lemma SetEffective_frame [frame_intros]: "frame a = F \<Longrightarrow> framed F (spec_TaskSetEffectivePriority t p a)"
  unfolding spec_TaskSetEffectivePriority_def Let_def by (auto intro!: frame_intros simp: frame_upd_task)

lemma WaitBlock_frame [frame_intros]: "frame a = F \<Longrightarrow> framed_value F (spec_WaitBlockCurrent l k obj buf t a)"
  unfolding spec_WaitBlockCurrent_def Let_def by (auto intro!: frame_intros simp: frame_upd_task)

lemma WaitPop_frame [frame_intros]:
  "frame a = F \<Longrightarrow> (\<And>r b. frame b = F \<Longrightarrow> framed F' (f r b)) \<Longrightarrow> framed F' (case spec_WaitPop l a of (r, b) \<Rightarrow> f r b)"
  "frame a = F \<Longrightarrow> (\<And>r b. frame b = F \<Longrightarrow> framed_value F' (g r b)) \<Longrightarrow>
    framed_value F' (case spec_WaitPop l a of (r, b) \<Rightarrow> g r b)"
  by (auto simp: spec_WaitPop_def on_heap_value_def Let_def split: option.split prod.split)

lemma MakeReady_frame [frame_intros]: "frame a = F \<Longrightarrow> framed F (spec_WaitMakeReady t r a)"
  unfolding spec_WaitMakeReady_def by (auto intro!: frame_intros simp: frame_upd_task clear_wait_def)

lemma MaybePreempt_frame [frame_intros]: "frame a = F \<Longrightarrow> framed F (spec_WaitMaybePreempt t a)"
  unfolding spec_WaitMaybePreempt_def Let_def by (auto intro!: frame_intros)

subsection \<open>Objects\<close>

lemma memcpy_frame [frame_intros]: "frame a = F \<Longrightarrow> framed F (os_memcpy d z n a)"
  by (auto simp: os_memcpy_def Let_def framed_def)

lemma SemTake_frame [frame_intros]: "frame a = F \<Longrightarrow> framed F (spec_SemTakeCurrent i t a)"
  unfolding spec_SemTakeCurrent_def by (auto intro!: frame_intros)

lemma SemGiveFromIsr_frame [frame_intros]: "frame a = F \<Longrightarrow> framed_value F (spec_SemGiveFromIsrContext i a)"
  unfolding spec_SemGiveFromIsrContext_def by (auto intro!: frame_intros)

lemma framed_status_bind [frame_intros]:
  "framed_value F m \<Longrightarrow> (\<And>r w b. frame b = F \<Longrightarrow> framed F' (f r w b)) \<Longrightarrow>
    framed F' (Option.bind m (\<lambda>((r, w), b). f r w b))"
  by (cases m) (auto simp: framed_value_def)

lemma SemGive_frame [frame_intros]: "frame a = F \<Longrightarrow> framed F (spec_SemGiveCurrent i a)"
  unfolding spec_SemGiveCurrent_def Let_def by (auto intro!: frame_intros)

lemma QueueSend_frame [frame_intros]: "frame a = F \<Longrightarrow> framed F (spec_QueueSendCurrent i x t a)"
  unfolding spec_QueueSendCurrent_def Let_def by (auto intro!: frame_intros)

lemma QueueReceive_frame [frame_intros]: "frame a = F \<Longrightarrow> framed F (spec_QueueReceiveCurrent i x t a)"
  unfolding spec_QueueReceiveCurrent_def Let_def by (auto intro!: frame_intros)

lemma WaitersChanged_frame [frame_intros]: "frame a = F \<Longrightarrow> framed F (spec_MutexWaitersChanged a)"
  unfolding spec_MutexWaitersChanged_def by (auto intro!: frame_intros)

lemma MutexLock_frame [frame_intros]: "frame a = F \<Longrightarrow> framed F (spec_MutexLockCurrent i t a)"
  unfolding spec_MutexLockCurrent_def by (auto intro!: frame_intros)

lemma MutexUnlock_frame [frame_intros]: "frame a = F \<Longrightarrow> framed F (spec_MutexUnlockCurrent i a)"
  unfolding spec_MutexUnlockCurrent_def Let_def by (auto intro!: frame_intros)

lemma ReleaseStep_frame: "frame (snd p) = F \<Longrightarrow> framed_value F (spec_MutexReleaseStep t i p)"
  unfolding spec_MutexReleaseStep_def Let_def by (cases p) (auto intro!: frame_intros)

lemma framed_pair_bind:
  "framed_value F m \<Longrightarrow> (\<And>p. frame (snd p) = F \<Longrightarrow> framed_value F' (g p)) \<Longrightarrow> framed_value F' (Option.bind m g)"
  by (cases m) (auto simp: framed_value_def)

lemma ReleaseSteps_frame: "frame (snd p) = F \<Longrightarrow> framed_value F (foldM (spec_MutexReleaseStep t) is p)"
  by (induction "is" arbitrary: p) (auto intro!: framed_pair_bind [OF ReleaseStep_frame])

lemma ReleaseTask_frame [frame_intros]: "frame a = F \<Longrightarrow> framed F (spec_MutexReleaseTask t a)"
  unfolding spec_MutexReleaseTask_def by (intro frame_intros framed_Some(1) ReleaseSteps_frame) simp_all

lemma Terminate_frame [frame_intros]: "frame a = F \<Longrightarrow> framed_value F (spec_SchedTerminateCurrent a)"
  unfolding spec_SchedTerminateCurrent_def by (auto intro!: frame_intros)

subsection \<open>Time\<close>

lemma TimeDelay_frame [frame_intros]: "frame a = F \<Longrightarrow> framed_value F (spec_TimeDelayCurrent t a)"
  unfolding spec_TimeDelayCurrent_def Let_def by (auto intro!: frame_intros)

lemma TimeWake_frame [frame_intros]: "frame a = F \<Longrightarrow> framed F (spec_TimeWake t a)"
  unfolding spec_TimeWake_def Let_def by (auto intro!: frame_intros)

lemma TickLoop_frame [frame_intros]: "frame a = F \<Longrightarrow> framed_value F (spec_TimeTickLoop n now w a)"
proof (induction n arbitrary: a w F)
  case (Suc n)
  have pop: "frame (snd (on_heap_value (spec_PopFront l) a)) = frame a" for l
    by (simp add: on_heap_value_def split: prod.split)
  show ?case
    using Suc.prems
    by (subst spec_TimeTickLoop.simps)
      (auto simp: Let_def frame_upd_task pop split: option.split list.split intro!: frame_intros Suc.IH)
next
  case 0
  then show ?case
    by (subst spec_TimeTickLoop.simps) (auto simp: Let_def split: option.split list.split)
qed

definition next_frame :: "'p \<times> u32 \<times> bool \<times> u32 \<times> (nat \<Rightarrow> u8) \<Rightarrow> 'p \<times> u32 \<times> bool \<times> u32 \<times> (nat \<Rightarrow> u8)" where
  "next_frame F = (case F of (p, n, st, t, b) \<Rightarrow> (p, n, st, t + 1, b))"

lemma TimeTick_frame: "framed_value (next_frame (frame a)) (spec_TimeTick a)"
proof -
  let ?a = "a\<lparr>k_tick := k_tick a + 1\<rparr>"
  have "frame ?a = next_frame (frame a)" by (simp add: frame_def next_frame_def)
  then show ?thesis
    unfolding spec_TimeTick_def Let_def
    by (auto intro!: frame_intros simp: frame_upd_task split: option.split)
qed

subsection \<open>On the pointer level\<close>

text \<open>The scheduler starts with one of the tasks that have been created.\<close>

lemma TaskIsUsed: "kinv {} a \<Longrightarrow> t < unat (k_task_count a) \<Longrightarrow> t_state (k_tasks a t) \<noteq> OS_TASK_UNUSED"
  by (auto simp: kinv_def base_ok_def)

lemma SchedStart_first:
  assumes ok: "kernel_ok a" and idle: "\<not> k_started a" and some: "k_task_count a \<noteq> 0"
  shows "\<exists>t b. spec_SchedStart a = Some (Some t, b) \<and> k_current b = Some t \<and> frame b = frame (a\<lparr>k_started := True\<rparr>)"
proof -
  have kinv: "kinv {} a" using ok by (simp add: kernel_ok_def)
  have "0 < unat (k_task_count a)" using some by (simp add: unat_gt_0)
  from TaskIsUsed [OF kinv this] ok idle have "t_state (k_tasks a 0) = OS_TASK_READY"
    by (auto simp: kernel_ok_def boot_ok_def)
  note ready = ready_tasks [OF kinv this]
  show ?thesis
  proof (rule ReadyPopHighest_cases [OF kinv])
    fix p t ns
    assume pop: "spec_ReadyPopHighest a = Some (Some t, ready_drop p t a)"
    let ?b = "os_CommitSwitch None (Some t) OS_SWITCH_START ((ready_drop p t a)\<lparr>k_started := True\<rparr>)"
    have f: "frame (ready_drop p t a) = frame a"
      using ReadyPopHighest_frame [of a "frame a"] pop by (simp add: framed_value_def)
    have "frame (snd ?b) = frame ((ready_drop p t a)\<lparr>k_started := True\<rparr>)"
      by (rule frame_commit [OF prod.collapse [symmetric]])
    then have "frame (snd ?b) = frame (a\<lparr>k_started := True\<rparr>)" using f by (simp add: frame_def)
    moreover have "fst ?b = Some t" "k_current (snd ?b) = Some t"
      by (simp_all add: os_CommitSwitch_def Let_def upd_task_def)
    ultimately show ?thesis
      using pop idle kinv_initialized [OF kinv] by (cases ?b) (auto simp: spec_SchedStart_def)
  qed (use ready in simp)
qed

lemma frame_conc [simp]: "frame (conc h a) = frame a"
  by (simp add: frame_def)

end
