(* ===== verification/OS_API.thy ===== *)
theory OS_API
  imports OS_Validate
begin

section \<open>Public API and task requests (kernel/src/os_api.c, port hooks)\<close>

text \<open>
  The public entry points are thin: each forwards a request to \<open>os_port_task_request\<close> of the
  port the kernel is linked with, which is a parameter here (\<open>request\<close>), as is the
  critical-section HAL. The switch over the request kind is the same code in the host stub
  and in the Cortex-M port; it is defined once (\<open>os_port_dispatch\<close>).
\<close>

type_synonym 'p request =
  "os_port_req_id_t \<Rightarrow> u32 \<Rightarrow> obj_ref option \<Rightarrow> addr \<Rightarrow> 'p kernel \<Rightarrow> (os_status_t \<times> 'p kernel) option"

subsection \<open>Requests of the current task\<close>

text \<open>
  The casts from \<open>void *\<close>. A pointer to an object of another kind is undefined behaviour
  (\<open>None\<close>); the typed public API never passes one.
\<close>

fun as_sem :: "obj_ref option \<Rightarrow> nat option option" where
  "as_sem None = Some None"
| "as_sem (Some (SemObj i)) = Some (Some i)"
| "as_sem (Some _) = None"

fun as_queue :: "obj_ref option \<Rightarrow> nat option option" where
  "as_queue None = Some None"
| "as_queue (Some (QueueObj i)) = Some (Some i)"
| "as_queue (Some _) = None"

fun as_mutex :: "obj_ref option \<Rightarrow> nat option option" where
  "as_mutex None = Some None"
| "as_mutex (Some (MutexObj i)) = Some (Some i)"
| "as_mutex (Some _) = None"

fun os_port_dispatch ::
    "nat \<Rightarrow> os_port_req_id_t \<Rightarrow> u32 \<Rightarrow> obj_ref option \<Rightarrow> addr \<Rightarrow> 'p kernel \<Rightarrow> 'p kernel option" where
  "os_port_dispatch c OS_PORT_REQ_YIELD ticks object buffer s =
     do { (_, s) \<leftarrow> os_SchedYieldCurrent s; Some (set_result c OS_STATUS_OK s) }"
| "os_port_dispatch c OS_PORT_REQ_DELAY ticks object buffer s =
     do { (_, s) \<leftarrow> os_TimeDelayCurrent ticks s; Some s }"
| "os_port_dispatch c OS_PORT_REQ_SEM_TAKE ticks object buffer s =
     do { sem \<leftarrow> as_sem object; os_SemTakeCurrent sem ticks s }"
| "os_port_dispatch c OS_PORT_REQ_SEM_GIVE ticks object buffer s =
     do { sem \<leftarrow> as_sem object; os_SemGiveCurrent sem s }"
| "os_port_dispatch c OS_PORT_REQ_QUEUE_SEND ticks object buffer s =
     do { queue \<leftarrow> as_queue object; os_QueueSendCurrent queue buffer ticks s }"
| "os_port_dispatch c OS_PORT_REQ_QUEUE_RECEIVE ticks object buffer s =
     do { queue \<leftarrow> as_queue object; os_QueueReceiveCurrent queue buffer ticks s }"
| "os_port_dispatch c OS_PORT_REQ_MUTEX_LOCK ticks object buffer s =
     do { mutex \<leftarrow> as_mutex object; os_MutexLockCurrent mutex ticks s }"
| "os_port_dispatch c OS_PORT_REQ_MUTEX_UNLOCK ticks object buffer s =
     do { mutex \<leftarrow> as_mutex object; os_MutexUnlockCurrent mutex s }"
| "os_port_dispatch c OS_PORT_REQ_EXIT ticks object buffer s =
     do { (_, s) \<leftarrow> os_SchedTerminateCurrent s; Some s }"

subsection \<open>os_api.c\<close>

definition osGetLastError :: "('h, 'p) os_kernel_t \<Rightarrow> os_status_t" where
  "osGetLastError s = k_last_error s"

text \<open>
  \<open>os_port_start_scheduler\<close> of the port is the argument \<open>start_scheduler\<close>. Its result is the status
  that it returns, or \<open>None\<close> for a call that does not return because the first task is running;
  the state is then the one in which that task starts.
\<close>

type_synonym 'p starter = "u32 \<Rightarrow> 'p kernel \<Rightarrow> (os_status_t option \<times> 'p kernel) option"

definition os_Start ::
    "'p os_port_hal \<Rightarrow> addr \<Rightarrow> addr \<Rightarrow> 'p starter \<Rightarrow> 'p starter" where
  "os_Start hal idle_entry idle_stack start_scheduler run_ticks s = do {
     (status, s) \<leftarrow> os_EnsureIdleTask hal idle_entry idle_stack s;
     if status \<noteq> OS_STATUS_OK then Some (Some status, s) else start_scheduler run_ticks s
   }"

definition vTaskYield :: "'p request \<Rightarrow> 'p kernel \<Rightarrow> 'p kernel option" where
  "vTaskYield request s = do { (_, s) \<leftarrow> request OS_PORT_REQ_YIELD 0 None 0 s; Some s }"

text \<open>
  One round of the endless loop of the Idle task; the value says whether the entry function
  returns (the port is not running) or goes round again.
\<close>

definition os_IdleTaskStep ::
    "('p \<Rightarrow> bool) \<Rightarrow> 'p request \<Rightarrow> 'p kernel \<Rightarrow> (bool \<times> 'p kernel) option" where
  "os_IdleTaskStep port_is_running request s =
     (if \<not> port_is_running (k_port s) then Some (True, s)
      else do { s \<leftarrow> vTaskYield request s; Some (False, s) })"

definition vTaskDelay :: "'p request \<Rightarrow> u32 \<Rightarrow> 'p kernel \<Rightarrow> 'p kernel option" where
  "vTaskDelay request xTicksToDelay s =
     (if xTicksToDelay = 0 then vTaskYield request s
      else do { (_, s) \<leftarrow> request OS_PORT_REQ_DELAY xTicksToDelay None 0 s; Some s })"

text \<open>Both forward to the port; the port's function is an argument.\<close>

definition os_IsRunning :: "('p \<Rightarrow> bool) \<Rightarrow> ('h, 'p) os_kernel_t \<Rightarrow> bool" where
  "os_IsRunning port_is_running s = port_is_running (k_port s)"

definition os_SetObserver ::
    "(addr \<Rightarrow> addr \<Rightarrow> 'p \<Rightarrow> 'p) \<Rightarrow> addr \<Rightarrow> addr \<Rightarrow> ('h, 'p) os_kernel_t \<Rightarrow> ('h, 'p) os_kernel_t" where
  "os_SetObserver port_set_observer observer context_arg s =
     s\<lparr>k_port := port_set_observer observer context_arg (k_port s)\<rparr>"

definition xSemaphoreTake ::
    "'p request \<Rightarrow> nat option \<Rightarrow> u32 \<Rightarrow> 'p kernel \<Rightarrow> (os_status_t \<times> 'p kernel) option" where
  "xSemaphoreTake request xSemaphore xTicksToWait s =
     request OS_PORT_REQ_SEM_TAKE xTicksToWait (map_option SemObj xSemaphore) 0 s"

definition xSemaphoreGive :: "'p request \<Rightarrow> nat option \<Rightarrow> 'p kernel \<Rightarrow> (os_status_t \<times> 'p kernel) option" where
  "xSemaphoreGive request xSemaphore s =
     request OS_PORT_REQ_SEM_GIVE 0 (map_option SemObj xSemaphore) 0 s"

definition xSemaphoreGiveFromISR ::
    "'p os_port_hal \<Rightarrow> nat option \<Rightarrow> 'p kernel \<Rightarrow> (os_status_t \<times> 'p kernel) option" where
  "xSemaphoreGiveFromISR hal xSemaphore s =
     (let s = os_EnterCritical hal s in do {
        ((status, woken), s) \<leftarrow> os_SemGiveFromIsrContext xSemaphore s;
        s \<leftarrow> (if woken \<noteq> None then os_WaitMaybePreempt woken s else Some s);
        s \<leftarrow> os_ExitCritical hal s;
        Some (status, s)
      })"

definition xQueueSend ::
    "'p request \<Rightarrow> nat option \<Rightarrow> addr \<Rightarrow> u32 \<Rightarrow> 'p kernel \<Rightarrow> (os_status_t \<times> 'p kernel) option" where
  "xQueueSend request xQueue pvItemToQueue xTicksToWait s =
     request OS_PORT_REQ_QUEUE_SEND xTicksToWait (map_option QueueObj xQueue) pvItemToQueue s"

definition xQueueReceive ::
    "'p request \<Rightarrow> nat option \<Rightarrow> addr \<Rightarrow> u32 \<Rightarrow> 'p kernel \<Rightarrow> (os_status_t \<times> 'p kernel) option" where
  "xQueueReceive request xQueue pvBuffer xTicksToWait s =
     request OS_PORT_REQ_QUEUE_RECEIVE xTicksToWait (map_option QueueObj xQueue) pvBuffer s"

definition xMutexLock ::
    "'p request \<Rightarrow> nat option \<Rightarrow> u32 \<Rightarrow> 'p kernel \<Rightarrow> (os_status_t \<times> 'p kernel) option" where
  "xMutexLock request xMutex xTicksToWait s =
     request OS_PORT_REQ_MUTEX_LOCK xTicksToWait (map_option MutexObj xMutex) 0 s"

definition xMutexUnlock :: "'p request \<Rightarrow> nat option \<Rightarrow> 'p kernel \<Rightarrow> (os_status_t \<times> 'p kernel) option" where
  "xMutexUnlock request xMutex s =
     request OS_PORT_REQ_MUTEX_UNLOCK 0 (map_option MutexObj xMutex) 0 s"

end
