(* ===== verification/Kernel_Entry.thy ===== *)
theory Kernel_Entry
  imports Kernel_Frame OS_API
begin

section \<open>The entry points on the pointer level\<close>

text \<open>
  \<open>good\<close> is the invariant of the kernel on the memory of the C program: the linked lists
  represent a list-level state that is in order. \<open>orderly\<close> is what holds between two calls:
  in addition, no critical section is open, every inherited priority is exact, and no ready
  task is more urgent than the running one. The lemmas \<open>orderly_state\<close> and
  \<open>orderly_value\<close> combine a refinement lemma of the OS theories with the preservation lemma
  of the Kernel theories; with them every operation that the ports call is shown to return and
  to keep the kernel orderly.
\<close>

definition good :: "'p kernel \<Rightarrow> bool" where
  "good s \<longleftrightarrow> (\<exists>h a. s = conc h a \<and> list_rep h (k_heap a) \<and> kernel_ok a)"

lemma goodI: "list_rep h (k_heap a) \<Longrightarrow> kernel_ok a \<Longrightarrow> good (conc h a)"
  by (auto simp: good_def)

lemma goodE:
  assumes "good s"
  obtains h a where "s = conc h a" "list_rep h (k_heap a)" "kernel_ok a"
  using assms by (auto simp: good_def)

definition orderly :: "'p kernel \<Rightarrow> bool" where
  "orderly s \<longleftrightarrow> (\<exists>h a. s = conc h a \<and> list_rep h (k_heap a) \<and> strict a)"

lemma orderlyI: "list_rep h (k_heap a) \<Longrightarrow> strict a \<Longrightarrow> orderly (conc h a)"
  by (auto simp: orderly_def)

lemma orderlyE:
  assumes "orderly s"
  obtains h a where "s = conc h a" "list_rep h (k_heap a)" "strict a"
  using assms by (auto simp: orderly_def)

lemma strict_ok: "strict a \<Longrightarrow> kernel_ok a"
  by (simp add: strict_def)

lemma orderly_good: "orderly s \<Longrightarrow> good s"
  by (auto simp: orderly_def good_def dest: strict_ok)

text \<open>What an orderly kernel promises, in terms of the code's own state.\<close>

lemma orderlyD:
  assumes "orderly s"
  shows orderly_inherit: "inherit_ok s" and orderly_nesting: "k_critical_nesting s = 0"
    and orderly_top: "k_started s \<Longrightarrow> top_running s"
  using assms
  by (auto elim!: orderlyE simp: strict_def inherit_ok_def waits_for_def top_running_def)

lemma orderly_state: "sim krel m m' \<Longrightarrow> returns m' strict \<Longrightarrow> returns m orderly"
  by (fastforce dest!: returnsD dest: simD simp: krel_def orderly_def)

lemma orderly_value: "sim krelv m m' \<Longrightarrow> returns m' (\<lambda>(r, b). strict b) \<Longrightarrow> returns m (\<lambda>(r, s). orderly s)"
  by (fastforce dest!: returnsD dest: simD simp: krel_def krelv_def orderly_def)

text \<open>The same with the frame of the operation.\<close>

lemma framed_state:
  "sim krel m m' \<Longrightarrow> returns m' strict \<Longrightarrow> framed F m' \<Longrightarrow> returns m (\<lambda>s. orderly s \<and> frame s = F)"
  by (fastforce dest!: returnsD dest: simD simp: krel_def orderly_def framed_def)

lemma framed_value_state:
  "sim krelv m m' \<Longrightarrow> returns m' (\<lambda>(r, b). strict b) \<Longrightarrow> framed_value F m' \<Longrightarrow>
    returns m (\<lambda>(r, s). orderly s \<and> frame s = F)"
  by (fastforce dest!: returnsD dest: simD simp: krel_def krelv_def orderly_def framed_value_def)

text \<open>A preservation lemma, applied to a strict state.\<close>

lemma keeps_strict:
  "returns m (\<lambda>b. kernel_ok b \<and> (strict a \<longrightarrow> strict b)) \<Longrightarrow> strict a \<Longrightarrow> returns m strict"
  "returns m' (\<lambda>(r, b). kernel_ok b \<and> (strict a \<longrightarrow> strict b)) \<Longrightarrow> strict a \<Longrightarrow> returns m' (\<lambda>(r, b). strict b)"
  by (auto elim!: returns_mono)

lemma calm_strict:
  "returns m (\<lambda>b. kernel_ok b \<and> calm a b) \<Longrightarrow> strict a \<Longrightarrow> returns m strict"
  "returns m' (\<lambda>(r, b). kernel_ok b \<and> calm a b) \<Longrightarrow> strict a \<Longrightarrow> returns m' (\<lambda>(r, b). strict b)"
  by (auto elim!: returns_mono intro: strict_calm)

lemma good_frame [simp]:
  assumes "good s"
  shows "good (s\<lparr>k_port := p\<rparr>)" "good (s\<lparr>k_critical_nesting := n\<rparr>)" "good (s\<lparr>k_sched_pending := b\<rparr>)"
    "good (os_SetLastError e s)" "good (set_result t r s)" "good (os_EnterCritical hal s)"
  using assms
  by (auto elim!: goodE intro!: goodI simp: os_SetLastError_def os_EnterCritical_def)

lemma orderly_frame [simp]:
  assumes "orderly s"
  shows "orderly (s\<lparr>k_port := p\<rparr>)" "orderly (s\<lparr>k_sched_pending := b\<rparr>)"
    "orderly (os_SetLastError e s)" "orderly (set_result t r s)" "orderly (s\<lparr>k_idle_task := i\<rparr>)"
proof -
  obtain h a where s: "s = conc h a" "list_rep h (k_heap a)" "strict a" using assms by (rule orderlyE)
  have idle: "strict (a\<lparr>k_idle_task := i\<rparr>)"
    using s(3) by (simp add: strict_def kernel_ok_def inherit_ok_def waits_for_def top_running_def)
      (simp add: time_ok_def current_ok_def objects_ok_def boot_ok_def)
  show "orderly (s\<lparr>k_port := p\<rparr>)" "orderly (s\<lparr>k_sched_pending := b\<rparr>)"
    "orderly (os_SetLastError e s)" "orderly (s\<lparr>k_idle_task := i\<rparr>)"
    using s idle by (auto intro!: orderlyI simp: os_SetLastError_def)
  have "strict (set_result t r a)" using strict_result s(3) by blast
  then show "orderly (set_result t r s)" using s(1,2) by (auto intro!: orderlyI)
qed

lemma good_valid: "good s \<Longrightarrow> os_KernelValidate s"
  by (auto elim!: goodE intro: kernel_ok_valid)

lemma good_init: "good (os_Init s)"
  unfolding Init_eq by (rule goodI) (simp_all add: init_spec_ok, simp add: init_spec_def init_heap_rep)

lemma orderly_init: "orderly (os_Init s)"
  unfolding Init_eq by (rule orderlyI) (simp_all add: init_spec_strict, simp add: init_spec_def init_heap_rep)

lemma good_current:
  "good s \<Longrightarrow> k_current s = Some c \<Longrightarrow> k_started s \<and> t_state (k_tasks s c) = OS_TASK_RUNNING"
  by (auto elim!: goodE dest: kernel_ok_current)

subsection \<open>Scheduling\<close>

lemma SchedStart_orderly: "orderly s \<Longrightarrow> returns (os_SchedStart s) (\<lambda>(n, s). orderly s)"
  by (auto elim!: orderlyE intro!: orderly_value [OF SchedStart_refines] keeps_strict(2) [OF SchedStart_strict]
      dest: strict_ok)

lemma SchedStart_framed:
  assumes "orderly s" and "\<not> k_started s" "k_task_count s \<noteq> 0"
  shows "returns (os_SchedStart s) (\<lambda>(n, s'). n \<noteq> None \<and> k_current s' = n \<and> orderly s' \<and> frame s' = frame (s\<lparr>k_started := True\<rparr>))"
proof -
  obtain h a where s: "s = conc h a" "list_rep h (k_heap a)" "strict a" using assms(1) by (rule orderlyE)
  from SchedStart_first [OF strict_ok [OF s(3)]] assms(2,3) s(1)
  obtain t b where b: "spec_SchedStart a = Some (Some t, b)" "k_current b = Some t" "frame b = frame (a\<lparr>k_started := True\<rparr>)" by auto
  with returnsD [OF SchedStart_strict [OF strict_ok [OF s(3)]]] s(3) have "strict b" by auto
  with simD [OF SchedStart_refines [OF s(2)] b(1)] b(2,3) show ?thesis
    by (fastforce simp: krelv_def krel_def orderly_def s(1) frame_def)
qed


lemma TimeTick_framed:
  assumes "orderly s"
  shows "returns (os_TimeTick s) (\<lambda>(n, s'). orderly s' \<and> frame s' = next_frame (frame s))"
proof -
  obtain h a where s: "s = conc h a" "list_rep h (k_heap a)" "strict a" using assms by (rule orderlyE)
  show ?thesis
    unfolding s(1) frame_conc
    by (rule framed_value_state [OF TimeTick_refines [OF s(2)] keeps_strict(2) [OF TimeTick_ok [OF strict_ok [OF s(3)]] s(3)]
      TimeTick_frame])
qed

lemma TimeTick_orderly: "orderly s \<Longrightarrow> returns (os_TimeTick s) (\<lambda>(n, s). orderly s)"
  by (rule returns_mono [OF TimeTick_framed]) auto

subsection \<open>Requests of the running task\<close>

lemma requests_framed:
  assumes "orderly s"
  shows SchedYieldCurrent_framed: "returns (os_SchedYieldCurrent s) (\<lambda>(n, s'). orderly s' \<and> frame s' = frame s)"
    and TimeDelayCurrent_framed: "returns (os_TimeDelayCurrent ticks s) (\<lambda>(n, s'). orderly s' \<and> frame s' = frame s)"
    and SemTakeCurrent_framed: "returns (os_SemTakeCurrent sem ticks s) (\<lambda>s'. orderly s' \<and> frame s' = frame s)"
    and SemGiveCurrent_framed: "returns (os_SemGiveCurrent sem s) (\<lambda>s'. orderly s' \<and> frame s' = frame s)"
    and QueueSendCurrent_framed:
      "returns (os_QueueSendCurrent queue buffer ticks s) (\<lambda>s'. orderly s' \<and> frame s' = frame s)"
    and QueueReceiveCurrent_framed:
      "returns (os_QueueReceiveCurrent queue buffer ticks s) (\<lambda>s'. orderly s' \<and> frame s' = frame s)"
    and MutexUnlockCurrent_framed: "returns (os_MutexUnlockCurrent mutex s) (\<lambda>s'. orderly s' \<and> frame s' = frame s)"
    and SchedTerminateCurrent_framed:
      "returns (os_SchedTerminateCurrent s) (\<lambda>(n, s'). orderly s' \<and> frame s' = frame s)"
proof -
  obtain h a where s: "s = conc h a" "list_rep h (k_heap a)" "strict a" using assms by (rule orderlyE)
  note ok = strict_ok [OF s(3)] and r = s(2)
  note calm = calm_strict(1) [OF _ s(3)] and keeps = keeps_strict(1) [OF _ s(3)]
  note calmv = calm_strict(2) [OF _ s(3)] and keepsv = keeps_strict(2) [OF _ s(3)]
  show "returns (os_SchedYieldCurrent s) (\<lambda>(n, s'). orderly s' \<and> frame s' = frame s)"
    unfolding s(1) frame_conc
    by (rule framed_value_state [OF SchedYieldCurrent_refines [OF r] calmv [OF SchedYieldCurrent_ok [OF ok]]
      SchedYield_frame [OF refl]])
  show "returns (os_TimeDelayCurrent ticks s) (\<lambda>(n, s'). orderly s' \<and> frame s' = frame s)"
    unfolding s(1) frame_conc
    by (rule framed_value_state [OF TimeDelayCurrent_refines [OF r] calmv [OF TimeDelayCurrent_ok [OF ok]]
      TimeDelay_frame [OF refl]])
  show "returns (os_SemTakeCurrent sem ticks s) (\<lambda>s'. orderly s' \<and> frame s' = frame s)"
    unfolding s(1) frame_conc
    by (rule framed_state [OF SemTakeCurrent_refines [OF r] calm [OF SemTakeCurrent_ok [OF ok]] SemTake_frame [OF refl]])
  show "returns (os_SemGiveCurrent sem s) (\<lambda>s'. orderly s' \<and> frame s' = frame s)"
    unfolding s(1) frame_conc
    by (rule framed_state [OF SemGiveCurrent_refines [OF r] calm [OF SemGiveCurrent_ok [OF ok]] SemGive_frame [OF refl]])
  show "returns (os_QueueSendCurrent queue buffer ticks s) (\<lambda>s'. orderly s' \<and> frame s' = frame s)"
    unfolding s(1) frame_conc
    by (rule framed_state [OF QueueSendCurrent_refines [OF r] calm [OF QueueSendCurrent_ok [OF ok]]
      QueueSend_frame [OF refl]])
  show "returns (os_QueueReceiveCurrent queue buffer ticks s) (\<lambda>s'. orderly s' \<and> frame s' = frame s)"
    unfolding s(1) frame_conc
    by (rule framed_state [OF QueueReceiveCurrent_refines [OF r] calm [OF QueueReceiveCurrent_ok [OF ok]]
      QueueReceive_frame [OF refl]])
  show "returns (os_MutexUnlockCurrent mutex s) (\<lambda>s'. orderly s' \<and> frame s' = frame s)"
    unfolding s(1) frame_conc
    by (rule framed_state [OF MutexUnlockCurrent_refines [OF r] keeps [OF MutexUnlockCurrent_ok [OF ok]]
      MutexUnlock_frame [OF refl]])
  show "returns (os_SchedTerminateCurrent s) (\<lambda>(n, s'). orderly s' \<and> frame s' = frame s)"
    unfolding s(1) frame_conc
    by (rule framed_value_state [OF SchedTerminateCurrent_refines [OF r] keepsv [OF SchedTerminateCurrent_ok [OF ok]]
      Terminate_frame [OF refl]])
qed

lemma MutexLockCurrent_framed:
  assumes "orderly s" and "\<And>c. k_current s = Some c \<Longrightarrow> \<not> os_TaskIsIdle (Some c) s"
  shows "returns (os_MutexLockCurrent mutex ticks s) (\<lambda>s'. orderly s' \<and> frame s' = frame s)"
proof -
  obtain h a where s: "s = conc h a" "list_rep h (k_heap a)" "strict a" using assms(1) by (rule orderlyE)
  have "returns (spec_MutexLockCurrent mutex ticks a) (\<lambda>b. kernel_ok b \<and> (strict a \<longrightarrow> strict b))"
    using assms(2) by (intro MutexLockCurrent_ok strict_ok s(3)) (auto simp: s(1) os_TaskIsIdle_def)
  from keeps_strict(1) [OF this s(3)] show ?thesis
    unfolding s(1) frame_conc by (rule framed_state [OF MutexLockCurrent_refines [OF s(2)] _ MutexLock_frame [OF refl]])
qed

subsection \<open>Giving a semaphore in an interrupt\<close>

text \<open>
  Inside the critical section of \<open>xSemaphoreGiveFromISR\<close> the switch is only noted; leaving the
  section makes up for it.
\<close>

definition catching_up :: "'p spec_kernel \<Rightarrow> bool" where
  "catching_up a \<longleftrightarrow> kernel_ok a \<and> inherit_ok a \<and> k_critical_nesting a = 1 \<and>
     (k_started a \<longrightarrow> top_running a \<or> k_sched_pending a)"

lemma inherit_ok_frame [simp]:
  "inherit_ok (a\<lparr>k_critical_nesting := n\<rparr>) = inherit_ok a" "inherit_ok (a\<lparr>k_sched_pending := b\<rparr>) = inherit_ok a"
  "inherit_ok (a\<lparr>k_port := p\<rparr>) = inherit_ok a"
  by (simp_all add: inherit_ok_def waits_for_def)

lemma top_running_frame [simp]:
  "top_running (a\<lparr>k_critical_nesting := n\<rparr>) = top_running a" "top_running (a\<lparr>k_sched_pending := b\<rparr>) = top_running a"
  "top_running (a\<lparr>k_port := p\<rparr>) = top_running a"
  by (simp_all add: top_running_def)

lemma Schedule_strict:
  assumes ok: "kernel_ok a" and "inherit_ok a" "k_critical_nesting a = 0"
  shows "returns (spec_SchedSchedule r e a) (\<lambda>(n, b). strict b)"
proof (cases "k_started a")
  case True
  have live: "live True {} a" "current_ok a" using ok True by (simp_all add: kernel_ok_live) (simp add: kernel_ok_def)
  obtain n b where b: "spec_SchedSchedule r e a = Some (n, b)" "dispatched a b"
    using returnsD [OF SchedSchedule_ok [OF live, of r e]] by auto
  have "same_view a b" by (rule Schedule_view [OF live b(1)])
  then have "inherit_ok b = inherit_ok a"
    using b(2) by (intro inherit_ok_same views_mview) (simp_all add: same_view_def dispatched_def same_objects_def)
  then show ?thesis
    using b assms live_kernel_ok by (auto simp: strict_def dispatched_def same_objects_def)
qed (use assms in \<open>simp add: spec_SchedSchedule_def strict_def\<close>)

lemma ExitCritical_orderly:
  assumes rep: "list_rep h (k_heap a)" and a: "catching_up a"
  shows "returns (os_ExitCritical hal (conc h a)) orderly"
proof -
  let ?b = "a\<lparr>k_critical_nesting := 0\<rparr>"
  have sched: "returns (os_SchedSchedule r e (conc h (?b\<lparr>k_sched_pending := False\<rparr>))) (\<lambda>(n, s). orderly s)" for r e
    using a rep by (intro orderly_value [OF SchedSchedule_refines] Schedule_strict) (simp_all add: catching_up_def)
  have "orderly (conc h (?b\<lparr>k_port := p\<rparr>))" if "\<not> k_sched_pending a" for p
    using a rep that by (intro orderlyI) (simp_all add: catching_up_def strict_def)
  then show ?thesis
    using a sched by (auto simp: os_ExitCritical_def Let_def catching_up_def split_beta intro!: returns_bind) 
qed

lemma SemGiveFromIsrContext_catches_up:
  assumes ok: "strict a" and sim: "a' = a\<lparr>k_port := p, k_critical_nesting := 1\<rparr>"
  shows "returns (do { ((st, w), b) \<leftarrow> spec_SemGiveFromIsrContext sem a';
      b \<leftarrow> (if w \<noteq> None then spec_WaitMaybePreempt w b else Some b); Some (st, b) }) (\<lambda>(st, b). catching_up b)"
proof -
  have a': "kernel_ok a'" "inherit_ok a'" "k_critical_nesting a' = 1" "k_started a' \<Longrightarrow> top_running a'"
    using ok by (simp_all add: sim strict_def)
  obtain st w b where b: "spec_SemGiveFromIsrContext sem a' = Some ((st, w), b)" "kernel_ok b"
    "k_started b = k_started a'" "calm_but (set_option w) a' b" "top_running a' \<longrightarrow> top_but (set_option w) b"
    using returnsD [OF SemGiveFromIsrContext_ok [OF a'(1), of sem]] by auto
  have inh: "inherit_ok b" "k_critical_nesting b = 1"
    using inherit_ok_calm [OF b(4)] b(4) a'(2,3) by (simp_all add: calm_but_def)
  show ?thesis
  proof (cases "w = None")
    case True
    then show ?thesis using b inh a'(4) by (auto simp: catching_up_def)
  next
    case False
    have started: "k_started b"
    proof (rule ccontr)
      assume "\<not> k_started b"
      then have "sp_nodes (k_heap a') (SemWaiters i) = []" for i
        using b(3) by (intro boot_no_waiters [OF a'(1)]) simp_all
      then show False
        using b(1) False SemGive_counts [OF a'(1)]
        by (cases sem) (auto simp: spec_SemGiveFromIsrContext_def split: if_splits)
    qed
    obtain c where c: "spec_WaitMaybePreempt w b = Some c" "kernel_ok c" "same_objects b c" "same_view b c"
      "top_but (set_option w) b \<longrightarrow> top_running c \<or> 0 < k_critical_nesting b \<and> k_sched_pending c"
      using returnsD [OF WaitMaybePreempt_kernel_ok [OF b(2) started, of w]] by blast
    have "inherit_ok c = inherit_ok b"
      using c(3,4) by (intro inherit_ok_same views_mview) (simp_all add: same_view_def same_objects_def)
    then show ?thesis
      using False b(1,3,5) c inh a'(4) by (auto simp: catching_up_def same_objects_def)
  qed
qed

lemma GiveFromISR_orderly:
  assumes "orderly s"
  shows "returns (xSemaphoreGiveFromISR hal sem s) (\<lambda>(r, s). orderly s)"
proof -
  obtain h a where s: "s = conc h a" "list_rep h (k_heap a)" "strict a" using assms by (rule orderlyE)
  define a' where "a' = a\<lparr>k_port := hal_enter_critical hal (k_port a), k_critical_nesting := 1\<rparr>"
  have enter: "os_EnterCritical hal s = conc h a'"
    using s(3) by (simp add: s(1) a'_def os_EnterCritical_def strict_def)
  have "list_rep h (k_heap a')" using s(2) by (simp add: a'_def)
  then have "sim krelv (do { ((st, w), s) \<leftarrow> os_SemGiveFromIsrContext sem (conc h a');
       s \<leftarrow> (if w \<noteq> None then os_WaitMaybePreempt w s else Some s); Some (st, s) })
     (do { ((st, w), b) \<leftarrow> spec_SemGiveFromIsrContext sem a';
       b \<leftarrow> (if w \<noteq> None then spec_WaitMaybePreempt w b else Some b); Some (st, b) })"
    by (auto intro!: sim_intros)
  with SemGiveFromIsrContext_catches_up [OF s(3) a'_def, of sem] obtain st h' b
    where run: "do { ((st, w), s) \<leftarrow> os_SemGiveFromIsrContext sem (conc h a');
       s \<leftarrow> (if w \<noteq> None then os_WaitMaybePreempt w s else Some s); Some (st, s) } = Some (st, conc h' b)"
      and b: "list_rep h' (k_heap b)" "catching_up b"
    by (fastforce dest!: returnsD dest: simD simp: krel_def krelv_def)
  have "xSemaphoreGiveFromISR hal sem s = do { (st, s) \<leftarrow> do { ((st, w), s) \<leftarrow> os_SemGiveFromIsrContext sem (conc h a');
       s \<leftarrow> (if w \<noteq> None then os_WaitMaybePreempt w s else Some s); Some (st, s) };
     s \<leftarrow> os_ExitCritical hal s; Some (st, s) }"
    by (simp add: xSemaphoreGiveFromISR_def enter case_prod_beta' Let_def)
  then show ?thesis
    unfolding run using ExitCritical_orderly [OF b, of hal] by (auto dest!: returnsD)
qed

subsection \<open>Creation\<close>

lemma TaskCreateInternal_orderly:
  "orderly s \<Longrightarrow> returns (os_TaskCreateInternal hal nm e arg p m z i s) (\<lambda>(r, s). orderly s)"
  by (auto elim!: orderlyE intro!: orderly_value [OF TaskCreateInternal_refines] keeps_strict(2) [OF TaskCreateInternal_ok]
      dest: strict_ok)

lemma xTaskCreate_orderly:
  "orderly s \<Longrightarrow> returns (xTaskCreate hal code nm z arg p m s) (\<lambda>(r, s). orderly s)"
  unfolding xTaskCreate_def by (rule returns_bind [OF TaskCreateInternal_orderly]) auto

lemma EnsureIdleTask_orderly:
  "orderly s \<Longrightarrow> returns (os_EnsureIdleTask hal idle_entry idle_stack s) (\<lambda>(r, s). orderly s)"
  unfolding os_EnsureIdleTask_def
  by (auto intro!: returns_bind [OF TaskCreateInternal_orderly])

lemma object_orderly:
  assumes "orderly s"
  shows SemaphoreCreateCounting_orderly: "orderly (snd (xSemaphoreCreateCounting m n s))"
    and QueueCreate_orderly: "unat b + unat z * unat k \<le> 2 ^ 32 \<Longrightarrow> orderly (snd (xQueueCreate k z b s))"
    and MutexCreate_orderly: "orderly (snd (xMutexCreate s))"
proof -
  obtain h a where s: "s = conc h a" "list_rep h (k_heap a)" "strict a" using assms by (rule orderlyE)
  note ok = strict_ok [OF s(3)] and keep = keeps_strict(2) [OF _ s(3)]
  show "orderly (snd (xSemaphoreCreateCounting m n s))"
    using orderly_value [OF SemaphoreCreateCounting_refines [OF s(2)] keep [OF SemaphoreCreateCounting_ok [OF ok]]]
    by (simp add: s split_beta)
  show "orderly (snd (xQueueCreate k z b s))" if "unat b + unat z * unat k \<le> 2 ^ 32"
    using orderly_value [OF QueueCreate_refines [OF s(2)] keep [OF QueueCreate_ok [OF ok that]]]
    by (simp add: s split_beta)
  show "orderly (snd (xMutexCreate s))"
    using orderly_value [OF MutexCreate_refines [OF s(2)] keep [OF MutexCreate_ok [OF ok]]]
    by (simp add: s split_beta)
qed

end
