(* ===== verification/Kernel_View.thy ===== *)
theory Kernel_View
  imports Kernel_Entry
begin

section \<open>Reading the lists of a kernel, and kernels with given lists\<close>

text \<open>
  \<open>queue_of s l\<close> follows the \<open>next\<close> pointers of list \<open>l\<close> and gives the tasks in it, front
  first; on a good kernel it is the list of the specification. \<open>heap_of\<close> goes the other
  way: it lays out a heap for given lists, so that every list-level state in order is the
  abstraction of a kernel of the code. \<open>run_state\<close> and \<open>run_value\<close> carry a result of the list level
  back to the code, and \<open>blocks_on\<close> is what it means for a task to start waiting.
\<close>

subsection \<open>The tasks in a list\<close>

fun walk_nodes :: "nat \<Rightarrow> list_heap \<Rightarrow> node_ref option \<Rightarrow> node_ref list" where
  "walk_nodes 0 h node = []"
| "walk_nodes (Suc n) h None = []"
| "walk_nodes (Suc n) h (Some m) = m # walk_nodes n h (n_next (h_nodes h m))"

definition queue_of :: "'p kernel \<Rightarrow> list_ref \<Rightarrow> nat list" where
  "queue_of s l = map task_of (walk_nodes OS_MAX_TASKS (k_heap s) (l_head (h_lists (k_heap s) l)))"

lemma walk_dseg:
  "dseg (h_nodes h) p xs None \<Longrightarrow> length xs \<le> n \<Longrightarrow> walk_nodes n h (first_or xs None) = xs"
proof (induction xs arbitrary: p n)
  case Nil
  then show ?case by (cases n) simp_all
next
  case (Cons x xs)
  then show ?case by (cases n) auto
qed

text \<open>A list has nodes of one kind only, so that a task is in it at most once.\<close>

lemma node_of_task: "t \<in> task_of ` N \<longleftrightarrow> SchedNode t \<in> N \<or> DelayNode t \<in> N"
proof
  assume "t \<in> task_of ` N"
  then obtain m where "m \<in> N" "task_of m = t" by auto
  then show "SchedNode t \<in> N \<or> DelayNode t \<in> N" by (cases m) auto
qed force

lemma inj_task_of:
  assumes "qwf H"
  shows "inj_on task_of (set (sp_nodes H l))"
proof (rule inj_onI)
  fix m n assume mn: "m \<in> set (sp_nodes H l)" "n \<in> set (sp_nodes H l)" "task_of m = task_of n"
  then have "sp_place H m = Some l" "sp_place H n = Some l"
    using qwf_mem [OF assms] by simp_all
  then show "m = n"
    using mn(3) qwf_sched [OF assms, of "task_of m" l] qwf_delay [OF assms, of "task_of m" l]
    by (cases m; cases n) auto
qed

lemma list_length:
  assumes "qwf H"
  shows "length (sp_nodes H l) \<le> OS_MAX_TASKS"
proof -
  note inj = inj_task_of [OF assms, of l]
  from inj have "length (sp_nodes H l) = card (task_of ` set (sp_nodes H l))"
    using qwf_distinct [OF assms] by (simp add: card_image distinct_card)
  also have "\<dots> \<le> card {..<8::nat}"
    using qwf_mem [OF assms] qwf_pool [OF assms] by (intro card_mono) auto
  finally show ?thesis by simp
qed

lemma queue_of_conc:
  assumes "list_rep h (k_heap a)" "kinv X a"
  shows "queue_of (conc h a) l = map task_of (sp_nodes (k_heap a) l)"
  using walk_dseg [OF rep_dseg [OF assms(1)]] rep_head [OF assms(1)] list_length [OF kinv_qwf [OF assms(2)]]
  by (simp add: queue_of_def del: OS_MAX_TASKS_def)

subsection \<open>A heap for given lists\<close>

definition heap_of :: "list_spec \<Rightarrow> list_heap" where
  "heap_of A = \<lparr>
     h_lists = (\<lambda>l. let xs = sp_nodes A l in
       \<lparr>l_head = first_or xs None, l_tail = last_or None xs, l_size = of_nat (length xs)\<rparr>),
     h_nodes = (\<lambda>n. case sp_place A n of
         None \<Rightarrow> \<lparr>n_previous = None, n_next = None, n_owner = Some (task_of n), n_linked = False\<rparr>
       | Some l \<Rightarrow> \<lparr>n_previous = last_or None (takeWhile (\<lambda>m. m \<noteq> n) (sp_nodes A l)),
                    n_next = first_or (tl (dropWhile (\<lambda>m. m \<noteq> n) (sp_nodes A l))) None,
                    n_owner = Some (task_of n), n_linked = True\<rparr>)\<rparr>"

lemma heap_of_dseg:
  assumes "\<And>n. n \<in> set zs \<Longrightarrow> sp_place A n = Some l" and "sp_nodes A l = ys @ zs" and "distinct (ys @ zs)"
  shows "dseg (h_nodes (heap_of A)) (last_or None ys) zs None"
  using assms
proof (induction zs arbitrary: ys)
  case (Cons z zs)
  have "takeWhile (\<lambda>m. m \<noteq> z) (ys @ z # zs) = ys" "dropWhile (\<lambda>m. m \<noteq> z) (ys @ z # zs) = z # zs"
    using Cons.prems(3) by (auto simp: takeWhile_append dropWhile_append)
  then have z: "n_previous (h_nodes (heap_of A) z) = last_or None ys"
    "n_next (h_nodes (heap_of A) z) = first_or zs None"
    using Cons.prems(1) [of z] Cons.prems(2) by (simp_all add: heap_of_def)
  have "dseg (h_nodes (heap_of A)) (last_or None (ys @ [z])) zs None"
    using Cons.prems by (intro Cons.IH) auto
  then show ?case using z by simp
qed simp

lemma heap_of_rep:
  assumes "qwf A"
  shows "list_rep (heap_of A) A"
  unfolding list_rep_def
proof (intro conjI allI)
  fix l n
  show "header_ok (h_lists (heap_of A) l) (sp_nodes A l)"
    by (simp add: heap_of_def header_ok_def Let_def)
  show "dseg (h_nodes (heap_of A)) None (sp_nodes A l) None"
    using heap_of_dseg [of "sp_nodes A l" A l "[]"] qwf_mem [OF assms] qwf_distinct [OF assms] by simp
  show "distinct (sp_nodes A l)" by (rule qwf_distinct [OF assms])
  show "n \<in> set (sp_nodes A l) \<longleftrightarrow> sp_place A n = Some l" by (rule qwf_mem [OF assms])
  show "n_linked (h_nodes (heap_of A) n) \<longleftrightarrow> sp_place A n \<noteq> None"
    by (simp add: heap_of_def split: option.split)
  show "sp_place A n \<noteq> None \<longrightarrow> task_of n < OS_MAX_TASKS"
    using qwf_pool [OF assms] by auto
  show "task_of n < OS_MAX_TASKS \<longrightarrow> n_owner (h_nodes (heap_of A) n) = Some (task_of n)"
    by (simp add: heap_of_def split: option.split)
qed

definition realize :: "'p spec_kernel \<Rightarrow> 'p kernel" where
  "realize a = conc (heap_of (k_heap a)) a"

lemma realize_good: "kernel_ok a \<Longrightarrow> good (realize a)"
  unfolding realize_def by (rule goodI) (auto simp: kernel_ok_def intro: heap_of_rep kinv_qwf)

subsection \<open>From the list level to the code\<close>

lemma goodD:
  assumes "good s"
  obtains h a where "s = conc h a" "list_rep h (k_heap a)" "kernel_ok a"
    "\<forall>l. queue_of s l = map task_of (sp_nodes (k_heap a) l)"
  using assms by (elim goodE) (metis kernel_ok_def queue_of_conc)

lemma run_value:
  assumes "sim krelv m (Some (r, b))" and "kernel_ok b"
  shows "\<exists>s'. m = Some (r, s') \<and> good s' \<and> (\<exists>h. s' = conc h b \<and> list_rep h (k_heap b)) \<and>
    (\<forall>l. queue_of s' l = map task_of (sp_nodes (k_heap b) l))"
proof -
  obtain h where h: "m = Some (r, conc h b)" "list_rep h (k_heap b)"
    using simD [OF assms(1) refl] by (auto simp: krelv_def krel_def)
  then show ?thesis
    using assms(2) by (auto simp: goodI queue_of_conc kernel_ok_def intro!: goodI)
qed

lemma run_state:
  assumes "sim krel m (Some b)" and "kernel_ok b"
  shows "\<exists>s'. m = Some s' \<and> good s' \<and> (\<exists>h. s' = conc h b \<and> list_rep h (k_heap b)) \<and>
    (\<forall>l. queue_of s' l = map task_of (sp_nodes (k_heap b) l))"
proof -
  obtain h where h: "m = Some (conc h b)" "list_rep h (k_heap b)"
    using simD [OF assms(1) refl] by (auto simp: krel_def)
  then show ?thesis
    using assms(2) by (auto simp: goodI queue_of_conc kernel_ok_def intro!: goodI)
qed

lemma dispatched_kernel_ok: "dispatched a b \<Longrightarrow> kernel_ok b"
  by (simp add: dispatched_def live_kernel_ok)

subsection \<open>Every task is where its state says\<close>

lemma list_members:
  assumes ok: "kernel_ok a"
  shows "t \<in> task_of ` set (sp_nodes (k_heap a) l) \<longleftrightarrow>
    sched_place (k_tasks a t) = Some l \<or> delay_place (k_tasks a t) = Some l"
proof -
  have kinv: "kinv {} a" using ok by (simp add: kernel_ok_def)
  have "t \<in> task_of ` set (sp_nodes (k_heap a) l) \<longleftrightarrow>
      SchedNode t \<in> set (sp_nodes (k_heap a) l) \<or> DelayNode t \<in> set (sp_nodes (k_heap a) l)"
    by (rule node_of_task)
  then show ?thesis
    using qwf_mem [OF kinv_qwf [OF kinv]] kinv_place [OF kinv, of t] by (simp add: place_ok_def)
qed

lemma distinct_tasks:
  assumes ok: "kernel_ok a"
  shows "distinct (map task_of (sp_nodes (k_heap a) l))"
proof -
  have "qwf (k_heap a)" using ok kinv_qwf by (auto simp: kernel_ok_def)
  then show ?thesis by (simp add: distinct_map inj_task_of qwf_distinct)
qed

lemma queue_members:
  assumes "good s"
  shows "distinct (queue_of s l)"
    and "t \<in> set (queue_of s l) \<longleftrightarrow> sched_place (k_tasks s t) = Some l \<or> delay_place (k_tasks s t) = Some l"
  using assms by (auto elim!: goodD simp: list_members distinct_tasks)

subsection \<open>Waiting lists of the code\<close>

lemma front_node:
  assumes "kernel_ok a" "is_wait l" "map task_of (sp_nodes (k_heap a) l) = t # ts"
  obtains ns where "sp_nodes (k_heap a) l = SchedNode t # ns" "map task_of ns = ts"
  using assms(1,2)
proof (cases rule: front_waiter)
  case (waiter u ns)
  then show ?thesis using assms(3) that by simp
qed (use assms(3) in simp)

lemma waiters_of: "is_wait l \<Longrightarrow> waiters a l = sp_nodes (k_heap a) l"
  by (simp add: waiters_def)

lemma views_conc [simp]: "views (conc h a) = views a"
  by (simp add: views_def fun_eq_iff)

lemma queue_sorted:
  assumes "good s" and "is_wait l"
  shows "sorted_wrt (\<lambda>u v. t_effective_priority (k_tasks s v) \<le> t_effective_priority (k_tasks s u)) (queue_of s l)"
proof -
  obtain h a where s: "s = conc h a" "kernel_ok a" "\<forall>l. queue_of s l = map task_of (sp_nodes (k_heap a) l)"
    using assms(1) by (rule goodD)
  then have "sorted_ok a" by (auto simp: kernel_ok_def dest: kinv_sorted)
  then show ?thesis using assms(2) s(1,3) by (simp add: sorted_ok_def prio_of_def sorted_wrt_map)
qed

lemma map_insert_where:
  "(\<And>y. P y = Q (f y)) \<Longrightarrow> map f (insert_where P x xs) = insert_where Q (f x) (map f xs)"
  by (induction xs) auto

text \<open>
  A task that blocked: its state, and its place in the waiting list, behind all tasks of the
  same or a higher priority. Nothing else changes but which task runs.
\<close>

definition blocks_on :: "nat \<Rightarrow> list_ref \<Rightarrow> 'p kernel \<Rightarrow> 'p kernel \<Rightarrow> bool" where
  "blocks_on c l s s' \<longleftrightarrow>
     t_state (k_tasks s' c) = OS_TASK_BLOCKED_OBJECT \<and> t_wait_list (k_tasks s' c) = Some l \<and>
     (\<forall>u. u \<noteq> c \<longrightarrow> views s' u = views s u) \<and>
     queue_of s' l = insert_where (\<lambda>u. t_effective_priority (k_tasks s u) < t_effective_priority (k_tasks s c))
       c (queue_of s l) \<and>
     (\<forall>k. is_wait k \<and> k \<noteq> l \<longrightarrow> queue_of s' k = queue_of s k) \<and> top_running s'"

lemma blocked_blocks:
  assumes "blocked_on c l kind obj buf timeout a b" "dispatched a b" and l: "is_wait l"
    and "\<forall>l. queue_of s l = map task_of (sp_nodes (k_heap a) l)" "\<forall>l. queue_of s' l = map task_of (sp_nodes (k_heap b) l)"
    and "s = conc h a" "s' = conc h' b"
  shows "blocks_on c l s s'"
proof -
  obtain w d where views: "views b = (views a)(c := view ((block_tcb l kind obj buf (block_deadline timeout a)
        (k_tasks a c))\<lparr>t_wake_tick := w, t_delay_list := d\<rparr>))"
    and waiters: "waiters b = (waiters a)(l :=
       insert_where (\<lambda>m. prio_of a m < t_effective_priority (k_tasks a c)) (SchedNode c) (waiters a l))"
    using assms(1) by (auto simp: blocked_on_def)
  have c: "views b c = view ((block_tcb l kind obj buf (block_deadline timeout a) (k_tasks a c))
      \<lparr>t_wake_tick := w, t_delay_list := d\<rparr>)" using views by simp
  have "t_state (views b c) = OS_TASK_BLOCKED_OBJECT" "t_wait_list (views b c) = Some l"
    unfolding c by (simp_all add: block_tcb_def view_def)
  then have "t_state (k_tasks b c) = OS_TASK_BLOCKED_OBJECT" "t_wait_list (k_tasks b c) = Some l"
    by (auto simp: views_def view_def split: if_splits)
  moreover have "sp_nodes (k_heap b) k = sp_nodes (k_heap a) k" if "is_wait k" "k \<noteq> l" for k
    using fun_cong [OF waiters, of k] that by (simp add: waiters_of)
  moreover have "map task_of (sp_nodes (k_heap b) l) =
      insert_where (\<lambda>u. t_effective_priority (k_tasks a u) < t_effective_priority (k_tasks a c)) c
        (map task_of (sp_nodes (k_heap a) l))"
    using fun_cong [OF waiters, of l] l
    by (simp add: waiters_of map_insert_where [where f = task_of and
      Q = "\<lambda>u. t_effective_priority (k_tasks a u) < t_effective_priority (k_tasks a c)"] prio_of_def)
  ultimately show ?thesis
    using assms(2,4-7) views by (auto simp: blocks_on_def dispatched_def top_running_def)
qed

end
