(* ===== verification/Kernel_Example.thy ===== *)
theory Kernel_Example
  imports Kernel_View
begin

section \<open>An example kernel\<close>

text \<open>
  A running system with every kind of waiting: eight tasks, of which the Idle task, task 1 and
  task 7 are ready, task 1 owns mutex 2, task 2 runs and owns mutex 0, task 3 waits for
  semaphore 0 until tick 11, task 4 sleeps until tick 12, task 5 waits for mutex 0 and lends
  task 2 its priority, and task 6 waits for a message on queue 1. Queue 0 holds two of three
  messages, queue 2 is full. It is the concrete input at which the properties are applied.
\<close>

definition example_task :: "nat \<Rightarrow> u8 \<Rightarrow> u8 \<Rightarrow> os_task_state_t \<Rightarrow> os_task_t" where
  "example_task t base eff st = zero_task\<lparr>t_id := of_nat t, t_name := ''t'', t_entry := 0x100, t_sp := 0x20001000,
     t_base_priority := base, t_effective_priority := eff, t_state := st\<rparr>"

definition example_tasks :: "nat \<Rightarrow> os_task_t" where
  "example_tasks t =
     (if t = 0 then example_task 0 0 0 OS_TASK_READY
      else if t = 1 then example_task 1 2 2 OS_TASK_READY
      else if t = 2 then (example_task 2 3 5 OS_TASK_RUNNING)\<lparr>t_slice_remaining := 1\<rparr>
      else if t = 3 then (example_task 3 4 4 OS_TASK_BLOCKED_OBJECT)
        \<lparr>t_wait_kind := OS_WAIT_SEMAPHORE, t_wait_object := Some (SemObj 0), t_wait_list := Some (SemWaiters 0),
         t_wait_deadline := 11, t_wake_tick := 11, t_delay_list := Some (DelayedList 0)\<rparr>
      else if t = 4 then (example_task 4 4 4 OS_TASK_BLOCKED_DELAY)
        \<lparr>t_wake_tick := 12, t_delay_list := Some (DelayedList 0)\<rparr>
      else if t = 5 then (example_task 5 5 5 OS_TASK_BLOCKED_OBJECT)
        \<lparr>t_wait_kind := OS_WAIT_MUTEX, t_wait_object := Some (MutexObj 0), t_wait_list := Some (MutexWaiters 0),
         t_wait_deadline := OS_WAIT_FOREVER\<rparr>
      else if t = 6 then (example_task 6 6 6 OS_TASK_BLOCKED_OBJECT)
        \<lparr>t_wait_kind := OS_WAIT_QUEUE_RECEIVE, t_wait_object := Some (QueueObj 1),
         t_wait_list := Some (QueueReceiveWaiters 1), t_wait_buffer := 0x3000, t_wait_deadline := OS_WAIT_FOREVER\<rparr>
      else if t = 7 then example_task 7 5 5 OS_TASK_READY
      else zero_task\<lparr>t_id := of_nat t\<rparr>)"

definition example_lists :: list_spec where
  "example_lists = \<lparr>
     sp_nodes = (\<lambda>l. if l = ReadyList 0 then [SchedNode 0] else if l = ReadyList 2 then [SchedNode 1]
       else if l = ReadyList 5 then [SchedNode 7]
       else if l = SemWaiters 0 then [SchedNode 3] else if l = MutexWaiters 0 then [SchedNode 5]
       else if l = QueueReceiveWaiters 1 then [SchedNode 6]
       else if l = DelayedList 0 then [DelayNode 3, DelayNode 4] else []),
     sp_place = (\<lambda>n. if n = SchedNode 0 then Some (ReadyList 0) else if n = SchedNode 1 then Some (ReadyList 2)
       else if n = SchedNode 7 then Some (ReadyList 5)
       else if n = SchedNode 3 then Some (SemWaiters 0) else if n = SchedNode 5 then Some (MutexWaiters 0)
       else if n = SchedNode 6 then Some (QueueReceiveWaiters 1)
       else if n = DelayNode 3 \<or> n = DelayNode 4 then Some (DelayedList 0) else None)\<rparr>"

definition example_queue :: "addr \<Rightarrow> size_t \<Rightarrow> size_t \<Rightarrow> size_t \<Rightarrow> size_t \<Rightarrow> os_queue_t" where
  "example_queue buf cap r w n = \<lparr>q_used = True, q_buffer = buf, q_item_size = 4, q_capacity = cap,
     q_head = r, q_tail = w, q_count = n\<rparr>"

definition example_spec :: "'p \<Rightarrow> 'p spec_kernel" where
  "example_spec port = \<lparr>k_initialized = True, k_started = True, k_tasks = example_tasks, k_task_count = 8,
     k_px_delayed = Some (DelayedList 0), k_px_overflow_delayed = Some (DelayedList 1),
     k_ready_bitmap = 37, k_tick = 10, k_current = Some 2, k_last_from = None, k_last_to = Some 2,
     k_last_reason = OS_SWITCH_START, k_switch_count = 1, k_critical_nesting = 0, k_sched_pending = False,
     k_idle_task = Some 0, k_last_error = OS_STATUS_OK,
     k_sems = (\<lambda>i. if i = 0 then \<lparr>s_used = True, s_count = 0, s_maximum_count = 3\<rparr>
                    else if i = 1 then \<lparr>s_used = True, s_count = 1, s_maximum_count = 1\<rparr>
                    else if i = 2 then \<lparr>s_used = True, s_count = 1, s_maximum_count = 2\<rparr>
                    else if i = 3 then \<lparr>s_used = True, s_count = 0, s_maximum_count = 1\<rparr> else zero_sem),
     k_queues = (\<lambda>i. if i = 0 then example_queue 0x1000 3 1 0 2
                      else if i = 1 then example_queue 0x2000 2 0 0 0
                      else if i = 2 then example_queue 0x2100 1 0 0 1 else zero_queue),
     k_mutexes = (\<lambda>i. if i = 0 then \<lparr>m_used = True, m_owner = Some 2\<rparr>
                       else if i = 1 then \<lparr>m_used = True, m_owner = None\<rparr>
                       else if i = 2 then \<lparr>m_used = True, m_owner = Some 1\<rparr> else zero_mutex),
     k_memory = (\<lambda>a. ucast a), k_port = port, k_heap = example_lists\<rparr>"

definition example :: "'p \<Rightarrow> 'p kernel" where
  "example port = realize (example_spec port)"

lemmas example_defs = example_tasks_def example_task_def example_lists_def example_queue_def

lemma example_qwf: "qwf example_lists"
  unfolding qwf_def
  by (auto simp: example_lists_def)

lemma example_kinv: "kinv {} (example_spec port)"
proof (rule kinvI)
  show "qwf (k_heap (example_spec port))" by (simp add: example_spec_def example_qwf)
  show "bits_ok (example_spec port)"
    unfolding bits_ok_def
  proof (intro allI impI)
    fix p :: u8
    assume "p < 8"
    then have "unat p < 8" by (simp add: word_less_nat_alt)
    then have "p \<in> of_nat ` {0, 1, 2, 3, 4, 5, 6, 7}"
      by (intro image_eqI [where x = "unat p"]) auto
    then show "bit (k_ready_bitmap (example_spec port)) (unat p) \<longleftrightarrow>
        sp_nodes (k_heap (example_spec port)) (ReadyList p) \<noteq> []"
      by (elim imageE insertE emptyE) (simp_all add: example_spec_def example_lists_def)
  qed
  show "sorted_ok (example_spec port)"
    by (simp add: sorted_ok_def example_spec_def example_lists_def wake_of_def example_tasks_def)
  show "mutex_ok (example_spec port)"
    by (auto simp: mutex_ok_def example_spec_def example_defs zero_mutex_def)
  show "base_ok (example_spec port) t" for t
    by (auto simp: base_ok_def example_spec_def example_defs prio_ok_def zero_task_def unat_of_nat)
  show "wait_ok (k_tasks (example_spec port) t)" "place_ok (example_spec port) t" for t
    by (auto simp: wait_ok_def place_ok_def waits_on_def sched_place_def delay_place_def
        example_spec_def example_defs zero_task_def)
qed (simp_all add: example_spec_def px_ok_def)

lemma example_kernel_ok: "kernel_ok (example_spec port)"
  unfolding kernel_ok_def
proof (intro conjI example_kinv)
  show "current_ok (example_spec port)"
    by (auto simp: current_ok_def example_spec_def example_defs zero_task_def)
  show "time_ok True (example_spec port)"
    by (auto simp: time_ok_def example_spec_def example_defs split: if_splits)
  show "objects_ok (example_spec port)"
    by (auto simp: objects_ok_def example_spec_def example_defs queue_ok_def queue_valid_def sem_ok_def
        zero_sem_def zero_queue_def)
qed (simp add: boot_ok_def example_spec_def)

lemma example_strict: "strict (example_spec port)"
proof -
  have waits: "waits_for (example_spec port) = {(5, 2)}"
    by (auto simp: waits_for_def mwait_def example_spec_def example_defs zero_task_def zero_mutex_def split: if_splits)
  have reach: "(u, t) \<in> {(5, 2)}\<^sup>* \<longleftrightarrow> u = t \<or> u = 5 \<and> t = 2" for u t :: nat
    by (auto elim: converse_rtranclE rtranclE)
  have max: "inherits {(5, 2)} base t (if t = 2 then max (base 2) (base 5) else base t)" for base :: "nat \<Rightarrow> u8" and t
    unfolding inherits_def reach by (auto simp: max_def)
  have eff: "t_effective_priority (example_tasks t) = (if t = 2 then max (t_base_priority (example_tasks 2))
      (t_base_priority (example_tasks 5)) else t_base_priority (example_tasks t))" for t
    by (simp add: example_defs zero_task_def)
  have "inherit_ok (example_spec port)"
    unfolding inherit_ok_def waits using max [of "\<lambda>u. t_base_priority (example_tasks u)"]
    by (simp add: example_spec_def eff)
  moreover have "top_running (example_spec port)"
    by (simp add: top_running_def example_spec_def) (simp add: example_defs zero_task_def)
  ultimately show ?thesis
    using example_kernel_ok by (simp add: strict_def) (simp add: example_spec_def)
qed

lemma example_good: "good (example port)"
  unfolding example_def by (rule realize_good [OF example_kernel_ok])

lemma example_orderly: "orderly (example port)"
  unfolding example_def realize_def
  by (rule orderlyI [OF heap_of_rep [OF kinv_qwf [OF example_kinv]] example_strict])

text \<open>Reading the example.\<close>

lemma example_simps [simp]:
  "k_tasks (example port) = example_tasks" "k_current (example port) = Some 2" "k_started (example port)"
  "k_tick (example port) = 10" "k_task_count (example port) = 8" "k_critical_nesting (example port) = 0"
  "k_port (example port) = port" "k_idle_task (example port) = Some 0"
  "k_sems (example port) = k_sems (example_spec port)" "k_queues (example port) = k_queues (example_spec port)"
  "k_mutexes (example port) = k_mutexes (example_spec port)" "k_memory (example port) = (\<lambda>a. ucast a)"
  by (simp_all add: example_def realize_def) (simp_all add: example_spec_def)

lemma example_task_simps:
  "example_tasks 0 = example_task 0 0 0 OS_TASK_READY"
  "example_tasks (Suc 0) = example_task 1 2 2 OS_TASK_READY"
  "example_tasks 2 = (example_task 2 3 5 OS_TASK_RUNNING)\<lparr>t_slice_remaining := 1\<rparr>"
  "example_tasks 7 = example_task 7 5 5 OS_TASK_READY"
  "t_state (example_tasks 3) = OS_TASK_BLOCKED_OBJECT" "t_wait_list (example_tasks 3) = Some (SemWaiters 0)"
  "t_delay_list (example_tasks 3) = Some (DelayedList 0)"
  "t_state (example_task t b e st) = st" "t_effective_priority (example_task t b e st) = e"
  "t_base_priority (example_task t b e st) = b"
  by (simp_all add: example_tasks_def) (simp_all add: example_task_def)

lemma example_queue_of: "queue_of (example port) l = map task_of (sp_nodes example_lists l)"
proof -
  have "list_rep (heap_of (k_heap (example_spec port))) (k_heap (example_spec port))"
    by (rule heap_of_rep [OF kinv_qwf [OF example_kinv]])
  from queue_of_conc [OF this example_kinv] show ?thesis
    by (simp add: example_def realize_def) (simp add: example_spec_def)
qed

text \<open>The same kernel one tick earlier, when no task is due at the next tick.\<close>

definition example_quiet :: "'p \<Rightarrow> 'p kernel" where
  "example_quiet port = realize ((example_spec port)\<lparr>k_tick := 9\<rparr>)"

lemma example_quiet_orderly: "orderly (example_quiet port)"
proof -
  let ?a = "(example_spec port)\<lparr>k_tick := 9\<rparr>"
  have kinv: "kinv {} ?a" using example_kinv [of port] by simp
  have "time_ok True ?a"
    by (auto simp: time_ok_def example_spec_def example_defs split: if_splits)
  then have "kernel_ok ?a"
    using example_kernel_ok [of port] kinv by (simp add: kernel_ok_def current_ok_def objects_ok_def boot_ok_def)
  then have "strict ?a"
    using example_strict [of port] by (simp add: strict_def inherit_ok_def waits_for_def top_running_def)
  then show ?thesis
    unfolding example_quiet_def realize_def
    by (intro orderlyI heap_of_rep kinv_qwf [OF kinv])
qed

lemma example_quiet_simps:
  "k_tasks (example_quiet port) = example_tasks" "k_current (example_quiet port) = Some 2"
  "k_started (example_quiet port)" "k_tick (example_quiet port) = 9"
  "queue_of (example_quiet port) l = map task_of (sp_nodes example_lists l)"
proof -
  let ?a = "(example_spec port)\<lparr>k_tick := 9\<rparr>"
  show "k_tasks (example_quiet port) = example_tasks" "k_current (example_quiet port) = Some 2"
    "k_started (example_quiet port)" "k_tick (example_quiet port) = 9"
    by (simp_all add: example_quiet_def realize_def) (simp_all add: example_spec_def)
  have kinv: "kinv {} ?a" using example_kinv [of port] by simp
  from queue_of_conc [OF heap_of_rep [OF kinv_qwf [OF kinv]] kinv]
  show "queue_of (example_quiet port) l = map task_of (sp_nodes example_lists l)"
    by (simp add: example_quiet_def realize_def) (simp add: example_spec_def)
qed

end
