(* ===== verification/Sched_Properties.thy ===== *)
theory Sched_Properties
  imports Kernel_Example
begin

section \<open>Properties of the scheduler\<close>

text \<open>
  What the scheduling operations of the code do to a kernel in order: which task they pick,
  when they leave the running task alone, and how they rotate tasks of equal priority. The
  lemmas before each property carry the list-level result to the pointers.
\<close>

subsection \<open>Choosing the next task\<close>

lemma Schedule_result:
  "spec_SchedSchedule r e a = Some (n, b) \<Longrightarrow> k_started a \<Longrightarrow> n = k_current b"
  by (auto simp: spec_SchedSchedule_def spec_SchedRequeue_def os_CommitSwitch_def is_running_def Let_def
      split: option.splits if_splits Option.bind_splits prod.splits)

lemma SchedSchedule_top:
  assumes "good s" and "k_started s"
  shows "\<exists>s'. os_SchedSchedule r e s = Some (k_current s', s') \<and> good s' \<and> top_running s'"
proof -
  obtain h a where s: "s = conc h a" "list_rep h (k_heap a)" "kernel_ok a" using assms(1) by (rule goodE)
  have st: "k_started a" using assms(2) s(1) by simp
  have "live True {} a" "current_ok a" using s(3) st by (simp_all add: kernel_ok_live) (simp add: kernel_ok_def)
  then obtain n b where b: "spec_SchedSchedule r e a = Some (n, b)" "dispatched a b"
    using returnsD [OF SchedSchedule_ok] by fast
  have "n = k_current b" by (rule Schedule_result [OF b(1) st])
  with run_value [OF SchedSchedule_refines [OF s(2), of r e, unfolded b(1)] dispatched_kernel_ok [OF b(2)]] b(2)
  show ?thesis by (auto simp: s(1) dispatched_def top_running_def)
qed

lemma highest_not_above:
  assumes "kernel_ok a" and "\<And>t. t_state (k_tasks a t) = OS_TASK_READY \<Longrightarrow> t_effective_priority (k_tasks a t) \<le> p"
  shows "os_ReadyHighestPriority a < 0 \<or> (word_of_int (os_ReadyHighestPriority a) :: u8) \<le> p"
proof (rule HighestPriority_cases [of "{}" a])
  fix q t ns
  assume "q < 8" "os_ReadyHighestPriority a = uint q" "sp_nodes (k_heap a) (ReadyList q) = SchedNode t # ns"
  then show ?thesis
    using assms ready_member [of "{}" a t q] by (auto simp: kernel_ok_def)
qed (use assms in \<open>simp_all add: kernel_ok_def\<close>)

lemma SchedSchedule_stays:
  assumes "good s" and c: "k_current s = Some c"
    and top: "\<And>t. t_state (k_tasks s t) = OS_TASK_READY \<Longrightarrow>
      t_effective_priority (k_tasks s t) \<le> t_effective_priority (k_tasks s c)"
  shows "os_SchedSchedule r False s = Some (Some c, s)"
proof -
  obtain h a where s: "s = conc h a" "list_rep h (k_heap a)" "kernel_ok a" using assms(1) by (rule goodE)
  have "os_ReadyHighestPriority a < 0 \<or>
      (word_of_int (os_ReadyHighestPriority a) :: u8) \<le> t_effective_priority (k_tasks a c)"
    using top by (intro highest_not_above [OF s(3)]) (simp add: s(1))
  then show ?thesis
    using good_current [OF assms(1) c] c
    by (auto simp: os_SchedSchedule_def is_running_def s(1) Let_def)
qed

subsection \<open>Rotation within a priority\<close>

lemma Requeue_rotates:
  assumes ok: "kernel_ok a" and c: "k_current a = Some c" and p: "p = t_effective_priority (k_tasks a c)"
    and q: "sp_nodes (k_heap a) (ReadyList p) = SchedNode q # ns"
    and top: "\<And>t. t_state (k_tasks a t) = OS_TASK_READY \<Longrightarrow> t_effective_priority (k_tasks a t) \<le> p"
  shows "\<exists>b. spec_SchedRequeue c r a = Some (Some q, b) \<and> dispatched a b \<and> k_current b = Some q \<and>
    t_slice_remaining (k_tasks b q) = OS_TIME_SLICE_TICKS \<and> t_state (k_tasks b c) = OS_TASK_READY \<and>
    sp_nodes (k_heap b) = (sp_nodes (k_heap a))(ReadyList p := ns @ [SchedNode c])"
proof -
  note cur = kernel_ok_current [OF ok c]
  have live: "live True {} a" using ok cur by (simp add: kernel_ok_live)
  note kinv = live_kinv [OF live]
  note run = running_task [OF live, of c]
  define d where "d = ready_put c (set_state c OS_TASK_READY a)"
  have enq: "spec_ReadyEnqueue (Some c) (set_state c OS_TASK_READY a) = Some d"
  proof -
    have "p < 8" using ready_member [OF kinv, of q p] q by simp
    then show ?thesis
      using cur run p by (simp add: spec_ReadyEnqueue_def set_state_def list_ops_eq d_def ready_put_def Let_def)
        (simp add: nput_def)
  qed
  have lists: "sp_nodes (k_heap d) = (sp_nodes (k_heap a))(ReadyList p := SchedNode q # ns @ [SchedNode c])"
    using p q by (simp add: d_def ready_put_def set_state_def Let_def)
  obtain n b where b: "spec_SchedRequeue c r a = Some (n, b)" "dispatched a b"
    using returnsD [OF SchedRequeue_ok [OF live c, of r]] cur by fast
  have higher: "sp_nodes (k_heap a) (ReadyList u) = []" if "p < u" for u
  proof (rule ccontr)
    assume "sp_nodes (k_heap a) (ReadyList u) \<noteq> []"
    then obtain m where m: "m \<in> set (sp_nodes (k_heap a) (ReadyList u))" by (meson list.set_sel(1))
    then obtain t where "m = SchedNode t" using qwf_wait_nodes [OF kinv_qwf [OF kinv] m] by auto
    with ready_member [OF kinv, of t u] m top [of t] that show False by simp
  qed
  have pdn: "p < 8" using ready_member [OF kinv, of q p] q by simp
  have bit: "bit (k_ready_bitmap d) (unat u) \<longleftrightarrow> u = p \<or> sp_nodes (k_heap a) (ReadyList u) \<noteq> []" if "u < 8" for u
    using that pdn kinv_bits [OF kinv] p by (auto simp: d_def ready_put_def set_state_def bits_ok_def bit_simps Let_def)
  have "os_ReadyHighestPriority d = uint p"
    using ReadyScan_8 [of "k_ready_bitmap d"]
  proof (elim disjE exE conjE)
    fix v :: u8
    assume v: "v < 8" "os_ReadyScan (k_ready_bitmap d) 8 = uint v" "bit (k_ready_bitmap d) (unat v)"
      "\<forall>q. v < q \<and> q < 8 \<longrightarrow> \<not> bit (k_ready_bitmap d) (unat q)"
    then have "v = p" using bit [of v] bit [of p] higher [of v] pdn by (metis linorder_neqE)
    with v show ?thesis by (simp add: os_ReadyHighestPriority_def)
  qed (use bit [of p] pdn in auto)
  then have "spec_ReadyPopHighest d = Some (Some q, ready_drop p q d)"
    using lists by (simp add: spec_ReadyPopHighest_def pop_front_eq ready_drop_def)
  then have "(n, b) = os_CommitSwitch (Some c) (Some q) r (ready_drop p q d)"
    using b(1) by (simp add: spec_SchedRequeue_def enq)
  then have "n = Some q" "k_current b = Some q" "k_heap b = k_heap (ready_drop p q d)"
    "k_tasks b = (k_tasks d)(q := (k_tasks d q)\<lparr>t_state := OS_TASK_RUNNING, t_slice_remaining := OS_TIME_SLICE_TICKS\<rparr>)"
    by (auto simp: os_CommitSwitch_def Let_def upd_task_def)
  moreover have "q \<noteq> c" using ready_member [OF kinv, of q p] q cur by auto
  ultimately show ?thesis
    using b lists by (auto simp: fun_eq_iff d_def set_state_def)
qed

lemma Requeue_rotates_good:
  assumes good: "good s" and c: "k_current s = Some c" and p: "p = t_effective_priority (k_tasks s c)"
    and q: "queue_of s (ReadyList p) = q # qs"
    and top: "\<And>t. t_state (k_tasks s t) = OS_TASK_READY \<Longrightarrow> t_effective_priority (k_tasks s t) \<le> p"
  shows "\<exists>s'. os_SchedRequeue c r s = Some (Some q, s') \<and> good s' \<and> k_current s' = Some q \<and>
    t_slice_remaining (k_tasks s' q) = OS_TIME_SLICE_TICKS \<and> t_state (k_tasks s' c) = OS_TASK_READY \<and>
    (\<forall>l. queue_of s' l = (if l = ReadyList p then qs @ [c] else queue_of s l))"
proof -
  obtain h a where s: "s = conc h a" "list_rep h (k_heap a)" "kernel_ok a"
    and lists: "\<forall>l. queue_of s l = map task_of (sp_nodes (k_heap a) l)" using good by (rule goodD)
  have kinv: "kinv {} a" using s(3) by (simp add: kernel_ok_def)
  obtain n ns where n: "sp_nodes (k_heap a) (ReadyList p) = n # ns" "task_of n = q" "map task_of ns = qs"
    using q lists by (auto simp: map_eq_Cons_conv)
  then have "n = SchedNode q"
    using qwf_wait_nodes [OF kinv_qwf [OF kinv], of n "ReadyList p"] by auto
  with Requeue_rotates [OF s(3), of c p q ns r] n c p top s(1) obtain b where
    b: "spec_SchedRequeue c r a = Some (Some q, b)" "dispatched a b" "k_current b = Some q"
      "t_slice_remaining (k_tasks b q) = OS_TIME_SLICE_TICKS" "t_state (k_tasks b c) = OS_TASK_READY"
      "sp_nodes (k_heap b) = (sp_nodes (k_heap a))(ReadyList p := ns @ [SchedNode c])" by auto
  from run_value [OF SchedRequeue_refines [OF s(2), of c r, unfolded b(1)] dispatched_kernel_ok [OF b(2)]]
  show ?thesis using b n lists by (auto simp: s(1))
qed

subsection \<open>Every list holds the tasks that belong there\<close>

lemma places_of_good:
  assumes "good s"
  shows "t_state (k_tasks s t) = OS_TASK_BLOCKED_OBJECT \<Longrightarrow> \<exists>l. is_wait l \<and> t_wait_list (k_tasks s t) = Some l"
    and "t_state (k_tasks s t) = OS_TASK_BLOCKED_DELAY \<Longrightarrow> t_delay_list (k_tasks s t) \<noteq> None"
    and "delay_place (k_tasks s t) = Some l \<Longrightarrow> \<exists>i. l = DelayedList i"
proof -
  obtain h a where s: "s = conc h a" "kernel_ok a" using assms by (rule goodE)
  then have kinv: "kinv {} a" by (simp add: kernel_ok_def)
  note wait = kinv_wait [OF kinv, of t]
  show "\<exists>l. is_wait l \<and> t_wait_list (k_tasks s t) = Some l" if "t_state (k_tasks s t) = OS_TASK_BLOCKED_OBJECT"
    using that wait s(1)
    by (cases "t_wait_kind (k_tasks a t)") (auto simp: wait_ok_def waits_on_def elim!: wait_matches.elims)
  show "t_delay_list (k_tasks s t) \<noteq> None" if "t_state (k_tasks s t) = OS_TASK_BLOCKED_DELAY"
    using that wait s(1) by (simp add: wait_ok_def)
  show "\<exists>i. l = DelayedList i" if "delay_place (k_tasks s t) = Some l"
    using that kinv_place [OF kinv, of t] qwf_delay [OF kinv_qwf [OF kinv], of t l] s(1)
    by (auto simp: place_ok_def)
qed

lemma lists_of_good:
  assumes "good s"
  shows "t \<in> set (queue_of s (ReadyList p)) \<longleftrightarrow>
      t_state (k_tasks s t) = OS_TASK_READY \<and> t_effective_priority (k_tasks s t) = p"
    and "is_wait l \<Longrightarrow> t \<in> set (queue_of s l) \<longleftrightarrow>
      t_state (k_tasks s t) = OS_TASK_BLOCKED_OBJECT \<and> t_wait_list (k_tasks s t) = Some l"
    and "t \<in> set (queue_of s (DelayedList i)) \<longleftrightarrow>
      (t_state (k_tasks s t) = OS_TASK_BLOCKED_DELAY \<or> t_state (k_tasks s t) = OS_TASK_BLOCKED_OBJECT) \<and>
      t_delay_list (k_tasks s t) = Some (DelayedList i)"
  using places_of_good(1) [OF assms, of t] places_of_good(3) [OF assms, of t]
  by (auto simp: queue_members [OF assms] sched_place_def delay_place_def split: if_splits)

lemma delays_sorted:
  assumes "good s"
  shows "sorted_wrt (\<lambda>u v. t_wake_tick (k_tasks s u) \<le> t_wake_tick (k_tasks s v)) (queue_of s (DelayedList i))"
proof -
  obtain h a where s: "s = conc h a" "kernel_ok a" "\<forall>l. queue_of s l = map task_of (sp_nodes (k_heap a) l)"
    using assms by (rule goodD)
  then have "sorted_ok a" by (auto simp: kernel_ok_def dest: kinv_sorted)
  then show ?thesis using s(1,3) by (simp add: sorted_ok_def wake_of_def sorted_wrt_map)
qed

subsection \<open>Properties\<close>

text \<open>C33: the priority that \<open>os_ReadyHighestPriority\<close> reads off the bitmap is the highest
  one with a ready task, and it is -1 exactly when nobody is ready.\<close>

theorem highest_priority_is_highest:
  assumes "good s"
  shows "(os_ReadyHighestPriority s = - 1 \<and> (\<forall>p. queue_of s (ReadyList p) = [])) \<or>
    (\<exists>p<8. os_ReadyHighestPriority s = uint p \<and> queue_of s (ReadyList p) \<noteq> [] \<and>
      (\<forall>q>p. queue_of s (ReadyList q) = []))"
proof -
  obtain h a where s: "s = conc h a" "kernel_ok a"
    and lists: "\<forall>l. queue_of s l = map task_of (sp_nodes (k_heap a) l)" using assms by (rule goodD)
  have "kinv {} a" using s(2) by (simp add: kernel_ok_def)
  then show ?thesis
    by (cases rule: HighestPriority_cases) (auto simp: lists, auto simp: s(1))
qed

theorem highest_priority_is_highest_witness:
  "\<exists>p<8. os_ReadyHighestPriority (example ()) = uint p \<and> queue_of (example ()) (ReadyList p) \<noteq> []"
proof -
  have "1 \<in> set (queue_of (example ()) (ReadyList 2))"
    by (simp add: queue_members [OF example_good] sched_place_def example_task_simps)
  then have "queue_of (example ()) (ReadyList 2) \<noteq> []" by auto
  then show ?thesis using highest_priority_is_highest [OF example_good [of "()"]] by blast
qed

text \<open>C28: once the kernel is started, every scheduling decision returns, keeps the kernel in
  order and leaves a task running whose effective priority no ready task exceeds.\<close>

theorem schedule_picks_highest:
  assumes "good s" and "k_started s"
  shows "\<exists>s'. os_SchedSchedule r e s = Some (k_current s', s') \<and> good s' \<and> top_running s'"
  by (rule SchedSchedule_top [OF assms])

theorem schedule_picks_highest_witness:
  "\<exists>s'. os_SchedSchedule OS_SWITCH_YIELD True (example ()) = Some (k_current s', s') \<and> top_running s'"
  using schedule_picks_highest [OF example_good, of "()" OS_SWITCH_YIELD True] by (auto simp: example_simps)

text \<open>Without rotation, a scheduling decision changes nothing at all while no ready task
  has a higher effective priority than the running one.\<close>

lemma schedule_without_need:
  assumes "good s" and "k_current s = Some c"
    and "\<And>t. t_state (k_tasks s t) = OS_TASK_READY \<Longrightarrow>
      t_effective_priority (k_tasks s t) \<le> t_effective_priority (k_tasks s c)"
  shows "os_SchedSchedule r False s = Some (Some c, s)"
  by (rule SchedSchedule_stays [OF assms])


text \<open>C30: a yield of the running task, when it is of the highest ready priority and shares it,
  runs the task at the front of that ready queue with a full time slice, puts the yielding task
  at the back, and leaves every other list alone.\<close>

theorem yield_rotates:
  assumes "good s" and c: "k_current s = Some c" and p: "p = t_effective_priority (k_tasks s c)"
    and "queue_of s (ReadyList p) = q # qs"
    and "\<And>t. t_state (k_tasks s t) = OS_TASK_READY \<Longrightarrow> t_effective_priority (k_tasks s t) \<le> p"
  shows "\<exists>s'. os_SchedYieldCurrent s = Some (Some q, s') \<and> good s' \<and> k_current s' = Some q \<and>
    t_slice_remaining (k_tasks s' q) = OS_TIME_SLICE_TICKS \<and> t_state (k_tasks s' c) = OS_TASK_READY \<and>
    (\<forall>l. queue_of s' l = (if l = ReadyList p then qs @ [c] else queue_of s l))"
  using Requeue_rotates_good [OF assms, of OS_SWITCH_YIELD] good_current [OF assms(1) c]
  by (simp add: os_SchedYieldCurrent_def c)

theorem yield_rotates_witness:
  "\<exists>s'. os_SchedYieldCurrent (example ()) = Some (Some 7, s') \<and> queue_of s' (ReadyList 5) = [2]"
proof -
  have "queue_of (example ()) (ReadyList 5) = 7 # []" by (simp add: example_queue_of example_lists_def)
  from yield_rotates [OF example_good _ _ this, of 2] show ?thesis
    by (force simp: example_defs zero_task_def split: if_splits)
qed

end
