(* ===== verification/IPC_Properties.thy ===== *)
theory IPC_Properties
  imports Sched_Properties
begin

section \<open>Properties of semaphores and message queues\<close>

text \<open>
  What giving and taking a semaphore and sending to and receiving from a queue do, on every
  branch: the count or the message, the task that is woken or that blocks, its place among the
  waiting tasks. The content of a queue is \<open>queue_items\<close>: the messages in the ring, oldest
  first, read from the memory of the program.
\<close>

lemma good_current_ok:
  assumes "good s" "k_current s = Some c"
  obtains h a where "s = conc h a" "list_rep h (k_heap a)" "kernel_ok a" "k_current a = Some c" "k_started a"
    "t_state (k_tasks a c) = OS_TASK_RUNNING" "\<forall>l. queue_of s l = map task_of (sp_nodes (k_heap a) l)"
proof -
  obtain h a where s: "s = conc h a" "list_rep h (k_heap a)" "kernel_ok a"
    "\<forall>l. queue_of s l = map task_of (sp_nodes (k_heap a) l)" using assms(1) by (rule goodD)
  then show thesis using that kernel_ok_current [of a c] assms(2) by auto
qed

lemma SemIsValid_conc [simp]: "os_SemIsValid i (conc h a) = os_SemIsValid i a"
  by (simp add: os_SemIsValid_def split: option.split)

subsection \<open>Semaphores\<close>

lemma give_to_first:
  assumes "good s" "os_SemIsValid (Some i) s" "queue_of s (SemWaiters i) = t # ts"
  shows "\<exists>s'. os_SemGiveFromIsrContext (Some i) s = Some ((OS_STATUS_OK, Some t), s') \<and> good s' \<and>
    queue_of s' (SemWaiters i) = ts \<and> k_sems s' = k_sems s \<and>
    k_tasks s' = (k_tasks s)(t := clear_wait OS_STATUS_OK ((k_tasks s t)\<lparr>t_delay_list := None\<rparr>)) \<and>
    (\<forall>u \<in> set ts. t_effective_priority (k_tasks s u) \<le> t_effective_priority (k_tasks s t))"
proof -
  obtain h a where s: "s = conc h a" "list_rep h (k_heap a)" "kernel_ok a"
    "\<forall>l. queue_of s l = map task_of (sp_nodes (k_heap a) l)" using assms(1) by (rule goodD)
  obtain ns where ns: "sp_nodes (k_heap a) (SemWaiters i) = SchedNode t # ns" "map task_of ns = ts"
    using front_node [OF s(3), of "SemWaiters i" t ts] assms(3) s(4) by auto
  obtain b where b: "spec_SemGiveFromIsrContext (Some i) a = Some ((OS_STATUS_OK, Some t), b)" "kernel_ok b"
    "same_objects a b" "waiters b = (waiters a)(SemWaiters i := ns)"
    "k_tasks b = (k_tasks a)(t := woken_tcb OS_STATUS_OK (k_tasks a t))"
    using SemGive_wakes [OF s(3) _ ns(1)] assms(2) by (auto simp: s(1))
  have "sp_nodes (k_heap b) (SemWaiters i) = ns" using fun_cong [OF b(4), of "SemWaiters i"] by (simp add: waiters_def)
  moreover note run_value [OF SemGiveFromIsrContext_refines [OF s(2), of "Some i", unfolded b(1)] b(2)]
  ultimately show ?thesis
    using b(3,5) ns(2) queue_sorted [OF assms(1), of "SemWaiters i"] assms(3)
    by (auto simp: s(1) same_objects_def woken_tcb_def)
qed

text \<open>C24: giving a semaphore that tasks wait for hands it to the first of them: that task leaves the
  waiting list, becomes ready with status OK and is reported to the caller, the count stays as it is, no
  other task changes, and none of those still waiting is more urgent than the one that was woken.\<close>

theorem give_wakes_first:
  assumes "good s" "os_SemIsValid (Some i) s" "queue_of s (SemWaiters i) = t # ts"
  shows "\<exists>s'. os_SemGiveFromIsrContext (Some i) s = Some ((OS_STATUS_OK, Some t), s') \<and> good s' \<and>
    queue_of s' (SemWaiters i) = ts \<and> k_sems s' = k_sems s \<and>
    k_tasks s' = (k_tasks s)(t := clear_wait OS_STATUS_OK ((k_tasks s t)\<lparr>t_delay_list := None\<rparr>)) \<and>
    (\<forall>u \<in> set ts. t_effective_priority (k_tasks s u) \<le> t_effective_priority (k_tasks s t))"
  by (rule give_to_first [OF assms])

theorem give_wakes_first_witness:
  "\<exists>s'. os_SemGiveFromIsrContext (Some 0) (example ()) = Some ((OS_STATUS_OK, Some 3), s') \<and>
    queue_of s' (SemWaiters 0) = [] \<and> t_state (k_tasks s' 3) = OS_TASK_READY"
proof -
  have "os_SemIsValid (Some 0) (example ())" "queue_of (example ()) (SemWaiters 0) = 3 # []"
    by (simp_all add: os_SemIsValid_def example_queue_of example_lists_def) (simp_all add: example_spec_def)
  from give_wakes_first [OF example_good this] show ?thesis
    by (auto simp: clear_wait_def)
qed


text \<open>A semaphore that nobody waits for is counted up, unless its count is at the maximum: then the
  give is refused with LIMIT_REACHED. Nothing else changes.\<close>

lemma give_counts:
  assumes "good s" "os_SemIsValid (Some i) s" "queue_of s (SemWaiters i) = []"
  defines "full \<equiv> s_count (k_sems s i) = s_maximum_count (k_sems s i)"
  shows "\<exists>s'. os_SemGiveFromIsrContext (Some i) s =
      Some ((if full then OS_STATUS_LIMIT_REACHED else OS_STATUS_OK, None), s') \<and>
    good s' \<and> k_tasks s' = k_tasks s \<and> k_current s' = k_current s \<and> (\<forall>l. queue_of s' l = queue_of s l) \<and>
    k_sems s' = (if full then k_sems s else (k_sems s)(i := (k_sems s i)\<lparr>s_count := s_count (k_sems s i) + 1\<rparr>)) \<and>
    s_count (k_sems s' i) \<le> s_maximum_count (k_sems s' i)"
proof -
  obtain h a where s: "s = conc h a" "list_rep h (k_heap a)" "kernel_ok a"
    "\<forall>l. queue_of s l = map task_of (sp_nodes (k_heap a) l)" using assms(1) by (rule goodD)
  have bound: "s_count (k_sems b i) \<le> s_maximum_count (k_sems b i)" if "kernel_ok b" for b :: "'a spec_kernel"
    using that by (simp add: kernel_ok_def objects_ok_def sem_ok_def)
  define b where "b = (if full then a else upd_sem i (\<lambda>S. S\<lparr>s_count := s_count S + 1\<rparr>) a)"
  have run: "spec_SemGiveFromIsrContext (Some i) a =
      Some ((if full then OS_STATUS_LIMIT_REACHED else OS_STATUS_OK, None), b)"
    using SemGive_counts [OF s(3), of i] assms(2,3) s(4) by (simp add: s(1) b_def full_def)
  have ok: "kernel_ok b"
    using sem_count_steps(2) [OF s(3)] s(3) bound [OF s(3)] by (simp add: b_def full_def s(1))
  have "k_tasks b = k_tasks a" "k_current b = k_current a" "k_heap b = k_heap a"
    "k_sems b = (if full then k_sems a else (k_sems a)(i := (k_sems a i)\<lparr>s_count := s_count (k_sems a i) + 1\<rparr>))"
    by (simp_all add: b_def upd_sem_def)
  then show ?thesis
    using run_value [OF SemGiveFromIsrContext_refines [OF s(2), of "Some i", unfolded run] ok] s bound [OF ok] by auto
qed


text \<open>C23: a task that takes a semaphore of count zero with a timeout blocks: it enters the waiting list
  behind all tasks of the same or a higher priority, a task of the highest ready priority runs, and
  no other task, list of waiting tasks, semaphore, queue or mutex changes. When the semaphore is
  given while it is the first in the list, it is ready again with status OK, the count still zero.\<close>

theorem take_blocks:
  assumes "good s" "k_current s = Some c" "os_SemIsValid (Some i) s" "s_count (k_sems s i) = 0" "timeout \<noteq> 0"
  shows "\<exists>s'. os_SemTakeCurrent (Some i) timeout s = Some s' \<and> good s' \<and> blocks_on c (SemWaiters i) s s' \<and>
    k_sems s' = k_sems s \<and> k_queues s' = k_queues s \<and> k_mutexes s' = k_mutexes s \<and>
    (queue_of s' (SemWaiters i) = c # ts \<longrightarrow> (\<exists>s''. os_SemGiveFromIsrContext (Some i) s' =
        Some ((OS_STATUS_OK, Some c), s'') \<and> t_state (k_tasks s'' c) = OS_TASK_READY \<and>
      t_wait_result (k_tasks s'' c) = OS_STATUS_OK \<and> queue_of s'' (SemWaiters i) = ts \<and> s_count (k_sems s'' i) = 0))"
proof -
  obtain h a where s: "s = conc h a" "list_rep h (k_heap a)" "kernel_ok a" "k_current a = Some c" "k_started a"
    "t_state (k_tasks a c) = OS_TASK_RUNNING" "\<forall>l. queue_of s l = map task_of (sp_nodes (k_heap a) l)"
    using assms(1,2) by (rule good_current_ok)
  have "spec_SemTakeCurrent (Some i) timeout a = do { (_, s) \<leftarrow> spec_WaitBlockCurrent (Some (SemWaiters i))
      OS_WAIT_SEMAPHORE (Some (SemObj i)) 0 timeout a; Some s }"
    using s assms(3-5) by (simp add: spec_SemTakeCurrent_def)
  moreover have "wait_matches OS_WAIT_SEMAPHORE (Some (SemWaiters i)) (Some (SemObj i)) 0 (t_base_priority (k_tasks a c))"
    by simp
  ultimately obtain b where b: "spec_SemTakeCurrent (Some i) timeout a = Some b" "dispatched a b"
    "blocked_on c (SemWaiters i) OS_WAIT_SEMAPHORE (Some (SemObj i)) 0 timeout a b" "kernel_ok b"
    using returnsD [OF block_ok [OF s(3,4) assms(5)]] by fastforce
  obtain s' h' where s': "os_SemTakeCurrent (Some i) timeout s = Some s'" "good s'" "s' = conc h' b"
    "\<forall>l. queue_of s' l = map task_of (sp_nodes (k_heap b) l)"
    using run_state [OF SemTakeCurrent_refines [OF s(2), of "Some i" timeout, unfolded b(1)] b(4)] s(1) by auto
  have "blocks_on c (SemWaiters i) s s'"
    by (rule blocked_blocks [OF b(3,2) _ s(7) s'(4) s(1) s'(3)]) simp
  moreover have valid: "os_SemIsValid (Some i) s'"
    using assms(3) b(2) s(1) s'(3) by (simp add: os_SemIsValid_def dispatched_def same_objects_def)
  moreover have "s_count (k_sems s' i) = 0" "k_sems s' = k_sems s" "k_queues s' = k_queues s" "k_mutexes s' = k_mutexes s"
    using assms(4) b(2) s(1) s'(3) by (simp_all add: dispatched_def same_objects_def)
  moreover have "\<exists>s''. os_SemGiveFromIsrContext (Some i) s' = Some ((OS_STATUS_OK, Some c), s'') \<and>
      t_state (k_tasks s'' c) = OS_TASK_READY \<and> t_wait_result (k_tasks s'' c) = OS_STATUS_OK \<and>
      queue_of s'' (SemWaiters i) = ts \<and> k_sems s'' = k_sems s'"
    if "queue_of s' (SemWaiters i) = c # ts"
    using give_to_first [OF s'(2) valid that] by (auto simp: clear_wait_def)
  ultimately show ?thesis using s'(1,2) by fastforce
qed

theorem take_blocks_witness:
  "\<exists>s' s''. os_SemTakeCurrent (Some 3) 5 (example ()) = Some s' \<and> t_state (k_tasks s' 2) = OS_TASK_BLOCKED_OBJECT \<and>
    os_SemGiveFromIsrContext (Some 3) s' = Some ((OS_STATUS_OK, Some 2), s'') \<and>
    t_state (k_tasks s'' 2) = OS_TASK_READY"
proof -
  have empty: "queue_of (example ()) (SemWaiters 3) = []"
    by (simp add: example_queue_of example_lists_def)
  have "os_SemIsValid (Some 3) (example ())" "s_count (k_sems (example ()) 3) = 0" "k_current (example ()) = Some 2"
    by (simp_all add: os_SemIsValid_def) (simp_all add: example_spec_def)
  from take_blocks [OF example_good this(3,1,2), of 5 "[]"] show ?thesis
    by (auto simp: blocks_on_def empty)
qed


subsection \<open>Message queues\<close>

lemma QueueIsValid_conc [simp]: "os_QueueIsValid i (conc h a) = os_QueueIsValid i a"
  by (simp add: os_QueueIsValid_def split: option.split)

lemma set_result_sel [simp]:
  "k_tasks (set_result t r a) = (k_tasks a)(t := (k_tasks a t)\<lparr>t_wait_result := r\<rparr>)"
  "k_memory (set_result t r a) = k_memory a" "k_queues (set_result t r a) = k_queues a"
  "k_current (set_result t r a) = k_current a"
  by (simp_all add: set_result_def upd_task_def)

lemma upd_queue_sel [simp]:
  "k_queues (upd_queue i g a) = (k_queues a)(i := g (k_queues a i))" "k_memory (upd_queue i g a) = k_memory a"
  "k_tasks (upd_queue i g a) = k_tasks a" "k_current (upd_queue i g a) = k_current a"
  by (simp_all add: upd_queue_def)

lemma woken_by_fields:
  assumes "woken_by t r a b"
  shows "kernel_ok b" "k_memory b = k_memory a" "k_queues b = k_queues a" "t_wait_result (k_tasks b t) = r"
    "t_state (k_tasks b t) = OS_TASK_READY \<or> t_state (k_tasks b t) = OS_TASK_RUNNING" "u \<noteq> t \<Longrightarrow> views b u = views a u"
proof -
  have views: "views b = (views a)(t := view (woken_tcb r (k_tasks a t)))" using assms by (simp add: woken_by_def)
  have "t_wait_result (views b t) = r" "t_state (views b t) = OS_TASK_READY"
    unfolding views by (simp_all add: view_def woken_tcb_def clear_wait_def)
  then show "t_wait_result (k_tasks b t) = r" "t_state (k_tasks b t) = OS_TASK_READY \<or> t_state (k_tasks b t) = OS_TASK_RUNNING"
    by (auto simp: views_def view_def split: if_splits)
  show "views b u = views a u" if "u \<noteq> t" unfolding views using that by simp
qed (use assms in \<open>simp_all add: woken_by_def same_objects_def\<close>)

text \<open>C13: sending to a queue that has room and no waiting receiver appends the message, and nothing
  but the message: the ring holds the earlier messages and then the bytes of the sent item, memory outside
  the storage of the queue keeps its contents, and the sender goes on with status OK.\<close>

theorem send_appends:
  assumes "good s" "k_current s = Some c" "os_QueueIsValid (Some i) s" "item \<noteq> 0"
    and "queue_of s (QueueReceiveWaiters i) = []" "q_count (k_queues s i) < q_capacity (k_queues s i)"
  shows "\<exists>s'. os_QueueSendCurrent (Some i) item timeout s = Some s' \<and> good s' \<and>
    queue_items (k_memory s') (k_queues s' i) =
      queue_items (k_memory s) (k_queues s i) @ [bytes_at (k_memory s) item (q_item_size (k_queues s i))] \<and>
    (\<forall>x. apart (k_queues s i) x 1 \<longrightarrow> k_memory s' x = k_memory s x) \<and> (\<forall>j. j \<noteq> i \<longrightarrow> k_queues s' j = k_queues s j) \<and>
    k_current s' = Some c \<and> k_tasks s' = (k_tasks s)(c := (k_tasks s c)\<lparr>t_wait_result := OS_STATUS_OK\<rparr>)"
proof -
  obtain h a where s: "s = conc h a" "list_rep h (k_heap a)" "kernel_ok a" "k_current a = Some c" "k_started a"
    "t_state (k_tasks a c) = OS_TASK_RUNNING" "\<forall>l. queue_of s l = map task_of (sp_nodes (k_heap a) l)"
    using assms(1,2) by (rule good_current_ok)
  let ?Q = "k_queues a i"
  have i: "os_QueueIsValid (Some i) a" "q_count ?Q < q_capacity ?Q" using assms(3,6) by (simp_all add: s(1))
  note Q = queue_valid_ok [OF s(3) i(1)]
  define b where "b = set_result c OS_STATUS_OK (upd_queue i push_item (a\<lparr>k_memory :=
         mem_copy (os_QueueSlot ?Q (q_tail ?Q)) item (q_item_size ?Q) (k_memory a)\<rparr>))"
  have run: "spec_QueueSendCurrent (Some i) item timeout a = Some b"
    using QueueSend_no_receiver [OF s(3,4) i(1) assms(4)] assms(5) s(7) i(2) by (simp add: b_def)
  have ok: "kernel_ok b" using QueueSendCurrent_ok [OF s(3), of "Some i" item timeout] run by simp
  have outside: "mem_copy (os_QueueSlot ?Q (q_tail ?Q)) item (q_item_size ?Q) (k_memory a) x = k_memory a x"
    if "apart ?Q x 1" for x
  proof -
    have "\<not> x - os_QueueSlot ?Q (q_tail ?Q) < q_item_size ?Q"
      unfolding slot_tail [OF conjunct1 [OF Q] conjunct2 [OF conjunct2 [OF Q]]]
      using that slot_unat [of ?Q "unat (q_head ?Q) + unat (q_count ?Q)"] Q
      by (subst diff_less_iff) (auto simp: apart_def)
    then show ?thesis by (simp add: mem_copy_def)
  qed
  from run_state [OF QueueSendCurrent_refines [OF s(2), of "Some i" item timeout, unfolded run] ok] show ?thesis
    using items_push [of ?Q item "k_memory a"] Q i(2) outside s(1,4) by (auto simp: b_def upd_queue_def)
qed

theorem send_appends_witness:
  "\<exists>s'. os_QueueSendCurrent (Some 0) 0x4000 0 (example ()) = Some s' \<and>
    queue_items (k_memory s') (k_queues s' 0) = queue_items (k_memory (example ())) (k_queues (example ()) 0) @ [[0, 1, 2, 3]]"
proof -
  have "os_QueueIsValid (Some 0) (example ())" "queue_of (example ()) (QueueReceiveWaiters 0) = []"
    "q_count (k_queues (example ()) 0) < q_capacity (k_queues (example ()) 0)" "q_item_size (k_queues (example ()) 0) = 4"
    by (simp_all add: os_QueueIsValid_def queue_valid_def example_queue_of example_lists_def)
      (simp_all add: example_spec_def example_queue_def)
  moreover have "bytes_at (k_memory (example ())) 0x4000 4 = [0, 1, 2, 3]"
    by (simp add: bytes_at_def upt_rec)
  ultimately show ?thesis
    using send_appends [OF example_good, of "()" 2 0 "0x4000" 0] by auto
qed

text \<open>C14: receiving from a queue that holds a message, with no sender waiting, takes the oldest message:
  its bytes are in the receiver's buffer, and the queue holds the rest in the same order. The
  buffer must not overlap the storage of the queue.\<close>

theorem receive_takes_oldest:
  assumes "good s" "k_current s = Some c" "os_QueueIsValid (Some i) s" "out \<noteq> 0"
    and "queue_of s (QueueSendWaiters i) = []" "0 < q_count (k_queues s i)"
    and "apart (k_queues s i) out (q_item_size (k_queues s i))"
  shows "\<exists>s'. os_QueueReceiveCurrent (Some i) out timeout s = Some s' \<and> good s' \<and>
    queue_items (k_memory s) (k_queues s i) =
      bytes_at (k_memory s') out (q_item_size (k_queues s i)) # queue_items (k_memory s') (k_queues s' i) \<and>
    (\<forall>j. j \<noteq> i \<longrightarrow> k_queues s' j = k_queues s j) \<and>
    k_current s' = Some c \<and> k_tasks s' = (k_tasks s)(c := (k_tasks s c)\<lparr>t_wait_result := OS_STATUS_OK\<rparr>)"
proof -
  obtain h a where s: "s = conc h a" "list_rep h (k_heap a)" "kernel_ok a" "k_current a = Some c" "k_started a"
    "t_state (k_tasks a c) = OS_TASK_RUNNING" "\<forall>l. queue_of s l = map task_of (sp_nodes (k_heap a) l)"
    using assms(1,2) by (rule good_current_ok)
  let ?Q = "k_queues a i"
  have i: "os_QueueIsValid (Some i) a" "0 < q_count ?Q" using assms(3,6) by (simp_all add: s(1))
  note Q = queue_valid_ok [OF s(3) i(1)] and rest = taken_ok(3,4) [OF s(3) i]
  have away: "apart (pop_item ?Q) out (q_item_size ?Q)"
    using assms(7) by (simp add: s(1) apart_def pop_item_def)
  have run: "spec_QueueReceiveCurrent (Some i) out timeout a = Some (set_result c OS_STATUS_OK (taken i out a))"
    using QueueReceive_no_sender [OF s(3,4) i(1) assms(4) i(2)] assms(5) s(7) by simp
  have ok: "kernel_ok (set_result c OS_STATUS_OK (taken i out a))"
    using QueueReceiveCurrent_ok [OF s(3), of "Some i" out timeout] run by simp
  from run_state [OF QueueReceiveCurrent_refines [OF s(2), of "Some i" out timeout, unfolded run] ok] show ?thesis
    using items_pop [of ?Q "k_memory a"] items_frame [OF rest away] Q i(2) s(1,4)
    by (auto simp: bytes_at_copied)
qed

theorem receive_takes_oldest_witness:
  "\<exists>s'. os_QueueReceiveCurrent (Some 0) 0x4000 0 (example ()) = Some s' \<and> bytes_at (k_memory s') 0x4000 4 = [4, 5, 6, 7]"
proof -
  have "os_QueueIsValid (Some 0) (example ())" "queue_of (example ()) (QueueSendWaiters 0) = []"
    "0 < q_count (k_queues (example ()) 0)" "q_item_size (k_queues (example ()) 0) = 4"
    "apart (k_queues (example ()) 0) 0x4000 (q_item_size (k_queues (example ()) 0))"
    by (simp_all add: os_QueueIsValid_def queue_valid_def example_queue_of example_lists_def apart_def)
      (simp_all add: example_spec_def example_queue_def)
  moreover have "hd (queue_items (k_memory (example ())) (k_queues (example ()) 0)) = [4, 5, 6, 7]"
    by (simp add: queue_items_def bytes_at_def slot_def os_QueueSlot_def upt_rec)
      (simp add: example_spec_def example_queue_def upt_rec)
  ultimately show ?thesis
    using receive_takes_oldest [OF example_good, of "()" 2 0 "0x4000" 0] by auto
qed

text \<open>C20: sending to a queue on which a task waits for a message hands the message over: it is copied into
  the buffer of the receiver that waited first among the most urgent, which is ready again with status
  OK, and the queue itself stays as it is.\<close>

theorem send_hands_over:
  assumes "good s" "k_current s = Some c" "os_QueueIsValid (Some i) s" "item \<noteq> 0"
    and "queue_of s (QueueReceiveWaiters i) = r # rs"
  shows "\<exists>s'. os_QueueSendCurrent (Some i) item timeout s = Some s' \<and> good s' \<and>
    bytes_at (k_memory s') (t_wait_buffer (k_tasks s r)) (q_item_size (k_queues s i)) =
      bytes_at (k_memory s) item (q_item_size (k_queues s i)) \<and>
    k_queues s' = k_queues s \<and> queue_of s' (QueueReceiveWaiters i) = rs \<and>
    (t_state (k_tasks s' r) = OS_TASK_READY \<or> t_state (k_tasks s' r) = OS_TASK_RUNNING) \<and>
    t_wait_result (k_tasks s' r) = OS_STATUS_OK \<and> t_wait_result (k_tasks s' c) = OS_STATUS_OK \<and>
    (\<forall>u. u \<noteq> c \<and> u \<noteq> r \<longrightarrow> views s' u = views s u) \<and>
    (\<forall>u \<in> set rs. t_effective_priority (k_tasks s u) \<le> t_effective_priority (k_tasks s r))"
proof -
  obtain h a where s: "s = conc h a" "list_rep h (k_heap a)" "kernel_ok a" "k_current a = Some c" "k_started a"
    "t_state (k_tasks a c) = OS_TASK_RUNNING" "\<forall>l. queue_of s l = map task_of (sp_nodes (k_heap a) l)"
    using assms(1,2) by (rule good_current_ok)
  obtain ns where ns: "sp_nodes (k_heap a) (QueueReceiveWaiters i) = SchedNode r # ns" "map task_of ns = rs"
    using front_node [OF s(3), of "QueueReceiveWaiters i" r rs] assms(5) s(7) by auto
  have i: "os_QueueIsValid (Some i) a" using assms(3) by (simp add: s(1))
  define d where "d = set_result c OS_STATUS_OK ((ndrop (QueueReceiveWaiters i) (SchedNode r) a)\<lparr>k_memory :=
      mem_copy (t_wait_buffer (k_tasks a r)) item (q_item_size (k_queues a i)) (k_memory a)\<rparr>)"
  obtain b where b: "spec_QueueSendCurrent (Some i) item timeout a = Some b" "woken_by r OS_STATUS_OK d b"
    using QueueSend_hands_over [OF s(3,4) i assms(4) ns(1), of timeout] by (auto simp: d_def)
  note b' = woken_by_fields [OF b(2)]
  have "waiters b = waiters d" using b(2) by (simp add: woken_by_def)
  from fun_cong [OF this, of "QueueReceiveWaiters i"] have "sp_nodes (k_heap b) (QueueReceiveWaiters i) = ns"
    using ns(1) by (simp add: waiters_def d_def)
  moreover have "t_wait_result (k_tasks b c) = OS_STATUS_OK"
  proof (cases "c = r")
    case False
    then have "views b c = views d c" using b'(6) by simp
    then have "t_wait_result (view (k_tasks b c)) = t_wait_result (view (k_tasks d c))" by (simp only: views_def)
    then show ?thesis by (simp add: d_def)
  qed (simp add: b'(4))
  moreover have "views b u = views a u" if "u \<noteq> c" "u \<noteq> r" for u
    using b'(6) [OF that(2)] that by (simp add: d_def views_def)
  moreover note run_state [OF QueueSendCurrent_refines [OF s(2), of "Some i" item timeout, unfolded b(1)] b'(1)]
  ultimately show ?thesis
    using b'(2-5) ns(2) queue_sorted [OF assms(1), of "QueueReceiveWaiters i"] assms(5) s(1)
    by (auto simp: d_def bytes_at_copied)
qed

theorem send_hands_over_witness:
  "\<exists>s'. os_QueueSendCurrent (Some 1) 0x4000 0 (example ()) = Some s' \<and>
    bytes_at (k_memory s') 0x3000 4 = bytes_at (k_memory (example ())) 0x4000 4 \<and>
    t_wait_result (k_tasks s' 6) = OS_STATUS_OK"
proof -
  have "os_QueueIsValid (Some 1) (example ())" "queue_of (example ()) (QueueReceiveWaiters 1) = 6 # []"
    by (simp_all add: os_QueueIsValid_def queue_valid_def example_queue_of example_lists_def)
      (simp_all add: example_spec_def example_queue_def)
  moreover have "q_item_size (k_queues (example ()) 1) = 4" "t_wait_buffer (k_tasks (example ()) 6) = 0x3000"
    by (simp_all add: example_tasks_def) (simp_all add: example_spec_def example_queue_def)
  ultimately show ?thesis
    using send_hands_over [OF example_good, of "()" 2 1 "0x4000" 6 "[]" 0] by auto
qed

text \<open>What a receiver that refills the queue from a blocked sender leaves in memory.\<close>

lemma refill_items:
  fixes m :: "addr \<Rightarrow> u8"
  assumes Q: "queue_ok Q" "q_used Q" "0 < q_count Q" and out: "apart Q out (q_item_size Q)"
    and item: "unat item + unat (q_item_size Q) \<le> 2 ^ 32"
      "unat out + unat (q_item_size Q) \<le> unat item \<or> unat item + unat (q_item_size Q) \<le> unat out"
    and room: "queue_ok (pop_item Q)" "q_used (pop_item Q)" "q_count (pop_item Q) < q_capacity (pop_item Q)"
  defines "m1 \<equiv> mem_copy out (os_QueueSlot Q (q_head Q)) (q_item_size Q) m"
  defines "m2 \<equiv> mem_copy (os_QueueSlot (pop_item Q) (q_tail (pop_item Q))) item (q_item_size Q) m1"
  shows "bytes_at m2 out (q_item_size Q) # queue_items m2 (push_item (pop_item Q)) =
    queue_items m Q @ [bytes_at m item (q_item_size Q)]"
proof -
  let ?n = "q_item_size Q"
  have same: "q_item_size (pop_item Q) = ?n" "q_buffer (pop_item Q) = q_buffer Q" "q_capacity (pop_item Q) = q_capacity Q"
    by (simp_all add: pop_item_def)
  have "unat (q_buffer Q) \<le> 2 ^ 32" using unsigned_less [of "q_buffer Q", where 'a = nat] by simp
  then have bound: "unat out + unat ?n \<le> 2 ^ 32" using out by (auto simp: apart_def)
  have away: "apart (pop_item Q) out ?n" using out by (simp add: apart_def same)
  obtain k where slot: "os_QueueSlot (pop_item Q) (q_tail (pop_item Q)) = slot (pop_item Q) k"
    using slot_tail [OF room(1,2)] by blast
  have "bytes_at m2 out ?n = bytes_at m1 out ?n"
    unfolding m2_def slot
    using slot_unat [OF room(1,2), of k] away bound by (intro bytes_frame) (auto simp: same apart_def)
  also have "\<dots> = bytes_at m (os_QueueSlot Q (q_head Q)) ?n" by (simp add: m1_def bytes_at_copied)
  finally have first: "bytes_at m2 out ?n = bytes_at m (os_QueueSlot Q (q_head Q)) ?n" .
  have "queue_items m2 (push_item (pop_item Q)) = queue_items m1 (pop_item Q) @ [bytes_at m1 item ?n]"
    using items_push [OF room, of item m1] by (simp add: m2_def same)
  moreover have "bytes_at m1 item ?n = bytes_at m item ?n"
    unfolding m1_def using item bound by (intro bytes_frame) auto
  moreover have "queue_items m1 (pop_item Q) = queue_items m (pop_item Q)"
    unfolding m1_def by (rule items_frame [OF room(1,2) away])
  ultimately show ?thesis using items_pop [OF Q, of m] first by simp
qed

lemma someone_runs:
  assumes b: "dispatched a b" and ready: "t_state (k_tasks a d) = OS_TASK_READY" and view: "views b d = views a d"
  shows "\<exists>e. k_current b = Some e"
proof -
  have "t_state (k_tasks b d) = OS_TASK_READY \<or> t_state (k_tasks b d) = OS_TASK_RUNNING"
    using view ready by (auto simp: views_def view_def split: if_splits dest!: arg_cong [of _ _ t_state])
  then show ?thesis using b by (auto simp: dispatched_def top_running_def current_ok_def)
qed

lemma blocked_fields:
  assumes "blocked_on c l kind obj buf timeout a b" "is_wait l"
  shows "t_wait_buffer (k_tasks b c) = buf" "u \<noteq> c \<Longrightarrow> views b u = views a u"
    "sp_nodes (k_heap a) l = [] \<Longrightarrow> sp_nodes (k_heap b) l = [SchedNode c]"
proof -
  obtain w d where views: "views b = (views a)(c := view ((block_tcb l kind obj buf (block_deadline timeout a)
        (k_tasks a c))\<lparr>t_wake_tick := w, t_delay_list := d\<rparr>))"
    and waiters: "waiters b = (waiters a)(l :=
       insert_where (\<lambda>m. prio_of a m < t_effective_priority (k_tasks a c)) (SchedNode c) (waiters a l))"
    using assms(1) by (auto simp: blocked_on_def)
  have "t_wait_buffer (views b c) = buf" unfolding views by (simp add: block_tcb_def view_def)
  then show "t_wait_buffer (k_tasks b c) = buf" by (simp add: views_def view_def)
  show "views b u = views a u" if "u \<noteq> c" unfolding views using that by simp
  show "sp_nodes (k_heap b) l = [SchedNode c]" if "sp_nodes (k_heap a) l = []"
    using fun_cong [OF waiters, of l] assms(2) that by (simp add: waiters_of)
qed

text \<open>C12: a sender that finds the queue full blocks, and its message gets through: when the task that runs
  next receives from the queue, it gets the oldest message, the message of the blocked sender takes the
  free place at the end, and the sender is ready again with status OK. The item, the receiver's
  buffer and the storage of the queue must not overlap.\<close>

theorem blocked_send_completes:
  assumes "good s" "k_current s = Some c" "os_QueueIsValid (Some i) s" "item \<noteq> 0" "timeout \<noteq> 0"
    and "q_count (k_queues s i) = q_capacity (k_queues s i)"
    and "queue_of s (QueueReceiveWaiters i) = []" "queue_of s (QueueSendWaiters i) = []"
    and "t_state (k_tasks s d) = OS_TASK_READY"
    and "out \<noteq> 0" "apart (k_queues s i) out (q_item_size (k_queues s i))"
    and "unat item + unat (q_item_size (k_queues s i)) \<le> 2 ^ 32"
    and "unat out + unat (q_item_size (k_queues s i)) \<le> unat item \<or>
      unat item + unat (q_item_size (k_queues s i)) \<le> unat out"
  shows "\<exists>s1 e s2. os_QueueSendCurrent (Some i) item timeout s = Some s1 \<and> blocks_on c (QueueSendWaiters i) s s1 \<and>
    k_current s1 = Some e \<and> os_QueueReceiveCurrent (Some i) out timeout' s1 = Some s2 \<and> good s2 \<and>
    bytes_at (k_memory s2) out (q_item_size (k_queues s i)) # queue_items (k_memory s2) (k_queues s2 i) =
      queue_items (k_memory s) (k_queues s i) @ [bytes_at (k_memory s) item (q_item_size (k_queues s i))] \<and>
    (t_state (k_tasks s2 c) = OS_TASK_READY \<or> t_state (k_tasks s2 c) = OS_TASK_RUNNING) \<and>
    t_wait_result (k_tasks s2 c) = OS_STATUS_OK"
proof -
  obtain h a where s: "s = conc h a" "list_rep h (k_heap a)" "kernel_ok a" "k_current a = Some c" "k_started a"
    "t_state (k_tasks a c) = OS_TASK_RUNNING" "\<forall>l. queue_of s l = map task_of (sp_nodes (k_heap a) l)"
    using assms(1,2) by (rule good_current_ok)
  let ?Q = "k_queues a i"
  have i: "os_QueueIsValid (Some i) a" using assms(3) by (simp add: s(1))
  have Q: "queue_ok ?Q" "q_used ?Q" "0 < q_count ?Q"
    using queue_valid_ok [OF s(3) i] assms(6) s(1) by (auto simp: queue_valid_def word_neq_0_conv)
  have none: "sp_nodes (k_heap a) (QueueReceiveWaiters i) = []" "sp_nodes (k_heap a) (QueueSendWaiters i) = []"
    using assms(7,8) s(7) by simp_all
  have "wait_matches OS_WAIT_QUEUE_SEND (Some (QueueSendWaiters i)) (Some (QueueObj i)) item (t_base_priority (k_tasks a c))"
    using assms(4) by simp
  with QueueSend_no_receiver [OF s(3,4) i assms(4) none(1), of timeout] obtain b1
    where b1: "spec_QueueSendCurrent (Some i) item timeout a = Some b1" "dispatched a b1"
      "blocked_on c (QueueSendWaiters i) OS_WAIT_QUEUE_SEND (Some (QueueObj i)) item timeout a b1" "kernel_ok b1"
    using returnsD [OF block_ok [OF s(3,4) assms(5)]] assms(5,6) s(1) by fastforce
  obtain s1 h1 where s1: "os_QueueSendCurrent (Some i) item timeout s = Some s1" "s1 = conc h1 b1" "list_rep h1 (k_heap b1)"
    "\<forall>l. queue_of s1 l = map task_of (sp_nodes (k_heap b1) l)"
    using run_state [OF QueueSendCurrent_refines [OF s(2), of "Some i" item timeout, unfolded b1(1)] b1(4)] s(1) by auto
  have blocks: "blocks_on c (QueueSendWaiters i) s s1"
    by (rule blocked_blocks [OF b1(3,2) _ s(7) s1(4) s(1) s1(2)]) simp
  have "d \<noteq> c" using assms(9) s(1,6) by auto
  then obtain e where e: "k_current b1 = Some e"
    using someone_runs [OF b1(2), of d] assms(9) s(1) blocked_fields(2) [OF b1(3)] by auto
  have same: "k_queues b1 = k_queues a" "k_memory b1 = k_memory a"
    using b1(2) by (simp_all add: dispatched_def same_objects_def)
  have valid: "os_QueueIsValid (Some i) b1" using i by (simp add: os_QueueIsValid_def same)
  have count: "0 < q_count (k_queues b1 i)" using Q(3) by (simp add: same)
  have w: "sp_nodes (k_heap b1) (QueueSendWaiters i) = [SchedNode c]"
    using blocked_fields(3) [OF b1(3)] none(2) by simp
  note rest = taken_ok(3-5) [OF b1(4) valid count]
  have buf: "t_wait_buffer (k_tasks b1 c) = item" using blocked_fields(1) [OF b1(3)] by simp
  from QueueReceive_refills [OF b1(4) e valid assms(10) count w, of timeout'] obtain b2
    where b2: "spec_QueueReceiveCurrent (Some i) out timeout' b1 = Some b2"
      "woken_by c OS_STATUS_OK (set_result e OS_STATUS_OK (upd_queue i push_item
        ((ndrop (QueueSendWaiters i) (SchedNode c) (taken i out b1))\<lparr>k_memory :=
          mem_copy (os_QueueSlot (pop_item ?Q) (q_tail (pop_item ?Q))) item (q_item_size (pop_item ?Q))
            (k_memory (taken i out b1))\<rparr>))) b2" by (auto simp: buf same)
  note b2' = woken_by_fields [OF b2(2)]
  note b2'(4,5)
  moreover have "bytes_at (k_memory b2) out (q_item_size ?Q) # queue_items (k_memory b2) (k_queues b2 i) =
      queue_items (k_memory a) ?Q @ [bytes_at (k_memory a) item (q_item_size ?Q)]"
    using refill_items [OF Q, of out item "k_memory a"] assms(11-13) rest b2'(2,3) same s(1)
    by (simp add: pop_item_def)
  moreover note run_state [OF QueueReceiveCurrent_refines [OF s1(3), of "Some i" out timeout', unfolded b2(1)] b2'(1)]
  ultimately show ?thesis using s1(1,2) e blocks s(1) by fastforce
qed

theorem blocked_send_completes_witness:
  "\<exists>s1 e s2. os_QueueSendCurrent (Some 2) 0x4000 9 (example ()) = Some s1 \<and> t_state (k_tasks s1 2) = OS_TASK_BLOCKED_OBJECT \<and>
    k_current s1 = Some e \<and> os_QueueReceiveCurrent (Some 2) 0x5000 0 s1 = Some s2 \<and> t_wait_result (k_tasks s2 2) = OS_STATUS_OK"
proof -
  have "os_QueueIsValid (Some 2) (example ())" "queue_of (example ()) (QueueReceiveWaiters 2) = []"
    "queue_of (example ()) (QueueSendWaiters 2) = []" "q_count (k_queues (example ()) 2) = q_capacity (k_queues (example ()) 2)"
    "apart (k_queues (example ()) 2) 0x5000 (q_item_size (k_queues (example ()) 2))"
    "q_item_size (k_queues (example ()) 2) = 4" "t_state (k_tasks (example ()) 7) = OS_TASK_READY"
    by (simp_all add: os_QueueIsValid_def queue_valid_def example_queue_of example_lists_def apart_def example_task_simps)
      (simp_all add: example_spec_def example_queue_def)
  then show ?thesis
    using blocked_send_completes [OF example_good, of "()" 2 2 "0x4000" 9 7 "0x5000" 0] by (auto simp: blocks_on_def)
qed

subsection \<open>Calls that are not ready to wait\<close>

lemma WaitPop_nobody:
  assumes "queue_of s l = []"
  shows "os_WaitPop (Some l) s = (None, s)"
proof -
  have "l_head (h_lists (k_heap s) l) = None"
    using assms by (cases "l_head (h_lists (k_heap s) l)") (simp_all add: queue_of_def numeral_eq_Suc)
  then show ?thesis by (simp add: os_WaitPop_def on_heap_value_def os_ListPopFront_def)
qed

text \<open>C39: with timeout zero, taking an empty semaphore, sending to a full queue, receiving from an empty
  queue and locking a mutex of another task all fail with TIMEOUT, and the status is the only
  thing that changes: no list, count, message, owner or priority.\<close>

theorem polling_fails_cleanly:
  assumes "good s" "k_current s = Some c"
  shows "(os_SemIsValid (Some i) s \<and> s_count (k_sems s i) = 0 \<longrightarrow>
      os_SemTakeCurrent (Some i) 0 s = Some (set_result c OS_STATUS_TIMEOUT s)) \<and>
    (os_QueueIsValid (Some j) s \<and> item \<noteq> 0 \<and> q_count (k_queues s j) = q_capacity (k_queues s j) \<and>
        queue_of s (QueueReceiveWaiters j) = [] \<longrightarrow>
      os_QueueSendCurrent (Some j) item 0 s = Some (set_result c OS_STATUS_TIMEOUT s)) \<and>
    (os_QueueIsValid (Some j) s \<and> item \<noteq> 0 \<and> q_count (k_queues s j) = 0 \<longrightarrow>
      os_QueueReceiveCurrent (Some j) item 0 s = Some (set_result c OS_STATUS_TIMEOUT s)) \<and>
    (os_MutexIsValid (Some m) s \<and> m_owner (k_mutexes s m) = Some w \<and> w \<noteq> c \<longrightarrow>
      os_MutexLockCurrent (Some m) 0 s = Some (set_result c OS_STATUS_TIMEOUT s))"
  using good_current [OF assms] assms(2) WaitPop_nobody [of s "QueueReceiveWaiters j"]
  by (simp add: os_SemTakeCurrent_def os_QueueSendCurrent_def os_QueueReceiveCurrent_def os_MutexLockCurrent_def)

theorem polling_fails_cleanly_witness:
  "os_SemTakeCurrent (Some 3) 0 (example ()) = Some (set_result 2 OS_STATUS_TIMEOUT (example ())) \<and>
   os_QueueSendCurrent (Some 2) 0x4000 0 (example ()) = Some (set_result 2 OS_STATUS_TIMEOUT (example ())) \<and>
   os_QueueReceiveCurrent (Some 1) 0x4000 0 (example ()) = Some (set_result 2 OS_STATUS_TIMEOUT (example ()))"
proof -
  have "os_SemIsValid (Some 3) (example ())" "s_count (k_sems (example ()) 3) = 0"
    "os_QueueIsValid (Some 2) (example ())" "queue_of (example ()) (QueueReceiveWaiters 2) = []"
    "q_count (k_queues (example ()) 2) = q_capacity (k_queues (example ()) 2)"
    "os_QueueIsValid (Some 1) (example ())" "q_count (k_queues (example ()) 1) = 0"
    by (simp_all add: os_SemIsValid_def os_QueueIsValid_def queue_valid_def example_queue_of example_lists_def)
      (simp_all add: example_spec_def example_queue_def)
  then show ?thesis
    using polling_fails_cleanly [OF example_good, of "()" 2 3 2 "0x4000" 0]
      polling_fails_cleanly [OF example_good, of "()" 2 3 1 "0x4000" 0] by simp
qed

end
