(* ===== verification/Mutex_Properties.thy ===== *)
theory Mutex_Properties
  imports IPC_Properties
begin

section \<open>Properties of the mutexes\<close>

text \<open>
  Ownership and priority inheritance as the tasks see them: a release goes to the first waiter, a
  wait lends its priority to the owner, and an uncontended lock and unlock cancel out.
\<close>

lemma mutex_waiters:
  assumes "good s" "k_started s"
  shows "u \<in> set (queue_of s (MutexWaiters i)) \<longleftrightarrow> mwait (k_tasks s u) = Some i"
proof -
  obtain h a where s: "s = conc h a" "kernel_ok a" "\<forall>l. queue_of s l = map task_of (sp_nodes (k_heap a) l)"
    using assms(1) by (rule goodD)
  then show ?thesis using live_waiting [of True "{}" a u i] kernel_ok_live [of a] assms(2) by simp
qed

lemma mwait_view [simp]: "mwait (view T) = mwait T"
  by (auto simp: mwait_def view_def)

text \<open>C7: when the owner of a contended mutex unlocks it, the mutex passes to the first and most urgent
  waiter without ever being free: this task leaves the waiting list, is ready or running, and its
  lock returns OK; the other waiters go on waiting for the same mutex, and no other mutex changes
  its owner.\<close>

theorem unlock_hands_over:
  assumes "good s" "k_current s = Some c" "os_MutexIsValid (Some i) s" "m_owner (k_mutexes s i) = Some c"
    and "queue_of s (MutexWaiters i) = t # ts"
  shows "\<exists>s'. os_MutexUnlockCurrent (Some i) s = Some s' \<and> good s' \<and>
    k_mutexes s' = (k_mutexes s)(i := (k_mutexes s i)\<lparr>m_owner := Some t\<rparr>) \<and>
    (\<forall>u \<in> set ts. t_effective_priority (k_tasks s u) \<le> t_effective_priority (k_tasks s t)) \<and>
    (t_state (k_tasks s' t) = OS_TASK_READY \<or> t_state (k_tasks s' t) = OS_TASK_RUNNING) \<and>
    t_wait_list (k_tasks s' t) = None \<and> t_wait_result (k_tasks s' t) = OS_STATUS_OK \<and>
    t_wait_result (k_tasks s' c) = OS_STATUS_OK \<and> set (queue_of s' (MutexWaiters i)) = set ts"
proof -
  obtain h a where s: "s = conc h a" "list_rep h (k_heap a)" "kernel_ok a" "k_current a = Some c" "k_started a"
    "t_state (k_tasks a c) = OS_TASK_RUNNING" "\<forall>l. queue_of s l = map task_of (sp_nodes (k_heap a) l)"
    using assms(1,2) by (rule good_current_ok)
  obtain ns where ns: "sp_nodes (k_heap a) (MutexWaiters i) = SchedNode t # ns"
    using front_node [OF s(3), of "MutexWaiters i" t ts] assms(5) s(7) by auto
  have used: "m_used (k_mutexes a i)" "m_owner (k_mutexes a i) = Some c"
    using assms(3,4) s(1) by (simp_all add: os_MutexIsValid_def)
  obtain b where b: "spec_MutexUnlockCurrent (Some i) a = Some b" "kernel_ok b"
    "k_mutexes b = (k_mutexes a)(i := (k_mutexes a i)\<lparr>m_owner := Some t\<rparr>)"
    "\<forall>u. \<exists>p. views b u = set_eff p (view (if u = t then woken_tcb OS_STATUS_OK (k_tasks a u)
       else if u = c then (k_tasks a u)\<lparr>t_wait_result := OS_STATUS_OK\<rparr> else k_tasks a u))" "k_started b"
    using returnsD [OF Unlock_hands_over [OF s(3,4) used ns]] by blast
  obtain s' h' where s': "os_MutexUnlockCurrent (Some i) s = Some s'" "good s'" "s' = conc h' b"
    using run_state [OF MutexUnlockCurrent_refines [OF s(2), of "Some i", unfolded b(1)] b(2)] s(1) by auto
  have waits: "t \<in> set (queue_of s (MutexWaiters i))" using assms(5) by simp
  then have mt: "mwait (k_tasks a t) = Some i" using mutex_waiters [OF assms(1)] s(1,5) by simp
  then have tc: "t \<noteq> c" using s(6) by (auto simp: mwait_def)
  obtain p where p: "views b t = set_eff p (view (woken_tcb OS_STATUS_OK (k_tasks a t)))" using spec [OF b(4), of t] by auto
  obtain q where q: "views b c = set_eff q (view ((k_tasks a c)\<lparr>t_wait_result := OS_STATUS_OK\<rparr>))"
    using spec [OF b(4), of c] tc by auto
  have started: "k_started s" "k_started s'" using s(1,5) s'(3) b(5) by simp_all
  have woken: "t_state (views b t) = OS_TASK_READY" "t_wait_list (views b t) = None" "t_wait_result (views b t) = OS_STATUS_OK"
    "t_wait_result (views b c) = OS_STATUS_OK"
    unfolding p q by (simp_all add: set_eff_def view_def woken_tcb_def clear_wait_def)
  have "mwait (k_tasks b u) = (if u = t then None else mwait (k_tasks a u))" for u
  proof -
    have "mwait (views b u) = (if u = t then None else mwait (k_tasks a u))"
      using spec [OF b(4), of u] s(6) by (auto simp: mwait_def split: if_splits)
    then show ?thesis by (simp add: views_def)
  qed
  then have "set (queue_of s' (MutexWaiters i)) = set (queue_of s (MutexWaiters i)) - {t}"
    using mutex_waiters [OF s'(2)] mutex_waiters [OF assms(1)] started s(1) s'(3) by (auto simp: set_eq_iff)
  also have "\<dots> = set ts" using queue_members(1) [OF assms(1), of "MutexWaiters i"] assms(5) by auto
  finally have rest: "set (queue_of s' (MutexWaiters i)) = set ts" .
  have "\<forall>u \<in> set ts. t_effective_priority (k_tasks s u) \<le> t_effective_priority (k_tasks s t)"
    using queue_sorted [OF assms(1), of "MutexWaiters i"] assms(5) by simp
  then show ?thesis
    using s' rest woken b(3) s(1) by (auto simp: views_def view_def split: if_splits)
qed

theorem unlock_hands_over_witness:
  "\<exists>s'. os_MutexUnlockCurrent (Some 0) (example ()) = Some s' \<and> m_owner (k_mutexes s' 0) = Some 5 \<and>
    t_wait_result (k_tasks s' 5) = OS_STATUS_OK \<and> queue_of s' (MutexWaiters 0) = []"
proof -
  have "os_MutexIsValid (Some 0) (example ())" "m_owner (k_mutexes (example ()) 0) = Some 2"
    "queue_of (example ()) (MutexWaiters 0) = [5]"
    by (simp_all add: os_MutexIsValid_def example_queue_of example_lists_def) (simp_all add: example_spec_def)
  from unlock_hands_over [OF example_good _ this] show ?thesis by auto
qed

text \<open>C6: bounded priority inversion: a task that locks a mutex of another task blocks and lends the owner
  its priority: the owner, and so whatever task runs while the owner is ready, is at least as urgent
  as the blocked task was. The mutex keeps its owner, base priorities stay, and the kernel stays orderly.\<close>

theorem lock_boosts_owner:
  assumes "orderly s" "k_current s = Some c" "t_base_priority (k_tasks s c) \<noteq> 0"
    and "os_MutexIsValid (Some i) s" "m_owner (k_mutexes s i) = Some w" "w \<noteq> c" "timeout \<noteq> 0"
  shows "\<exists>s'. os_MutexLockCurrent (Some i) timeout s = Some s' \<and> orderly s' \<and>
    t_state (k_tasks s' c) = OS_TASK_BLOCKED_OBJECT \<and> t_wait_list (k_tasks s' c) = Some (MutexWaiters i) \<and>
    k_mutexes s' = k_mutexes s \<and> (\<forall>u. t_base_priority (k_tasks s' u) = t_base_priority (k_tasks s u)) \<and>
    t_effective_priority (k_tasks s c) \<le> t_effective_priority (k_tasks s' w) \<and>
    (t_state (k_tasks s' w) = OS_TASK_READY \<longrightarrow>
      (\<exists>r. k_current s' = Some r \<and> t_effective_priority (k_tasks s c) \<le> t_effective_priority (k_tasks s' r)))"
proof -
  obtain h a where s: "s = conc h a" "list_rep h (k_heap a)" "strict a" using assms(1) by (rule orderlyE)
  then have ok: "kernel_ok a" by (simp add: strict_ok)
  have used: "m_used (k_mutexes a i)" using assms(4) s(1) by (simp add: os_MutexIsValid_def)
  from Lock_blocks [OF ok _ _ used _ assms(6,7), of]
  have "returns (spec_MutexLockCurrent (Some i) timeout a) (\<lambda>b. kernel_ok b \<and> (strict a \<longrightarrow> strict b) \<and>
    k_mutexes b = k_mutexes a \<and> mwait (k_tasks b c) = Some i \<and> waits_for b = insert (c, w) (waits_for a) \<and>
    (\<forall>u. t_base_priority (k_tasks b u) = t_base_priority (k_tasks a u)))" using assms(2,3,5) s(1) by simp
  then obtain b where b: "spec_MutexLockCurrent (Some i) timeout a = Some b" "strict b" "k_mutexes b = k_mutexes a"
    "mwait (k_tasks b c) = Some i" "waits_for b = insert (c, w) (waits_for a)"
    "\<forall>u. t_base_priority (k_tasks b u) = t_base_priority (k_tasks a u)" using s(3) by (auto dest: returnsD)
  obtain s' h' where s': "os_MutexLockCurrent (Some i) timeout s = Some s'" "orderly s'" "s' = conc h' b"
    using run_state [OF MutexLockCurrent_refines [OF s(2), of "Some i" timeout, unfolded b(1)] strict_ok [OF b(2)]]
      s(1) b(2) by (auto intro: orderlyI)
  obtain u where u: "(u, c) \<in> (waits_for a)\<^sup>*" "t_base_priority (k_tasks a u) = t_effective_priority (k_tasks a c)"
    using inherit_ex [of a c] s(3) by (auto simp: strict_def)
  have "(waits_for a)\<^sup>* \<subseteq> (waits_for b)\<^sup>*" using b(5) by (intro rtrancl_mono) auto
  then have "(u, w) \<in> (waits_for b)\<^sup>*" using u(1) b(5) by (auto intro: rtrancl_into_rtrancl)
  then have boost: "t_effective_priority (k_tasks a c) \<le> t_effective_priority (k_tasks b w)"
    using inherit_le [of b u w] b(2,6) u(2) by (simp add: strict_def)
  have blocked: "t_state (k_tasks b c) = OS_TASK_BLOCKED_OBJECT" "t_wait_list (k_tasks b c) = Some (MutexWaiters i)"
    using b(4) by (auto simp: mwait_def split: if_splits option.splits list_ref.splits)
  have "boot_ok b" using strict_ok [OF b(2)] by (simp add: kernel_ok_def)
  then have "k_started s'" using blocked(1) s'(3) by (metis boot_ok_def conc_select(2) os_task_state_t.distinct(7,15))
  then have "\<exists>r. k_current s' = Some r \<and> t_effective_priority (k_tasks s c) \<le> t_effective_priority (k_tasks s' r)"
    if "t_state (k_tasks s' w) = OS_TASK_READY"
    using orderly_top [OF s'(2)] that boost s(1) s'(3) by (fastforce simp: top_running_def)
  then show ?thesis using s' boost blocked b(3,6) s(1) by auto
qed

theorem lock_boosts_owner_witness:
  "\<exists>s'. os_MutexLockCurrent (Some 2) 9 (example ()) = Some s' \<and> t_state (k_tasks s' 2) = OS_TASK_BLOCKED_OBJECT \<and>
    t_effective_priority (k_tasks (example ()) 1) = 2 \<and> 5 \<le> t_effective_priority (k_tasks s' 1)"
proof -
  have "os_MutexIsValid (Some 2) (example ())" "m_owner (k_mutexes (example ()) 2) = Some 1"
    by (simp_all add: os_MutexIsValid_def) (simp_all add: example_spec_def)
  from lock_boosts_owner [OF example_orderly _ _ this, of 2 9] show ?thesis
    by (auto simp: example_task_simps)
qed

text \<open>C26: locking a free mutex makes the task its owner at once, and unlocking it while nobody waits makes it
  free again: afterwards all mutexes and all tasks, their effective priorities included, are as they
  were before, and so is the membership of every list; only the status OK remains.\<close>

theorem lock_unlock_round_trip:
  assumes "orderly s" "k_current s = Some c" "t_base_priority (k_tasks s c) \<noteq> 0"
    and "os_MutexIsValid (Some i) s" "m_owner (k_mutexes s i) = None"
  shows "\<exists>s1 s2. os_MutexLockCurrent (Some i) timeout s = Some s1 \<and> m_owner (k_mutexes s1 i) = Some c \<and> orderly s1 \<and>
    os_MutexUnlockCurrent (Some i) s1 = Some s2 \<and> orderly s2 \<and> k_mutexes s2 = k_mutexes s \<and>
    k_tasks s2 = (k_tasks s)(c := (k_tasks s c)\<lparr>t_wait_result := OS_STATUS_OK\<rparr>) \<and>
    (\<forall>l. set (queue_of s2 l) = set (queue_of s l))"
proof -
  obtain h a where s: "s = conc h a" "list_rep h (k_heap a)" "strict a" using assms(1) by (rule orderlyE)
  then have ok: "kernel_ok a" by (simp add: strict_ok)
  have used: "m_used (k_mutexes a i)" using assms(4) s(1) by (simp add: os_MutexIsValid_def)
  have c: "k_current a = Some c" "t_state (k_tasks a c) = OS_TASK_RUNNING"
    using assms(2) s(1) kernel_ok_current [OF ok] by auto
  define a1 where "a1 = set_result c OS_STATUS_OK (upd_mutex i (\<lambda>M. M\<lparr>m_owner := Some c\<rparr>) a)"
  have free: "sp_nodes (k_heap a) (MutexWaiters i) = []"
    using ok assms(5) s(1) by (metis conc_select(20) kernel_ok_def kinv_mutex mutex_ok_def)
  have a1: "strict a1" "k_current a1 = Some c" "m_used (k_mutexes a1 i)" "m_owner (k_mutexes a1 i) = Some c"
    "sp_nodes (k_heap a1) (MutexWaiters i) = []" "k_heap a1 = k_heap a"
    using Lock_free(2) [OF ok c(1) _ used _ s(3)] assms(3,5) s(1) c used free
    by (simp_all add: a1_def)
  have lock: "os_MutexLockCurrent (Some i) timeout s = Some (conc h a1)"
    using assms(2,4,5) c s(1) by (simp add: os_MutexLockCurrent_def a1_def)
  obtain b where b: "spec_MutexUnlockCurrent (Some i) a1 = Some b" "strict b"
    "k_mutexes b = (k_mutexes a1)(i := (k_mutexes a1 i)\<lparr>m_owner := None\<rparr>)"
    "k_tasks b = (k_tasks a1)(c := (k_tasks a1 c)\<lparr>t_wait_result := OS_STATUS_OK\<rparr>)"
    using returnsD [OF Unlock_free [OF strict_ok [OF a1(1)] a1(2-5)]] a1(1) by auto
  obtain s2 h' where s2: "os_MutexUnlockCurrent (Some i) (conc h a1) = Some s2" "good s2" "s2 = conc h' b" "orderly s2"
    using run_state [OF MutexUnlockCurrent_refines [of h a1 "Some i", unfolded b(1)] strict_ok [OF b(2)]]
      s(2) a1(6) b(2) by (auto intro: orderlyI)
  have tasks: "k_tasks s2 = (k_tasks s)(c := (k_tasks s c)\<lparr>t_wait_result := OS_STATUS_OK\<rparr>)"
    using b(4) s(1) s2(3) by (simp add: a1_def)
  have "k_mutexes s2 = k_mutexes s"
    using b(3) s(1) s2(3) assms(5)
    by (simp add: a1_def set_result_def upd_task_def) (cases "k_mutexes a i", simp add: fun_upd_idem)
  moreover have "set (queue_of s2 l) = set (queue_of s l)" for l
    using queue_members(2) [OF s2(2)] queue_members(2) [OF orderly_good [OF assms(1)]] tasks
    by (auto simp: set_eq_iff sched_place_def delay_place_def)
  moreover have "orderly (conc h a1)" using s(2) a1(1,6) by (intro orderlyI) simp_all
  ultimately show ?thesis using lock a1(4) s2 tasks by auto
qed

theorem lock_unlock_round_trip_witness:
  "\<exists>s1 s2. os_MutexLockCurrent (Some 1) 0 (example ()) = Some s1 \<and> m_owner (k_mutexes s1 1) = Some 2 \<and>
    os_MutexUnlockCurrent (Some 1) s1 = Some s2 \<and> k_mutexes s2 = k_mutexes (example ())"
proof -
  have "os_MutexIsValid (Some 1) (example ())" "m_owner (k_mutexes (example ()) 1) = None"
    by (simp_all add: os_MutexIsValid_def) (simp_all add: example_spec_def)
  from lock_unlock_round_trip [OF example_orderly _ _ this, of 2 0] show ?thesis
    by (auto simp: example_task_simps)
qed

text \<open>C25: a task that terminates takes nothing with it: the shutdown of the running task returns, the task is
  TERMINATED, it owns no mutex any more, and it is in no list of ready, sleeping or waiting
  tasks; a task runs that no ready task exceeds in effective priority.\<close>

theorem termination_releases:
  assumes "good s" "k_current s = Some c"
  shows "\<exists>n s'. os_SchedTerminateCurrent s = Some (n, s') \<and> good s' \<and> t_state (k_tasks s' c) = OS_TASK_TERMINATED \<and>
    (\<forall>i. m_owner (k_mutexes s' i) \<noteq> Some c) \<and> (\<forall>l. c \<notin> set (queue_of s' l)) \<and> top_running s'"
proof -
  obtain h a where s: "s = conc h a" "list_rep h (k_heap a)" "kernel_ok a" "k_current a = Some c" "k_started a"
    "t_state (k_tasks a c) = OS_TASK_RUNNING" "\<forall>l. queue_of s l = map task_of (sp_nodes (k_heap a) l)"
    using assms by (rule good_current_ok)
  obtain n b where b: "spec_SchedTerminateCurrent a = Some (n, b)" "kernel_ok b" "top_running b"
    "t_state (k_tasks b c) = OS_TASK_TERMINATED" "\<forall>i. m_owner (k_mutexes b i) \<noteq> Some c"
    using returnsD [OF Terminate_ends [OF s(3,4)]] by auto
  obtain s' h' where s': "os_SchedTerminateCurrent s = Some (n, s')" "good s'" "s' = conc h' b"
    using run_value [OF SchedTerminateCurrent_refines [OF s(2), unfolded b(1)] b(2)] s(1) by auto
  have "c \<notin> set (queue_of s' l)" for l
    using queue_members(2) [OF s'(2), of c l] b(4) s'(3) by (simp add: sched_place_def delay_place_def)
  then show ?thesis using s' b(3-5) by (simp add: top_running_def)
qed

theorem termination_releases_witness:
  "\<exists>n s'. os_SchedTerminateCurrent (example ()) = Some (n, s') \<and> t_state (k_tasks s' 2) = OS_TASK_TERMINATED \<and>
    m_owner (k_mutexes s' 0) \<noteq> Some 2"
  using termination_releases [OF example_good, of "()" 2] by auto

end
