(* ===== verification/Time_Properties.thy ===== *)
theory Time_Properties
  imports Sched_Properties
begin

section \<open>Properties of time\<close>

text \<open>
  What one tick does, and what a run of ticks does to a task that sleeps or waits with a timeout:
  it comes back at exactly its tick, wherever the 32-bit counter wraps.
\<close>

subsection \<open>One tick\<close>

text \<open>A tick changes of a task that is not due at most its effective priority and whether it runs.\<close>

definition kept :: "nat \<Rightarrow> ('h, 'p) os_kernel_t \<Rightarrow> ('h, 'p) os_kernel_t \<Rightarrow> bool" where
  "kept t s s' \<longleftrightarrow> (\<exists>e. views s' t = set_eff e (views s t))"

lemma kept_fields:
  assumes "kept t s s'"
  shows "t_wake_tick (k_tasks s' t) = t_wake_tick (k_tasks s t)" "t_delay_list (k_tasks s' t) = t_delay_list (k_tasks s t)"
    "t_wait_list (k_tasks s' t) = t_wait_list (k_tasks s t)" "t_wait_result (k_tasks s' t) = t_wait_result (k_tasks s t)"
    "t_state (k_tasks s t) \<noteq> OS_TASK_READY \<Longrightarrow> t_state (k_tasks s t) \<noteq> OS_TASK_RUNNING \<Longrightarrow>
      t_state (k_tasks s' t) = t_state (k_tasks s t)"
proof -
  obtain e where e: "view (k_tasks s' t) = set_eff e (view (k_tasks s t))"
    using assms by (auto simp: kept_def views_def)
  from arg_cong [OF e, of t_wake_tick] arg_cong [OF e, of t_delay_list] arg_cong [OF e, of t_wait_list]
    arg_cong [OF e, of t_wait_result]
  show "t_wake_tick (k_tasks s' t) = t_wake_tick (k_tasks s t)" "t_delay_list (k_tasks s' t) = t_delay_list (k_tasks s t)"
    "t_wait_list (k_tasks s' t) = t_wait_list (k_tasks s t)" "t_wait_result (k_tasks s' t) = t_wait_result (k_tasks s t)"
    by (simp_all add: view_def set_eff_def)
  from arg_cong [OF e, of t_state]
  show "t_state (k_tasks s' t) = t_state (k_tasks s t)"
    if "t_state (k_tasks s t) \<noteq> OS_TASK_READY" "t_state (k_tasks s t) \<noteq> OS_TASK_RUNNING"
    using that by (auto simp: view_def set_eff_def split: if_splits)
qed

definition roused :: "nat \<Rightarrow> ('h, 'p) os_kernel_t \<Rightarrow> ('h, 'p) os_kernel_t \<Rightarrow> bool" where
  "roused t s s' \<longleftrightarrow> (\<exists>e. views s' t = set_eff e (view (woken (k_tasks s t))))"

lemma roused_fields:
  assumes "roused t s s'"
  shows "t_state (k_tasks s' t) = OS_TASK_READY \<or> t_state (k_tasks s' t) = OS_TASK_RUNNING" "t_delay_list (k_tasks s' t) = None"
    "t_state (k_tasks s t) = OS_TASK_BLOCKED_OBJECT \<Longrightarrow> t_wait_list (k_tasks s' t) = None"
    "t_state (k_tasks s t) = OS_TASK_BLOCKED_OBJECT \<Longrightarrow> t_wait_result (k_tasks s' t) = OS_STATUS_TIMEOUT"
proof -
  obtain e where e: "view (k_tasks s' t) = set_eff e (view (woken (k_tasks s t)))"
    using assms by (auto simp: roused_def views_def)
  from arg_cong [OF e, of t_state] arg_cong [OF e, of t_delay_list]
  show "t_state (k_tasks s' t) = OS_TASK_READY \<or> t_state (k_tasks s' t) = OS_TASK_RUNNING" "t_delay_list (k_tasks s' t) = None"
    by (auto simp: view_def set_eff_def woken_def clear_wait_def split: if_splits)
  from arg_cong [OF e, of t_wait_list] arg_cong [OF e, of t_wait_result]
  show "t_wait_list (k_tasks s' t) = None" "t_wait_result (k_tasks s' t) = OS_STATUS_TIMEOUT"
    if "t_state (k_tasks s t) = OS_TASK_BLOCKED_OBJECT"
    using that by (simp_all add: view_def set_eff_def woken_def clear_wait_def)
qed

lemma tick_step:
  assumes "good s" "k_started s"
  shows "\<exists>n s'. os_TimeTick s = Some (n, s') \<and> good s' \<and> k_started s' \<and> k_tick s' = k_tick s + 1 \<and>
    k_sems s' = k_sems s \<and> k_queues s' = k_queues s \<and> k_mutexes s' = k_mutexes s \<and> k_memory s' = k_memory s \<and>
    (\<forall>t. if due (k_tick s + 1) (k_tasks s t) then roused t s s' else kept t s s')"
proof -
  obtain h a where s: "s = conc h a" "list_rep h (k_heap a)" "kernel_ok a" using assms(1) by (rule goodE)
  then obtain n b where b: "spec_TimeTick a = Some (n, b)" "kernel_ok b" "ticked a b"
    using returnsD [OF TimeTick_started [OF s(3)]] assms(2) by auto
  have step: "if due (k_tick a + 1) (k_tasks a t) then roused t a b else kept t a b" for t
  proof -
    obtain e where "views b t = set_eff e (view (wake_due (k_tick a + 1) (k_tasks a t)))"
      using b(3) by (auto simp: ticked_def)
    then show ?thesis by (cases "due (k_tick a + 1) (k_tasks a t)") (auto simp: wake_due_def views_def roused_def kept_def)
  qed
  moreover have "same_objects (next_tick a) b" using b(3) by (simp add: ticked_def)
  moreover have "roused t (conc h a) (conc h' b) = roused t a b" "kept t (conc h a) (conc h' b) = kept t a b" for t h'
    by (simp_all add: roused_def kept_def)
  ultimately show ?thesis
    using run_value [OF TimeTick_refines [OF s(2), unfolded b(1)] b(2)] s(1) assms(2)
    by (auto simp: same_objects_def)
qed

lemma blocked_step:
  assumes bl: "t_state (k_tasks s t) = OS_TASK_BLOCKED_DELAY \<or> t_state (k_tasks s t) = OS_TASK_BLOCKED_OBJECT"
    and step: "if due now (k_tasks s t) then roused t s s' else kept t s s'"
  shows "if t_delay_list (k_tasks s t) \<noteq> None \<and> t_wake_tick (k_tasks s t) = now
       then (t_state (k_tasks s' t) = OS_TASK_READY \<or> t_state (k_tasks s' t) = OS_TASK_RUNNING) \<and>
         t_delay_list (k_tasks s' t) = None \<and>
         (t_state (k_tasks s t) = OS_TASK_BLOCKED_OBJECT \<longrightarrow> t_wait_list (k_tasks s' t) = None \<and>
            t_wait_result (k_tasks s' t) = OS_STATUS_TIMEOUT)
       else t_state (k_tasks s' t) = t_state (k_tasks s t) \<and> t_delay_list (k_tasks s' t) = t_delay_list (k_tasks s t) \<and>
         t_wait_list (k_tasks s' t) = t_wait_list (k_tasks s t)"
proof -
  have due: "due now (k_tasks s t) \<longleftrightarrow> t_delay_list (k_tasks s t) \<noteq> None \<and> t_wake_tick (k_tasks s t) = now"
    using bl by (auto simp: due_def delay_place_def)
  show ?thesis
  proof (cases "due now (k_tasks s t)")
    case True
    then have r: "roused t s s'" using step by simp
    from True show ?thesis unfolding due [symmetric]
      by (simp only: if_True) (intro conjI impI roused_fields [OF r])
  next
    case False
    then have k: "kept t s s'" using step by simp
    from False bl show ?thesis unfolding due [symmetric]
      by (simp only: if_False) (intro conjI kept_fields [OF k]; auto)
  qed
qed

text \<open>C17: one tick advances the counter by one, wakes exactly the tasks whose time it is, and leaves
  everything else alone. A task that is woken is ready (or runs at once); a wait ends with TIMEOUT
  and leaves its waiting list. Any other blocked task stays blocked, and no semaphore, queue, mutex
  owner or memory changes.\<close>

theorem tick_wakes_due:
  assumes "good s" "k_started s"
  shows "\<exists>n s'. os_TimeTick s = Some (n, s') \<and> good s' \<and> k_tick s' = k_tick s + 1 \<and>
    k_sems s' = k_sems s \<and> k_queues s' = k_queues s \<and> k_mutexes s' = k_mutexes s \<and> k_memory s' = k_memory s \<and>
    (\<forall>t. t_state (k_tasks s t) = OS_TASK_BLOCKED_DELAY \<or> t_state (k_tasks s t) = OS_TASK_BLOCKED_OBJECT \<longrightarrow>
      (if t_delay_list (k_tasks s t) \<noteq> None \<and> t_wake_tick (k_tasks s t) = k_tick s + 1
       then (t_state (k_tasks s' t) = OS_TASK_READY \<or> t_state (k_tasks s' t) = OS_TASK_RUNNING) \<and>
         t_delay_list (k_tasks s' t) = None \<and>
         (t_state (k_tasks s t) = OS_TASK_BLOCKED_OBJECT \<longrightarrow> t_wait_list (k_tasks s' t) = None \<and>
            t_wait_result (k_tasks s' t) = OS_STATUS_TIMEOUT)
       else t_state (k_tasks s' t) = t_state (k_tasks s t) \<and> t_delay_list (k_tasks s' t) = t_delay_list (k_tasks s t) \<and>
         t_wait_list (k_tasks s' t) = t_wait_list (k_tasks s t)))"
proof -
  obtain n s' where s': "os_TimeTick s = Some (n, s')" "good s'" "k_tick s' = k_tick s + 1"
    "k_sems s' = k_sems s" "k_queues s' = k_queues s" "k_mutexes s' = k_mutexes s" "k_memory s' = k_memory s"
    and step: "if due (k_tick s + 1) (k_tasks s t) then roused t s s' else kept t s s'" for t
    using tick_step [OF assms] by blast
  show ?thesis by (intro exI [of _ n] exI [of _ s'] conjI allI impI s' blocked_step step)
qed

theorem tick_wakes_due_witness:
  "\<exists>n s'. os_TimeTick (example ()) = Some (n, s') \<and> t_wait_result (k_tasks s' 3) = OS_STATUS_TIMEOUT \<and>
    t_state (k_tasks s' 5) = OS_TASK_BLOCKED_OBJECT"
proof -
  have "t_wake_tick (example_tasks 3) = 11" "t_state (example_tasks 5) = OS_TASK_BLOCKED_OBJECT"
    "t_delay_list (example_tasks 5) = None"
    by (simp_all add: example_tasks_def) (simp_all add: example_task_def zero_task_def)
  note tcb = this example_task_simps(5,7)
  have "k_started (example ())" by simp
  from tick_wakes_due [OF example_good this] show ?thesis
    by - (elim exE conjE, frule spec [of _ 3], drule spec [of _ 5], use tcb in simp)
qed

subsection \<open>Runs of ticks\<close>

fun run_ticks :: "nat \<Rightarrow> 'p kernel \<Rightarrow> 'p kernel option" where
  "run_ticks 0 s = Some s"
| "run_ticks (Suc n) s = do { s \<leftarrow> run_ticks n s; (_, s) \<leftarrow> os_TimeTick s; Some s }"


lemma one_less:
  fixes w t :: u32
  assumes "Suc m = unat (w - t)"
  shows "unat (w - (t + 1)) = m" "w = t + 1 \<longleftrightarrow> m = 0"
proof -
  have "w - t \<noteq> 0" using assms by auto
  then have "unat (w - t - 1) = unat (w - t) - 1" by (rule unat_minus_one)
  moreover have "w - t - 1 = w - (t + 1)" by simp
  ultimately show m: "unat (w - (t + 1)) = m" using assms by simp
  have "w = t + 1 \<longleftrightarrow> w - (t + 1) = 0" by simp
  also have "\<dots> \<longleftrightarrow> unat (w - (t + 1)) = 0" using unat_eq_zero by blast
  finally show "w = t + 1 \<longleftrightarrow> m = 0" using m by simp
qed

lemma sleeper:
  assumes "good s" "k_started s" and st: "st = OS_TASK_BLOCKED_DELAY \<or> st = OS_TASK_BLOCKED_OBJECT"
    and t: "t_state (k_tasks s t) = st" "t_delay_list (k_tasks s t) \<noteq> None"
    and m: "k + Suc m = unat (t_wake_tick (k_tasks s t) - k_tick s)"
  shows "\<exists>s'. run_ticks k s = Some s' \<and> good s' \<and> k_started s' \<and> t_state (k_tasks s' t) = st \<and>
    t_delay_list (k_tasks s' t) \<noteq> None \<and> Suc m = unat (t_wake_tick (k_tasks s' t) - k_tick s')"
  using m
proof (induction k arbitrary: m)
  case (Suc k)
  obtain s' where s': "run_ticks k s = Some s'" "good s'" "k_started s'" "t_state (k_tasks s' t) = st"
    "t_delay_list (k_tasks s' t) \<noteq> None" "Suc (Suc m) = unat (t_wake_tick (k_tasks s' t) - k_tick s')"
    using Suc.IH [of "Suc m"] Suc.prems by auto
  obtain n s'' where s'': "os_TimeTick s' = Some (n, s'')" "good s''" "k_started s''" "k_tick s'' = k_tick s' + 1"
    and step: "if due (k_tick s' + 1) (k_tasks s' t) then roused t s' s'' else kept t s' s''"
    using tick_step [OF s'(2,3)] by blast
  note nx = one_less [OF s'(6)]
  have "kept t s' s''" using step nx(2) by (simp add: due_def)
  from kept_fields [OF this] show ?case using s' s'' nx(1) st by auto
qed (use assms in auto)

lemma woken_on_time:
  assumes "good s" "k_started s" and st: "st = OS_TASK_BLOCKED_DELAY \<or> st = OS_TASK_BLOCKED_OBJECT"
    and t: "t_state (k_tasks s t) = st" "t_delay_list (k_tasks s t) \<noteq> None"
    and n: "0 < n" "n = unat (t_wake_tick (k_tasks s t) - k_tick s)"
  shows "(\<forall>k<n. \<exists>s'. run_ticks k s = Some s' \<and> t_state (k_tasks s' t) = st) \<and>
    (\<exists>s'. run_ticks n s = Some s' \<and> (t_state (k_tasks s' t) = OS_TASK_READY \<or> t_state (k_tasks s' t) = OS_TASK_RUNNING) \<and>
      (st = OS_TASK_BLOCKED_OBJECT \<longrightarrow> t_wait_list (k_tasks s' t) = None \<and> t_wait_result (k_tasks s' t) = OS_STATUS_TIMEOUT))"
proof
  show "\<forall>k<n. \<exists>s'. run_ticks k s = Some s' \<and> t_state (k_tasks s' t) = st"
    using sleeper [OF assms(1-3) t] n(2) by (metis add_Suc_right less_imp_Suc_add)
  obtain m where m: "n = Suc m" using n(1) by (cases n) auto
  obtain s' where s': "run_ticks m s = Some s'" "good s'" "k_started s'" "t_state (k_tasks s' t) = st"
    "t_delay_list (k_tasks s' t) \<noteq> None" "Suc 0 = unat (t_wake_tick (k_tasks s' t) - k_tick s')"
    using sleeper [OF assms(1-3) t, of m 0] n(2) m by auto
  have "due (k_tick s' + 1) (k_tasks s' t)"
    using one_less(2) [OF s'(6)] s'(4,5) st by (auto simp: due_def delay_place_def)
  then obtain r s'' where s'': "os_TimeTick s' = Some (r, s'')" "roused t s' s''"
    using tick_step [OF s'(2,3)] by meson
  from roused_fields [OF s''(2)] show "\<exists>s'. run_ticks n s = Some s' \<and> (t_state (k_tasks s' t) = OS_TASK_READY \<or> t_state (k_tasks s' t) = OS_TASK_RUNNING) \<and>
      (st = OS_TASK_BLOCKED_OBJECT \<longrightarrow> t_wait_list (k_tasks s' t) = None \<and> t_wait_result (k_tasks s' t) = OS_STATUS_TIMEOUT)"
    using m s'(1,4) s''(1) by auto
qed


text \<open>C15: a task that delays itself sleeps for exactly the number of ticks it asked for (at most
  OS_MAX_DELAY_TICKS): after fewer ticks it is still asleep, after that many it is ready or runs,
  also when the tick counter wraps in between.\<close>

theorem delay_lasts_exactly:
  assumes "good s" "k_current s = Some c" "ticks \<noteq> 0"
  defines "n \<equiv> unat (min ticks OS_MAX_DELAY_TICKS)"
  shows "\<exists>r s0. os_TimeDelayCurrent ticks s = Some (r, s0) \<and> good s0 \<and>
    (\<forall>k<n. \<exists>s'. run_ticks k s0 = Some s' \<and> t_state (k_tasks s' c) = OS_TASK_BLOCKED_DELAY) \<and>
    (\<exists>s'. run_ticks n s0 = Some s' \<and>
      (t_state (k_tasks s' c) = OS_TASK_READY \<or> t_state (k_tasks s' c) = OS_TASK_RUNNING))"
proof -
  obtain h a where s: "s = conc h a" "list_rep h (k_heap a)" "kernel_ok a" using assms(1) by (rule goodE)
  have c: "k_current a = Some c" using assms(2) s(1) by simp
  obtain r b l where b: "spec_TimeDelayCurrent ticks a = Some (r, b)" "dispatched a b"
    "views b = (views a)(c := view ((k_tasks a c)\<lparr>t_state := OS_TASK_BLOCKED_DELAY,
       t_wake_tick := k_tick a + min ticks OS_MAX_DELAY_TICKS, t_delay_list := Some l\<rparr>))"
    using returnsD [OF TimeDelayCurrent_blocks [OF s(3) c assms(3)]] by auto
  obtain s0 where s0: "os_TimeDelayCurrent ticks s = Some (r, s0)" "good s0" "\<exists>h. s0 = conc h b"
    using run_value [OF TimeDelayCurrent_refines [OF s(2), of ticks, unfolded b(1)] dispatched_kernel_ok [OF b(2)]] s(1)
    by auto
  have view: "view (k_tasks b c) = view ((k_tasks a c)\<lparr>t_state := OS_TASK_BLOCKED_DELAY,
       t_wake_tick := k_tick a + min ticks OS_MAX_DELAY_TICKS, t_delay_list := Some l\<rparr>)"
    using fun_cong [OF b(3), of c] by (simp add: views_def)
  have started: "k_started s0" using b(2) s0(3) live_started by (auto simp: dispatched_def)
  from arg_cong [OF view, of t_state] arg_cong [OF view, of t_delay_list] arg_cong [OF view, of t_wake_tick]
  have tcb: "t_state (k_tasks s0 c) = OS_TASK_BLOCKED_DELAY" "t_delay_list (k_tasks s0 c) \<noteq> None"
    "t_wake_tick (k_tasks s0 c) - k_tick s0 = min ticks OS_MAX_DELAY_TICKS"
    using s0(3) b(2) by (auto simp: view_def dispatched_def same_objects_def split: if_splits)
  have "min ticks OS_MAX_DELAY_TICKS \<noteq> 0" using assms(3) by (simp add: min_def)
  then have n: "0 < n" "n = unat (t_wake_tick (k_tasks s0 c) - k_tick s0)"
    unfolding n_def tcb(3) by (metis gr0I unat_eq_zero) simp
  from woken_on_time [OF s0(2) started disjI1 [OF refl] tcb(1,2) n] show ?thesis using s0(1,2) by blast
qed

theorem delay_lasts_exactly_witness:
  "\<exists>r s0 s1 s2. os_TimeDelayCurrent 2 (example ()) = Some (r, s0) \<and> run_ticks 1 s0 = Some s1 \<and>
    t_state (k_tasks s1 2) = OS_TASK_BLOCKED_DELAY \<and> run_ticks 2 s0 = Some s2 \<and>
    t_state (k_tasks s2 2) \<noteq> OS_TASK_BLOCKED_DELAY"
proof -
  have n: "unat (min 2 OS_MAX_DELAY_TICKS) = 2" by (simp add: min_def)
  have current: "k_current (example ()) = Some 2" by simp
  have two: "(2 :: u32) \<noteq> 0" by simp
  obtain r s0 s2 where s0: "os_TimeDelayCurrent 2 (example ()) = Some (r, s0)" "run_ticks 2 s0 = Some s2"
    "t_state (k_tasks s2 2) = OS_TASK_READY \<or> t_state (k_tasks s2 2) = OS_TASK_RUNNING"
    and before: "\<forall>k<2. \<exists>s'. run_ticks k s0 = Some s' \<and> t_state (k_tasks s' 2) = OS_TASK_BLOCKED_DELAY"
    using delay_lasts_exactly [OF example_good current two, unfolded n] by blast
  obtain s1 where "run_ticks 1 s0 = Some s1" "t_state (k_tasks s1 2) = OS_TASK_BLOCKED_DELAY"
    using before [rule_format, of 1] by auto
  with s0 show ?thesis by (intro exI conjI) auto
qed

text \<open>C16: a wait with a timeout ends at its deadline when nothing wakes the task before: until then the
  task keeps waiting, and at that very tick it leaves the waiting list with TIMEOUT. The deadline is
  always ahead, by at most OS_MAX_DELAY_TICKS.\<close>

theorem wait_times_out:
  assumes "good s" "k_started s" "t_state (k_tasks s t) = OS_TASK_BLOCKED_OBJECT" "t_delay_list (k_tasks s t) \<noteq> None"
  defines "n \<equiv> unat (t_wake_tick (k_tasks s t) - k_tick s)"
  shows "0 < n \<and> n \<le> unat OS_MAX_DELAY_TICKS \<and>
    (\<forall>k<n. \<exists>s'. run_ticks k s = Some s' \<and> t_state (k_tasks s' t) = OS_TASK_BLOCKED_OBJECT) \<and>
    (\<exists>s'. run_ticks n s = Some s' \<and> (t_state (k_tasks s' t) = OS_TASK_READY \<or> t_state (k_tasks s' t) = OS_TASK_RUNNING) \<and>
      t_wait_list (k_tasks s' t) = None \<and> t_wait_result (k_tasks s' t) = OS_STATUS_TIMEOUT)"
proof -
  obtain h a where s: "s = conc h a" "list_rep h (k_heap a)" "kernel_ok a" using assms(1) by (rule goodE)
  have kinv: "kinv {} a" and time: "time_ok True a" using s(3) by (simp_all add: kernel_ok_def)
  obtain l where l: "t_delay_list (k_tasks a t) = Some l" using assms(4) s(1) by auto
  then have at: "sp_place (k_heap a) (DelayNode t) = Some l"
    using kinv_place [OF kinv, of t] assms(3) s(1) by (simp add: place_ok_def delay_place_def)
  then have "k_px_delayed a = Some l \<or> k_px_overflow_delayed a = Some l"
    using qwf_delay [OF kinv_qwf [OF kinv] at] kinv_px [OF kinv] by (auto simp: px_ok_def)
  then have "t_wake_tick (k_tasks a t) \<noteq> k_tick a" "t_wake_tick (k_tasks a t) - k_tick a \<le> OS_MAX_DELAY_TICKS"
    using time [unfolded time_ok_def, rule_format, OF at] by (auto simp del: OS_MAX_DELAY_TICKS_def)
  then have "t_wake_tick (k_tasks s t) - k_tick s \<noteq> 0" and n': "n \<le> unat OS_MAX_DELAY_TICKS"
    by (simp_all add: n_def s(1) word_le_nat_alt del: OS_MAX_DELAY_TICKS_def)
  then have n: "0 < n" unfolding n_def by (metis gr0I unat_eq_zero)
  from woken_on_time [OF assms(1,2) disjI2 [OF refl] assms(3,4) n] n n' show ?thesis by (simp add: n_def)
qed

theorem wait_times_out_witness:
  "\<exists>s'. run_ticks 1 (example ()) = Some s' \<and> t_wait_list (k_tasks s' 3) = None \<and>
    t_wait_result (k_tasks s' 3) = OS_STATUS_TIMEOUT"
proof -
  have "t_wake_tick (k_tasks (example ()) 3) = 11" by (simp add: example_tasks_def)
  then have "unat (t_wake_tick (k_tasks (example ()) 3) - k_tick (example ())) = 1" by simp
  with wait_times_out [OF example_good, of "()" 3] show ?thesis
    by (simp add: example_task_simps del: run_ticks.simps) blast
qed

text \<open>C19: the loop of the tick handler over the delay list, which has no bound of its own, ends from any
  kernel in order, and when it ends no task is left whose time has come.\<close>

theorem tick_loop_ends:
  assumes "good s" "k_started s"
  shows "\<exists>w s'. os_TimeTickLoop (k_tick s + 1) False
      (let s = s\<lparr>k_tick := k_tick s + 1\<rparr> in if k_tick s = 0
       then s\<lparr>k_px_delayed := k_px_overflow_delayed s, k_px_overflow_delayed := k_px_delayed s\<rparr> else s) = Some (w, s') \<and>
    (\<forall>t. \<not> due (k_tick s + 1) (k_tasks s' t))"
proof -
  obtain h a where s: "s = conc h a" "list_rep h (k_heap a)" "kernel_ok a" using assms(1) by (rule goodE)
  obtain w b where b: "spec_TimeTickLoop OS_MAX_TASKS (k_tick a + 1) False (next_tick a) = Some (w, b)"
    "live True {} b" "current_ok b" "tasks_follow (\<lambda>u. wake_due (k_tick a + 1)) (next_tick a) b"
    using returnsD [OF TickLoop_start [OF s(3)]] assms(2) s(1) by auto
  have rep: "list_rep h (k_heap (next_tick a))" using s(2) by simp
  have "\<not> due (k_tick a + 1) (k_tasks b t)" for t
  proof -
    obtain e where "k_tasks b t = set_eff e (wake_due (k_tick a + 1) (k_tasks a t))"
      using b(4) by (auto simp: tasks_follow_def)
    then show ?thesis by (simp add: wake_due_def) (simp add: due_def delay_place_def)
  qed
  moreover have "(let s = s\<lparr>k_tick := k_tick s + 1\<rparr> in if k_tick s = 0
       then s\<lparr>k_px_delayed := k_px_overflow_delayed s, k_px_overflow_delayed := k_px_delayed s\<rparr> else s) =
      conc h (next_tick a)"
    by (simp add: s(1) next_tick_def Let_def)
  ultimately show ?thesis
    using run_value [OF TimeTickLoop_refines [OF rep, of "k_tick a + 1" False OS_MAX_TASKS, unfolded b(1)]
      live_kernel_ok [OF b(2,3)]] s(1) by auto
qed

theorem tick_loop_ends_witness:
  "\<exists>w s'. os_TimeTickLoop 11 False ((example ())\<lparr>k_tick := 11\<rparr>) = Some (w, s') \<and> \<not> due 11 (k_tasks s' 3)"
  using tick_loop_ends [OF example_good, of "()"] by (simp add: Let_def) blast


subsection \<open>Time slices\<close>

lemma quiet_loop:
  assumes ok: "kernel_ok a" and started: "k_started a" and quiet: "\<And>t. \<not> due (k_tick a + 1) (k_tasks a t)"
  shows "spec_TimeTickLoop OS_MAX_TASKS (k_tick a + 1) False (next_tick a) = Some (False, next_tick a)"
    and "live True {} (next_tick a)"
proof -
  have live: "live False {} (next_tick a)" by (rule next_tick_live [OF ok started])
  obtain i where px: "k_px_delayed (next_tick a) = Some (DelayedList i)"
    using kinv_px [OF live_kinv [OF live]] by (auto simp: px_ok_def)
  have late: "wake_of (next_tick a) n \<noteq> k_tick a + 1 \<and> \<not> os_TickReached (k_tick a + 1) (wake_of (next_tick a) n)"
    if n: "n \<in> set (sp_nodes (k_heap (next_tick a)) (DelayedList i))" for n
  proof -
    obtain t where t: "n = DelayNode t" "sp_place (k_heap (next_tick a)) (DelayNode t) = Some (DelayedList i)"
      using delay_member [OF live n] by metis
    then have "delay_place (k_tasks a t) = Some (DelayedList i)"
      using kinv_place [OF live_kinv [OF live], of t] by (auto simp: place_ok_def)
    then have "t_wake_tick (k_tasks a t) \<noteq> k_tick a + 1" using quiet [of t] by (auto simp: due_def)
    moreover have "t_wake_tick (k_tasks a t) - (k_tick a + 1) \<le> OS_MAX_DELAY_TICKS"
      using live_time [OF live, unfolded time_ok_def, rule_format, OF t(2)] by simp
    ultimately show ?thesis using TickReached_iff by (simp add: wake_of_def t(1))
  qed
  then show "live True {} (next_tick a)" using nothing_due(1) [OF live px] by simp
  show "spec_TimeTickLoop OS_MAX_TASKS (k_tick a + 1) False (next_tick a) = Some (False, next_tick a)"
    using px late
    by (cases "sp_nodes (k_heap (next_tick a)) (DelayedList i)")
      (simp_all add: spec_TimeTickLoop.simps [of OS_MAX_TASKS] Let_def wake_of_def del: OS_MAX_TASKS_def)
qed


lemma ready_front:
  assumes "kernel_ok a" "map task_of (sp_nodes (k_heap a) (ReadyList p)) = q # qs"
  obtains ns where "sp_nodes (k_heap a) (ReadyList p) = SchedNode q # ns" "map task_of ns = qs"
proof -
  obtain n ns where n: "sp_nodes (k_heap a) (ReadyList p) = n # ns" "task_of n = q" "map task_of ns = qs"
    using assms(2) by auto
  then obtain t where "n = SchedNode t"
    using assms(1) qwf_wait_nodes [OF kinv_qwf, of "{}" a n "ReadyList p"] by (auto simp: kernel_ok_def)
  with n that show thesis by auto
qed

lemma quiet_tick:
  assumes "orderly s" "k_started s" "k_current s = Some c" and quiet: "\<And>t. \<not> due (k_tick s + 1) (k_tasks s t)"
    and "queue_of s (ReadyList (t_effective_priority (k_tasks s c))) = q # qs"
  shows "\<exists>s'. good s' \<and> (if 1 < t_slice_remaining (k_tasks s c)
    then os_TimeTick s = Some (Some c, s') \<and> k_current s' = Some c \<and> (\<forall>l. queue_of s' l = queue_of s l) \<and>
      k_tasks s' = (k_tasks s)(c := (k_tasks s c)\<lparr>t_slice_remaining := t_slice_remaining (k_tasks s c) - 1\<rparr>)
    else os_TimeTick s = Some (Some q, s') \<and> k_current s' = Some q \<and> t_state (k_tasks s' c) = OS_TASK_READY \<and>
      t_slice_remaining (k_tasks s' q) = OS_TIME_SLICE_TICKS \<and>
      queue_of s' (ReadyList (t_effective_priority (k_tasks s c))) = qs @ [c])"
proof -
  obtain h a where s: "s = conc h a" "list_rep h (k_heap a)" "strict a" using assms(1) by (rule orderlyE)
  have ok: "kernel_ok a" and c: "k_current a = Some c" and started: "k_started a" and top: "top_running a"
    using s(3) assms(2,3) s(1) by (simp_all add: strict_def)
  note loop = quiet_loop [OF ok started]
  define d where "d = snd (charge_slice (next_tick a))"
  let ?p = "t_effective_priority (k_tasks a c)"
  let ?n = "t_slice_remaining (k_tasks a c)"
  have "current_ok (next_tick a)" using ok by (simp add: kernel_ok_def)
  then have kd: "kernel_ok d"
    using charge_slice_ok [of "next_tick a"] loop(2) quiet s(1) unfolding d_def by (auto intro: live_kernel_ok)
  have d: "k_tasks d = (k_tasks a)(c := (k_tasks a c)\<lparr>t_slice_remaining := (if 0 < ?n then ?n - 1 else 0)\<rparr>)"
    "k_current d = Some c" "k_heap d = k_heap a" "k_started d"
    using c started by (auto simp: d_def charge_slice_def Let_def upd_task_def not_less)
  have "?n \<le> 1 \<longleftrightarrow> ?n = 0 \<or> ?n = 1" by (auto simp: word_le_nat_alt word_unat_eq_iff le_Suc_eq)
  then have charge: "charge_slice (next_tick a) = (?n \<le> 1, d)"
    using c by (auto simp: d_def charge_slice_def Let_def upd_task_def)
  have tick: "spec_TimeTick a = tick_tail False (?n \<le> 1) d"
    using loop(1) quiet s(1) by (simp add: TimeTick_eq charge)
  have "kinv {} a" using ok by (simp add: kernel_ok_def)
  from queue_of_conc [OF s(2) this, of "ReadyList ?p"] assms(5)
  have "map task_of (sp_nodes (k_heap a) (ReadyList ?p)) = q # qs" by (simp add: s(1))
  then obtain ns where q: "sp_nodes (k_heap a) (ReadyList ?p) = SchedNode q # ns" "map task_of ns = qs"
    by (rule ready_front [OF ok])
  show ?thesis
  proof (cases "1 < ?n")
    case True
    then have pos: "0 < ?n" and "\<not> ?n \<le> 1" by (auto simp: not_le intro: order.strict_trans [of 0 1])
    then have run: "spec_TimeTick a = Some (Some c, d)" using d tick by (simp add: tick_tail_def)
    have "queue_of (conc h' d) l = queue_of s l" if "list_rep h' (k_heap d)" for h' l
      using queue_of_conc [OF that, of "{}"] queue_of_conc [OF s(2), of "{}"] kd ok d(3) s(1) by (simp add: kernel_ok_def)
    with True run_value [OF TimeTick_refines [OF s(2), unfolded run] kd] show ?thesis
      using d s(1) pos by auto
  next
    case False
    have top': "t_effective_priority (k_tasks d t) \<le> ?p" if "t_state (k_tasks d t) = OS_TASK_READY" for t
      using that top c by (auto simp: d(1) top_running_def split: if_splits)
    have highest: "os_ReadyHighestPriority d = uint ?p"
    proof (rule HighestPriority_cases [of "{}" d])
      show "kinv {} d" using kd by (simp add: kernel_ok_def)
    next
      fix v t ms assume v: "v < 8" "os_ReadyHighestPriority d = uint v" "sp_nodes (k_heap d) (ReadyList v) = SchedNode t # ms"
        and above: "\<And>u. v < u \<Longrightarrow> sp_nodes (k_heap d) (ReadyList u) = []"
      have "v \<le> ?p" using ready_member [of "{}" d t v] v(3) kd top' [of t] by (auto simp: kernel_ok_def)
      moreover have "\<not> v < ?p" using above [of ?p] q(1) d(3) by auto
      ultimately show ?thesis using v(2) by auto
    qed (use q(1) d(3) in simp)
    then have "tick_tail False True d = Option.bind (spec_SchedRequeue c OS_SWITCH_TIME_SLICE d) (\<lambda>(after, s). Some (after,
        case after of None \<Rightarrow> s | Some t \<Rightarrow> if after = Some c
          then upd_task t (\<lambda>T. T\<lparr>t_slice_remaining := OS_TIME_SLICE_TICKS\<rparr>) s else s))"
      using d kernel_ok_current [OF kd d(2)]
      by (simp add: tick_tail_def spec_SchedSchedule_def is_running_def Let_def)
    moreover obtain b where b: "spec_SchedRequeue c OS_SWITCH_TIME_SLICE d = Some (Some q, b)" "dispatched d b"
      "k_current b = Some q" "t_slice_remaining (k_tasks b q) = OS_TIME_SLICE_TICKS" "t_state (k_tasks b c) = OS_TASK_READY"
      "sp_nodes (k_heap b) = (sp_nodes (k_heap a))(ReadyList ?p := ns @ [SchedNode c])"
      using Requeue_rotates [OF kd d(2), of ?p q ns OS_SWITCH_TIME_SLICE] q(1) top' d by auto
    moreover have "q \<noteq> c" using b(3,5) kernel_ok_current [OF dispatched_kernel_ok [OF b(2)], of q] by auto
    ultimately have run: "spec_TimeTick a = Some (Some q, b)" using False tick by (simp add: not_less)
    from False run_value [OF TimeTick_refines [OF s(2), unfolded run] dispatched_kernel_ok [OF b(2)]] show ?thesis
      using b q(2) s(1) by auto
  qed
qed

text \<open>C18: time slicing. While no task is due, a tick charges the running task one tick of its slice. As long
  as ticks are left, it goes on and no list changes. With the last one it gives way to the next
  ready task of its priority, which starts with a full slice, and lines up behind the
  others of that priority.\<close>

theorem slice_is_charged:
  assumes "orderly s" "k_started s" "k_current s = Some c" and quiet: "\<And>t. \<not> due (k_tick s + 1) (k_tasks s t)"
    and "queue_of s (ReadyList (t_effective_priority (k_tasks s c))) = q # qs"
  shows "\<exists>s'. good s' \<and> (if 1 < t_slice_remaining (k_tasks s c)
    then os_TimeTick s = Some (Some c, s') \<and> k_current s' = Some c \<and> (\<forall>l. queue_of s' l = queue_of s l) \<and>
      k_tasks s' = (k_tasks s)(c := (k_tasks s c)\<lparr>t_slice_remaining := t_slice_remaining (k_tasks s c) - 1\<rparr>)
    else os_TimeTick s = Some (Some q, s') \<and> k_current s' = Some q \<and> t_state (k_tasks s' c) = OS_TASK_READY \<and>
      t_slice_remaining (k_tasks s' q) = OS_TIME_SLICE_TICKS \<and>
      queue_of s' (ReadyList (t_effective_priority (k_tasks s c))) = qs @ [c])"
  by (rule quiet_tick [OF assms])

theorem slice_is_charged_witness:
  "\<exists>s'. os_TimeTick (example_quiet ()) = Some (Some 7, s') \<and> k_current s' = Some 7 \<and>
    queue_of s' (ReadyList 5) = [2]"
proof -
  have "\<not> due (k_tick (example_quiet ()) + 1) (k_tasks (example_quiet ()) t)" for t
    by (simp add: example_quiet_simps due_def delay_place_def) (simp add: example_defs zero_task_def)
  moreover have "queue_of (example_quiet ()) (ReadyList (t_effective_priority (k_tasks (example_quiet ()) 2))) = 7 # []"
    by (simp add: example_quiet_simps example_task_simps example_lists_def)
  ultimately show ?thesis
    using slice_is_charged [OF example_quiet_orderly, of "()" 2 7 "[]"] by (simp add: example_quiet_simps example_task_simps) blast
qed

end
