(* ===== verification/List_Properties.thy ===== *)
theory List_Properties
  imports Sched_Properties
begin

section \<open>Properties of the intrusive lists\<close>

text \<open>
  The operations of \<open>os_list.c\<close> on linked nodes against lists: what appending, membership and
  removal mean, through the interface \<open>list_module\<close>.
\<close>

lemma headers_equal:
  assumes "list_rep h A" "list_rep h' B" "sp_nodes A = sp_nodes B"
  shows "h_lists h = h_lists h'"
proof
  fix l
  have "header_ok (h_lists h l) (sp_nodes B l)" "header_ok (h_lists h' l) (sp_nodes B l)"
    using rep_header [OF assms(1)] rep_header [OF assms(2)] assms(3) by metis+
  then show "h_lists h l = h_lists h' l" by (simp add: header_ok_def)
qed

text \<open>C34: a node that is in no list can be appended to any list, is found there, and can be removed
  again; after that all list headers are as they were, and so are the links: the heap represents the
  same lists. None of the assertions in the code fails on the way.\<close>

theorem push_remove_round_trip:
  assumes "list_rep h A" "sp_place A n = None" "task_of n < OS_MAX_TASKS" "length (sp_nodes A l) \<le> OS_MAX_TASKS"
  shows "\<exists>h1 h2. os_ListPushBack l n h = Some h1 \<and> l_tail (h_lists h1 l) = Some n \<and>
    os_ListContains (Some l) (Some n) h1 \<and> os_ListRemove l n h1 = Some h2 \<and> list_rep h2 A \<and>
    h_lists h2 = h_lists h \<and> \<not> os_ListContains (Some l) (Some n) h2"
proof -
  let ?B = "A\<lparr>sp_nodes := (sp_nodes A)(l := sp_nodes A l @ [n]), sp_place := (sp_place A)(n := Some l)\<rparr>"
  obtain h1 where h1: "os_ListPushBack l n h = Some h1" "list_rep h1 ?B"
    using os_list.push_back_free [OF assms(1-3), of l] by blast
  have new: "n \<notin> set (sp_nodes A l)" using rep_place [OF assms(1), of n l] assms(2) by simp
  have "spec_Remove l n ?B = Some A"
    using new assms(2) by (simp add: spec_Remove_def remove1_append fun_upd_idem)
  then obtain h2 where h2: "os_ListRemove l n h1 = Some h2" "list_rep h2 A"
    using os_list.remove_law [OF h1(2), of l n] by (auto simp: sim_def)
  have "os_ListContains (Some l) (Some n) h1"
    using os_list.contains_law [OF h1(2), of l n] assms(4) by simp
  moreover have "\<not> os_ListContains (Some l) (Some n) h2"
    using os_list.contains_law [OF h2(2), of l n] assms(4) new by simp
  moreover have "l_tail (h_lists h1 l) = Some n" using rep_tail [OF h1(2), of l] by simp
  ultimately show ?thesis using h1(1) h2 headers_equal [OF h2(2) assms(1)] by blast
qed

theorem push_remove_round_trip_witness:
  "\<exists>h1 h2. os_ListPushBack (ReadyList 3) (SchedNode 2) (heap_of example_lists) = Some h1 \<and>
    os_ListRemove (ReadyList 3) (SchedNode 2) h1 = Some h2 \<and> h_lists h2 = h_lists (heap_of example_lists)"
  using push_remove_round_trip [OF heap_of_rep [OF example_qwf], of "SchedNode 2" "ReadyList 3"]
  by (simp add: example_lists_def) blast

text \<open>C35: membership by walking the pointers agrees with the state of the task: in a kernel in order, the
  scheduling node of a task is found in a list exactly when the state of the task calls for that
  list, and its delay node in a delay list exactly when the task sleeps or waits with a timeout there.\<close>

theorem contains_agrees_with_state:
  assumes "good s"
  shows "(os_ListContains (Some l) (Some (SchedNode t)) (k_heap s) \<longleftrightarrow> sched_place (k_tasks s t) = Some l) \<and>
    (os_ListContains (Some l) (Some (DelayNode t)) (k_heap s) \<longleftrightarrow> delay_place (k_tasks s t) = Some l)"
proof -
  obtain h a where s: "s = conc h a" "list_rep h (k_heap a)" "kernel_ok a" using assms(1) by (rule goodE)
  have kinv: "kinv {} a" using s(3) by (simp add: kernel_ok_def)
  have "length (sp_nodes (k_heap a) l) \<le> OS_MAX_TASKS + 1"
    using list_length [OF kinv_qwf [OF kinv], of l] by simp
  from os_list.contains_law [OF s(2) this] show ?thesis
    using qwf_mem [OF kinv_qwf [OF kinv]] kinv_place [OF kinv, of t] by (simp add: s(1) place_ok_def)
qed

theorem contains_agrees_with_state_witness:
  "os_ListContains (Some (SemWaiters 0)) (Some (SchedNode 3)) (k_heap (example ())) \<and>
   os_ListContains (Some (DelayedList 0)) (Some (DelayNode 3)) (k_heap (example ())) \<and>
   \<not> os_ListContains (Some (ReadyList 2)) (Some (SchedNode 3)) (k_heap (example ()))"
  by (simp add: contains_agrees_with_state [OF example_good] sched_place_def delay_place_def example_task_simps)

end
