(* ===== verification/RTOS_System.thy ===== *)
theory RTOS_System
  imports Kernel_Entry
begin

section \<open>The whole system: a kernel on a port\<close>

text \<open>
  A port is what the kernel is linked with: the critical-section and stack hooks, the task
  request, the scheduler start, the tick interrupt, and the addresses of the Idle task. A
  run of the system is a sequence of calls of the public API and of interrupts, one at a time:
  on the stub and the Cortex-M port, the kernel runs with interrupts masked or in the
  interrupt itself. The locale \<open>kernel_port\<close> states what the kernel needs of a port;
  every port that keeps it gives a system whose reachable states are all valid.
\<close>

record 'p port_ops =
  po_hal :: "'p os_port_hal"
  po_request :: "'p request"
  po_start :: "'p starter"
  po_tick :: "'p kernel \<Rightarrow> 'p kernel option"
  po_idle_entry :: addr
  po_idle_stack :: addr

datatype kernel_call =
    CallInit
  | CallTaskCreate addr "string option" u32 addr u8 addr
  | CallSemaphoreCreate u32 u32
  | CallQueueCreate size_t size_t addr
  | CallMutexCreate
  | CallStart u32
  | CallYield
  | CallDelay u32
  | CallSemaphoreTake "nat option" u32
  | CallSemaphoreGive "nat option"
  | CallSemaphoreGiveFromISR "nat option"
  | CallQueueSend "nat option" addr u32
  | CallQueueReceive "nat option" addr u32
  | CallMutexLock "nat option" u32
  | CallMutexUnlock "nat option"
  | CallTaskReturn
  | CallTick

fun run_call :: "'p port_ops \<Rightarrow> kernel_call \<Rightarrow> 'p kernel \<Rightarrow> 'p kernel option" where
  "run_call P CallInit s = Some (os_Init s)"
| "run_call P (CallTaskCreate code nm z arg prio stack) s =
     map_option snd (xTaskCreate (po_hal P) code nm z arg prio stack s)"
| "run_call P (CallSemaphoreCreate m n) s = Some (snd (xSemaphoreCreateCounting m n s))"
| "run_call P (CallQueueCreate n z b) s = Some (snd (xQueueCreate n z b s))"
| "run_call P CallMutexCreate s = Some (snd (xMutexCreate s))"
| "run_call P (CallStart n) s =
     map_option snd (os_Start (po_hal P) (po_idle_entry P) (po_idle_stack P) (po_start P) n s)"
| "run_call P CallYield s = vTaskYield (po_request P) s"
| "run_call P (CallDelay t) s = vTaskDelay (po_request P) t s"
| "run_call P (CallSemaphoreTake i t) s = map_option snd (xSemaphoreTake (po_request P) i t s)"
| "run_call P (CallSemaphoreGive i) s = map_option snd (xSemaphoreGive (po_request P) i s)"
| "run_call P (CallSemaphoreGiveFromISR i) s = map_option snd (xSemaphoreGiveFromISR (po_hal P) i s)"
| "run_call P (CallQueueSend i b t) s = map_option snd (xQueueSend (po_request P) i b t s)"
| "run_call P (CallQueueReceive i b t) s = map_option snd (xQueueReceive (po_request P) i b t s)"
| "run_call P (CallMutexLock i t) s = map_option snd (xMutexLock (po_request P) i t s)"
| "run_call P (CallMutexUnlock i) s = map_option snd (xMutexUnlock (po_request P) i s)"
| "run_call P CallTaskReturn s = map_option snd (po_request P OS_PORT_REQ_EXIT 0 None 0 s)"
| "run_call P CallTick s = po_tick P s"

text \<open>
  The two duties of the application: the storage of a queue is an object in memory, and the
  Idle task, which runs kernel code only, takes no mutex.
\<close>

definition idle_current :: "('h, 'p) os_kernel_t \<Rightarrow> bool" where
  "idle_current s = (case k_current s of None \<Rightarrow> False | Some c \<Rightarrow> os_TaskIsIdle (Some c) s)"

fun admissible :: "kernel_call \<Rightarrow> 'p kernel \<Rightarrow> bool" where
  "admissible (CallQueueCreate n z b) s = (unat b + unat z * unat n \<le> 2 ^ 32)"
| "admissible (CallMutexLock i t) s = (\<not> idle_current s)"
| "admissible _ s = True"

inductive reachable :: "'p port_ops \<Rightarrow> 'p kernel \<Rightarrow> bool" for P where
  reachable_boot: "reachable P (os_Init s)"
| reachable_call: "reachable P s \<Longrightarrow> admissible c s \<Longrightarrow> run_call P c s = Some s' \<Longrightarrow> reachable P s'"

inductive_cases reachableE: "reachable P s"

subsection \<open>Requests\<close>

fun typed_request :: "os_port_req_id_t \<Rightarrow> obj_ref option \<Rightarrow> ('h, 'p) os_kernel_t \<Rightarrow> bool" where
  "typed_request OS_PORT_REQ_SEM_TAKE obj s = (as_sem obj \<noteq> None)"
| "typed_request OS_PORT_REQ_SEM_GIVE obj s = (as_sem obj \<noteq> None)"
| "typed_request OS_PORT_REQ_QUEUE_SEND obj s = (as_queue obj \<noteq> None)"
| "typed_request OS_PORT_REQ_QUEUE_RECEIVE obj s = (as_queue obj \<noteq> None)"
| "typed_request OS_PORT_REQ_MUTEX_LOCK obj s = (as_mutex obj \<noteq> None \<and> \<not> idle_current s)"
| "typed_request OS_PORT_REQ_MUTEX_UNLOCK obj s = (as_mutex obj \<noteq> None)"
| "typed_request _ obj s = True"

lemma as_obj [simp]:
  "as_sem (map_option SemObj i) = Some i" "as_queue (map_option QueueObj i) = Some i"
  "as_mutex (map_option MutexObj i) = Some i"
  by (cases i; simp)+

lemma idle_current_port [simp]: "idle_current (s\<lparr>k_port := p\<rparr>) = idle_current s"
  by (simp add: idle_current_def os_TaskIsIdle_def split: option.split)

lemma typed_request_port [simp]: "typed_request req obj (s\<lparr>k_port := p\<rparr>) = typed_request req obj s"
  by (cases req) simp_all

lemma dispatch_framed:
  assumes "orderly s" and "typed_request req obj s"
  shows "returns (os_port_dispatch c req ticks obj buf s) (\<lambda>s'. orderly s' \<and> frame s' = frame s)"
  using assms
  by (cases req)
    (auto intro!: requests_framed MutexLockCurrent_framed returns_bind [OF SchedYieldCurrent_framed]
      returns_bind [OF TimeDelayCurrent_framed] returns_bind [OF SchedTerminateCurrent_framed]
      simp: idle_current_def)

lemma dispatch_orderly:
  "orderly s \<Longrightarrow> typed_request req obj s \<Longrightarrow> returns (os_port_dispatch c req ticks obj buf s) orderly"
  by (rule returns_mono [OF dispatch_framed]) auto

subsection \<open>What the kernel needs of a port\<close>

locale kernel_port =
  fixes P :: "'p port_ops"
  assumes request_orderly: "orderly s \<Longrightarrow> typed_request req obj s \<Longrightarrow>
      returns (po_request P req ticks obj buf s) (\<lambda>(r, s). orderly s)"
    and request_idle: "k_current s = None \<Longrightarrow> po_request P req ticks obj buf s = Some (OS_STATUS_BAD_STATE, s)"
    and start_orderly: "orderly s \<Longrightarrow> returns (po_start P n s) (\<lambda>(r, s). orderly s)"
    and tick_orderly: "orderly s \<Longrightarrow> returns (po_tick P s) orderly"
begin

lemma Start_orderly:
  "orderly s \<Longrightarrow> returns (os_Start (po_hal P) e z (po_start P) n s) (\<lambda>(r, s). orderly s)"
  unfolding os_Start_def
  by (rule returns_bind [OF EnsureIdleTask_orderly]) (auto simp: start_orderly)

lemma snd_orderly: "returns m (\<lambda>(r, s). orderly s) \<Longrightarrow> returns (map_option snd m) orderly"
  by (cases m) (auto simp: split_beta)

lemma call_orderly:
  assumes "orderly s" and "admissible c s"
  shows "returns (run_call P c s) orderly"
proof -
  note req = request_orderly [OF assms(1)]
  have yield: "returns (vTaskYield (po_request P) s) orderly"
    unfolding vTaskYield_def by (rule returns_bind [OF req]) auto
  moreover have "returns (vTaskDelay (po_request P) t s) orderly" for t
    unfolding vTaskDelay_def using yield by (auto intro: returns_bind [OF req])
  ultimately show ?thesis
    using assms
    by (cases c)
      (auto intro!: snd_orderly req Start_orderly GiveFromISR_orderly xTaskCreate_orderly tick_orderly
        simp: orderly_init object_orderly xSemaphoreTake_def xSemaphoreGive_def xQueueSend_def
          xQueueReceive_def xMutexLock_def xMutexUnlock_def)
qed

lemma reachable_orderly: "reachable P s \<Longrightarrow> orderly s"
  by (induction rule: reachable.induct) (auto simp: orderly_init dest!: call_orderly)

lemma reachable_good: "reachable P s \<Longrightarrow> good s"
  by (rule orderly_good [OF reachable_orderly])

lemma reachable_valid: "reachable P s \<Longrightarrow> os_KernelValidate s"
  by (intro good_valid reachable_good)

lemma reachable_returns:
  assumes "reachable P s" and "admissible c s"
  shows "\<exists>s'. run_call P c s = Some s' \<and> reachable P s' \<and> os_KernelValidate s'"
  using returnsD [OF call_orderly [OF reachable_orderly [OF assms(1)] assms(2)]] assms
  by (metis orderly_good good_valid reachable_call)

text \<open>A request that nobody is running to make changes nothing.\<close>

lemma request_without_task:
  assumes "k_current s = None"
  shows "vTaskDelay (po_request P) t s = Some s" and "xSemaphoreTake (po_request P) i t s = Some (OS_STATUS_BAD_STATE, s)"
    and "xMutexLock (po_request P) i t s = Some (OS_STATUS_BAD_STATE, s)"
  by (simp_all add: vTaskDelay_def vTaskYield_def xSemaphoreTake_def xMutexLock_def request_idle [OF assms])

end

end
