(* ===== verification/Port_Stub.thy ===== *)
theory Port_Stub
  imports RTOS_System
begin

section \<open>The host stub port (port/stub/os_port_stub.c)\<close>

text \<open>
  The port of the white-box tests: critical sections are a counter, context switches a flag,
  and requests run the kernel operation directly. Function pointers are addresses.
\<close>

record stub_port =
  stub_critical_nesting :: u32
  stub_observer :: addr
  stub_observer_context :: addr
  stub_switch_pending :: bool

definition os_port_enter_critical_stub :: "stub_port \<Rightarrow> stub_port" where
  "os_port_enter_critical_stub p = p\<lparr>stub_critical_nesting := stub_critical_nesting p + 1\<rparr>"

definition os_port_exit_critical_stub :: "stub_port \<Rightarrow> stub_port" where
  "os_port_exit_critical_stub p =
     (if 0 < stub_critical_nesting p then p\<lparr>stub_critical_nesting := stub_critical_nesting p - 1\<rparr> else p)"

definition os_port_critical_nesting_stub :: "stub_port \<Rightarrow> u32" where
  "os_port_critical_nesting_stub p = stub_critical_nesting p"

definition os_port_pend_context_switch_stub :: "stub_port \<Rightarrow> stub_port" where
  "os_port_pend_context_switch_stub p = p\<lparr>stub_switch_pending := True\<rparr>"

definition os_port_stack_init_stub :: "addr \<Rightarrow> addr \<Rightarrow> addr \<Rightarrow> size_t \<Rightarrow> memory \<Rightarrow> addr \<times> memory" where
  "os_port_stack_init_stub entry argument stack_memory stack_size m =
     (if stack_memory = 0 \<or> stack_size < OS_MIN_STACK_BYTES then (0, m)
      else (stack_memory + stack_size, m))"

definition stub_hal :: "stub_port os_port_hal" where
  "stub_hal = \<lparr>hal_enter_critical = os_port_enter_critical_stub,
     hal_exit_critical = os_port_exit_critical_stub,
     hal_pend_context_switch = os_port_pend_context_switch_stub,
     hal_stack_init = os_port_stack_init_stub\<rparr>"

definition os_port_task_request_stub :: "stub_port request" where
  "os_port_task_request_stub req ticks object buffer s =
     (case k_current s of
        None \<Rightarrow> Some (OS_STATUS_BAD_STATE, s)
      | Some c \<Rightarrow>
          if t_state (k_tasks s c) \<noteq> OS_TASK_RUNNING then Some (OS_STATUS_BAD_STATE, s)
          else do {
            let s = s\<lparr>k_port := os_port_enter_critical_stub (k_port s)\<rparr>;
            s \<leftarrow> os_port_dispatch c req ticks object buffer s;
            let s = s\<lparr>k_port := os_port_exit_critical_stub (k_port s)\<rparr>;
            let s = s\<lparr>k_port := (k_port s)\<lparr>stub_switch_pending := False\<rparr>\<rparr>;
            Some (t_wait_result (k_tasks s c), s)
          })"

definition os_port_start_scheduler_stub :: "stub_port starter" where
  "os_port_start_scheduler_stub run_ticks s = Some (Some OS_STATUS_BAD_STATE, s)"

definition os_port_is_running_stub :: "stub_port \<Rightarrow> bool" where
  "os_port_is_running_stub p = False"

definition os_port_set_observer_stub :: "addr \<Rightarrow> addr \<Rightarrow> stub_port \<Rightarrow> stub_port" where
  "os_port_set_observer_stub observer context_arg p =
     p\<lparr>stub_observer := observer, stub_observer_context := context_arg\<rparr>"

subsection \<open>The stub keeps the port contract\<close>

text \<open>The tests call \<open>os_TimeTick\<close> directly.\<close>

definition stub_ops :: "addr \<Rightarrow> addr \<Rightarrow> stub_port port_ops" where
  "stub_ops idle_entry idle_stack = \<lparr>po_hal = stub_hal, po_request = os_port_task_request_stub,
     po_start = os_port_start_scheduler_stub, po_tick = (\<lambda>s. map_option snd (os_TimeTick s)),
     po_idle_entry = idle_entry, po_idle_stack = idle_stack\<rparr>"

lemma stub_request_orderly:
  assumes "orderly s" and "typed_request req obj s"
  shows "returns (os_port_task_request_stub req ticks obj buf s) (\<lambda>(r, s). orderly s)"
  unfolding os_port_task_request_stub_def Let_def
  using assms
  by (auto split: option.split intro!: returns_bind [OF dispatch_orderly])

interpretation stub: kernel_port "stub_ops idle_entry idle_stack" for idle_entry idle_stack
proof
  fix s :: "stub_port kernel" and req ticks obj buf n
  show "orderly s \<Longrightarrow> typed_request req obj s \<Longrightarrow>
      returns (po_request (stub_ops idle_entry idle_stack) req ticks obj buf s) (\<lambda>(r, s). orderly s)"
    by (simp add: stub_ops_def stub_request_orderly)
  show "k_current s = None \<Longrightarrow>
      po_request (stub_ops idle_entry idle_stack) req ticks obj buf s = Some (OS_STATUS_BAD_STATE, s)"
    by (simp add: stub_ops_def os_port_task_request_stub_def)
  show "orderly s \<Longrightarrow> returns (po_start (stub_ops idle_entry idle_stack) n s) (\<lambda>(r, s). orderly s)"
    by (simp add: stub_ops_def os_port_start_scheduler_stub_def)
  show "orderly s \<Longrightarrow> returns (po_tick (stub_ops idle_entry idle_stack) s) orderly"
    using TimeTick_orderly [of s] by (cases "os_TimeTick s") (auto simp: stub_ops_def)
qed

text \<open>A stub port after a reset.\<close>

definition stub_reset :: stub_port where
  "stub_reset = \<lparr>stub_critical_nesting = 0, stub_observer = 0, stub_observer_context = 0,
     stub_switch_pending = False\<rparr>"

end
