(* ===== verification/Task_Properties.thy ===== *)
theory Task_Properties
  imports Sched_Properties Port_Stub
begin

section \<open>Properties of task creation\<close>

text \<open>
  Creating a task before the scheduler starts: what a successful creation adds, and that a
  refused one leaves nothing behind. The Idle task goes the same way.
\<close>

text \<open>C27: creating a task with arguments that pass the checks, while a slot is free and the port accepts the
  stack, succeeds: the next slot becomes a ready task with the given name, entry, argument, stack
  and priority, which it has as base and as effective priority; it lines up at the end of the
  ready queue of that priority; no other task and no other list changes.\<close>

theorem create_adds_ready_task:
  assumes "good s" "k_initialized s" "\<not> k_started s"
    and "entry \<noteq> 0" "stack \<noteq> 0" "OS_MIN_STACK_BYTES \<le> sz"
    and "0 < os_TaskNameLength (Some nm)" "os_TaskNameLength (Some nm) < OS_TASK_NAME_MAX"
    and "prio < OS_PRIORITY_COUNT" "idle \<or> OS_IDLE_PRIORITY < prio"
    and "unat (k_task_count s) < OS_MAX_TASKS"
    and "hal_stack_init hal entry arg stack sz (k_memory s) = (sp, m)" "sp \<noteq> 0"
  defines "t \<equiv> unat (k_task_count s)"
  shows "\<exists>s'. os_TaskCreateInternal hal (Some nm) entry arg prio stack sz idle s = Some ((OS_STATUS_OK, Some t), s') \<and>
    good s' \<and> unat (k_task_count s') = t + 1 \<and> k_memory s' = m \<and>
    k_tasks s' = (k_tasks s)(t := k_tasks s' t) \<and> t_state (k_tasks s' t) = OS_TASK_READY \<and>
    t_name (k_tasks s' t) = take (os_TaskNameLength (Some nm)) nm \<and> t_entry (k_tasks s' t) = entry \<and>
    t_argument (k_tasks s' t) = arg \<and> t_sp (k_tasks s' t) = sp \<and> t_base_priority (k_tasks s' t) = prio \<and>
    t_effective_priority (k_tasks s' t) = prio \<and> t_wait_list (k_tasks s' t) = None \<and>
    (\<forall>l. queue_of s' l = (if l = ReadyList prio then queue_of s l @ [t] else queue_of s l))"
proof -
  obtain h a where s: "s = conc h a" "list_rep h (k_heap a)" "kernel_ok a"
    "\<forall>l. queue_of s l = map task_of (sp_nodes (k_heap a) l)" using assms(1) by (rule goodD)
  define f where "f = new_task (take (os_TaskNameLength (Some nm)) nm) entry arg sp prio stack sz"
  have run: "spec_TaskCreateInternal hal (Some nm) entry arg prio stack sz idle a = Some ((OS_STATUS_OK, Some t), add_task f m a)"
    unfolding f_def t_def using assms s(1) TaskCreateInternal_adds [OF s(3)] by simp
  have "kernel_ok (add_task f m a)"
    unfolding f_def using assms s(1) by (intro conjunct1 [OF new_task_strict [OF s(3)]]) simp_all
  moreover have "sp_nodes (k_heap (add_task f m a)) =
      (sp_nodes (k_heap a))(ReadyList prio := sp_nodes (k_heap a) (ReadyList prio) @ [SchedNode t])"
    using s(1) by (simp add: add_task_def ready_put_def Let_def f_def new_task_def t_def)
  moreover have "unat (k_task_count a + 1) = t + 1"
    using assms(11) s(1) by (simp add: t_def unat_word_ariths)
  moreover have "k_tasks (add_task f m a) = (k_tasks a)(t := f (k_tasks a t))"
    by (simp add: add_task_sel t_def s(1))
  ultimately show ?thesis
    using run_value [OF TaskCreateInternal_refines [OF s(2), of hal "Some nm" entry arg prio stack sz idle, unfolded run]] s(1,4)
    by (auto simp: add_task_sel f_def new_task_def)
qed

theorem create_adds_ready_task_witness:
  "\<exists>s'. os_TaskCreateInternal stub_hal (Some ''t'') 1 7 2 0x1000 0x400 False (os_Init (example stub_reset)) = Some ((OS_STATUS_OK, Some 0), s') \<and>
    t_argument (k_tasks s' 0) = 7 \<and> t_effective_priority (k_tasks s' 0) = 2 \<and> queue_of s' (ReadyList 2) = [0]"
proof -
  let ?s = "example stub_reset"
  have heap: "k_heap (init_spec ?s) = spec_Empty" by (simp add: init_spec_def)
  have boot: "k_initialized (os_Init ?s)" "\<not> k_started (os_Init ?s)" "unat (k_task_count (os_Init ?s)) = 0"
    by (simp_all add: Init_eq) (simp_all add: init_spec_def)
  have empty: "queue_of (os_Init ?s) (ReadyList 2) = []"
    unfolding Init_eq using queue_of_conc [of init_heap "init_spec ?s" "{}" "ReadyList 2"] init_heap_rep init_spec_ok [of ?s]
    by (simp add: heap kernel_ok_def) (simp add: spec_Empty_def)
  have "os_TaskNameLength (Some ''t'') = 1" by (simp add: os_TaskNameLength_def OS_TASK_NAME_MAX_def numeral_eq_Suc)
  moreover have "hal_stack_init stub_hal 1 7 0x1000 0x400 (k_memory (os_Init ?s)) = (0x1400, k_memory (os_Init ?s))"
    by (simp add: stub_hal_def os_port_stack_init_stub_def)
  ultimately show ?thesis
    using create_adds_ready_task [OF good_init boot(1,2), of 1 "0x1000" "0x400" "''t''" 2 False stub_hal 7] boot(3) empty by auto
qed












end
