(* ===== verification/Port_CortexM.thy ===== *)
theory Port_CortexM
  imports RTOS_System
begin

section \<open>The Cortex-M port (port/cortex-m/os_port_cortex_m.c)\<close>

text \<open>
  Port state: the static variables of the file, PRIMASK (set by \<open>cpsid i\<close>, cleared by
  \<open>cpsie i\<close>) and the memory-mapped system registers that it writes (ICSR with the
  pending bit of PendSV, SHPR3, the three SysTick registers). The barriers and \<open>wfi\<close> have
  no effect on this state. The assembly file that loads and stores the context is not part
  of the model; the two C helpers that it calls are.
\<close>

record cm_port =
  cm_primask :: bool
  cm_critical_nesting :: u32
  cm_running :: bool
  cm_observer :: addr
  cm_observer_context :: addr
  cm_psp_owner :: "nat option"
  cm_icsr :: u32
  cm_shpr3 :: u32
  cm_syst_csr :: u32
  cm_syst_rvr :: u32
  cm_syst_cvr :: u32
  cm_core_clock :: u32

definition OS_PORT_ICSR_PENDSVSET :: u32 where [simp]: "OS_PORT_ICSR_PENDSVSET = 0x10000000"
definition OS_PORT_SYST_CSR_ENABLE :: u32 where [simp]: "OS_PORT_SYST_CSR_ENABLE = 1"
definition OS_PORT_SYST_CSR_TICKINT :: u32 where [simp]: "OS_PORT_SYST_CSR_TICKINT = 2"
definition OS_PORT_SYST_CSR_CLKSOURCE :: u32 where [simp]: "OS_PORT_SYST_CSR_CLKSOURCE = 4"
definition OS_PORT_INITIAL_XPSR :: u32 where [simp]: "OS_PORT_INITIAL_XPSR = 0x01000000"
definition OS_PORT_CORTEX_M_DEFAULT_CORE_CLOCK_HZ :: u32 where
  [simp]: "OS_PORT_CORTEX_M_DEFAULT_CORE_CLOCK_HZ = 72000000"
definition OS_PORT_CORTEX_M_PENDSV_PRIORITY :: u32 where [simp]: "OS_PORT_CORTEX_M_PENDSV_PRIORITY = 0xFF"

subsection \<open>Critical sections and the pending switch\<close>

definition os_port_enter_critical_cm :: "cm_port \<Rightarrow> cm_port" where
  "os_port_enter_critical_cm p =
     (let p = p\<lparr>cm_primask := True\<rparr> in p\<lparr>cm_critical_nesting := cm_critical_nesting p + 1\<rparr>)"

definition os_port_exit_critical_cm :: "cm_port \<Rightarrow> cm_port" where
  "os_port_exit_critical_cm p =
     (if cm_critical_nesting p = 0 then p
      else
        let p = p\<lparr>cm_critical_nesting := cm_critical_nesting p - 1\<rparr>
        in if cm_critical_nesting p = 0 then p\<lparr>cm_primask := False\<rparr> else p)"

definition os_port_critical_nesting_cm :: "cm_port \<Rightarrow> u32" where
  "os_port_critical_nesting_cm p = cm_critical_nesting p"

definition os_port_pend_context_switch_cm :: "cm_port \<Rightarrow> cm_port" where
  "os_port_pend_context_switch_cm p = p\<lparr>cm_icsr := OS_PORT_ICSR_PENDSVSET\<rparr>"

subsection \<open>The initial stack frame\<close>

text \<open>A 32-bit store and load, little endian.\<close>

definition store32 :: "addr \<Rightarrow> u32 \<Rightarrow> memory \<Rightarrow> memory" where
  "store32 a v m = m(a := ucast v, a + 1 := ucast (drop_bit 8 v), a + 2 := ucast (drop_bit 16 v),
     a + 3 := ucast (drop_bit 24 v))"

definition load32 :: "addr \<Rightarrow> memory \<Rightarrow> u32" where
  "load32 a m = ucast (m a) OR push_bit 8 (ucast (m (a + 1))) OR push_bit 16 (ucast (m (a + 2))) OR
     push_bit 24 (ucast (m (a + 3)))"

definition push32 :: "u32 \<Rightarrow> addr \<times> memory \<Rightarrow> addr \<times> memory" where
  "push32 v tm = (case tm of (tp, m) \<Rightarrow> (tp - 4, store32 (tp - 4) v m))"

text \<open>\<open>task_exit\<close> is the address of \<open>os_port_task_exit\<close>, a link-time constant.\<close>

definition initial_frame :: "addr \<Rightarrow> addr \<Rightarrow> addr \<Rightarrow> u32 list" where
  "initial_frame task_exit entry argument =
     [OS_PORT_INITIAL_XPSR, entry OR 1, task_exit, 0xC, 3, 2, 1, argument,
      0xB, 0xA, 9, 8, 7, 6, 5, 4]"

definition os_port_stack_init_cm ::
    "addr \<Rightarrow> addr \<Rightarrow> addr \<Rightarrow> addr \<Rightarrow> size_t \<Rightarrow> memory \<Rightarrow> addr \<times> memory" where
  "os_port_stack_init_cm task_exit entry argument stack_memory stack_size m =
     (if entry = 0 \<or> stack_memory = 0 \<or> stack_size < OS_MIN_STACK_BYTES then (0, m)
      else
        let aligned = stack_memory + stack_size;
            aligned = aligned AND NOT 7
        in fold push32 (initial_frame task_exit entry argument) (aligned, m))"

definition cm_hal :: "addr \<Rightarrow> cm_port os_port_hal" where
  "cm_hal task_exit = \<lparr>hal_enter_critical = os_port_enter_critical_cm,
     hal_exit_critical = os_port_exit_critical_cm,
     hal_pend_context_switch = os_port_pend_context_switch_cm,
     hal_stack_init = os_port_stack_init_cm task_exit\<rparr>"

subsection \<open>Task requests\<close>

text \<open>
  The value read from \<open>current->wait_result\<close> is the one at the end of the call; for a task
  that has blocked, the C code reads it after the task has been resumed.
\<close>

definition os_port_task_request_cm :: "cm_port request" where
  "os_port_task_request_cm req ticks object buffer s =
     (case k_current s of
        None \<Rightarrow> Some (OS_STATUS_BAD_STATE, s)
      | Some c \<Rightarrow>
          if t_state (k_tasks s c) \<noteq> OS_TASK_RUNNING then Some (OS_STATUS_BAD_STATE, s)
          else do {
            let s = s\<lparr>k_port := os_port_enter_critical_cm (k_port s)\<rparr>;
            s \<leftarrow> os_port_dispatch c req ticks object buffer s;
            let s = (if t_state (k_tasks s c) \<noteq> OS_TASK_RUNNING
                     then s\<lparr>k_port := os_port_pend_context_switch_cm (k_port s)\<rparr> else s);
            let s = s\<lparr>k_port := os_port_exit_critical_cm (k_port s)\<rparr>;
            Some (t_wait_result (k_tasks s c), s)
          })"

subsection \<open>SysTick and scheduler start\<close>

text \<open>
  The observer is application code behind a function pointer: what it is called with, if it
  is called, is part of the result.
\<close>

definition os_port_maybe_observe :: "cm_port kernel \<Rightarrow> os_runtime_snapshot_t option" where
  "os_port_maybe_observe s =
     (if cm_observer (k_port s) \<noteq> 0 then Some (os_GetRuntimeSnapshot s) else None)"

definition SysTick_Handler :: "cm_port kernel \<Rightarrow> (os_runtime_snapshot_t option \<times> cm_port kernel) option" where
  "SysTick_Handler s =
     (let previous = k_current s in do {
        (nxt, s) \<leftarrow> os_TimeTick s;
        let s = (if nxt \<noteq> previous then s\<lparr>k_port := os_port_pend_context_switch_cm (k_port s)\<rparr> else s);
        Some (if xTaskGetTickCount s mod OS_OBSERVER_PERIOD_TICKS = 0 then os_port_maybe_observe s else None, s)
      })"

definition os_port_prepare_systick :: "cm_port \<Rightarrow> cm_port" where
  "os_port_prepare_systick p =
     (let clock = (if cm_core_clock p = 0 then OS_PORT_CORTEX_M_DEFAULT_CORE_CLOCK_HZ else cm_core_clock p);
          ticks = clock div 1000 * OS_TICK_MS;
          ticks = (if ticks < 2 then 2 else ticks)
      in p\<lparr>cm_syst_csr := 0, cm_syst_rvr := ticks - 1, cm_syst_cvr := 0\<rparr>)"

definition os_port_enable_systick :: "cm_port \<Rightarrow> cm_port" where
  "os_port_enable_systick p =
     p\<lparr>cm_syst_csr := OS_PORT_SYST_CSR_CLKSOURCE OR OS_PORT_SYST_CSR_TICKINT OR OS_PORT_SYST_CSR_ENABLE\<rparr>"

definition os_port_configure_kernel_priorities :: "cm_port \<Rightarrow> cm_port" where
  "os_port_configure_kernel_priorities p =
     (let shpr3 = cm_shpr3 p;
          lowest = OS_PORT_CORTEX_M_PENDSV_PRIORITY;
          shpr3 = shpr3 AND NOT (push_bit 16 0xFF OR push_bit 24 0xFF);
          shpr3 = shpr3 OR (push_bit 16 lowest OR push_bit 24 lowest)
      in p\<lparr>cm_shpr3 := shpr3\<rparr>)"

text \<open>
  Everything up to the SVC that starts the first task and does not return (result \<open>None\<close>).
\<close>

definition os_port_start_scheduler_cm :: "cm_port starter" where
  "os_port_start_scheduler_cm run_ticks s =
     (if \<not> k_initialized s \<or> k_started s then Some (Some OS_STATUS_BAD_STATE, s)
      else do {
        (first, s) \<leftarrow> os_SchedStart s;
        case first of
          None \<Rightarrow> Some (Some OS_STATUS_BAD_STATE, s)
        | Some t \<Rightarrow>
            if t_sp (k_tasks s t) = 0 then Some (Some OS_STATUS_BAD_STATE, s)
            else
              let p = (k_port s)\<lparr>cm_psp_owner := Some t, cm_running := True\<rparr>;
                  p = p\<lparr>cm_primask := True\<rparr>;
                  p = os_port_configure_kernel_priorities p;
                  p = os_port_prepare_systick p
              in Some (None, s\<lparr>k_port := p\<rparr>)
      })"

definition os_port_is_running_cm :: "cm_port \<Rightarrow> bool" where
  "os_port_is_running_cm p = cm_running p"

definition os_port_set_observer_cm :: "addr \<Rightarrow> addr \<Rightarrow> cm_port \<Rightarrow> cm_port" where
  "os_port_set_observer_cm observer context_arg p =
     p\<lparr>cm_observer := observer, cm_observer_context := context_arg\<rparr>"

subsection \<open>PendSV helpers\<close>

definition os_port_pendsv_save_psp :: "addr \<Rightarrow> cm_port kernel \<Rightarrow> cm_port kernel" where
  "os_port_pendsv_save_psp psp_after_push s =
     (case cm_psp_owner (k_port s) of
        None \<Rightarrow> s
      | Some w \<Rightarrow> upd_task w (\<lambda>T. T\<lparr>t_sp := psp_after_push\<rparr>) s)"

text \<open>\<open>None\<close> is the endless loop that the code enters when there is nothing to restore.\<close>

definition os_port_pendsv_restore_psp :: "cm_port kernel \<Rightarrow> (addr \<times> cm_port kernel) option" where
  "os_port_pendsv_restore_psp s =
     (let s = s\<lparr>k_port := (k_port s)\<lparr>cm_psp_owner := k_current s\<rparr>\<rparr> in
      case k_current s of
        None \<Rightarrow> None
      | Some t \<Rightarrow> if t_sp (k_tasks s t) = 0 then None else Some (t_sp (k_tasks s t), s))"

subsection \<open>The Cortex-M port keeps the port contract\<close>

definition cm_ops :: "addr \<Rightarrow> addr \<Rightarrow> addr \<Rightarrow> cm_port port_ops" where
  "cm_ops task_exit idle_entry idle_stack = \<lparr>po_hal = cm_hal task_exit, po_request = os_port_task_request_cm,
     po_start = os_port_start_scheduler_cm, po_tick = (\<lambda>s. map_option snd (SysTick_Handler s)),
     po_idle_entry = idle_entry, po_idle_stack = idle_stack\<rparr>"

lemma cm_request_orderly:
  assumes "orderly s" and "typed_request req obj s"
  shows "returns (os_port_task_request_cm req ticks obj buf s) (\<lambda>(r, s). orderly s)"
  unfolding os_port_task_request_cm_def Let_def
  using assms
  by (auto split: option.split intro!: returns_bind [OF dispatch_orderly])

lemma cm_start_orderly:
  assumes "orderly s"
  shows "returns (os_port_start_scheduler_cm n s) (\<lambda>(r, s). orderly s)"
  unfolding os_port_start_scheduler_cm_def Let_def
  using assms
  by (auto split: option.split intro!: returns_bind [OF SchedStart_orderly])

lemma SysTick_orderly: "orderly s \<Longrightarrow> returns (SysTick_Handler s) (\<lambda>(r, s). orderly s)"
  unfolding SysTick_Handler_def Let_def
  by (auto intro!: returns_bind [OF TimeTick_orderly])

interpretation cortex: kernel_port "cm_ops task_exit idle_entry idle_stack" for task_exit idle_entry idle_stack
proof
  fix s :: "cm_port kernel" and req ticks obj buf n
  show "orderly s \<Longrightarrow> typed_request req obj s \<Longrightarrow>
      returns (po_request (cm_ops task_exit idle_entry idle_stack) req ticks obj buf s) (\<lambda>(r, s). orderly s)"
    by (simp add: cm_ops_def cm_request_orderly)
  show "k_current s = None \<Longrightarrow>
      po_request (cm_ops task_exit idle_entry idle_stack) req ticks obj buf s = Some (OS_STATUS_BAD_STATE, s)"
    by (simp add: cm_ops_def os_port_task_request_cm_def)
  show "orderly s \<Longrightarrow> returns (po_start (cm_ops task_exit idle_entry idle_stack) n s) (\<lambda>(r, s). orderly s)"
    by (simp add: cm_ops_def cm_start_orderly)
  show "orderly s \<Longrightarrow> returns (po_tick (cm_ops task_exit idle_entry idle_stack) s) orderly"
    using SysTick_orderly [of s] by (cases "SysTick_Handler s") (auto simp: cm_ops_def)
qed

end
