(* ===== verification/Port_Properties.thy ===== *)
theory Port_Properties
  imports Port_CortexM Port_Stub Kernel_Example
begin

section \<open>Properties of the ports\<close>

text \<open>
  The Cortex-M port on its own: where the initial stack frame of a task lies and what it
  holds, the nesting of critical sections, the SysTick reload value and the two PendSV
  helpers. The first part is about 32-bit stores and pushes in byte-addressed memory.
\<close>

subsection \<open>Words in memory\<close>

lemma load_store_same: "load32 a (store32 a v m) = v"
proof -
  have "bit (load32 a (store32 a v m)) n = bit v n" if "n < 32" for n
  proof -
    consider "n < 8" | "8 \<le> n" "n < 16" | "16 \<le> n" "n < 24" | "24 \<le> n" by linarith
    then show ?thesis using that by cases (auto simp: load32_def store32_def bit_simps)
  qed
  then show ?thesis by (intro bit_word_eqI) simp
qed

lemma load_cong:
  "m (a) = m' a \<Longrightarrow> m (a + 1) = m' (a + 1) \<Longrightarrow> m (a + 2) = m' (a + 2) \<Longrightarrow> m (a + 3) = m' (a + 3) \<Longrightarrow>
   load32 a m = load32 a m'"
  by (simp add: load32_def)

lemma store_frame: "4 \<le> unat (b - a) \<Longrightarrow> store32 a v m b = m b"
  by (auto simp: store32_def unat_minus_one)

text \<open>The words that a sequence of pushes leaves below the old top, and the bytes that it leaves alone.\<close>

lemma fold_push:
  assumes "4 * length ws < 2 ^ 32" and "fold push32 ws (tp, m) = (sp, m')"
  shows "sp = tp - 4 * of_nat (length ws)"
    and "4 * length ws \<le> unat (tp - a - 1) \<Longrightarrow> m' a = m a"
    and "i < length ws \<Longrightarrow> load32 (tp - 4 * of_nat (Suc i)) m' = ws ! i"
  using assms
proof (induction ws arbitrary: tp m a i)
  case (Cons w ws)
  {
    case 1
    then show ?case using Cons.IH(1) [of "tp - 4" "store32 (tp - 4) w m"] by (simp add: push32_def algebra_simps)
  next
    case 2
    have "4 \<le> tp - a - 1" using 2 by (simp add: word_le_nat_alt)
    from unat_sub [OF this] have "unat (tp - 4 - a - 1) = unat (tp - a - 1) - unat (4 :: addr)"
      by (simp only: diff_diff_eq add.commute add.left_commute add.assoc)
    moreover have "unat (4 :: addr) = 4" by simp
    ultimately have "unat (tp - 4 - a - 1) = unat (tp - a - 1) - 4" by (simp only:)
    moreover have "4 \<le> unat (a - (tp - 4))"
    proof -
      have "4 \<le> unat (3 - x)" if "4 \<le> unat x" for x :: addr
        using that unsigned_less [of x, where ?'a = nat] by (simp add: unat_sub_if')
      from this [of "tp - a - 1"] 2 have "4 \<le> unat (3 - (tp - a - 1))" by simp
      moreover have "3 - (tp - a - 1) = a - (tp - 4)" by simp
      ultimately show ?thesis by (simp only:)
    qed
    ultimately show ?case
      using 2 Cons.IH(2) [where tp = "tp - 4" and m = "store32 (tp - 4) w m" and a = a]
      by (simp add: push32_def store_frame)
  next
    case 3
    then have step: "fold push32 ws (tp - 4, store32 (tp - 4) w m) = (sp, m')" and len: "4 * length ws < 2 ^ 32 - 4"
      by (simp_all add: push32_def [of w "(tp, m)"])
    show ?case
    proof (cases i)
      case 0
      have keep: "m' (tp - 4 + j) = store32 (tp - 4) w m (tp - 4 + j)" if "j \<in> {0, 1, 2, 3}" for j
      proof (rule Cons.IH(2) [OF _ _ step])
        have "unat (tp - 4 - (tp - 4 + j) - 1) = unat (- j - 1)" by simp
        also have "\<dots> \<ge> 2 ^ 32 - 4" using that by (auto simp: unsigned_minus_1_eq_mask mask_eq_exp_minus_1)
        finally show "4 * length ws \<le> unat (tp - 4 - (tp - 4 + j) - 1)" using len by simp
      qed (use len in simp)
      have "load32 (tp - 4) m' = load32 (tp - 4) (store32 (tp - 4) w m)"
        using keep [of 0] keep [of 1] keep [of 2] keep [of 3] by (intro load_cong) simp_all
      then show ?thesis using 0 by (simp add: load_store_same)
    next
      case (Suc k)
      then show ?thesis
        using 3 len Cons.IH(3) [OF _ _ step, of k] by (simp add: algebra_simps)
    qed
  }
qed simp_all

text \<open>Rounding down to a multiple of eight.\<close>

lemma align_down:
  fixes w :: addr
  shows "unat (w AND NOT 7) = unat w - unat w mod 8" "(w AND NOT 7) AND 7 = 0"
proof -
  have seven: "(7 :: addr) = mask 3" by (simp add: mask_eq_exp_minus_1)
  have "w AND NOT (mask 3) = push_bit 3 (drop_bit 3 w)"
    by (rule bit_word_eqI) (auto simp: bit_simps)
  then have w: "w AND NOT 7 = w - take_bit 3 w"
    using bits_ident [of 3 w] by (simp add: seven eq_diff_eq)
  have low: "unat (take_bit 3 w) = unat w mod 8"
    by (simp add: take_bit_eq_mod unat_mod_distrib)
  then have "take_bit 3 w \<le> w" by (simp add: word_le_nat_alt)
  from unat_sub [OF this] show "unat (w AND NOT 7) = unat w - unat w mod 8"
    by (simp only: w low)
  show "(w AND NOT 7) AND 7 = 0" by (simp add: and.assoc)
qed

subsection \<open>The initial stack frame\<close>

lemma stack_init_eq:
  assumes "entry \<noteq> 0" "stack \<noteq> 0" "64 \<le> n" "unat stack + unat n < 2 ^ 32"
    and "os_port_stack_init_cm task_exit entry arg stack n m = (sp, m')"
  defines "tp \<equiv> (stack + n) AND NOT 7"
  shows "fold push32 (initial_frame task_exit entry arg) (tp, m) = (sp, m')"
    and "unat tp = (unat stack + unat n) - (unat stack + unat n) mod 8"
    and "sp = tp - 64" and "unat sp = unat tp - 64" and "64 \<le> unat tp"
proof -
  show fold: "fold push32 (initial_frame task_exit entry arg) (tp, m) = (sp, m')"
    using assms(1-3,5) linorder_not_less [of n 64] unfolding os_port_stack_init_cm_def tp_def Let_def
    by (simp del: bit.compl_zero)
  have sum: "unat (stack + n) = unat stack + unat n"
    using assms(4) by (simp add: unat_word_ariths)
  then show tp: "unat tp = (unat stack + unat n) - (unat stack + unat n) mod 8"
    by (simp only: tp_def align_down(1))
  have len: "length (initial_frame task_exit entry arg) = 16" by (simp add: initial_frame_def)
  then have "4 * length (initial_frame task_exit entry arg) < 2 ^ 32" by simp
  from fold_push(1) [OF this fold] have "sp = tp - 4 * of_nat 16" by (simp only: len)
  moreover have "4 * of_nat 16 = (64 :: addr)" by simp
  ultimately show sp: "sp = tp - 64" by (simp only:)
  have "64 \<le> unat n" "0 < unat stack" using assms(2,3) by (simp_all add: word_le_nat_alt unat_gt_0)
  then have "64 div 8 \<le> (unat stack + unat n) div 8" by (intro div_le_mono) simp
  then have "64 \<le> (unat stack + unat n) - (unat stack + unat n) mod 8"
    by (simp add: minus_mod_eq_mult_div)
  then show "64 \<le> unat tp" by (simp only: tp)
  then have "64 \<le> tp" by (simp add: word_le_nat_alt)
  from unat_sub [OF this] show "unat sp = unat tp - 64" by (simp add: sp)
qed

text \<open>C29: on success the initial stack pointer is 8-byte aligned, the frame ends within the buffer,
  and its sixteen words are, from the stack pointer up, R4 to R11, R0 (the argument),
  R1 to R3, R12, the return address of the exit trampoline, the entry point with the Thumb bit, and
  the initial xPSR; every byte outside the frame keeps its value.\<close>

theorem stack_frame_layout:
  assumes "entry \<noteq> 0" "stack \<noteq> 0" "64 \<le> n" "unat stack + unat n < 2 ^ 32"
    and "os_port_stack_init_cm task_exit entry arg stack n m = (sp, m')"
  shows "sp AND 7 = 0 \<and> unat sp + 64 \<le> unat stack + unat n \<and>
    map (\<lambda>i. load32 (sp + 4 * of_nat i) m') [0..<16] =
      [4, 5, 6, 7, 8, 9, 0xA, 0xB, arg, 1, 2, 3, 0xC, task_exit, entry OR 1, 0x01000000] \<and>
    (\<forall>a. unat a < unat sp \<or> unat sp + 64 \<le> unat a \<longrightarrow> m' a = m a)"
proof -
  define tp where "tp = (stack + n) AND NOT 7"
  define ws where "ws = initial_frame task_exit entry arg"
  note eq = stack_init_eq [OF assms, folded tp_def ws_def]
  have len: "length ws = 16" by (simp add: ws_def initial_frame_def)
  have word: "load32 (sp + 4 * of_nat i) m' = ws ! (15 - i)" if "i < 16" for i
  proof -
    have "sp + 4 * of_nat i = tp - 4 * of_nat (Suc (15 - i))"
      using that eq(3) by (simp add: of_nat_diff)
    then show ?thesis using fold_push(3) [OF _ eq(1), of "15 - i"] len by simp
  qed
  have "sp AND 7 = 0"
  proof -
    have "unat sp = 8 * ((unat stack + unat n) div 8 - 8)"
      using eq(2,4) by (simp add: minus_mod_eq_mult_div diff_mult_distrib2)
    then have "unat sp mod 8 = 0" by simp
    moreover have "sp AND 7 = take_bit 3 sp" by (simp add: take_bit_eq_mask mask_eq_exp_minus_1)
    ultimately show ?thesis by (simp add: take_bit_eq_mod unat_mod_distrib flip: unat_eq_zero)
  qed
  moreover have "unat sp + 64 \<le> unat stack + unat n" using eq(2,4,5) by simp
  moreover have "map (\<lambda>i. load32 (sp + 4 * of_nat i) m') [0..<16] = map (\<lambda>i. ws ! (15 - i)) [0..<16]"
    by (rule map_cong) (use word in auto)
  moreover have "map (\<lambda>i. ws ! (15 - i)) [0..<16] =
      [4, 5, 6, 7, 8, 9, 0xA, 0xB, arg, 1, 2, 3, 0xC, task_exit, entry OR 1, 0x01000000]"
    by (simp add: ws_def initial_frame_def upt_rec)
  moreover have "m' a = m a" if "unat a < unat sp \<or> unat sp + 64 \<le> unat a" for a
  proof (rule fold_push(2) [OF _ eq(1)])
    have "unat a < unat tp - 64 \<or> unat tp \<le> unat a" using that eq(4,5) by auto
    then have "64 \<le> unat (tp - a - 1)"
      using eq(5) unsigned_less [of a, where ?'a = nat] unsigned_less [of tp, where ?'a = nat]
      by (auto simp: unat_sub_if' unat_word_ariths)
    then show "4 * length ws \<le> unat (tp - a - 1)" by (simp add: len)
  qed (simp add: len)
  ultimately show ?thesis by simp
qed

theorem stack_frame_layout_witness:
  "\<exists>sp m'. os_port_stack_init_cm 0x101 0x300 7 0x20000000 256 (\<lambda>_. 0) = (sp, m') \<and> sp AND 7 = 0 \<and>
    map (\<lambda>i. load32 (sp + 4 * of_nat i) m') [0..<16] =
      [4, 5, 6, 7, 8, 9, 0xA, 0xB, 7, 1, 2, 3, 0xC, 0x101, 0x301, 0x01000000]"
proof -
  obtain sp m' where e: "os_port_stack_init_cm 0x101 0x300 7 0x20000000 256 (\<lambda>_. 0) = (sp, m')" by fastforce
  with stack_frame_layout [OF _ _ _ _ e] show ?thesis by simp
qed

text \<open>The frame also begins within the buffer, provided that the buffer is 8-byte
  aligned or is at least seven bytes larger than the minimum size.\<close>

lemma stack_frame_in_buffer:
  assumes "entry \<noteq> 0" "stack \<noteq> 0" "64 \<le> n" "unat stack + unat n < 2 ^ 32"
    and "os_port_stack_init_cm task_exit entry arg stack n m = (sp, m')"
    and "unat stack mod 8 = 0 \<or> 71 \<le> n"
  shows "unat stack \<le> unat sp"
proof -
  have "64 \<le> unat n" using assms(3) by (simp add: word_le_nat_alt)
  have "unat stack + 64 \<le> (unat stack + unat n) - (unat stack + unat n) mod 8"
  proof (cases "unat stack mod 8 = 0")
    case True
    then obtain k where k: "unat stack = 8 * k" by (auto elim: dvdE)
    have "8 \<le> unat n div 8" using div_le_mono [of 64 "unat n" 8] \<open>64 \<le> unat n\<close> by simp
    then have "64 \<le> unat n - unat n mod 8" by (simp add: minus_mod_eq_mult_div)
    then show ?thesis using k by simp
  next
    case False
    then have "71 \<le> unat n" using assms(6) by (simp add: word_le_nat_alt)
    moreover have "(unat stack + unat n) mod 8 \<le> 7"
      using mod_less_divisor [of 8 "unat stack + unat n"] by simp
    ultimately show ?thesis by linarith
  qed
  then show ?thesis using stack_init_eq(2,4) [OF assms(1-5)] by simp
qed


text \<open>C38: without that proviso the frame can begin below the buffer. For every accepted buffer it does
  so exactly when aligning the end of the buffer loses more bytes than the buffer has beyond the 64
  of the frame; for a buffer of the minimum size, 64 bytes, that is exactly when the buffer is not
  8-byte aligned. The lowest word of the frame, the saved R4, is stored there.\<close>

theorem stack_frame_below_buffer:
  assumes "entry \<noteq> 0" "stack \<noteq> 0" "64 \<le> n" "unat stack + unat n < 2 ^ 32"
    and "os_port_stack_init_cm task_exit entry arg stack n m = (sp, m')"
  shows "(unat sp < unat stack \<longleftrightarrow> unat n - 64 < (unat stack + unat n) mod 8) \<and>
    (n = 64 \<longrightarrow> (unat sp < unat stack \<longleftrightarrow> unat stack mod 8 \<noteq> 0)) \<and> load32 sp m' = 4"
proof -
  define tp where "tp = (stack + n) AND NOT 7"
  note eq = stack_init_eq [OF assms, folded tp_def]
  have len: "length (initial_frame task_exit entry arg) = 16" by (simp add: initial_frame_def)
  have n: "64 \<le> unat n" using assms(3) by (simp add: word_le_nat_alt)
  have below: "unat sp < unat stack \<longleftrightarrow> unat n - 64 < (unat stack + unat n) mod 8"
    using eq(2,4,5) n by linarith
  moreover have "(unat stack + 64) mod 8 = unat stack mod 8"
    by (simp add: mod_add_eq [of "unat stack" 8 64, symmetric])
  moreover have "load32 (tp - 4 * of_nat (Suc 15)) m' = initial_frame task_exit entry arg ! 15"
    by (rule fold_push(3) [OF _ eq(1)]) (simp_all add: len)
  ultimately show ?thesis using eq(3) by (auto simp: initial_frame_def)
qed

theorem stack_frame_below_buffer_witness:
  "\<exists>sp m'. os_port_stack_init_cm 0x101 0x300 7 0x20000004 64 (\<lambda>_. 0) = (sp, m') \<and>
    unat sp < 0x20000004 \<and> load32 sp m' = 4"
proof -
  obtain sp m' where e: "os_port_stack_init_cm 0x101 0x300 7 0x20000004 64 (\<lambda>_. 0) = (sp, m')" by fastforce
  with stack_frame_below_buffer [OF _ _ _ _ e] show ?thesis by simp
qed

text \<open>Critical sections nest. After \<open>n\<close> entries, interrupts stay masked until the
  last of \<open>n\<close> exits, which unmasks them, and the nesting count is back where it was.\<close>

lemma critical_sections_nest:
  assumes "cm_critical_nesting p = 0" and "0 < n" "n < 2 ^ 32" and "k \<le> n"
  shows "(os_port_exit_critical_cm ^^ k) ((os_port_enter_critical_cm ^^ n) p) =
    p\<lparr>cm_critical_nesting := of_nat (n - k), cm_primask := k < n\<rparr>"
proof -
  have enter: "(os_port_enter_critical_cm ^^ j) p =
      (if j = 0 then p else p\<lparr>cm_critical_nesting := of_nat j, cm_primask := True\<rparr>)" for j
    using assms(1) by (induction j) (auto simp: os_port_enter_critical_cm_def Let_def add.commute)
  show ?thesis
    using assms(4)
  proof (induction k)
    case 0
    then show ?case using assms(2) by (simp add: enter)
  next
    case (Suc k)
    have u: "(of_nat j :: u32) = 0 \<longleftrightarrow> j = 0" if "j < 2 ^ 32" for j
      using that by (auto simp: word_of_nat_eq_0_iff dest: nat_dvd_not_less)
    have "(of_nat (n - k) :: u32) \<noteq> 0"
      using Suc.prems assms(3) u [of "n - k"] by (simp del: of_nat_diff)
    moreover have "(of_nat (n - k) :: u32) - 1 = of_nat (n - Suc k)"
      using Suc.prems by (simp add: of_nat_diff)
    moreover have "(of_nat (n - Suc k) :: u32) = 0 \<longleftrightarrow> Suc k = n"
      using Suc.prems assms(3) u [of "n - Suc k"] by (auto simp del: of_nat_diff)
    ultimately have "os_port_exit_critical_cm (p\<lparr>cm_critical_nesting := of_nat (n - k), cm_primask := k < n\<rparr>) =
        p\<lparr>cm_critical_nesting := of_nat (n - Suc k), cm_primask := Suc k < n\<rparr>"
      using Suc.prems by (auto simp: os_port_exit_critical_cm_def Let_def simp del: of_nat_diff)
    then show ?case using Suc.IH Suc.prems by (simp del: of_nat_diff)
  qed
qed

definition cm_reset :: cm_port where
  "cm_reset = \<lparr>cm_primask = False, cm_critical_nesting = 0, cm_running = False, cm_observer = 0,
     cm_observer_context = 0, cm_psp_owner = None, cm_icsr = 0, cm_shpr3 = 0, cm_syst_csr = 0,
     cm_syst_rvr = 0, cm_syst_cvr = 0, cm_core_clock = 72000000\<rparr>"


text \<open>For every core clock the SysTick reload value is at least 1 and fits into the 24-bit
  register, and with 72 MHz it gives a tick of one millisecond (72000 cycles).\<close>

lemma systick_reload_bounds:
  "1 \<le> cm_syst_rvr (os_port_prepare_systick p) \<and> cm_syst_rvr (os_port_prepare_systick p) < 2 ^ 24 \<and>
   cm_syst_csr (os_port_prepare_systick p) = 0 \<and>
   (cm_core_clock p = 72000000 \<longrightarrow> cm_syst_rvr (os_port_prepare_systick p) = 71999)"
proof -
  define c where "c = (if cm_core_clock p = 0 then 72000000 else cm_core_clock p)"
  define t where "t = (if c div 1000 < 2 then 2 else c div 1000)"
  have rvr: "cm_syst_rvr (os_port_prepare_systick p) = t - 1" "cm_syst_csr (os_port_prepare_systick p) = 0"
    by (simp_all add: os_port_prepare_systick_def Let_def t_def c_def)
  have "unat (c div 1000) = unat c div 1000" by (simp add: unat_div_distrib)
  moreover have "unat c div 1000 \<le> (2 ^ 32 - 1) div 1000"
    using unsigned_less [of c, where ?'a = nat] by (intro div_le_mono) simp
  ultimately have "unat t \<le> 4294967" "2 \<le> unat t"
    by (auto simp: t_def word_less_nat_alt)
  moreover from this have "t \<noteq> 0" by auto
  ultimately have t: "unat (t - 1) = unat t - 1" "2 \<le> unat t" "unat t \<le> 4294967"
    by (simp_all add: unat_minus_one)
  then have "1 \<le> t - 1" "t - 1 < 2 ^ 24"
    by (simp_all add: word_le_nat_alt word_less_nat_alt)
  moreover have "t - 1 = 71999" if "cm_core_clock p = 72000000"
    using that by (simp add: t_def c_def)
  ultimately show ?thesis by (simp add: rvr)
qed


text \<open>PendSV saves the stack pointer of the interrupted task in its own TCB, and when that task
  is the current one again the same stack pointer comes back; switching to another task in between
  hands out the stack pointer of that one, and no other field of a TCB changes.\<close>

lemma pendsv_round_trip:
  assumes "cm_psp_owner (k_port s) = Some t" and "u \<noteq> t" and "sp \<noteq> 0" and "t_sp (k_tasks s u) \<noteq> 0"
    and "k_current s = Some u"
  shows "\<exists>s'. os_port_pendsv_restore_psp (os_port_pendsv_save_psp sp s) = Some (t_sp (k_tasks s u), s') \<and>
    cm_psp_owner (k_port s') = Some u \<and> k_tasks s' = (k_tasks s)(t := (k_tasks s t)\<lparr>t_sp := sp\<rparr>) \<and>
    (\<exists>s''. os_port_pendsv_restore_psp (os_port_pendsv_save_psp v (s'\<lparr>k_current := Some t\<rparr>)) = Some (sp, s'') \<and>
       cm_psp_owner (k_port s'') = Some t \<and> t_sp (k_tasks s'' u) = v)"
  using assms
  by (auto simp: os_port_pendsv_save_psp_def os_port_pendsv_restore_psp_def upd_task_def Let_def)


end
