(* ===== verification/Port_Win32.thy ===== *)
theory Port_Win32
  imports RTOS_System
begin

section \<open>The Windows port (port/win32/os_port_win32.c)\<close>

text \<open>
  Every task is carried by a worker thread; the thread that called \<open>os_Start\<close> is the control
  thread and runs all kernel code, driven by two events: a task has left a request in its mailbox,
  or the timer has expired. Windows itself is not part of the repository: the functions of its API
  that the port calls are the record \<open>win32_api\<close>, an argument of the definitions, over a state \<open>'w\<close>
  of the outside world; the two that depend on the calling thread (thread-local storage) get the
  thread as their first argument. A wait is \<open>None\<close> while the thread stays blocked in it. The application's
  observer is one of these functions, too. The atomic \<open>Interlocked...\<close> accesses are plain reads and
  writes of the model; where threads interleave between them is the subject of \<open>Win32_System\<close>.
\<close>

type_synonym handle = u32

record 'w win32_api =
  api_CreateEventA :: "bool \<Rightarrow> bool \<Rightarrow> 'w \<Rightarrow> handle \<times> 'w"
  api_CreateWaitableTimerA :: "bool \<Rightarrow> 'w \<Rightarrow> handle \<times> 'w"
  api_CreateThread :: "nat \<Rightarrow> 'w \<Rightarrow> handle \<times> 'w"
  api_GetCurrentThread :: handle
  api_SetEvent :: "handle \<Rightarrow> 'w \<Rightarrow> bool \<times> 'w"
  api_WaitForSingleObject :: "handle \<Rightarrow> 'w \<Rightarrow> (u32 \<times> 'w) option"
  api_WaitForMultipleObjects :: "handle list \<Rightarrow> bool \<Rightarrow> u32 \<Rightarrow> 'w \<Rightarrow> (u32 \<times> 'w) option"
  api_SuspendThread :: "handle \<Rightarrow> 'w \<Rightarrow> u32 \<times> 'w"
  api_ResumeThread :: "handle \<Rightarrow> 'w \<Rightarrow> u32 \<times> 'w"
  api_SetThreadAffinityMask :: "handle \<Rightarrow> u32 \<Rightarrow> 'w \<Rightarrow> u32 \<times> 'w"
  api_SetThreadPriority :: "handle \<Rightarrow> u32 \<Rightarrow> 'w \<Rightarrow> bool \<times> 'w"
  api_GetThreadPriority :: "handle \<Rightarrow> 'w \<Rightarrow> u32 \<times> 'w"
  api_SetWaitableTimer :: "handle \<Rightarrow> int \<Rightarrow> u32 \<Rightarrow> 'w \<Rightarrow> bool \<times> 'w"
  api_CancelWaitableTimer :: "handle \<Rightarrow> 'w \<Rightarrow> bool \<times> 'w"
  api_CloseHandle :: "handle \<Rightarrow> 'w \<Rightarrow> bool \<times> 'w"
  api_TlsAlloc :: "'w \<Rightarrow> u32 \<times> 'w"
  api_TlsFree :: "u32 \<Rightarrow> 'w \<Rightarrow> bool \<times> 'w"
  api_TlsSetValue :: "handle \<Rightarrow> u32 \<Rightarrow> nat \<Rightarrow> 'w \<Rightarrow> bool \<times> 'w"
  api_TlsGetValue :: "handle \<Rightarrow> u32 \<Rightarrow> 'w \<Rightarrow> nat option"
  api_GetStdHandle :: "u32 \<Rightarrow> 'w \<Rightarrow> handle"
  api_GetConsoleMode :: "handle \<Rightarrow> 'w \<Rightarrow> u32 option"
  api_SetConsoleMode :: "handle \<Rightarrow> u32 \<Rightarrow> 'w \<Rightarrow> bool \<times> 'w"
  api_observer :: "addr \<Rightarrow> os_runtime_snapshot_t \<Rightarrow> addr \<Rightarrow> 'w \<Rightarrow> 'w"

text \<open>Constants of the Windows headers.\<close>

definition WAIT_OBJECT_0 :: u32 where [simp]: "WAIT_OBJECT_0 = 0"
definition WAIT_TIMEOUT :: u32 where [simp]: "WAIT_TIMEOUT = 258"
definition WAIT_FAILED :: u32 where [simp]: "WAIT_FAILED = 0xFFFFFFFF"
definition TLS_OUT_OF_INDEXES :: u32 where [simp]: "TLS_OUT_OF_INDEXES = 0xFFFFFFFF"
definition THREAD_PRIORITY_NORMAL :: u32 where [simp]: "THREAD_PRIORITY_NORMAL = 0"
definition THREAD_PRIORITY_HIGHEST :: u32 where [simp]: "THREAD_PRIORITY_HIGHEST = 2"
definition THREAD_PRIORITY_ERROR_RETURN :: u32 where [simp]: "THREAD_PRIORITY_ERROR_RETURN = 0x7FFFFFFF"
definition STD_OUTPUT_HANDLE :: u32 where [simp]: "STD_OUTPUT_HANDLE = 0xFFFFFFF5"
definition INVALID_HANDLE_VALUE :: u32 where [simp]: "INVALID_HANDLE_VALUE = 0xFFFFFFFF"
definition ENABLE_VIRTUAL_TERMINAL_PROCESSING :: u32 where [simp]: "ENABLE_VIRTUAL_TERMINAL_PROCESSING = 4"
definition INFINITE :: u32 where [simp]: "INFINITE = 0xFFFFFFFF"

subsection \<open>Data\<close>

datatype os_port_phase_t =
    OS_PORT_PHASE_CREATED | OS_PORT_PHASE_USER | OS_PORT_PHASE_REQUEST | OS_PORT_PHASE_EXITED

text \<open>An empty mailbox (\<open>OS_PORT_REQUEST_NONE\<close>) is \<open>None\<close>.\<close>

record os_port_task_slot_t =
  sl_task :: "nat option"
  sl_thread :: handle
  sl_gate :: handle
  sl_phase :: os_port_phase_t
  sl_request :: "os_port_req_id_t option"
  sl_request_ticks :: u32
  sl_request_object :: "obj_ref option"
  sl_request_buffer :: addr
  sl_response :: os_status_t
  sl_suspended :: bool

text \<open>\<open>os_port_runtime_t\<close>, the other static variables of the file, and the outside world.\<close>

record 'w win32_port =
  wp_slots :: "nat \<Rightarrow> os_port_task_slot_t"
  wp_request_event :: handle
  wp_tick_timer :: handle
  wp_tls_index :: u32
  wp_running :: bool
  wp_failed :: bool
  wp_run_ticks :: u32
  wp_pending_ticks :: u32
  wp_scheduler_affinity_before :: u32
  wp_scheduler_priority_before :: u32
  wp_observer :: addr
  wp_observer_context :: addr
  wp_critical_nesting :: u32
  wp_switch_pended :: bool
  wp_os :: 'w

type_synonym 'w win32_kernel = "'w win32_port kernel"

abbreviation slot :: "'w win32_kernel \<Rightarrow> nat \<Rightarrow> os_port_task_slot_t" where
  "slot s i \<equiv> wp_slots (k_port s) i"

definition upd_port :: "('p \<Rightarrow> 'p) \<Rightarrow> ('h, 'p) os_kernel_t \<Rightarrow> ('h, 'p) os_kernel_t" where
  "upd_port f s = s\<lparr>k_port := f (k_port s)\<rparr>"

definition upd_slot ::
    "nat \<Rightarrow> (os_port_task_slot_t \<Rightarrow> os_port_task_slot_t) \<Rightarrow> 'w win32_kernel \<Rightarrow> 'w win32_kernel" where
  "upd_slot i f = upd_port (\<lambda>p. p\<lparr>wp_slots := (wp_slots p)(i := f (wp_slots p i))\<rparr>)"

definition call_api :: "('w \<Rightarrow> 'r \<times> 'w) \<Rightarrow> 'w win32_kernel \<Rightarrow> 'r \<times> 'w win32_kernel" where
  "call_api f s = (case f (wp_os (k_port s)) of (r, w) \<Rightarrow> (r, upd_port (\<lambda>p. p\<lparr>wp_os := w\<rparr>) s))"

subsection \<open>Slots and failures\<close>

definition os_PortSlotForTask :: "nat option \<Rightarrow> ('h, 'p) os_kernel_t \<Rightarrow> nat option" where
  "os_PortSlotForTask task s =
     (case task of
        None \<Rightarrow> None
      | Some t \<Rightarrow> if OS_MAX_TASKS \<le> unat (t_id (k_tasks s t)) then None
                  else Some (unat (t_id (k_tasks s t))))"

definition os_PortFail :: "'w win32_kernel \<Rightarrow> 'w win32_kernel" where
  "os_PortFail = upd_port (\<lambda>p. p\<lparr>wp_failed := True, wp_running := False\<rparr>)"

definition os_PortFailed :: "'w win32_kernel \<Rightarrow> bool" where
  "os_PortFailed s = wp_failed (k_port s)"

definition os_port_is_running_win32 :: "'w win32_port \<Rightarrow> bool" where
  "os_port_is_running_win32 p = wp_running p"

definition os_port_set_observer_win32 :: "addr \<Rightarrow> addr \<Rightarrow> 'w win32_port \<Rightarrow> 'w win32_port" where
  "os_port_set_observer_win32 observer context_arg p =
     p\<lparr>wp_observer := observer, wp_observer_context := context_arg\<rparr>"

subsection \<open>The hooks\<close>

definition os_port_enter_critical_win32 :: "'w win32_port \<Rightarrow> 'w win32_port" where
  "os_port_enter_critical_win32 p = p\<lparr>wp_critical_nesting := wp_critical_nesting p + 1\<rparr>"

definition os_port_exit_critical_win32 :: "'w win32_port \<Rightarrow> 'w win32_port" where
  "os_port_exit_critical_win32 p =
     (let p = p\<lparr>wp_critical_nesting := wp_critical_nesting p - 1\<rparr>
      in if sint (wp_critical_nesting p) < 0 then p\<lparr>wp_critical_nesting := 0\<rparr> else p)"

definition os_port_critical_nesting_win32 :: "'w win32_port \<Rightarrow> u32" where
  "os_port_critical_nesting_win32 p = wp_critical_nesting p"

definition os_port_pend_context_switch_win32 :: "'w win32_api \<Rightarrow> 'w win32_port \<Rightarrow> 'w win32_port" where
  "os_port_pend_context_switch_win32 api p =
     (let p = p\<lparr>wp_switch_pended := True\<rparr>
      in if wp_request_event p \<noteq> 0 then p\<lparr>wp_os := snd (api_SetEvent api (wp_request_event p) (wp_os p))\<rparr>
         else p)"

definition os_port_stack_init_win32 :: "addr \<Rightarrow> addr \<Rightarrow> addr \<Rightarrow> size_t \<Rightarrow> memory \<Rightarrow> addr \<times> memory" where
  "os_port_stack_init_win32 entry argument stack_memory stack_size m =
     (if stack_memory = 0 \<or> stack_size < OS_MIN_STACK_BYTES then (0, m)
      else (stack_memory + stack_size, m))"

definition win32_hal :: "'w win32_api \<Rightarrow> 'w win32_port os_port_hal" where
  "win32_hal api = \<lparr>hal_enter_critical = os_port_enter_critical_win32,
     hal_exit_critical = os_port_exit_critical_win32,
     hal_pend_context_switch = os_port_pend_context_switch_win32 api,
     hal_stack_init = os_port_stack_init_win32\<rparr>"

subsection \<open>A request of a worker thread\<close>

text \<open>
  The steps of \<open>os_port_task_request\<close> between which the control thread can run. What is written
  before the request code is not looked at while the mailbox is empty, so it is one step.
\<close>

definition mailbox_fill ::
    "nat \<Rightarrow> u32 \<Rightarrow> obj_ref option \<Rightarrow> addr \<Rightarrow> 'w win32_kernel \<Rightarrow> 'w win32_kernel" where
  "mailbox_fill i ticks object buffer s =
     (let s = upd_port os_port_enter_critical_win32 s
      in upd_slot i (\<lambda>S. S\<lparr>sl_response := OS_STATUS_BAD_STATE, sl_request_object := object,
           sl_request_buffer := buffer, sl_request_ticks := ticks\<rparr>) s)"

definition mailbox_post :: "nat \<Rightarrow> os_port_req_id_t \<Rightarrow> 'w win32_kernel \<Rightarrow> 'w win32_kernel" where
  "mailbox_post i request = upd_slot i (\<lambda>S. S\<lparr>sl_request := Some request\<rparr>)"

definition mailbox_phase :: "nat \<Rightarrow> 'w win32_kernel \<Rightarrow> 'w win32_kernel" where
  "mailbox_phase i s =
     upd_port os_port_exit_critical_win32 (upd_slot i (\<lambda>S. S\<lparr>sl_phase := OS_PORT_PHASE_REQUEST\<rparr>) s)"

definition mailbox_signal :: "'w win32_api \<Rightarrow> 'w win32_kernel \<Rightarrow> bool \<times> 'w win32_kernel" where
  "mailbox_signal api s =
     (let (ok, s) = call_api (api_SetEvent api (wp_request_event (k_port s))) s
      in if ok then (True, s) else (False, os_PortFail s))"

definition request_return :: "nat \<Rightarrow> 'w win32_kernel \<Rightarrow> os_status_t \<times> 'w win32_kernel" where
  "request_return i s =
     (let s = upd_slot i (\<lambda>S. S\<lparr>sl_phase := OS_PORT_PHASE_USER\<rparr>) s in (sl_response (slot s i), s))"

text \<open>The slot of the calling thread \<open>self\<close>, if the request can be made at all.\<close>

definition request_slot :: "'w win32_api \<Rightarrow> handle \<Rightarrow> 'w win32_kernel \<Rightarrow> nat option" where
  "request_slot api self s =
     (if \<not> os_port_is_running_win32 (k_port s) \<or> wp_tls_index (k_port s) = TLS_OUT_OF_INDEXES then None
      else api_TlsGetValue api self (wp_tls_index (k_port s)) (wp_os (k_port s)))"

text \<open>
  The function as a whole. \<open>wait\<close> is the call of \<open>WaitForSingleObject\<close> together with all that the
  other threads do until it returns.
\<close>

definition os_port_task_request_win32 ::
    "'w win32_api \<Rightarrow> (handle \<Rightarrow> 'w win32_kernel \<Rightarrow> (u32 \<times> 'w win32_kernel) option)
     \<Rightarrow> handle \<Rightarrow> 'w win32_port request" where
  "os_port_task_request_win32 api wait self request ticks object buffer s =
     (case request_slot api self s of
        None \<Rightarrow> Some (OS_STATUS_BAD_STATE, s)
      | Some i \<Rightarrow>
          let s = mailbox_fill i ticks object buffer s;
              s = mailbox_post i request s;
              s = mailbox_phase i s;
              (ok, s) = mailbox_signal api s
          in if \<not> ok then Some (OS_STATUS_BAD_STATE, s)
          else if request \<noteq> OS_PORT_REQ_EXIT then do {
            (result, s) \<leftarrow> wait (sl_gate (slot s i)) s;
            if result \<noteq> WAIT_OBJECT_0 then Some (OS_STATUS_BAD_STATE, os_PortFail s)
            else Some (request_return i s)
          }
          else Some (OS_STATUS_OK, s))"

subsection \<open>The worker thread\<close>

definition os_PortEnableVirtualTerminal :: "'w win32_api \<Rightarrow> 'w win32_kernel \<Rightarrow> 'w win32_kernel" where
  "os_PortEnableVirtualTerminal api s =
     (let output = api_GetStdHandle api STD_OUTPUT_HANDLE (wp_os (k_port s))
      in if output = INVALID_HANDLE_VALUE then s
      else case api_GetConsoleMode api output (wp_os (k_port s)) of
        None \<Rightarrow> s
      | Some mode \<Rightarrow> snd (call_api (api_SetConsoleMode api output (mode OR ENABLE_VIRTUAL_TERMINAL_PROCESSING)) s))"

definition task_entry_begin :: "'w win32_api \<Rightarrow> handle \<Rightarrow> nat \<Rightarrow> 'w win32_kernel \<Rightarrow> bool \<times> 'w win32_kernel" where
  "task_entry_begin api self i s =
     (let (ok, s) = call_api (api_TlsSetValue api self (wp_tls_index (k_port s)) i) s
      in if \<not> ok then (False, os_PortFail s)
      else (True, upd_slot i (\<lambda>S. S\<lparr>sl_phase := OS_PORT_PHASE_USER\<rparr>) s))"

definition task_entry_end :: "nat \<Rightarrow> 'w win32_kernel \<Rightarrow> 'w win32_kernel" where
  "task_entry_end i = upd_slot i (\<lambda>S. S\<lparr>sl_phase := OS_PORT_PHASE_EXITED\<rparr>)"

text \<open>\<open>body entry argument\<close> is the task function of the application, \<open>wait\<close> as above.\<close>

definition os_PortTaskEntry ::
    "'w win32_api \<Rightarrow> (handle \<Rightarrow> 'w win32_kernel \<Rightarrow> (u32 \<times> 'w win32_kernel) option)
     \<Rightarrow> (addr \<Rightarrow> addr \<Rightarrow> 'w win32_kernel \<Rightarrow> 'w win32_kernel option) \<Rightarrow> handle \<Rightarrow> nat option \<Rightarrow> 'w win32_kernel
     \<Rightarrow> (u32 \<times> 'w win32_kernel) option" where
  "os_PortTaskEntry api wait body self parameter s =
     (case parameter of
        None \<Rightarrow> Some (1, os_PortFail s)
      | Some i \<Rightarrow>
          let (ok, s) = task_entry_begin api self i s
          in if \<not> ok then Some (1, s)
          else do {
            s \<leftarrow> (if os_port_is_running_win32 (k_port s)
                  then case sl_task (slot s i) of
                         None \<Rightarrow> None
                       | Some t \<Rightarrow> body (t_entry (k_tasks s t)) (t_argument (k_tasks s t)) s
                  else Some s);
            s \<leftarrow> (if os_port_is_running_win32 (k_port s)
                  then map_option snd (os_port_task_request_win32 api wait self OS_PORT_REQ_EXIT 0 None 0 s)
                  else Some s);
            Some (0, task_entry_end i s)
          })"

subsection \<open>Stopping and starting worker threads\<close>

definition os_PortActivate :: "'w win32_api \<Rightarrow> nat option \<Rightarrow> 'w win32_kernel \<Rightarrow> bool \<times> 'w win32_kernel" where
  "os_PortActivate api task s =
     (case task of
        None \<Rightarrow> (True, s)
      | Some t \<Rightarrow>
          case os_PortSlotForTask task s of
            None \<Rightarrow> (False, s)
          | Some i \<Rightarrow>
              if sl_thread (slot s i) = 0 then (False, s)
              else
                let s = upd_slot i (\<lambda>S. S\<lparr>sl_response := t_wait_result (k_tasks s t)\<rparr>) s
                in if sl_suspended (slot s i) then
                  let (count, s) = call_api (api_ResumeThread api (sl_thread (slot s i))) s
                  in if count = 0xFFFFFFFF then (False, s)
                     else (True, upd_slot i (\<lambda>S. S\<lparr>sl_suspended := False\<rparr>) s)
                else call_api (api_SetEvent api (sl_gate (slot s i))) s)"

definition os_PortSuspendCurrent :: "'w win32_api \<Rightarrow> 'w win32_kernel \<Rightarrow> bool \<times> 'w win32_kernel" where
  "os_PortSuspendCurrent api s =
     (case os_PortSlotForTask (k_current s) s of
        None \<Rightarrow> (k_current s = None, s)
      | Some i \<Rightarrow>
          if sl_phase (slot s i) \<noteq> OS_PORT_PHASE_USER then (False, s)
          else
            let (previous_count, s) = call_api (api_SuspendThread api (sl_thread (slot s i))) s
            in if previous_count = 0xFFFFFFFF then (False, s)
            else if previous_count \<noteq> 0 then
              (False, snd (call_api (api_ResumeThread api (sl_thread (slot s i))) s))
            else (True, upd_slot i (\<lambda>S. S\<lparr>sl_suspended := True\<rparr>) s))"

subsection \<open>Ticks\<close>

definition os_PortObserveTick :: "'w win32_api \<Rightarrow> 'w win32_kernel \<Rightarrow> 'w win32_kernel" where
  "os_PortObserveTick api s =
     (let tick = xTaskGetTickCount s;
          s = (if wp_observer (k_port s) \<noteq> 0 \<and> tick mod OS_OBSERVER_PERIOD_TICKS = 0
               then upd_port (\<lambda>p. p\<lparr>wp_os := api_observer api (wp_observer p) (os_GetRuntimeSnapshot s)
                                              (wp_observer_context p) (wp_os p)\<rparr>) s
               else s)
      in if wp_run_ticks (k_port s) \<noteq> 0 \<and> wp_run_ticks (k_port s) \<le> tick
         then upd_port (\<lambda>p. p\<lparr>wp_running := False\<rparr>) s else s)"

definition os_PortApplyTick :: "'w win32_api \<Rightarrow> 'w win32_kernel \<Rightarrow> (bool \<times> 'w win32_kernel) option" where
  "os_PortApplyTick api s = do {
     (_, s) \<leftarrow> os_TimeTick s;
     if \<not> os_KernelValidate s then Some (False, os_PortFail s)
     else
       let s = os_PortObserveTick api s
       in Some (os_port_is_running_win32 (k_port s), s)
   }"

partial_function (option) os_PortPendingTicks ::
    "'w win32_api \<Rightarrow> 'w win32_kernel \<Rightarrow> 'w win32_kernel option" where
  "os_PortPendingTicks api s =
     (if 0 < wp_pending_ticks (k_port s) \<and> os_port_is_running_win32 (k_port s) then do {
        (_, s) \<leftarrow> os_PortApplyTick api (upd_port (\<lambda>p. p\<lparr>wp_pending_ticks := wp_pending_ticks p - 1\<rparr>) s);
        os_PortPendingTicks api s
      } else Some s)"

declare os_PortPendingTicks.simps [code]

subsection \<open>The control thread\<close>

definition os_PortFindRequester :: "'w win32_kernel \<Rightarrow> nat option" where
  "os_PortFindRequester s =
     find (\<lambda>i. sl_request (slot s i) \<noteq> None) [0..<unat (k_task_count s)]"

text \<open>The switch over the request code. In contrast to the other ports a yield sets no result.\<close>

fun os_PortSwitch ::
    "os_port_req_id_t \<Rightarrow> u32 \<Rightarrow> obj_ref option \<Rightarrow> addr \<Rightarrow> 'p kernel \<Rightarrow> 'p kernel option" where
  "os_PortSwitch OS_PORT_REQ_YIELD ticks object buffer s = do { (_, s) \<leftarrow> os_SchedYieldCurrent s; Some s }"
| "os_PortSwitch OS_PORT_REQ_DELAY ticks object buffer s = do { (_, s) \<leftarrow> os_TimeDelayCurrent ticks s; Some s }"
| "os_PortSwitch OS_PORT_REQ_SEM_TAKE ticks object buffer s =
     do { sem \<leftarrow> as_sem object; os_SemTakeCurrent sem ticks s }"
| "os_PortSwitch OS_PORT_REQ_SEM_GIVE ticks object buffer s =
     do { sem \<leftarrow> as_sem object; os_SemGiveCurrent sem s }"
| "os_PortSwitch OS_PORT_REQ_QUEUE_SEND ticks object buffer s =
     do { queue \<leftarrow> as_queue object; os_QueueSendCurrent queue buffer ticks s }"
| "os_PortSwitch OS_PORT_REQ_QUEUE_RECEIVE ticks object buffer s =
     do { queue \<leftarrow> as_queue object; os_QueueReceiveCurrent queue buffer ticks s }"
| "os_PortSwitch OS_PORT_REQ_MUTEX_LOCK ticks object buffer s =
     do { mutex \<leftarrow> as_mutex object; os_MutexLockCurrent mutex ticks s }"
| "os_PortSwitch OS_PORT_REQ_MUTEX_UNLOCK ticks object buffer s =
     do { mutex \<leftarrow> as_mutex object; os_MutexUnlockCurrent mutex s }"
| "os_PortSwitch OS_PORT_REQ_EXIT ticks object buffer s = do { (_, s) \<leftarrow> os_SchedTerminateCurrent s; Some s }"

definition os_PortProcessRequest :: "'w win32_api \<Rightarrow> 'w win32_kernel \<Rightarrow> (bool \<times> 'w win32_kernel) option" where
  "os_PortProcessRequest api s =
     (case os_PortFindRequester s of
        None \<Rightarrow>
          if wp_switch_pended (k_port s) then
            let s = upd_port (\<lambda>p. p\<lparr>wp_switch_pended := False\<rparr>) s
            in if \<not> os_KernelValidate s then Some (False, s)
            else if os_port_is_running_win32 (k_port s) then Some (os_PortActivate api (k_current s) s)
            else Some (True, s)
          else Some (False, s)
      | Some i \<Rightarrow>
          case sl_request (slot s i) of
            None \<Rightarrow> Some (False, s)
          | Some request \<Rightarrow>
              let object = sl_request_object (slot s i);
                  buffer = sl_request_buffer (slot s i);
                  s = upd_slot i (\<lambda>S. S\<lparr>sl_request := None, sl_request_object := None,
                                        sl_request_buffer := 0\<rparr>) s
              in if sl_task (slot s i) \<noteq> k_current s then Some (False, s)
              else do {
                s \<leftarrow> os_PortSwitch request (sl_request_ticks (slot s i)) object buffer s;
                if \<not> os_KernelValidate s then Some (False, s)
                else do {
                  s \<leftarrow> os_PortPendingTicks api s;
                  let s = (if \<not> os_KernelHasLiveTasks s
                           then upd_port (\<lambda>p. p\<lparr>wp_running := False\<rparr>) s else s);
                  Some (if os_port_is_running_win32 (k_port s) then os_PortActivate api (k_current s) s
                        else (True, s))
                }
              })"

definition os_PortProcessTimer :: "'w win32_api \<Rightarrow> 'w win32_kernel \<Rightarrow> (bool \<times> 'w win32_kernel) option" where
  "os_PortProcessTimer api s =
     (let current_slot = os_PortSlotForTask (k_current s) s
      in if current_slot \<noteq> None \<and> sl_phase (slot s (the current_slot)) \<noteq> OS_PORT_PHASE_USER then
        Some (True, upd_port (\<lambda>p. p\<lparr>wp_pending_ticks := wp_pending_ticks p + 1\<rparr>) s)
      else
        let (ok, s) = (if k_current s \<noteq> None then os_PortSuspendCurrent api s else (True, s))
        in if \<not> ok then Some (False, s)
        else do {
          (running, s) \<leftarrow> os_PortApplyTick api s;
          Some (if \<not> running then (True, s) else os_PortActivate api (k_current s) s)
        })"

text \<open>One round of the control loop, after the wait has returned.\<close>

definition control_round :: "'w win32_api \<Rightarrow> u32 \<Rightarrow> 'w win32_kernel \<Rightarrow> 'w win32_kernel option" where
  "control_round api wait_result s =
     (if wait_result = WAIT_OBJECT_0 then do {
        (ok, s) \<leftarrow> os_PortProcessRequest api s;
        Some (if ok then s else os_PortFail s)
      }
      else if wait_result = WAIT_OBJECT_0 + 1 then do {
        (ok, s) \<leftarrow> os_PortProcessTimer api s;
        Some (if ok then s else os_PortFail s)
      }
      else Some (os_PortFail s))"

subsection \<open>Creating and releasing the platform objects\<close>

definition release_thread :: "'w win32_api \<Rightarrow> nat \<Rightarrow> handle list \<times> 'w win32_kernel \<Rightarrow> handle list \<times> 'w win32_kernel" where
  "release_thread api i hs =
     (case hs of (handles, s) \<Rightarrow>
        if sl_thread (slot s i) = 0 then (handles, s)
        else
          let s = (if sl_suspended (slot s i)
                   then upd_slot i (\<lambda>S. S\<lparr>sl_suspended := False\<rparr>)
                          (snd (call_api (api_ResumeThread api (sl_thread (slot s i))) s))
                   else s);
              s = (if sl_gate (slot s i) \<noteq> 0
                   then snd (call_api (api_SetEvent api (sl_gate (slot s i))) s) else s)
          in (handles @ [sl_thread (slot s i)], s))"

definition close_slot :: "'w win32_api \<Rightarrow> nat \<Rightarrow> 'w win32_kernel \<Rightarrow> 'w win32_kernel" where
  "close_slot api i s =
     (let s = (if sl_thread (slot s i) \<noteq> 0
               then upd_slot i (\<lambda>S. S\<lparr>sl_thread := 0\<rparr>)
                      (snd (call_api (api_CloseHandle api (sl_thread (slot s i))) s))
               else s)
      in if sl_gate (slot s i) \<noteq> 0
         then upd_slot i (\<lambda>S. S\<lparr>sl_gate := 0\<rparr>) (snd (call_api (api_CloseHandle api (sl_gate (slot s i))) s))
         else s)"

text \<open>The wait for the threads has a timeout and always returns; \<open>None\<close> would be an endless wait.\<close>

definition os_PortReleaseThreads :: "'w win32_api \<Rightarrow> 'w win32_kernel \<Rightarrow> 'w win32_kernel option" where
  "os_PortReleaseThreads api s =
     (let s = upd_port (\<lambda>p. p\<lparr>wp_running := False\<rparr>) s;
          slots = [0..<unat (k_task_count s)];
          (handles, s) = fold (release_thread api) slots ([], s)
      in do {
        s \<leftarrow> (if handles \<noteq> [] then
                case api_WaitForMultipleObjects api handles True 5000 (wp_os (k_port s)) of
                  None \<Rightarrow> None
                | Some (wait_result, w) \<Rightarrow>
                    let s = upd_port (\<lambda>p. p\<lparr>wp_os := w\<rparr>) s
                    in Some (if wait_result = WAIT_FAILED \<or> wait_result = WAIT_TIMEOUT
                             then upd_port (\<lambda>p. p\<lparr>wp_failed := True\<rparr>) s else s)
              else Some s);
        Some (fold (close_slot api) slots s)
      })"

definition create_slot :: "'w win32_api \<Rightarrow> nat \<Rightarrow> 'w win32_kernel \<Rightarrow> bool \<times> 'w win32_kernel" where
  "create_slot api i s =
     (let s = upd_slot i (\<lambda>S. S\<lparr>sl_task := Some i\<rparr>) s;
          (gate, s) = call_api (api_CreateEventA api False False) s;
          s = upd_slot i (\<lambda>S. S\<lparr>sl_gate := gate\<rparr>) s
      in if sl_gate (slot s i) = 0 then (False, s)
      else
        let (thread, s) = call_api (api_CreateThread api i) s;
            s = upd_slot i (\<lambda>S. S\<lparr>sl_thread := thread\<rparr>) s
        in if sl_thread (slot s i) = 0 then (False, s)
        else
          let s = upd_slot i (\<lambda>S. S\<lparr>sl_suspended := True, sl_phase := OS_PORT_PHASE_CREATED,
                    sl_request := None, sl_response := OS_STATUS_BAD_STATE\<rparr>) s;
              (mask, s) = call_api (api_SetThreadAffinityMask api (sl_thread (slot s i)) 1) s
          in if mask = 0 then (False, s)
          else call_api (api_SetThreadPriority api (sl_thread (slot s i)) THREAD_PRIORITY_NORMAL) s)"

fun create_slots :: "'w win32_api \<Rightarrow> nat list \<Rightarrow> 'w win32_kernel \<Rightarrow> bool \<times> 'w win32_kernel" where
  "create_slots api [] s = (True, s)"
| "create_slots api (i # is) s =
     (let (ok, s) = create_slot api i s in if \<not> ok then (False, s) else create_slots api is s)"

definition os_PortCreateRuntimeObjects :: "'w win32_api \<Rightarrow> 'w win32_kernel \<Rightarrow> bool \<times> 'w win32_kernel" where
  "os_PortCreateRuntimeObjects api s =
     (let (event, s) = call_api (api_CreateEventA api False False) s;
          s = upd_port (\<lambda>p. p\<lparr>wp_request_event := event\<rparr>) s;
          (timer, s) = call_api (api_CreateWaitableTimerA api False) s;
          s = upd_port (\<lambda>p. p\<lparr>wp_tick_timer := timer\<rparr>) s;
          (index, s) = call_api (api_TlsAlloc api) s;
          s = upd_port (\<lambda>p. p\<lparr>wp_tls_index := index\<rparr>) s
      in if event = 0 \<or> timer = 0 \<or> index = TLS_OUT_OF_INDEXES then (False, s)
      else
        let (ok, s) = create_slots api [0..<unat (k_task_count s)] s
        in if \<not> ok then (False, s)
        else
          let (mask, s) = call_api (api_SetThreadAffinityMask api (api_GetCurrentThread api) 1) s;
              s = upd_port (\<lambda>p. p\<lparr>wp_scheduler_affinity_before := mask\<rparr>) s
          in if mask = 0 then (False, s)
          else
            let (priority, s) = call_api (api_GetThreadPriority api (api_GetCurrentThread api)) s;
                s = upd_port (\<lambda>p. p\<lparr>wp_scheduler_priority_before := priority\<rparr>) s
            in if priority = THREAD_PRIORITY_ERROR_RETURN then (False, s)
            else call_api (api_SetThreadPriority api (api_GetCurrentThread api) THREAD_PRIORITY_HIGHEST) s)"

definition os_PortStartTimer :: "'w win32_api \<Rightarrow> 'w win32_kernel \<Rightarrow> bool \<times> 'w win32_kernel" where
  "os_PortStartTimer api s =
     call_api (api_SetWaitableTimer api (wp_tick_timer (k_port s)) (- (uint OS_TICK_MS * 10000)) OS_TICK_MS) s"

definition os_PortCloseRuntimeObjects :: "'w win32_api \<Rightarrow> 'w win32_kernel \<Rightarrow> 'w win32_kernel" where
  "os_PortCloseRuntimeObjects api s =
     (let s = (if wp_tick_timer (k_port s) \<noteq> 0 then
                 let s = snd (call_api (api_CancelWaitableTimer api (wp_tick_timer (k_port s))) s);
                     s = snd (call_api (api_CloseHandle api (wp_tick_timer (k_port s))) s)
                 in upd_port (\<lambda>p. p\<lparr>wp_tick_timer := 0\<rparr>) s
               else s);
          s = (if wp_request_event (k_port s) \<noteq> 0 then
                 upd_port (\<lambda>p. p\<lparr>wp_request_event := 0\<rparr>)
                   (snd (call_api (api_CloseHandle api (wp_request_event (k_port s))) s))
               else s);
          s = (if wp_tls_index (k_port s) \<noteq> TLS_OUT_OF_INDEXES then
                 upd_port (\<lambda>p. p\<lparr>wp_tls_index := TLS_OUT_OF_INDEXES\<rparr>)
                   (snd (call_api (api_TlsFree api (wp_tls_index (k_port s))) s))
               else s);
          s = (if wp_scheduler_priority_before (k_port s) \<noteq> THREAD_PRIORITY_ERROR_RETURN then
                 snd (call_api (api_SetThreadPriority api (api_GetCurrentThread api)
                        (wp_scheduler_priority_before (k_port s))) s)
               else s)
      in if wp_scheduler_affinity_before (k_port s) \<noteq> 0 then
           snd (call_api (api_SetThreadAffinityMask api (api_GetCurrentThread api)
                  (wp_scheduler_affinity_before (k_port s))) s)
         else s)"

subsection \<open>os_port_start_scheduler\<close>

definition zero_slot :: os_port_task_slot_t where
  "zero_slot = \<lparr>sl_task = None, sl_thread = 0, sl_gate = 0, sl_phase = OS_PORT_PHASE_CREATED,
     sl_request = None, sl_request_ticks = 0, sl_request_object = None, sl_request_buffer = 0,
     sl_response = OS_STATUS_OK, sl_suspended = False\<rparr>"

definition clear_runtime :: "u32 \<Rightarrow> 'w win32_port \<Rightarrow> 'w win32_port" where
  "clear_runtime run_ticks p = p\<lparr>wp_slots := (\<lambda>_. zero_slot), wp_request_event := 0, wp_tick_timer := 0,
     wp_tls_index := TLS_OUT_OF_INDEXES, wp_running := False, wp_failed := False, wp_run_ticks := run_ticks,
     wp_pending_ticks := 0, wp_scheduler_affinity_before := 0,
     wp_scheduler_priority_before := THREAD_PRIORITY_ERROR_RETURN\<rparr>"

text \<open>Everything before the control loop; \<open>None\<close> as the status means that the loop is entered.\<close>

definition start_scheduler_begin :: "'w win32_api \<Rightarrow> 'w win32_port starter" where
  "start_scheduler_begin api run_ticks s =
     (if \<not> k_initialized s \<or> k_started s \<or> k_task_count s = 0 then Some (Some OS_STATUS_BAD_STATE, s)
      else
        let s = upd_port (clear_runtime run_ticks) s;
            s = os_PortEnableVirtualTerminal api s;
            (created, s) = os_PortCreateRuntimeObjects api s;
            (ok, s) = (if created then os_PortStartTimer api s else (False, s))
        in if \<not> ok then do {
          s \<leftarrow> os_PortReleaseThreads api (upd_port (\<lambda>p. p\<lparr>wp_failed := True\<rparr>) s);
          Some (Some OS_STATUS_BAD_STATE, os_PortCloseRuntimeObjects api s)
        }
        else do {
          (first, s) \<leftarrow> os_SchedStart (upd_port (\<lambda>p. p\<lparr>wp_running := True\<rparr>) s);
          Some (None,
            if first = None \<or> \<not> os_KernelValidate s then os_PortFail s
            else let (ok, s) = os_PortActivate api (k_current s) s in if ok then s else os_PortFail s)
        })"

definition start_scheduler_end :: "'w win32_api \<Rightarrow> 'w win32_kernel \<Rightarrow> (os_status_t \<times> 'w win32_kernel) option" where
  "start_scheduler_end api s = do {
     s \<leftarrow> os_PortReleaseThreads api s;
     let s = os_KernelStopAll (os_PortCloseRuntimeObjects api s);
     Some (if os_PortFailed s then OS_STATUS_BAD_STATE else OS_STATUS_OK, s)
   }"

end
