(* ===== verification/Win32_System.thy ===== *)
theory Win32_System
  imports Port_Win32
begin

section \<open>Threads on the Windows port\<close>

text \<open>
  The port as a concurrent system: the control thread in its loop, one worker thread per task,
  and a timer that can expire at any time. What Windows does is not defined here but required, by
  \<open>windows api vw\<close>, of the functions of its API: what they return and how they change the
  objects that \<open>vw\<close> shows. The control thread has the highest priority on the one
  processor that all threads are bound to, so one round of its loop is one step; the worker
  threads interleave between the accesses to their mailboxes.
\<close>

subsection \<open>What Windows promises\<close>

text \<open>
  The open handles, the allocated indexes of thread-local storage and the timers that are set; which
  objects are signalled, how often a thread is suspended, and what it has stored.
\<close>

record win32_view =
  v_handles :: "handle set"
  v_tls_indexes :: "u32 set"
  v_armed :: "handle set"
  v_signalled :: "handle \<Rightarrow> bool"
  v_suspends :: "handle \<Rightarrow> nat"
  v_tls :: "handle \<Rightarrow> u32 \<Rightarrow> nat option"

definition signal :: "handle \<Rightarrow> bool \<Rightarrow> win32_view \<Rightarrow> win32_view" where
  "signal h b V = V\<lparr>v_signalled := (v_signalled V)(h := b)\<rparr>"

definition suspend_count :: "handle \<Rightarrow> nat \<Rightarrow> win32_view \<Rightarrow> win32_view" where
  "suspend_count h n V = V\<lparr>v_suspends := (v_suspends V)(h := n)\<rparr>"

text \<open>What a process holds, as opposed to the state of its objects.\<close>

definition holdings :: "win32_view \<Rightarrow> handle set \<times> u32 set \<times> handle set" where
  "holdings V = (v_handles V, v_tls_indexes V, v_armed V)"

text \<open>
  On open handles and allocated indexes: setting an event signals it; a wait returns as soon as one of its objects is signalled, the first
  one in its list if there are several, and resets it (auto-reset events and a synchronization timer);
  suspending and resuming count and return the previous count; thread-local storage holds what the
  thread has stored. The application's observer only looks.
\<close>

definition windows :: "'w win32_api \<Rightarrow> ('w \<Rightarrow> win32_view) \<Rightarrow> bool" where
  "windows api vw \<longleftrightarrow>
     (\<forall>h w. h \<in> v_handles (vw w) \<longrightarrow>
         fst (api_SetEvent api h w) \<and> vw (snd (api_SetEvent api h w)) = signal h True (vw w)) \<and>
     (\<forall>h w. h \<in> v_handles (vw w) \<longrightarrow> (case api_WaitForSingleObject api h w of
         None \<Rightarrow> \<not> v_signalled (vw w) h
       | Some (r, w') \<Rightarrow> v_signalled (vw w) h \<and> r = WAIT_OBJECT_0 \<and> vw w' = signal h False (vw w))) \<and>
     (\<forall>a b w. a \<in> v_handles (vw w) \<and> b \<in> v_handles (vw w) \<longrightarrow>
       (case api_WaitForMultipleObjects api [a, b] False INFINITE w of
         None \<Rightarrow> \<not> v_signalled (vw w) a \<and> \<not> v_signalled (vw w) b
       | Some (r, w') \<Rightarrow>
           if v_signalled (vw w) a then r = WAIT_OBJECT_0 \<and> vw w' = signal a False (vw w)
           else v_signalled (vw w) b \<and> r = WAIT_OBJECT_0 + 1 \<and> vw w' = signal b False (vw w))) \<and>
     (\<forall>h w. h \<in> v_handles (vw w) \<longrightarrow> fst (api_SuspendThread api h w) = of_nat (v_suspends (vw w) h) \<and>
         vw (snd (api_SuspendThread api h w)) = suspend_count h (v_suspends (vw w) h + 1) (vw w)) \<and>
     (\<forall>h w. h \<in> v_handles (vw w) \<longrightarrow> fst (api_ResumeThread api h w) = of_nat (v_suspends (vw w) h) \<and>
         vw (snd (api_ResumeThread api h w)) = suspend_count h (v_suspends (vw w) h - 1) (vw w)) \<and>
     (\<forall>h index v w. index \<in> v_tls_indexes (vw w) \<longrightarrow>
         fst (api_TlsSetValue api h index v w) \<and> vw (snd (api_TlsSetValue api h index v w)) =
         (vw w)\<lparr>v_tls := (v_tls (vw w))(h := (v_tls (vw w) h)(index := Some v))\<rparr>) \<and>
     (\<forall>h index w. index \<in> v_tls_indexes (vw w) \<longrightarrow> api_TlsGetValue api h index w = v_tls (vw w) h index) \<and>
     (\<forall>f snap c w. vw (api_observer api f snap c w) = vw w)"

lemma windowsD:
  assumes "windows api vw"
  shows set_event: "h \<in> v_handles (vw w) \<Longrightarrow> fst (api_SetEvent api h w)"
      "h \<in> v_handles (vw w) \<Longrightarrow> vw (snd (api_SetEvent api h w)) = signal h True (vw w)"
    and wait_single: "h \<in> v_handles (vw w) \<Longrightarrow> api_WaitForSingleObject api h w = Some (r, w') \<Longrightarrow>
      v_signalled (vw w) h \<and> r = 0 \<and> vw w' = signal h False (vw w)"
      "h \<in> v_handles (vw w) \<Longrightarrow> api_WaitForSingleObject api h w = None \<Longrightarrow> \<not> v_signalled (vw w) h"
    and wait_any: "a \<in> v_handles (vw w) \<Longrightarrow> b \<in> v_handles (vw w) \<Longrightarrow>
      api_WaitForMultipleObjects api [a, b] False INFINITE w = Some (r, w') \<Longrightarrow>
      (if v_signalled (vw w) a then r = 0 \<and> vw w' = signal a False (vw w)
       else v_signalled (vw w) b \<and> r = 1 \<and> vw w' = signal b False (vw w))"
      "a \<in> v_handles (vw w) \<Longrightarrow> b \<in> v_handles (vw w) \<Longrightarrow>
      api_WaitForMultipleObjects api [a, b] False INFINITE w = None \<Longrightarrow> \<not> v_signalled (vw w) a"
    and suspend_thread: "h \<in> v_handles (vw w) \<Longrightarrow> fst (api_SuspendThread api h w) = of_nat (v_suspends (vw w) h)"
      "h \<in> v_handles (vw w) \<Longrightarrow> vw (snd (api_SuspendThread api h w)) = suspend_count h (v_suspends (vw w) h + 1) (vw w)"
    and resume_thread: "h \<in> v_handles (vw w) \<Longrightarrow> fst (api_ResumeThread api h w) = of_nat (v_suspends (vw w) h)"
      "h \<in> v_handles (vw w) \<Longrightarrow> vw (snd (api_ResumeThread api h w)) = suspend_count h (v_suspends (vw w) h - 1) (vw w)"
    and tls_set: "index \<in> v_tls_indexes (vw w) \<Longrightarrow> fst (api_TlsSetValue api h index v w)"
      "index \<in> v_tls_indexes (vw w) \<Longrightarrow> vw (snd (api_TlsSetValue api h index v w)) =
        (vw w)\<lparr>v_tls := (v_tls (vw w))(h := (v_tls (vw w) h)(index := Some v))\<rparr>"
    and tls_get: "index \<in> v_tls_indexes (vw w) \<Longrightarrow> api_TlsGetValue api h index w = v_tls (vw w) h index"
    and observer_view: "vw (api_observer api f snap c w) = vw w"
proof -
  show "h \<in> v_handles (vw w) \<Longrightarrow> fst (api_SetEvent api h w)"
    "h \<in> v_handles (vw w) \<Longrightarrow> vw (snd (api_SetEvent api h w)) = signal h True (vw w)"
    "h \<in> v_handles (vw w) \<Longrightarrow> fst (api_SuspendThread api h w) = of_nat (v_suspends (vw w) h)"
    "h \<in> v_handles (vw w) \<Longrightarrow> vw (snd (api_SuspendThread api h w)) = suspend_count h (v_suspends (vw w) h + 1) (vw w)"
    "h \<in> v_handles (vw w) \<Longrightarrow> fst (api_ResumeThread api h w) = of_nat (v_suspends (vw w) h)"
    "h \<in> v_handles (vw w) \<Longrightarrow> vw (snd (api_ResumeThread api h w)) = suspend_count h (v_suspends (vw w) h - 1) (vw w)"
    "index \<in> v_tls_indexes (vw w) \<Longrightarrow> fst (api_TlsSetValue api h index v w)"
    "index \<in> v_tls_indexes (vw w) \<Longrightarrow> vw (snd (api_TlsSetValue api h index v w)) =
        (vw w)\<lparr>v_tls := (v_tls (vw w))(h := (v_tls (vw w) h)(index := Some v))\<rparr>"
    "index \<in> v_tls_indexes (vw w) \<Longrightarrow> api_TlsGetValue api h index w = v_tls (vw w) h index"
    "vw (api_observer api f snap c w) = vw w"
    using assms by (simp_all add: windows_def)
  have single: "case api_WaitForSingleObject api h w of None \<Rightarrow> \<not> v_signalled (vw w) h
      | Some (r, w') \<Rightarrow> v_signalled (vw w) h \<and> r = WAIT_OBJECT_0 \<and> vw w' = signal h False (vw w)"
    if "h \<in> v_handles (vw w)"
    using assms that unfolding windows_def by blast
  show "h \<in> v_handles (vw w) \<Longrightarrow> api_WaitForSingleObject api h w = Some (r, w') \<Longrightarrow>
      v_signalled (vw w) h \<and> r = 0 \<and> vw w' = signal h False (vw w)"
    "h \<in> v_handles (vw w) \<Longrightarrow> api_WaitForSingleObject api h w = None \<Longrightarrow> \<not> v_signalled (vw w) h"
    using single by simp_all
  have any: "case api_WaitForMultipleObjects api [a, b] False INFINITE w of
         None \<Rightarrow> \<not> v_signalled (vw w) a \<and> \<not> v_signalled (vw w) b
       | Some (r, w') \<Rightarrow>
           if v_signalled (vw w) a then r = WAIT_OBJECT_0 \<and> vw w' = signal a False (vw w)
           else v_signalled (vw w) b \<and> r = WAIT_OBJECT_0 + 1 \<and> vw w' = signal b False (vw w)"
    if "a \<in> v_handles (vw w)" "b \<in> v_handles (vw w)"
    using assms that unfolding windows_def by blast
  show "a \<in> v_handles (vw w) \<Longrightarrow> b \<in> v_handles (vw w) \<Longrightarrow>
      api_WaitForMultipleObjects api [a, b] False INFINITE w = Some (r, w') \<Longrightarrow>
      (if v_signalled (vw w) a then r = 0 \<and> vw w' = signal a False (vw w)
       else v_signalled (vw w) b \<and> r = 1 \<and> vw w' = signal b False (vw w))"
    "a \<in> v_handles (vw w) \<Longrightarrow> b \<in> v_handles (vw w) \<Longrightarrow>
      api_WaitForMultipleObjects api [a, b] False INFINITE w = None \<Longrightarrow> \<not> v_signalled (vw w) a"
    using any by (simp_all split: if_splits)
qed

lemma view_simps [simp]:
  "v_signalled (signal h b V) k = (if k = h then b else v_signalled V k)" "v_suspends (signal h b V) = v_suspends V"
  "v_tls (signal h b V) = v_tls V" "v_suspends (suspend_count h n V) k = (if k = h then n else v_suspends V k)"
  "v_signalled (suspend_count h n V) = v_signalled V" "v_tls (suspend_count h n V) = v_tls V"
  "holdings (signal h b V) = holdings V" "holdings (suspend_count h n V) = holdings V" "holdings (V\<lparr>v_tls := f\<rparr>) = holdings V"
  by (simp_all add: signal_def suspend_count_def holdings_def)

subsection \<open>The steps of the system\<close>

text \<open>
  Where a worker thread is: before the entry wrapper, in the code of its task, at one of
  the steps of \<open>os_port_task_request\<close> with the slot it found and what it asks for, or at its end.
\<close>

datatype worker_at =
    At_Entry
  | At_User
  | At_Fill nat os_port_req_id_t u32 "obj_ref option" addr
  | At_Post nat os_port_req_id_t
  | At_Phase nat os_port_req_id_t
  | At_Signal nat os_port_req_id_t
  | At_Gate nat
  | At_Resume nat
  | At_Exit
  | At_End

text \<open>
  The obligation of the application for a request, in terms of the base priority of the task:
  handles of the right kind, and no mutex for the Idle task.
\<close>

fun request_fits :: "os_port_req_id_t \<Rightarrow> obj_ref option \<Rightarrow> u8 \<Rightarrow> bool" where
  "request_fits OS_PORT_REQ_SEM_TAKE obj base = (as_sem obj \<noteq> None)"
| "request_fits OS_PORT_REQ_SEM_GIVE obj base = (as_sem obj \<noteq> None)"
| "request_fits OS_PORT_REQ_QUEUE_SEND obj base = (as_queue obj \<noteq> None)"
| "request_fits OS_PORT_REQ_QUEUE_RECEIVE obj base = (as_queue obj \<noteq> None)"
| "request_fits OS_PORT_REQ_MUTEX_LOCK obj base = (as_mutex obj \<noteq> None \<and> base \<noteq> OS_IDLE_PRIORITY)"
| "request_fits OS_PORT_REQ_MUTEX_UNLOCK obj base = (as_mutex obj \<noteq> None)"
| "request_fits _ obj base = True"

lemma typed_request_fits:
  "k_current s = Some i \<Longrightarrow> typed_request req obj s = request_fits req obj (t_base_priority (k_tasks s i))"
  by (cases req) (simp_all add: idle_current_def os_TaskIsIdle_def)

text \<open>A worker thread can run while it is not suspended and the scheduler is running.\<close>

definition can_run :: "('w \<Rightarrow> win32_view) \<Rightarrow> 'w win32_kernel \<Rightarrow> nat \<Rightarrow> bool" where
  "can_run vw s i \<longleftrightarrow> wp_running (k_port s) \<and> i < unat (k_task_count s) \<and>
     v_suspends (vw (wp_os (k_port s))) (sl_thread (slot s i)) = 0"

type_synonym 'w win32_sys = "(nat \<Rightarrow> worker_at) \<times> 'w win32_kernel"

text \<open>
  \<open>quiet\<close> restricts the timer: the control thread does not handle a tick while a worker stands between
  the store of its request code and the store of its phase.
\<close>

inductive win32_step :: "bool \<Rightarrow> 'w win32_api \<Rightarrow> ('w \<Rightarrow> win32_view) \<Rightarrow> 'w win32_sys \<Rightarrow> 'w win32_sys \<Rightarrow> bool"
  for quiet api vw where
  entry: "\<lbrakk>can_run vw s i; p i = At_Entry; task_entry_begin api (sl_thread (slot s i)) i s = (ok, s')\<rbrakk> \<Longrightarrow>
    win32_step quiet api vw (p, s) (p(i := if ok then At_User else At_End), s')"
| compute: "\<lbrakk>can_run vw s i; p i = At_User\<rbrakk> \<Longrightarrow> win32_step quiet api vw (p, s) (p, s\<lparr>k_memory := m\<rparr>)"
| request: "\<lbrakk>can_run vw s i; p i = At_User; request_slot api (sl_thread (slot s i)) s = Some j;
    request_fits req obj (t_base_priority (k_tasks s i))\<rbrakk> \<Longrightarrow>
    win32_step quiet api vw (p, s) (p(i := At_Fill j req ticks obj buf), s)"
| fill: "\<lbrakk>can_run vw s i; p i = At_Fill j req ticks obj buf\<rbrakk> \<Longrightarrow>
    win32_step quiet api vw (p, s) (p(i := At_Post j req), mailbox_fill j ticks obj buf s)"
| post: "\<lbrakk>can_run vw s i; p i = At_Post j req\<rbrakk> \<Longrightarrow>
    win32_step quiet api vw (p, s) (p(i := At_Phase j req), mailbox_post j req s)"
| phase: "\<lbrakk>can_run vw s i; p i = At_Phase j req\<rbrakk> \<Longrightarrow>
    win32_step quiet api vw (p, s) (p(i := At_Signal j req), mailbox_phase j s)"
| signal: "\<lbrakk>can_run vw s i; p i = At_Signal j req; mailbox_signal api s = (ok, s')\<rbrakk> \<Longrightarrow>
    win32_step quiet api vw (p, s)
      (p(i := if req = OS_PORT_REQ_EXIT then At_Exit else if ok then At_Gate j else At_User), s')"
| gate: "\<lbrakk>can_run vw s i; p i = At_Gate j;
    api_WaitForSingleObject api (sl_gate (slot s j)) (wp_os (k_port s)) = Some (r, w)\<rbrakk> \<Longrightarrow>
    win32_step quiet api vw (p, s)
      (p(i := if r = WAIT_OBJECT_0 then At_Resume j else At_User),
       (if r = WAIT_OBJECT_0 then id else os_PortFail) (upd_port (\<lambda>q. q\<lparr>wp_os := w\<rparr>) s))"
| resume: "\<lbrakk>can_run vw s i; p i = At_Resume j\<rbrakk> \<Longrightarrow>
    win32_step quiet api vw (p, s) (p(i := At_User), snd (request_return j s))"
| exit: "\<lbrakk>can_run vw s i; p i = At_Exit\<rbrakk> \<Longrightarrow>
    win32_step quiet api vw (p, s) (p(i := At_End), task_entry_end i s)"
| timer: "\<lbrakk>wp_running (k_port s); vw w = signal (wp_tick_timer (k_port s)) True (vw (wp_os (k_port s)))\<rbrakk> \<Longrightarrow>
    win32_step quiet api vw (p, s) (p, upd_port (\<lambda>q. q\<lparr>wp_os := w\<rparr>) s)"
| control: "\<lbrakk>wp_running (k_port s);
    api_WaitForMultipleObjects api [wp_request_event (k_port s), wp_tick_timer (k_port s)] False INFINITE
      (wp_os (k_port s)) = Some (r, w);
    quiet \<and> r = WAIT_OBJECT_0 + 1 \<longrightarrow> (\<forall>i < unat (k_task_count s). \<forall>j req. p i \<noteq> At_Phase j req);
    control_round api r (upd_port (\<lambda>q. q\<lparr>wp_os := w\<rparr>) s) = Some s'\<rbrakk> \<Longrightarrow>
    win32_step quiet api vw (p, s) (p, s')"

inductive_cases win32_stepE: "win32_step quiet api vw (p, s) (p', s')"

subsection \<open>The invariant\<close>

text \<open>
  \<open>worker_ok\<close> relates where a worker thread is to its slot; \<open>active\<close> is whether the kernel has
  chosen its task to run. A worker that is not active is suspended in its own code, blocked at
  its gate, or on its way out; its mailbox is empty, unless a tick has suspended it between the
  store of its request code and the store of its phase.
\<close>

definition worker_ok :: "win32_view \<Rightarrow> u32 \<Rightarrow> nat \<Rightarrow> u8 \<Rightarrow> bool \<Rightarrow> os_port_task_slot_t \<Rightarrow> worker_at \<Rightarrow> bool" where
  "worker_ok V index i base active S at \<longleftrightarrow>
     v_suspends V (sl_thread S) = (if sl_suspended S then 1 else 0) \<and>
     (at \<noteq> At_Entry \<longrightarrow> v_tls V (sl_thread S) index = Some i) \<and>
     (case at of
        At_Entry \<Rightarrow> sl_phase S = OS_PORT_PHASE_CREATED \<and> sl_request S = None \<and>
          \<not> v_signalled V (sl_gate S) \<and> (sl_suspended S \<longleftrightarrow> \<not> active)
      | At_User \<Rightarrow> sl_phase S = OS_PORT_PHASE_USER \<and> sl_request S = None \<and>
          \<not> v_signalled V (sl_gate S) \<and> (sl_suspended S \<longleftrightarrow> \<not> active)
      | At_Fill j req ticks obj buf \<Rightarrow> sl_phase S = OS_PORT_PHASE_USER \<and> sl_request S = None \<and>
          \<not> v_signalled V (sl_gate S) \<and> (sl_suspended S \<longleftrightarrow> \<not> active) \<and> j = i \<and> request_fits req obj base
      | At_Post j req \<Rightarrow> sl_phase S = OS_PORT_PHASE_USER \<and> sl_request S = None \<and>
          \<not> v_signalled V (sl_gate S) \<and> (sl_suspended S \<longleftrightarrow> \<not> active) \<and> j = i \<and>
          request_fits req (sl_request_object S) base
      | At_Phase j req \<Rightarrow> sl_phase S = OS_PORT_PHASE_USER \<and> sl_request S = Some req \<and>
          \<not> v_signalled V (sl_gate S) \<and> (sl_suspended S \<longleftrightarrow> \<not> active) \<and> j = i \<and>
          request_fits req (sl_request_object S) base
      | At_Signal j req \<Rightarrow> sl_phase S = OS_PORT_PHASE_REQUEST \<and> sl_request S = Some req \<and>
          \<not> v_signalled V (sl_gate S) \<and> \<not> sl_suspended S \<and> active \<and> j = i \<and>
          request_fits req (sl_request_object S) base
      | At_Gate j \<Rightarrow> sl_phase S = OS_PORT_PHASE_REQUEST \<and> \<not> sl_suspended S \<and> j = i \<and>
          (case sl_request S of
             None \<Rightarrow> v_signalled V (sl_gate S) \<longleftrightarrow> active
           | Some req \<Rightarrow> active \<and> \<not> v_signalled V (sl_gate S) \<and> request_fits req (sl_request_object S) base)
      | At_Resume j \<Rightarrow> sl_phase S = OS_PORT_PHASE_REQUEST \<and> sl_request S = None \<and>
          \<not> v_signalled V (sl_gate S) \<and> \<not> sl_suspended S \<and> active \<and> j = i
      | At_Exit \<Rightarrow> sl_phase S = OS_PORT_PHASE_REQUEST \<and> \<not> sl_suspended S \<and>
          (sl_request S = None \<or> active \<and> sl_request S = Some OS_PORT_REQ_EXIT)
      | At_End \<Rightarrow> sl_phase S = OS_PORT_PHASE_EXITED \<and> \<not> sl_suspended S \<and>
          (sl_request S = None \<or> active \<and> sl_request S = Some OS_PORT_REQ_EXIT))"

text \<open>The event is set while a request waits to be served.\<close>

fun submitted :: "worker_at \<Rightarrow> bool" where
  "submitted (At_Gate j) = True"
| "submitted At_Exit = True"
| "submitted At_End = True"
| "submitted _ = False"

definition handles_ok :: "'w win32_port \<Rightarrow> nat \<Rightarrow> bool" where
  "handles_ok q n \<longleftrightarrow> wp_request_event q \<noteq> 0 \<and> wp_tick_timer q \<noteq> 0 \<and> wp_tls_index q \<noteq> TLS_OUT_OF_INDEXES \<and>
     wp_tick_timer q \<noteq> wp_request_event q \<and>
     (\<forall>i < n. sl_task (wp_slots q i) = Some i \<and> sl_thread (wp_slots q i) \<noteq> 0 \<and> sl_gate (wp_slots q i) \<noteq> 0 \<and>
        sl_gate (wp_slots q i) \<noteq> wp_request_event q \<and> sl_gate (wp_slots q i) \<noteq> wp_tick_timer q \<and>
        (\<forall>j < n. j \<noteq> i \<longrightarrow> sl_gate (wp_slots q j) \<noteq> sl_gate (wp_slots q i) \<and>
           sl_thread (wp_slots q j) \<noteq> sl_thread (wp_slots q i)))"

text \<open>The handles that the port keeps in its variables, all of them open in a started port.\<close>

definition port_handles :: "'w win32_port \<Rightarrow> nat \<Rightarrow> handle set" where
  "port_handles q n = ({wp_request_event q, wp_tick_timer q} \<union>
     (\<Union>i<n. {sl_thread (wp_slots q i), sl_gate (wp_slots q i)})) - {0}"

lemma port_handles_same [simp]:
  "port_handles (q\<lparr>wp_pending_ticks := m\<rparr>) n = port_handles q n" "port_handles (q\<lparr>wp_running := b\<rparr>) n = port_handles q n"
  "port_handles (q\<lparr>wp_failed := b\<rparr>) n = port_handles q n" "port_handles (q\<lparr>wp_os := w\<rparr>) n = port_handles q n"
  by (simp_all add: port_handles_def)

definition held :: "win32_view \<Rightarrow> nat \<Rightarrow> 'w win32_port \<Rightarrow> bool" where
  "held V n q \<longleftrightarrow> port_handles q n \<subseteq> v_handles V \<and> wp_tls_index q \<in> v_tls_indexes V"

definition port_ok ::
    "('w \<Rightarrow> win32_view) \<Rightarrow> nat \<Rightarrow> (nat \<Rightarrow> u8) \<Rightarrow> nat option \<Rightarrow> (nat \<Rightarrow> worker_at) \<Rightarrow> 'w win32_port \<Rightarrow> bool" where
  "port_ok vw n base active p q \<longleftrightarrow>
     handles_ok q n \<and> held (vw (wp_os q)) n q \<and> \<not> wp_switch_pended q \<and>
     (\<forall>i < n. worker_ok (vw (wp_os q)) (wp_tls_index q) i (base i) (active = Some i) (wp_slots q i) (p i)) \<and>
     (v_signalled (vw (wp_os q)) (wp_request_event q) \<longleftrightarrow>
        (\<exists>i < n. active = Some i \<and> sl_request (wp_slots q i) \<noteq> None \<and> submitted (p i)))"

definition win32_ok :: "('w \<Rightarrow> win32_view) \<Rightarrow> 'w win32_sys \<Rightarrow> bool" where
  "win32_ok vw ps \<longleftrightarrow> (case ps of (p, s) \<Rightarrow>
     orderly s \<and>
     (wp_running (k_port s) \<longrightarrow> \<not> wp_failed (k_port s) \<and>
        port_ok vw (unat (k_task_count s)) (\<lambda>t. t_base_priority (k_tasks s t)) (k_current s) p (k_port s)))"

subsection \<open>Worker steps\<close>

lemma port_okD:
  assumes "port_ok vw n base active p q"
  shows port_handles_ok: "handles_ok q n" and port_held: "held (vw (wp_os q)) n q" and port_pended: "\<not> wp_switch_pended q"
    and port_worker: "i < n \<Longrightarrow>
      worker_ok (vw (wp_os q)) (wp_tls_index q) i (base i) (active = Some i) (wp_slots q i) (p i)"
    and port_event: "v_signalled (vw (wp_os q)) (wp_request_event q) \<longleftrightarrow>
        (\<exists>i < n. active = Some i \<and> sl_request (wp_slots q i) \<noteq> None \<and> submitted (p i))"
  using assms by (simp_all add: port_ok_def)

lemma handlesD:
  assumes "handles_ok q n" "i < n"
  shows "sl_task (wp_slots q i) = Some i" "sl_thread (wp_slots q i) \<noteq> 0" "sl_gate (wp_slots q i) \<noteq> 0"
    "sl_gate (wp_slots q i) \<noteq> wp_request_event q" "sl_gate (wp_slots q i) \<noteq> wp_tick_timer q"
    "j < n \<Longrightarrow> j \<noteq> i \<Longrightarrow> sl_gate (wp_slots q j) \<noteq> sl_gate (wp_slots q i)"
    "j < n \<Longrightarrow> j \<noteq> i \<Longrightarrow> sl_thread (wp_slots q j) \<noteq> sl_thread (wp_slots q i)"
    "wp_request_event q \<noteq> 0" "wp_tls_index q \<noteq> TLS_OUT_OF_INDEXES" "wp_tick_timer q \<noteq> wp_request_event q"
  using assms unfolding handles_ok_def by blast+

lemma open_handles:
  assumes "port_ok vw n base active p q"
  shows "i < n \<Longrightarrow> sl_thread (wp_slots q i) \<in> v_handles (vw (wp_os q))"
    "i < n \<Longrightarrow> sl_gate (wp_slots q i) \<in> v_handles (vw (wp_os q))"
    "wp_request_event q \<in> v_handles (vw (wp_os q))" "wp_tick_timer q \<in> v_handles (vw (wp_os q))"
    "wp_tls_index q \<in> v_tls_indexes (vw (wp_os q))"
  using port_handles_ok [OF assms] port_held [OF assms]
  by (auto simp: held_def port_handles_def handles_ok_def)

text \<open>\<open>kept\<close>: the port and the process hold the same objects.\<close>

definition kept :: "('w \<Rightarrow> win32_view) \<Rightarrow> 'w win32_port \<Rightarrow> 'w win32_port \<Rightarrow> bool" where
  "kept vw q q' \<longleftrightarrow> (\<forall>i. sl_thread (wp_slots q' i) = sl_thread (wp_slots q i) \<and> sl_gate (wp_slots q' i) = sl_gate (wp_slots q i)) \<and>
     wp_request_event q' = wp_request_event q \<and> wp_tick_timer q' = wp_tick_timer q \<and> wp_tls_index q' = wp_tls_index q \<and>
     holdings (vw (wp_os q')) = holdings (vw (wp_os q))"

lemma kept_refl [simp]: "kept vw q q"
  by (simp add: kept_def)

lemma kept_trans: "kept vw q r \<Longrightarrow> kept vw r t \<Longrightarrow> kept vw q t"
  by (simp add: kept_def)

lemma kept_held: "kept vw q q' \<Longrightarrow> held (vw (wp_os q')) n q' = held (vw (wp_os q)) n q"
  by (simp add: kept_def held_def port_handles_def holdings_def)

text \<open>Only what \<open>worker_ok\<close> looks at matters.\<close>

lemma worker_ok_cong:
  assumes "v_suspends V' (sl_thread S) = v_suspends V (sl_thread S)" "v_signalled V' (sl_gate S) = v_signalled V (sl_gate S)"
    "v_tls V' (sl_thread S) = v_tls V (sl_thread S)"
  shows "worker_ok V' index i base active S at = worker_ok V index i base active S at"
  using assms unfolding worker_ok_def by (cases at) (simp_all split: option.split)

text \<open>A step of worker \<open>i\<close>, seen from the port: it changes its own slot and the outside world.\<close>

lemma port_ok_worker:
  assumes ok: "port_ok vw n base active p q" and i: "i < n"
    and slot: "sl_task S = sl_task (wp_slots q i)" "sl_thread S = sl_thread (wp_slots q i)"
      "sl_gate S = sl_gate (wp_slots q i)" "wp_slots q' = (wp_slots q)(i := S)"
    and same: "wp_request_event q' = wp_request_event q" "wp_tick_timer q' = wp_tick_timer q"
      "wp_tls_index q' = wp_tls_index q" "wp_switch_pended q' = wp_switch_pended q"
    and others: "\<And>j. j < n \<Longrightarrow> j \<noteq> i \<Longrightarrow>
        v_suspends (vw (wp_os q')) (sl_thread (wp_slots q j)) = v_suspends (vw (wp_os q)) (sl_thread (wp_slots q j)) \<and>
        v_signalled (vw (wp_os q')) (sl_gate (wp_slots q j)) = v_signalled (vw (wp_os q)) (sl_gate (wp_slots q j)) \<and>
        v_tls (vw (wp_os q')) (sl_thread (wp_slots q j)) = v_tls (vw (wp_os q)) (sl_thread (wp_slots q j))"
    and worker: "worker_ok (vw (wp_os q')) (wp_tls_index q) i (base i) (active = Some i) S at"
    and event: "v_signalled (vw (wp_os q')) (wp_request_event q) \<longleftrightarrow>
        (if active = Some i then sl_request S \<noteq> None \<and> submitted at
         else v_signalled (vw (wp_os q)) (wp_request_event q))"
    and hold: "holdings (vw (wp_os q')) = holdings (vw (wp_os q))"
  shows "port_ok vw n base active (p(i := at)) q'"
proof -
  have "sl_task (wp_slots q' j) = sl_task (wp_slots q j)" "sl_thread (wp_slots q' j) = sl_thread (wp_slots q j)"
    "sl_gate (wp_slots q' j) = sl_gate (wp_slots q j)" for j
    by (simp_all add: slot)
  then have "handles_ok q' n" "held (vw (wp_os q')) n q'"
    using port_handles_ok [OF ok] port_held [OF ok] kept_held [of vw q q' n] same hold
    unfolding handles_ok_def kept_def by simp_all
  moreover have "worker_ok (vw (wp_os q')) (wp_tls_index q') j (base j) (active = Some j) (wp_slots q' j) ((p(i := at)) j)"
    if "j < n" for j
  proof (cases "j = i")
    case True
    then show ?thesis using worker by (simp add: slot(4) same(3))
  next
    case False
    then show ?thesis
      using port_worker [OF ok that] worker_ok_cong [of "vw (wp_os q')" "wp_slots q j" "vw (wp_os q)"] others [OF that False]
      by (simp add: slot(4) same(3))
  qed
  moreover have "v_signalled (vw (wp_os q')) (wp_request_event q') \<longleftrightarrow>
      (\<exists>j < n. active = Some j \<and> sl_request (wp_slots q' j) \<noteq> None \<and> submitted ((p(i := at)) j))"
  proof (cases "active = Some i")
    case True
    then show ?thesis using event i by (simp add: slot(4) same(1))
  next
    case False
    have "(\<exists>j < n. active = Some j \<and> sl_request (wp_slots q j) \<noteq> None \<and> submitted (p j)) \<longleftrightarrow>
        (\<exists>j < n. active = Some j \<and> sl_request (wp_slots q' j) \<noteq> None \<and> submitted ((p(i := at)) j))"
      using False by (intro ex_cong1) (auto simp: slot(4))
    then show ?thesis using False event port_event [OF ok] by (simp add: same(1))
  qed
  ultimately show ?thesis using port_pended [OF ok] same(4) by (simp add: port_ok_def)
qed

text \<open>The port's state in front of the kernel.\<close>

lemma upd_port_sel [simp]:
  "k_port (upd_port f s) = f (k_port s)" "k_task_count (upd_port f s) = k_task_count s"
  "k_tasks (upd_port f s) = k_tasks s" "k_current (upd_port f s) = k_current s"
  "k_started (upd_port f s) = k_started s" "k_tick (upd_port f s) = k_tick s"
  by (simp_all add: upd_port_def)

lemma upd_slot_sel [simp]:
  "k_port (upd_slot i g s) = (k_port s)\<lparr>wp_slots := (wp_slots (k_port s))(i := g (wp_slots (k_port s) i))\<rparr>"
  "k_task_count (upd_slot i g s) = k_task_count s" "k_tasks (upd_slot i g s) = k_tasks s"
  "k_current (upd_slot i g s) = k_current s" "k_started (upd_slot i g s) = k_started s" "k_tick (upd_slot i g s) = k_tick s"
  by (simp_all add: upd_slot_def)

lemma orderly_upd_port [simp]: "orderly s \<Longrightarrow> orderly (upd_port f s)" "orderly s \<Longrightarrow> orderly (upd_slot i g s)"
  by (simp_all add: upd_port_def upd_slot_def)

lemma orderly_memory [simp]: "orderly s \<Longrightarrow> orderly (s\<lparr>k_memory := m\<rparr>)"
  by (auto elim!: orderlyE intro!: orderlyI)

lemma call_api_sel:
  "call_api f s = (fst (f (wp_os (k_port s))), upd_port (\<lambda>q. q\<lparr>wp_os := snd (f (wp_os (k_port s)))\<rparr>) s)"
  by (simp add: call_api_def split: prod.split)

lemma win32_ok_iff:
  "win32_ok vw (p, s) \<longleftrightarrow> orderly s \<and> (wp_running (k_port s) \<longrightarrow> \<not> wp_failed (k_port s) \<and>
     port_ok vw (unat (k_task_count s)) (\<lambda>t. t_base_priority (k_tasks s t)) (k_current s) p (k_port s))"
  by (simp add: win32_ok_def)

text \<open>Every step of a worker keeps the invariant.\<close>

lemma win32_worker:
  assumes ok: "win32_ok vw (p, s)" and run: "can_run vw s i"
    and step: "sl_task S = sl_task (slot s i)" "sl_thread S = sl_thread (slot s i)"
      "sl_gate S = sl_gate (slot s i)"
      "k_port s' = (k_port s)\<lparr>wp_slots := (wp_slots (k_port s))(i := S), wp_critical_nesting := c, wp_os := w\<rparr>"
    and kernel: "orderly s'" "k_task_count s' = k_task_count s" "k_tasks s' = k_tasks s" "k_current s' = k_current s"
    and others: "\<And>j. j < unat (k_task_count s) \<Longrightarrow> j \<noteq> i \<Longrightarrow>
        v_suspends (vw w) (sl_thread (slot s j)) = v_suspends (vw (wp_os (k_port s))) (sl_thread (slot s j)) \<and>
        v_signalled (vw w) (sl_gate (slot s j)) = v_signalled (vw (wp_os (k_port s))) (sl_gate (slot s j)) \<and>
        v_tls (vw w) (sl_thread (slot s j)) = v_tls (vw (wp_os (k_port s))) (sl_thread (slot s j))"
    and worker: "worker_ok (vw (wp_os (k_port s))) (wp_tls_index (k_port s)) i (t_base_priority (k_tasks s i))
        (k_current s = Some i) (slot s i) (p i) \<Longrightarrow>
      worker_ok (vw w) (wp_tls_index (k_port s)) i (t_base_priority (k_tasks s i)) (k_current s = Some i) S at"
    and event: "v_signalled (vw w) (wp_request_event (k_port s)) \<longleftrightarrow>
        (if k_current s = Some i then sl_request S \<noteq> None \<and> submitted at
         else v_signalled (vw (wp_os (k_port s))) (wp_request_event (k_port s)))"
    and hold: "holdings (vw w) = holdings (vw (wp_os (k_port s)))"
  shows "win32_ok vw (p(i := at), s')"
proof -
  have i: "wp_running (k_port s)" "i < unat (k_task_count s)" using run by (simp_all add: can_run_def)
  have port: "port_ok vw (unat (k_task_count s)) (\<lambda>t. t_base_priority (k_tasks s t)) (k_current s) p (k_port s)"
    using ok i(1) by (simp add: win32_ok_iff)
  have "port_ok vw (unat (k_task_count s)) (\<lambda>t. t_base_priority (k_tasks s t)) (k_current s) (p(i := at)) (k_port s')"
    by (rule port_ok_worker [OF port i(2) step(1-3)])
      (use others worker [OF port_worker [OF port i(2)]] event hold in \<open>simp_all add: step(4)\<close>)
  then show ?thesis using ok kernel i(1) by (simp add: win32_ok_iff step(4))
qed

lemma own_slot:
  assumes ok: "win32_ok vw (p, s)" and run: "can_run vw s i"
  shows "worker_ok (vw (wp_os (k_port s))) (wp_tls_index (k_port s)) i (t_base_priority (k_tasks s i))
      (k_current s = Some i) (slot s i) (p i)"
    and "\<not> sl_suspended (slot s i)" and "handles_ok (k_port s) (unat (k_task_count s))" "i < unat (k_task_count s)"
    and "wp_running (k_port s)" "orderly s"
    and "port_ok vw (unat (k_task_count s)) (\<lambda>t. t_base_priority (k_tasks s t)) (k_current s) p (k_port s)"
proof -
  have i: "wp_running (k_port s)" "i < unat (k_task_count s)" "v_suspends (vw (wp_os (k_port s))) (sl_thread (slot s i)) = 0"
    using run by (simp_all add: can_run_def)
  have port: "port_ok vw (unat (k_task_count s)) (\<lambda>t. t_base_priority (k_tasks s t)) (k_current s) p (k_port s)" "orderly s"
    using ok i(1) by (simp_all add: win32_ok_iff)
  show "worker_ok (vw (wp_os (k_port s))) (wp_tls_index (k_port s)) i (t_base_priority (k_tasks s i))
      (k_current s = Some i) (slot s i) (p i)"
    by (rule port_worker [OF port(1) i(2)])
  then show "\<not> sl_suspended (slot s i)" using i(3) by (auto simp: worker_ok_def split: if_splits)
  show "handles_ok (k_port s) (unat (k_task_count s))" "i < unat (k_task_count s)" "wp_running (k_port s)" "orderly s"
    "port_ok vw (unat (k_task_count s)) (\<lambda>t. t_base_priority (k_tasks s t)) (k_current s) p (k_port s)"
    using port port_handles_ok i by simp_all
qed

lemma idle_event:
  assumes ok: "win32_ok vw (p, s)" and run: "can_run vw s i" and c: "k_current s = Some i" and n: "\<not> submitted (p i)"
  shows "\<not> v_signalled (vw (wp_os (k_port s))) (wp_request_event (k_port s))"
proof -
  have "port_ok vw (unat (k_task_count s)) (\<lambda>t. t_base_priority (k_tasks s t)) (k_current s) p (k_port s)"
    using ok own_slot(5) [OF ok run] by (simp add: win32_ok_iff)
  from port_event [OF this] c n show ?thesis by auto
qed

lemma entry_ok:
  assumes w: "windows api vw" and ok: "win32_ok vw (p, s)" and run: "can_run vw s i" and at: "p i = At_Entry"
    and "task_entry_begin api (sl_thread (slot s i)) i s = (b, s')"
  shows "win32_ok vw (p(i := if b then At_User else At_End), s')"
proof -
  note own = own_slot [OF ok run]
  let ?h = "sl_thread (slot s i)" and ?x = "wp_tls_index (k_port s)"
  define w' where "w' = snd (api_TlsSetValue api ?h ?x i (wp_os (k_port s)))"
  note x = open_handles(5) [OF own(7)]
  have b: b and s': "s' = upd_slot i (\<lambda>S. S\<lparr>sl_phase := OS_PORT_PHASE_USER\<rparr>) (upd_port (\<lambda>q. q\<lparr>wp_os := w'\<rparr>) s)"
    using assms(5) tls_set(1) [OF w x] by (auto simp: task_entry_begin_def call_api_sel Let_def w'_def)
  have V: "vw w' = (vw (wp_os (k_port s)))\<lparr>v_tls := (v_tls (vw (wp_os (k_port s))))
      (?h := (v_tls (vw (wp_os (k_port s))) ?h)(?x := Some i))\<rparr>"
    unfolding w'_def by (rule tls_set(2) [OF w x])
  have "win32_ok vw (p(i := At_User), s')"
  proof (rule win32_worker [OF ok run, where S = "(slot s i)\<lparr>sl_phase := OS_PORT_PHASE_USER\<rparr>"
        and c = "wp_critical_nesting (k_port s)" and w = w'])
    show "worker_ok (vw w') ?x i (t_base_priority (k_tasks s i)) (k_current s = Some i)
        ((slot s i)\<lparr>sl_phase := OS_PORT_PHASE_USER\<rparr>) At_User"
      using own(1) by (simp add: worker_ok_def at V)
    show "v_signalled (vw w') (wp_request_event (k_port s)) = (if k_current s = Some i
        then sl_request ((slot s i)\<lparr>sl_phase := OS_PORT_PHASE_USER\<rparr>) \<noteq> None \<and> submitted At_User
        else v_signalled (vw (wp_os (k_port s))) (wp_request_event (k_port s)))"
      using idle_event [OF ok run] at by (simp add: V)
  qed (use own handlesD(7) [OF own(3,4)] in \<open>simp_all add: s' V\<close>)
  then show ?thesis using b by simp
qed

lemma request_step_ok:
  assumes w: "windows api vw" and ok: "win32_ok vw (p, s)" and run: "can_run vw s i" and at: "p i = At_User"
    and "request_slot api (sl_thread (slot s i)) s = Some j" "request_fits req obj (t_base_priority (k_tasks s i))"
  shows "win32_ok vw (p(i := At_Fill j req ticks obj buf), s)"
proof -
  note own = own_slot [OF ok run]
  have j: "j = i"
    using assms(5) own(1) at tls_get [OF w open_handles(5) [OF own(7)]]
    by (auto simp: request_slot_def worker_ok_def split: if_splits)
  show ?thesis
    by (rule win32_worker [OF ok run, where S = "slot s i" and c = "wp_critical_nesting (k_port s)" and w = "wp_os (k_port s)"])
      (use own idle_event [OF ok run] at j assms(6) in \<open>simp_all add: worker_ok_def\<close>)
qed

lemma fill_ok:
  assumes ok: "win32_ok vw (p, s)" and run: "can_run vw s i" and at: "p i = At_Fill j req ticks obj buf"
  shows "win32_ok vw (p(i := At_Post j req), mailbox_fill j ticks obj buf s)"
proof -
  note own = own_slot [OF ok run]
  have j: "j = i" using own(1) at by (simp add: worker_ok_def)
  show ?thesis
    by (rule win32_worker [OF ok run, where S = "(slot s i)\<lparr>sl_response := OS_STATUS_BAD_STATE, sl_request_object := obj,
           sl_request_buffer := buf, sl_request_ticks := ticks\<rparr>" and c = "wp_critical_nesting (k_port s) + 1"
           and w = "wp_os (k_port s)"])
      (use own idle_event [OF ok run] at j in
        \<open>simp_all add: worker_ok_def mailbox_fill_def Let_def os_port_enter_critical_win32_def\<close>)
qed

lemma post_ok:
  assumes ok: "win32_ok vw (p, s)" and run: "can_run vw s i" and at: "p i = At_Post j req"
  shows "win32_ok vw (p(i := At_Phase j req), mailbox_post j req s)"
proof -
  note own = own_slot [OF ok run]
  have j: "j = i" using own(1) at by (simp add: worker_ok_def)
  show ?thesis
    by (rule win32_worker [OF ok run, where S = "(slot s i)\<lparr>sl_request := Some req\<rparr>"
          and c = "wp_critical_nesting (k_port s)" and w = "wp_os (k_port s)"])
      (use own idle_event [OF ok run] at j in \<open>simp_all add: worker_ok_def mailbox_post_def\<close>)
qed

lemma exit_critical_nesting:
  "\<exists>c. os_port_exit_critical_win32 q = q\<lparr>wp_critical_nesting := c\<rparr>"
  by (auto simp: os_port_exit_critical_win32_def Let_def)

lemma phase_ok:
  assumes ok: "win32_ok vw (p, s)" and run: "can_run vw s i" and at: "p i = At_Phase j req"
  shows "win32_ok vw (p(i := At_Signal j req), mailbox_phase j s)"
proof -
  note own = own_slot [OF ok run]
  have j: "j = i" using own(1) at by (simp add: worker_ok_def)
  obtain c where c: "os_port_exit_critical_win32 (k_port (upd_slot i (\<lambda>S. S\<lparr>sl_phase := OS_PORT_PHASE_REQUEST\<rparr>) s)) =
      (k_port (upd_slot i (\<lambda>S. S\<lparr>sl_phase := OS_PORT_PHASE_REQUEST\<rparr>) s))\<lparr>wp_critical_nesting := c\<rparr>"
    using exit_critical_nesting by blast
  show ?thesis
    by (rule win32_worker [OF ok run, where S = "(slot s i)\<lparr>sl_phase := OS_PORT_PHASE_REQUEST\<rparr>" and c = c
          and w = "wp_os (k_port s)"])
      (use own idle_event [OF ok run] at j c in \<open>simp_all add: worker_ok_def mailbox_phase_def\<close>)
qed

lemma signal_ok:
  assumes w: "windows api vw" and ok: "win32_ok vw (p, s)" and run: "can_run vw s i" and at: "p i = At_Signal j req"
    and "mailbox_signal api s = (b, s')"
  shows "win32_ok vw (p(i := if req = OS_PORT_REQ_EXIT then At_Exit else if b then At_Gate j else At_User), s')"
proof -
  note own = own_slot [OF ok run]
  have j: "j = i" and c: "k_current s = Some i" using own(1) at by (simp_all add: worker_ok_def)
  let ?e = "wp_request_event (k_port s)"
  define w' where "w' = snd (api_SetEvent api ?e (wp_os (k_port s)))"
  note e = open_handles(3) [OF own(7)]
  have b: b and s': "s' = upd_port (\<lambda>q. q\<lparr>wp_os := w'\<rparr>) s"
    using assms(5) set_event(1) [OF w e] by (auto simp: mailbox_signal_def call_api_sel w'_def)
  have V: "vw w' = signal ?e True (vw (wp_os (k_port s)))"
    unfolding w'_def by (rule set_event(2) [OF w e])
  show ?thesis
    by (rule win32_worker [OF ok run, where S = "slot s i" and c = "wp_critical_nesting (k_port s)" and w = w'])
      (use own at j c b handlesD(4) [OF own(3)] in \<open>simp_all add: worker_ok_def s' V\<close>)
qed

lemma gate_ok:
  assumes w: "windows api vw" and ok: "win32_ok vw (p, s)" and run: "can_run vw s i" and at: "p i = At_Gate j"
    and "api_WaitForSingleObject api (sl_gate (slot s j)) (wp_os (k_port s)) = Some (r, w')"
  shows "win32_ok vw (p(i := if r = WAIT_OBJECT_0 then At_Resume j else At_User),
       (if r = WAIT_OBJECT_0 then id else os_PortFail) (upd_port (\<lambda>q. q\<lparr>wp_os := w'\<rparr>) s))"
proof -
  note own = own_slot [OF ok run]
  have j: "j = i" using own(1) at by (simp add: worker_ok_def)
  have V: "v_signalled (vw (wp_os (k_port s))) (sl_gate (slot s i))" "r = 0"
    "vw w' = signal (sl_gate (slot s i)) False (vw (wp_os (k_port s)))"
    using wait_single(1) [OF w open_handles(2) [OF own(7,4)]] assms(5) j by simp_all
  then have c: "k_current s = Some i" "sl_request (slot s i) = None"
    using own(1) at by (auto simp: worker_ok_def split: option.splits)
  have "port_ok vw (unat (k_task_count s)) (\<lambda>t. t_base_priority (k_tasks s t)) (k_current s) p (k_port s)"
    using ok own(5) by (simp add: win32_ok_iff)
  from port_event [OF this] c have event: "\<not> v_signalled (vw (wp_os (k_port s))) (wp_request_event (k_port s))" by auto
  have "win32_ok vw (p(i := At_Resume j), upd_port (\<lambda>q. q\<lparr>wp_os := w'\<rparr>) s)"
    by (rule win32_worker [OF ok run, where S = "slot s i" and c = "wp_critical_nesting (k_port s)" and w = w'])
      (use own at j c V event handlesD(4,6) [OF own(3,4)] in \<open>simp_all add: worker_ok_def\<close>)
  then show ?thesis using V(2) by simp
qed

lemma resume_ok:
  assumes ok: "win32_ok vw (p, s)" and run: "can_run vw s i" and at: "p i = At_Resume j"
  shows "win32_ok vw (p(i := At_User), snd (request_return j s))"
proof -
  note own = own_slot [OF ok run]
  have j: "j = i" using own(1) at by (simp add: worker_ok_def)
  show ?thesis
    by (rule win32_worker [OF ok run, where S = "(slot s i)\<lparr>sl_phase := OS_PORT_PHASE_USER\<rparr>"
          and c = "wp_critical_nesting (k_port s)" and w = "wp_os (k_port s)"])
      (use own idle_event [OF ok run] at j in \<open>simp_all add: worker_ok_def request_return_def Let_def\<close>)
qed

lemma exit_ok:
  assumes ok: "win32_ok vw (p, s)" and run: "can_run vw s i" and at: "p i = At_Exit"
  shows "win32_ok vw (p(i := At_End), task_entry_end i s)"
proof -
  note own = own_slot [OF ok run]
  have "port_ok vw (unat (k_task_count s)) (\<lambda>t. t_base_priority (k_tasks s t)) (k_current s) p (k_port s)"
    using ok own(5) by (simp add: win32_ok_iff)
  from port_event [OF this] have event: "k_current s = Some i \<Longrightarrow>
      v_signalled (vw (wp_os (k_port s))) (wp_request_event (k_port s)) \<longleftrightarrow> sl_request (slot s i) \<noteq> None"
    using at own(4) by auto
  show ?thesis
    by (rule win32_worker [OF ok run, where S = "(slot s i)\<lparr>sl_phase := OS_PORT_PHASE_EXITED\<rparr>"
          and c = "wp_critical_nesting (k_port s)" and w = "wp_os (k_port s)"])
      (use own at event in \<open>auto simp: worker_ok_def task_entry_end_def\<close>)
qed

lemma compute_ok:
  assumes "win32_ok vw (p, s)"
  shows "win32_ok vw (p, s\<lparr>k_memory := m\<rparr>)"
  using assms by (simp add: win32_ok_iff)

text \<open>The state of the timer is not part of the invariant.\<close>

lemma port_ok_timer:
  assumes port: "port_ok vw n base active p q" and V: "vw w = signal (wp_tick_timer q) b (vw (wp_os q))"
  shows "port_ok vw n base active p (q\<lparr>wp_os := w\<rparr>)"
proof -
  note h = port_handles_ok [OF port]
  have "worker_ok (vw w) (wp_tls_index q) i (base i) (active = Some i) (wp_slots q i) (p i)" if "i < n" for i
    using port_worker [OF port that] worker_ok_cong [of "vw w" "wp_slots q i" "vw (wp_os q)"] handlesD(5) [OF h that]
    by (simp add: V)
  moreover have "handles_ok (q\<lparr>wp_os := w\<rparr>) n" using h by (simp add: handles_ok_def)
  moreover have "held (vw w) n (q\<lparr>wp_os := w\<rparr>)"
    using port_held [OF port] kept_held [of vw q "q\<lparr>wp_os := w\<rparr>" n] by (simp add: kept_def V)
  moreover have "wp_tick_timer q \<noteq> wp_request_event q" using h by (simp add: handles_ok_def)
  ultimately show ?thesis using port by (simp add: port_ok_def V)
qed

lemma timer_ok:
  assumes ok: "win32_ok vw (p, s)" and run: "wp_running (k_port s)"
    and V: "vw w = signal (wp_tick_timer (k_port s)) True (vw (wp_os (k_port s)))"
  shows "win32_ok vw (p, upd_port (\<lambda>q. q\<lparr>wp_os := w\<rparr>) s)"
  using ok run port_ok_timer [OF _ V] by (simp add: win32_ok_iff)

end
