(* ===== verification/Win32_Control.thy ===== *)
theory Win32_Control
  imports Win32_System
begin

section \<open>The control thread of the Windows port\<close>

text \<open>
  One round of the control loop keeps the invariant: it hands the processor to the task that
  the kernel has chosen. It comes to a failure exit in one case only, when it serves a request while a
  worker with a lower number stands between the stores of its request code and its phase. The kernel
  operations leave the port alone (\<open>frame\<close>), so the port only has to keep its own bookkeeping.
\<close>

subsection \<open>Handing over the processor\<close>

lemma worker_resume:
  assumes "worker_ok V index i base False S at" "sl_suspended S"
  shows "worker_ok (suspend_count (sl_thread S) 0 V) index i base True
    (S\<lparr>sl_response := r, sl_suspended := False\<rparr>) at"
  using assms by (cases at) (auto simp: worker_ok_def split: option.splits)

lemma worker_open_gate:
  assumes "worker_ok V index i base False S at" "\<not> sl_suspended S"
  shows "worker_ok (signal (sl_gate S) True V) index i base True (S\<lparr>sl_response := r\<rparr>) at"
  using assms by (cases at) (auto simp: worker_ok_def split: option.splits)

lemma worker_suspend:
  assumes "worker_ok V index i base True S at" "sl_phase S = OS_PORT_PHASE_USER"
  shows "\<not> sl_suspended S" and "worker_ok (suspend_count (sl_thread S) 1 V) index i base False (S\<lparr>sl_suspended := True\<rparr>) at"
  using assms by (cases at; auto simp: worker_ok_def split: option.splits)+

lemma worker_serve:
  assumes "worker_ok V index i base True S at" "sl_request S = Some req" "submitted at"
  shows "request_fits req (sl_request_object S) base"
    and "worker_ok V index i base False (S\<lparr>sl_request := None, sl_request_object := None, sl_request_buffer := 0\<rparr>) at"
  using assms by (cases at; auto simp: worker_ok_def split: option.splits)+

text \<open>A change of slot \<open>i\<close> by the control thread, when no worker is active before or after.\<close>

lemma port_ok_control:
  assumes ok: "port_ok vw n base active p q" and i: "i < n"
    and only: "active = None \<or> active = Some i" "active' = None \<or> active' = Some i"
    and slot: "sl_task S = sl_task (wp_slots q i)" "sl_thread S = sl_thread (wp_slots q i)"
      "sl_gate S = sl_gate (wp_slots q i)"
    and others: "\<And>j. j < n \<Longrightarrow> j \<noteq> i \<Longrightarrow>
        v_suspends (vw w) (sl_thread (wp_slots q j)) = v_suspends (vw (wp_os q)) (sl_thread (wp_slots q j)) \<and>
        v_signalled (vw w) (sl_gate (wp_slots q j)) = v_signalled (vw (wp_os q)) (sl_gate (wp_slots q j)) \<and>
        v_tls (vw w) (sl_thread (wp_slots q j)) = v_tls (vw (wp_os q)) (sl_thread (wp_slots q j))"
    and worker: "worker_ok (vw w) (wp_tls_index q) i (base i) (active' = Some i) S (p i)"
    and event: "\<not> v_signalled (vw w) (wp_request_event q)" "active' = None \<or> sl_request S = None \<or> \<not> submitted (p i)"
    and hold: "holdings (vw w) = holdings (vw (wp_os q))"
  shows "port_ok vw n base active' p (q\<lparr>wp_slots := (wp_slots q)(i := S), wp_os := w\<rparr>)"
proof -
  let ?q = "q\<lparr>wp_slots := (wp_slots q)(i := S), wp_os := w\<rparr>"
  have "handles_ok ?q n" using port_handles_ok [OF ok] slot by (simp add: handles_ok_def)
  moreover have "held (vw w) n ?q"
    using port_held [OF ok] kept_held [of vw q ?q n] slot hold by (simp add: kept_def)
  moreover have "worker_ok (vw w) (wp_tls_index q) j (base j) (active' = Some j) (wp_slots ?q j) (p j)"
    if "j < n" for j
  proof (cases "j = i")
    case False
    then have "(active' = Some j) = (active = Some j)" using only by auto
    with False show ?thesis
      using port_worker [OF ok that] worker_ok_cong [of "vw w" "wp_slots q j" "vw (wp_os q)"] others [OF that False]
      by simp
  qed (use worker in simp)
  moreover have "\<not> (\<exists>j < n. active' = Some j \<and> sl_request (wp_slots ?q j) \<noteq> None \<and> submitted (p j))"
    using event(2) only(2) by auto
  ultimately show ?thesis using port_pended [OF ok] event(1) by (simp add: port_ok_def)
qed

lemma own_id:
  assumes "orderly s" "k_current s = Some c"
  shows "unat (t_id (k_tasks s c)) = c" "c < unat (k_task_count s)" "c < OS_MAX_TASKS"
proof -
  obtain h a where s: "s = conc h a" "list_rep h (k_heap a)" "strict a" using assms(1) by (rule orderlyE)
  note ok = strict_ok [OF s(3)]
  have "k_current a = Some c" using assms(2) s(1) by simp
  from kernel_ok_current [OF ok this] have run: "t_state (k_tasks a c) = OS_TASK_RUNNING" by simp
  have base: "base_ok a c" using ok by (auto simp: kernel_ok_def intro: kinv_base)
  show "c < unat (k_task_count s)" using base run s(1) by (simp add: base_ok_def)
  have "unat (k_task_count a) \<le> 8" using ok by (auto simp: kernel_ok_def intro: kinv_count)
  then show "c < OS_MAX_TASKS" using base run by (simp add: base_ok_def)
  then show "unat (t_id (k_tasks s c)) = c" using base s(1) by (simp add: base_ok_def)
qed

lemma slot_of_current:
  assumes "orderly s"
  shows "os_PortSlotForTask (k_current s) s = k_current s"
  using own_id [OF assms] by (auto simp: os_PortSlotForTask_def split: option.split)

lemma Activate_ok:
  assumes w: "windows api vw" and "orderly s"
    and ok: "port_ok vw (unat (k_task_count s)) base None p (k_port s)"
  shows "\<exists>q. os_PortActivate api (k_current s) s = (True, s\<lparr>k_port := q\<rparr>) \<and>
    port_ok vw (unat (k_task_count s)) base (k_current s) p q \<and> wp_failed q = wp_failed (k_port s) \<and>
    wp_pending_ticks q = wp_pending_ticks (k_port s) \<and> wp_running q = wp_running (k_port s) \<and>
    (\<forall>j. sl_request (wp_slots q j) = sl_request (slot s j)) \<and> kept vw (k_port s) q"
proof (cases "k_current s")
  case None
  then show ?thesis using ok by (auto intro!: exI [of _ "k_port s"] simp: os_PortActivate_def)
next
  case (Some c)
  note id = own_id [OF assms(2) Some]
  let ?S = "slot s c" and ?r = "t_wait_result (k_tasks s c)"
  note h = handlesD [OF port_handles_ok [OF ok] id(2)]
  note opened = open_handles(1,2) [OF ok id(2)]
  have worker: "worker_ok (vw (wp_os (k_port s))) (wp_tls_index (k_port s)) c (base c) False ?S (p c)"
    using port_worker [OF ok id(2)] by simp
  have quiet: "\<not> v_signalled (vw (wp_os (k_port s))) (wp_request_event (k_port s))"
    using port_event [OF ok] by simp
  have slot: "os_PortSlotForTask (Some c) s = Some c" using slot_of_current [OF assms(2)] Some by simp
  have empty: "sl_request ?S = None \<or> \<not> submitted (p c)" using worker by (cases "p c") (auto simp: worker_ok_def split: option.splits)
  show ?thesis
  proof (cases "sl_suspended ?S")
    case True
    let ?w = "snd (api_ResumeThread api (sl_thread ?S) (wp_os (k_port s)))"
    have V: "vw ?w = suspend_count (sl_thread ?S) 0 (vw (wp_os (k_port s)))"
      "fst (api_ResumeThread api (sl_thread ?S) (wp_os (k_port s))) = 1"
      using resume_thread [OF w opened(1)] worker True by (simp_all add: worker_ok_def)
    let ?T = "?S\<lparr>sl_response := ?r, sl_suspended := False\<rparr>"
    have "port_ok vw (unat (k_task_count s)) base (Some c) p
        ((k_port s)\<lparr>wp_slots := (wp_slots (k_port s))(c := ?T), wp_os := ?w\<rparr>)"
      by (rule port_ok_control [OF ok id(2)])
        (use worker_resume [OF worker True, of ?r] quiet empty h(7) in \<open>simp_all add: V\<close>)
    then show ?thesis
      using h(2) True Some V
      by (auto simp: os_PortActivate_def slot call_api_sel Let_def upd_slot_def upd_port_def kept_def
          intro!: exI [of _ "(k_port s)\<lparr>wp_slots := (wp_slots (k_port s))(c := ?T), wp_os := ?w\<rparr>"])
  next
    case False
    let ?w = "snd (api_SetEvent api (sl_gate ?S) (wp_os (k_port s)))"
    note V = set_event [OF w opened(2)]
    let ?T = "?S\<lparr>sl_response := ?r\<rparr>"
    have "port_ok vw (unat (k_task_count s)) base (Some c) p
        ((k_port s)\<lparr>wp_slots := (wp_slots (k_port s))(c := ?T), wp_os := ?w\<rparr>)"
      by (rule port_ok_control [OF ok id(2)])
        (use worker_open_gate [OF worker False, of ?r] quiet empty h(4,6) in \<open>simp_all add: V(2)\<close>)
    then show ?thesis
      using h(2) False Some V
      by (auto simp: os_PortActivate_def slot call_api_sel Let_def upd_slot_def upd_port_def kept_def
          intro!: exI [of _ "(k_port s)\<lparr>wp_slots := (wp_slots (k_port s))(c := ?T), wp_os := ?w\<rparr>"])
  qed
qed

subsection \<open>Ticks\<close>

text \<open>
  What a tick does to the port: it may stop the scheduler and show the observer a snapshot.
\<close>

definition ticked :: "('w \<Rightarrow> win32_view) \<Rightarrow> 'w win32_port \<Rightarrow> 'w win32_port \<Rightarrow> bool" where
  "ticked vw q q' \<longleftrightarrow> wp_slots q' = wp_slots q \<and> wp_request_event q' = wp_request_event q \<and>
     wp_tick_timer q' = wp_tick_timer q \<and> wp_tls_index q' = wp_tls_index q \<and> wp_failed q' = wp_failed q \<and>
     wp_pending_ticks q' = wp_pending_ticks q \<and> wp_switch_pended q' = wp_switch_pended q \<and>
     vw (wp_os q') = vw (wp_os q) \<and> (wp_running q' \<longrightarrow> wp_running q)"

lemma ticked_refl [simp]: "ticked vw q q"
  by (simp add: ticked_def)

lemma ticked_port_ok: "ticked vw q q' \<Longrightarrow> port_ok vw n base active p q' = port_ok vw n base active p q"
  by (simp add: ticked_def port_ok_def handles_ok_def held_def port_handles_def)

lemma ticked_kept: "ticked vw q q' \<Longrightarrow> kept vw q q'"
  by (simp add: ticked_def kept_def)

lemma observe_ticked:
  assumes "windows api vw"
  shows "\<exists>q. os_PortObserveTick api s = s\<lparr>k_port := q\<rparr> \<and> ticked vw (k_port s) q"
proof -
  have "os_PortObserveTick api s = s\<lparr>k_port := k_port (os_PortObserveTick api s)\<rparr>"
    by (simp add: os_PortObserveTick_def Let_def upd_port_def)
  moreover have "ticked vw (k_port s) (k_port (os_PortObserveTick api s))"
    by (simp add: os_PortObserveTick_def Let_def ticked_def observer_view [OF assms])
  ultimately show ?thesis by blast
qed

text \<open>What of the kernel a port relies on.\<close>

abbreviation bases :: "('h, 'p) os_kernel_t \<Rightarrow> nat \<Rightarrow> u8" where
  "bases s \<equiv> \<lambda>t. t_base_priority (k_tasks s t)"

lemma ApplyTick_ok:
  assumes "windows api vw" "orderly s"
  shows "returns (os_PortApplyTick api s) (\<lambda>(b, s'). orderly s' \<and> ticked vw (k_port s) (k_port s') \<and>
    b = wp_running (k_port s') \<and> k_task_count s' = k_task_count s \<and> bases s' = bases s \<and>
    k_started s' = k_started s \<and> k_tick s' = k_tick s + 1)"
proof -
  obtain n t where t: "os_TimeTick s = Some (n, t)" "orderly t" "frame t = next_frame (frame s)"
    using returnsD [OF TimeTick_framed [OF assms(2)]] by auto
  have same: "k_port t = k_port s" "k_task_count t = k_task_count s" "bases t = bases s" "k_started t = k_started s"
    "k_tick t = k_tick s + 1"
    using t(3) by (simp_all add: frame_def next_frame_def)
  obtain q where q: "os_PortObserveTick api t = t\<lparr>k_port := q\<rparr>" "ticked vw (k_port t) q"
    using observe_ticked [OF assms(1)] by blast
  have "os_KernelValidate t" by (rule good_valid [OF orderly_good [OF t(2)]])
  then show ?thesis
    using t(1,2) q same by (simp add: os_PortApplyTick_def Let_def os_port_is_running_win32_def)
qed

text \<open>All ticks that were put off are made up for, unless the scheduler stops first.\<close>

lemma PendingTicks_ok:
  assumes w: "windows api vw" and "orderly s"
  shows "returns (os_PortPendingTicks api s) (\<lambda>s'. orderly s' \<and>
    ticked vw (k_port s) ((k_port s')\<lparr>wp_pending_ticks := wp_pending_ticks (k_port s)\<rparr>) \<and>
    (wp_running (k_port s') \<longrightarrow> wp_pending_ticks (k_port s') = 0) \<and>
    k_task_count s' = k_task_count s \<and> bases s' = bases s \<and> k_started s' = k_started s \<and>
    k_tick s' + wp_pending_ticks (k_port s') = k_tick s + wp_pending_ticks (k_port s))"
  using assms(2)
proof (induction "unat (wp_pending_ticks (k_port s))" arbitrary: s)
  case 0
  then have "wp_pending_ticks (k_port s) = 0" by (metis unat_eq_zero)
  with 0 show ?case by (subst os_PortPendingTicks.simps) (simp add: ticked_def)
next
  case (Suc n)
  show ?case
  proof (cases "wp_running (k_port s)")
    case True
    let ?s = "upd_port (\<lambda>p. p\<lparr>wp_pending_ticks := wp_pending_ticks p - 1\<rparr>) s"
    have pos: "0 < wp_pending_ticks (k_port s)" using Suc.hyps(2) by (metis unat_gt_0 word_gt_0 zero_less_Suc)
    obtain b t where t: "os_PortApplyTick api ?s = Some (b, t)" "orderly t" "ticked vw (k_port ?s) (k_port t)"
      "k_task_count t = k_task_count s" "bases t = bases s" "k_started t = k_started s" "k_tick t = k_tick s + 1"
      using returnsD [OF ApplyTick_ok [OF w, of ?s]] Suc.prems by auto
    have pend: "wp_pending_ticks (k_port t) = wp_pending_ticks (k_port s) - 1" using t(3) by (auto simp: ticked_def)
    then have "n = unat (wp_pending_ticks (k_port t))"
      using Suc.hyps(2) pos by (simp add: unat_minus_one word_gt_0)
    from returnsD [OF Suc.hyps(1) [OF this t(2)]] obtain u where u: "os_PortPendingTicks api t = Some u" "orderly u"
      "ticked vw (k_port t) ((k_port u)\<lparr>wp_pending_ticks := wp_pending_ticks (k_port t)\<rparr>)"
      "wp_running (k_port u) \<longrightarrow> wp_pending_ticks (k_port u) = 0" "k_task_count u = k_task_count t" "bases u = bases t"
      "k_started u = k_started t" "k_tick u + wp_pending_ticks (k_port u) = k_tick t + wp_pending_ticks (k_port t)"
      by blast
    have "ticked vw (k_port s) ((k_port u)\<lparr>wp_pending_ticks := wp_pending_ticks (k_port s)\<rparr>)"
      using t(3) u(3) by (auto simp: ticked_def)
    moreover have "os_PortPendingTicks api s = Some u"
      using True pos t(1) u(1) by (subst os_PortPendingTicks.simps) (simp add: os_port_is_running_win32_def)
    ultimately show ?thesis using u t pend by simp
  next
    case False
    then show ?thesis
      using Suc.prems by (subst os_PortPendingTicks.simps) (simp add: os_port_is_running_win32_def)
  qed
qed

subsection \<open>Requests\<close>

lemma Switch_framed:
  assumes "orderly s" and "k_current s = Some c" "request_fits req obj (t_base_priority (k_tasks s c))"
  shows "returns (os_PortSwitch req ticks obj buf s) (\<lambda>s'. orderly s' \<and> frame s' = frame s)"
proof -
  have typed: "typed_request req obj s" using assms by (simp add: typed_request_fits)
  show ?thesis
  proof (cases "req = OS_PORT_REQ_YIELD")
    case True
    then show ?thesis by (auto intro!: returns_bind [OF SchedYieldCurrent_framed [OF assms(1)]])
  next
    case False
    then have "os_PortSwitch req ticks obj buf s = os_port_dispatch c req ticks obj buf s" by (cases req) simp_all
    then show ?thesis using dispatch_framed [OF assms(1) typed] by simp
  qed
qed

text \<open>
  The control thread finds the request of the current task, unless a worker with a lower number has
  been suspended between the stores of its request code and its phase.
\<close>

fun in_gap :: "worker_at \<Rightarrow> bool" where
  "in_gap (At_Phase j req) = True"
| "in_gap _ = False"

lemma find_requester:
  assumes workers: "\<And>j. j < unat (k_task_count s) \<Longrightarrow>
      worker_ok V index j (bases s j) (k_current s = Some j) (slot s j) (p j)"
    and i: "i < unat (k_task_count s)" "k_current s = Some i" "sl_request (slot s i) \<noteq> None"
  obtains (served) "os_PortFindRequester s = Some i" "\<not> (\<exists>k<i. in_gap (p k))"
    | (missed) k where "os_PortFindRequester s = Some k" "k < i" "in_gap (p k)"
proof -
  let ?P = "\<lambda>k. sl_request (slot s k) \<noteq> None"
  have posted: "?P k \<longleftrightarrow> in_gap (p k)" if "k < i" for k
    using workers [of k] that i(1,2) by (cases "p k") (auto simp: worker_ok_def split: option.splits)
  have "find ?P [0..<unat (k_task_count s)] \<noteq> None" using i(1,3) by (auto simp: find_None_iff)
  then obtain k where k: "os_PortFindRequester s = Some k" by (auto simp: os_PortFindRequester_def)
  then have "?P k" "\<forall>j<k. \<not> ?P j" "k < unat (k_task_count s)"
    by (auto simp: os_PortFindRequester_def find_Some_iff)
  moreover from this have "k \<le> i" using i(3) by (meson not_less)
  ultimately show thesis
    using k posted that by (cases "k = i") (auto simp: less_le_trans)
qed

lemma ProcessRequest_misses:
  assumes "os_PortFindRequester s = Some k" "sl_task (slot s k) \<noteq> k_current s"
  shows "\<exists>q. os_PortProcessRequest api s = Some (False, s\<lparr>k_port := q\<rparr>) \<and>
    wp_pending_ticks q = wp_pending_ticks (k_port s) \<and> kept vw (k_port s) q"
proof -
  have "sl_request (slot s k) \<noteq> None" using assms(1) by (auto simp: os_PortFindRequester_def find_Some_iff)
  then show ?thesis
    using assms by (auto simp: os_PortProcessRequest_def Let_def upd_slot_def upd_port_def kept_def)
qed

lemma ProcessRequest_ok:
  assumes w: "windows api vw" and ok: "orderly s" "wp_running (k_port s)" "\<not> wp_failed (k_port s)"
    and i: "k_current s = Some i" "sl_request (slot s i) = Some req" "submitted (p i)"
    and requester: "os_PortFindRequester s = Some i"
    and port: "handles_ok (k_port s) (unat (k_task_count s))" "\<not> wp_switch_pended (k_port s)"
      "\<not> v_signalled (vw (wp_os (k_port s))) (wp_request_event (k_port s))"
      "\<And>j. j < unat (k_task_count s) \<Longrightarrow> worker_ok (vw (wp_os (k_port s))) (wp_tls_index (k_port s)) j (bases s j)
        (k_current s = Some j) (slot s j) (p j)"
      "held (vw (wp_os (k_port s))) (unat (k_task_count s)) (k_port s)"
  shows "returns (os_PortProcessRequest api s) (\<lambda>(b, s'). b \<and> win32_ok vw (p, s') \<and> k_started s' = k_started s \<and>
    \<not> wp_failed (k_port s') \<and> kept vw (k_port s) (k_port s') \<and> k_task_count s' = k_task_count s \<and>
    sl_request (slot s' i) = None \<and>
    (wp_running (k_port s') \<longrightarrow> wp_pending_ticks (k_port s') = 0) \<and>
    k_tick s' + wp_pending_ticks (k_port s') = k_tick s + wp_pending_ticks (k_port s))"
proof -
  let ?n = "unat (k_task_count s)"
  note id = own_id [OF ok(1) i(1)]
  have serve: "request_fits req (sl_request_object (slot s i)) (bases s i)"
    "worker_ok (vw (wp_os (k_port s))) (wp_tls_index (k_port s)) i (bases s i) False
      ((slot s i)\<lparr>sl_request := None, sl_request_object := None, sl_request_buffer := 0\<rparr>) (p i)"
    using worker_serve [of _ _ _ _ "slot s i" "p i", OF _ i(2,3)] port(4) [OF id(2)] i(1) by simp_all
  define s1 where "s1 = upd_slot i (\<lambda>S. S\<lparr>sl_request := None, sl_request_object := None, sl_request_buffer := 0\<rparr>) s"
  have idle: "port_ok vw ?n (bases s) None p (k_port s1)"
  proof -
    have "handles_ok (k_port s1) ?n" using port(1) by (simp add: handles_ok_def s1_def)
    moreover have "held (vw (wp_os (k_port s1))) ?n (k_port s1)"
      using port(5) kept_held [of vw "k_port s" "k_port s1" ?n] by (simp add: kept_def s1_def)
    moreover have "worker_ok (vw (wp_os (k_port s))) (wp_tls_index (k_port s)) j (bases s j) False (slot s1 j) (p j)"
      if "j < ?n" for j
    proof (cases "j = i")
      case True
      then show ?thesis using serve(2) by (simp add: s1_def)
    next
      case False
      then have "k_current s \<noteq> Some j" using i(1) by simp
      then show ?thesis using port(4) [OF that] False by (simp add: s1_def)
    qed
    ultimately show ?thesis using port(2,3) by (simp add: port_ok_def s1_def)
  qed
  obtain t where t: "os_PortSwitch req (sl_request_ticks (slot s i)) (sl_request_object (slot s i))
      (sl_request_buffer (slot s i)) s1 = Some t" "orderly t" "frame t = frame s1"
    using returnsD [OF Switch_framed [of s1 i req "sl_request_object (slot s i)"]] ok(1) i(1) serve(1)
    by (auto simp: s1_def)
  have valid: "os_KernelValidate t" by (rule good_valid [OF orderly_good [OF t(2)]])
  have t_same: "k_port t = k_port s1" "k_task_count t = k_task_count s" "bases t = bases s" "k_started t = k_started s"
    "k_tick t = k_tick s"
    using t(3) by (simp_all add: frame_def s1_def)
  obtain u where u: "os_PortPendingTicks api t = Some u" "orderly u"
    "ticked vw (k_port t) ((k_port u)\<lparr>wp_pending_ticks := wp_pending_ticks (k_port t)\<rparr>)"
    "wp_running (k_port u) \<longrightarrow> wp_pending_ticks (k_port u) = 0" "k_task_count u = k_task_count t" "bases u = bases t"
    "k_started u = k_started t" "k_tick u + wp_pending_ticks (k_port u) = k_tick t + wp_pending_ticks (k_port t)"
    using returnsD [OF PendingTicks_ok [OF w t(2)]] by blast
  define v where "v = (if \<not> os_KernelHasLiveTasks u then upd_port (\<lambda>p. p\<lparr>wp_running := False\<rparr>) u else u)"
  have v: "orderly v" "k_task_count v = k_task_count s" "bases v = bases s" "k_started v = k_started s" "k_tick v = k_tick u"
    "wp_pending_ticks (k_port v) = wp_pending_ticks (k_port u)" "wp_failed (k_port v) = wp_failed (k_port s)"
    "wp_running (k_port v) \<longrightarrow> wp_pending_ticks (k_port v) = 0" "sl_request (slot v i) = None"
    "kept vw (k_port s) (k_port v)"
    using u t_same by (auto simp: v_def ticked_def s1_def kept_def)
  have "port_ok vw ?n (bases s) None p (k_port u)"
  proof -
    have "port_ok vw ?n (bases s) None p ((k_port u)\<lparr>wp_pending_ticks := wp_pending_ticks (k_port t)\<rparr>)"
      using idle ticked_port_ok [OF u(3)] by (simp add: t_same)
    then show ?thesis by (simp add: port_ok_def handles_ok_def held_def)
  qed
  then have port_v: "port_ok vw (unat (k_task_count v)) (bases v) None p (k_port v)"
    by (simp add: v(2,3)) (simp add: v_def port_ok_def handles_ok_def held_def)
  have run: "os_PortProcessRequest api s =
      Some (if wp_running (k_port v) then os_PortActivate api (k_current v) v else (True, v))"
    using requester i(1,2) t(1) [unfolded s1_def] valid u(1) handlesD(1) [OF port(1) id(2)]
    by (simp add: os_PortProcessRequest_def os_port_is_running_win32_def v_def Let_def)
  obtain q where q: "os_PortActivate api (k_current v) v = (True, v\<lparr>k_port := q\<rparr>)"
    "port_ok vw (unat (k_task_count v)) (bases v) (k_current v) p q" "wp_failed q = wp_failed (k_port v)"
    "wp_pending_ticks q = wp_pending_ticks (k_port v)" "sl_request (wp_slots q i) = sl_request (slot v i)"
    "kept vw (k_port v) q"
    using Activate_ok [OF w v(1) port_v] by blast
  show ?thesis
    using run q v u(8) t_same ok(2,3) kept_trans [OF v(10) q(6)] by (auto simp: win32_ok_iff s1_def)
qed

subsection \<open>The timer\<close>

lemma ProcessTimer_ok:
  assumes w: "windows api vw" and ok: "orderly s" "wp_running (k_port s)" "\<not> wp_failed (k_port s)"
    and port: "port_ok vw (unat (k_task_count s)) (bases s) (k_current s) p (k_port s)"
    and event: "\<not> v_signalled (vw (wp_os (k_port s))) (wp_request_event (k_port s))"
  shows "returns (os_PortProcessTimer api s) (\<lambda>(b, s'). b \<and> win32_ok vw (p, s') \<and> k_started s' = k_started s \<and>
    \<not> wp_failed (k_port s') \<and> kept vw (k_port s) (k_port s') \<and> k_task_count s' = k_task_count s \<and>
    k_tick s' + wp_pending_ticks (k_port s') = k_tick s + wp_pending_ticks (k_port s) + 1)"
proof -
  let ?n = "unat (k_task_count s)"
  note slot = slot_of_current [OF ok(1)]
  show ?thesis
  proof (cases "\<exists>c. k_current s = Some c \<and> sl_phase (slot s c) \<noteq> OS_PORT_PHASE_USER")
    case True
    have "port_ok vw ?n (bases s) (k_current s) p ((k_port s)\<lparr>wp_pending_ticks := wp_pending_ticks (k_port s) + 1\<rparr>)"
      using port by (simp add: port_ok_def handles_ok_def held_def)
    then show ?thesis
      using True ok slot by (auto simp: os_PortProcessTimer_def Let_def win32_ok_iff kept_def)
  next
    case user: False
    obtain s1 where s1: "(if k_current s \<noteq> None then os_PortSuspendCurrent api s else (True, s)) = (True, s1)"
      "\<exists>q. s1 = s\<lparr>k_port := q\<rparr> \<and> wp_failed q = wp_failed (k_port s) \<and> wp_pending_ticks q = wp_pending_ticks (k_port s) \<and>
        wp_running q \<and> kept vw (k_port s) q" "port_ok vw ?n (bases s) None p (k_port s1)"
    proof (cases "k_current s")
      case None
      show thesis by (rule that [of s]) (use None port ok(2) in \<open>auto intro!: exI [of _ "k_port s"]\<close>)
    next
      case (Some c)
      note id = own_id [OF ok(1) Some]
      let ?S = "slot s c"
      note h = handlesD [OF port_handles_ok [OF port] id(2)]
      have worker: "worker_ok (vw (wp_os (k_port s))) (wp_tls_index (k_port s)) c (bases s c) True ?S (p c)"
        using port_worker [OF port id(2)] Some by simp
      have USER: "sl_phase ?S = OS_PORT_PHASE_USER" using user Some by simp
      note sus = worker_suspend [OF worker USER]
      let ?w = "snd (api_SuspendThread api (sl_thread ?S) (wp_os (k_port s)))"
      have count: "v_suspends (vw (wp_os (k_port s))) (sl_thread ?S) = 0" using worker sus(1) by (simp add: worker_ok_def)
      have V: "vw ?w = suspend_count (sl_thread ?S) 1 (vw (wp_os (k_port s)))"
        "fst (api_SuspendThread api (sl_thread ?S) (wp_os (k_port s))) = 0"
        using suspend_thread [OF w open_handles(1) [OF port id(2)]] count by simp_all
      let ?q = "(k_port s)\<lparr>wp_slots := (wp_slots (k_port s))(c := ?S\<lparr>sl_suspended := True\<rparr>), wp_os := ?w\<rparr>"
      have "port_ok vw ?n (bases s) None p ?q"
        by (rule port_ok_control [OF port id(2)]) (use sus(2) event h(7) Some in \<open>simp_all add: V(1)\<close>)
      moreover have "os_PortSuspendCurrent api s = (True, s\<lparr>k_port := ?q\<rparr>)"
        using slot Some USER V(2)
        by (simp add: os_PortSuspendCurrent_def call_api_sel Let_def upd_slot_def upd_port_def)
      moreover have "kept vw (k_port s) ?q" by (simp add: kept_def V(1))
      ultimately show thesis using Some ok(2) by (intro that [of "s\<lparr>k_port := ?q\<rparr>"]) auto
    qed
    then obtain q where q: "s1 = s\<lparr>k_port := q\<rparr>" "wp_failed q = wp_failed (k_port s)"
      "wp_pending_ticks q = wp_pending_ticks (k_port s)" "wp_running q" "kept vw (k_port s) q" by blast
    obtain b t where t: "os_PortApplyTick api s1 = Some (b, t)" "orderly t" "ticked vw (k_port s1) (k_port t)"
      "b = wp_running (k_port t)" "k_task_count t = k_task_count s1" "bases t = bases s1" "k_started t = k_started s1"
      "k_tick t = k_tick s1 + 1"
      using returnsD [OF ApplyTick_ok [OF w, of s1]] ok(1) q(1) by auto
    have port_t: "port_ok vw (unat (k_task_count t)) (bases t) None p (k_port t)"
      using s1(3) ticked_port_ok [OF t(3)] t(5,6) q(1) by simp
    obtain r where r: "os_PortActivate api (k_current t) t = (True, t\<lparr>k_port := r\<rparr>)"
      "port_ok vw (unat (k_task_count t)) (bases t) (k_current t) p r" "wp_failed r = wp_failed (k_port t)"
      "wp_pending_ticks r = wp_pending_ticks (k_port t)" "kept vw (k_port t) r"
      using Activate_ok [OF w t(2) port_t] by blast
    have kept: "kept vw (k_port s) (k_port t)" "kept vw (k_port s) r"
      using kept_trans [OF q(5), of "k_port t"] kept_trans [OF _ r(5)] ticked_kept [OF t(3)] q(1) by auto
    have noslot: "\<not> (os_PortSlotForTask (k_current s) s \<noteq> None \<and>
        sl_phase (slot s (the (os_PortSlotForTask (k_current s) s))) \<noteq> OS_PORT_PHASE_USER)"
      using user slot by (cases "k_current s") auto
    have run: "os_PortProcessTimer api s = Some (if \<not> b then (True, t) else os_PortActivate api (k_current t) t)"
      unfolding os_PortProcessTimer_def Let_def s1(1) if_not_P [OF noslot] using t(1) by simp
    show ?thesis
      using run r t q ok kept by (auto simp: win32_ok_iff ticked_def)
  qed
qed

subsection \<open>A round of the control loop\<close>

lemma control_round_ok:
  assumes w: "windows api vw" and ok: "win32_ok vw (p, s)" and run: "wp_running (k_port s)"
    and wait: "api_WaitForMultipleObjects api [wp_request_event (k_port s), wp_tick_timer (k_port s)] False INFINITE
      (wp_os (k_port s)) = Some (r, w')"
  shows "\<exists>s'. control_round api r (upd_port (\<lambda>q. q\<lparr>wp_os := w'\<rparr>) s) = Some s' \<and> win32_ok vw (p, s') \<and>
    kept vw (k_port s) (k_port s') \<and> k_started s' = k_started s \<and> k_task_count s' = k_task_count s \<and>
    k_tick s' + wp_pending_ticks (k_port s') =
      k_tick s + wp_pending_ticks (k_port s) + (if r = WAIT_OBJECT_0 then 0 else 1) \<and>
    (r \<noteq> WAIT_OBJECT_0 \<longrightarrow> \<not> wp_failed (k_port s')) \<and>
    (r = WAIT_OBJECT_0 \<longrightarrow> (\<exists>i. k_current s = Some i \<and> sl_request (slot s i) \<noteq> None \<and> submitted (p i) \<and>
      (if \<exists>k<i. in_gap (p k) then wp_failed (k_port s') \<and> \<not> wp_running (k_port s')
       else \<not> wp_failed (k_port s') \<and> sl_request (slot s' i) = None)))"
proof -
  let ?s = "upd_port (\<lambda>q. q\<lparr>wp_os := w'\<rparr>) s" and ?V = "vw (wp_os (k_port s))" and ?n = "unat (k_task_count s)"
  have port: "port_ok vw ?n (bases s) (k_current s) p (k_port s)" and good: "orderly s" "\<not> wp_failed (k_port s)"
    using ok run by (simp_all add: win32_ok_iff)
  note h = port_handles_ok [OF port] and any = wait_any(1) [OF w open_handles(3,4) [OF port] wait]
  have hold: "holdings (vw w') = holdings ?V" using any by (simp split: if_splits)
  have kept: "kept vw (k_port s) (k_port ?s)" by (simp add: kept_def hold)
  show ?thesis
  proof (cases "v_signalled ?V (wp_request_event (k_port s))")
    case True
    then have r: "r = 0" "vw w' = signal (wp_request_event (k_port s)) False ?V" using any by simp_all
    obtain i req where i: "i < ?n" "k_current s = Some i" "sl_request (slot s i) = Some req" "submitted (p i)"
      using True port_event [OF port] by auto
    have workers: "worker_ok (vw (wp_os (k_port ?s))) (wp_tls_index (k_port ?s)) j (bases ?s j) (k_current ?s = Some j)
          (slot ?s j) (p j)" if "j < unat (k_task_count ?s)" for j
      using port_worker [OF port, of j] that handlesD(4) [OF h, of j] worker_ok_cong [of "vw w'" "slot s j" ?V]
      by (simp add: r(2))
    show ?thesis
    proof (rule find_requester [of ?s _ _ p i, OF workers])
      assume found: "os_PortFindRequester ?s = Some i" "\<not> (\<exists>k<i. in_gap (p k))"
      have "returns (os_PortProcessRequest api ?s) (\<lambda>(b, s'). b \<and> win32_ok vw (p, s') \<and> k_started s' = k_started ?s \<and>
          \<not> wp_failed (k_port s') \<and> kept vw (k_port ?s) (k_port s') \<and> k_task_count s' = k_task_count ?s \<and>
          sl_request (slot s' i) = None \<and>
          (wp_running (k_port s') \<longrightarrow> wp_pending_ticks (k_port s') = 0) \<and>
          k_tick s' + wp_pending_ticks (k_port s') = k_tick ?s + wp_pending_ticks (k_port ?s))"
        by (rule ProcessRequest_ok [OF w _ _ _ _ _ _ found(1) _ _ _ workers])
          (use good run i h port_pended [OF port] port_held [OF port] kept_held [OF kept] in
            \<open>simp_all add: r(2) handles_ok_def\<close>)
      then obtain s' where s': "os_PortProcessRequest api ?s = Some (True, s')" "win32_ok vw (p, s')"
          "k_started s' = k_started s" "\<not> wp_failed (k_port s')" "kept vw (k_port ?s) (k_port s')"
          "sl_request (slot s' i) = None" "k_task_count s' = k_task_count s"
          "k_tick s' + wp_pending_ticks (k_port s') = k_tick s + wp_pending_ticks (k_port s)"
        by (auto dest!: returnsD)
      then have "control_round api r ?s = Some s'" by (simp add: control_round_def r(1))
      with s' found(2) i r(1) kept_trans [OF kept s'(5)] show ?thesis by (intro exI [of _ s']) simp
    next
      fix k
      assume found: "os_PortFindRequester ?s = Some k" "k < i" "in_gap (p k)"
      have "sl_task (slot ?s k) \<noteq> k_current ?s" using handlesD(1) [OF h, of k] found(2) i(1,2) by simp
      from ProcessRequest_misses [OF found(1) this, of api vw] obtain q where
        q: "os_PortProcessRequest api ?s = Some (False, ?s\<lparr>k_port := q\<rparr>)"
          "wp_pending_ticks q = wp_pending_ticks (k_port s)" "kept vw (k_port ?s) q" by auto
      let ?t = "os_PortFail (?s\<lparr>k_port := q\<rparr>)"
      have "control_round api r ?s = Some ?t" using q(1) by (simp add: control_round_def r(1))
      moreover have "win32_ok vw (p, ?t)" using good by (simp add: win32_ok_iff os_PortFail_def)
      moreover have "kept vw (k_port s) (k_port ?t)"
        using kept_trans [OF kept q(3)] by (simp add: os_PortFail_def kept_def)
      ultimately show ?thesis
        using i found(2,3) q(2) r(1) by (intro exI [of _ ?t]) (auto simp: os_PortFail_def)
    qed (use i in simp_all)
  next
    case False
    then have r: "r = 1" "vw w' = signal (wp_tick_timer (k_port s)) False ?V" using any by simp_all
    have "port_ok vw ?n (bases s) (k_current s) p (k_port ?s)"
      using port_ok_timer [OF port r(2)] by simp
    then have "returns (os_PortProcessTimer api ?s) (\<lambda>(b, s'). b \<and> win32_ok vw (p, s') \<and> k_started s' = k_started ?s \<and>
        \<not> wp_failed (k_port s') \<and> kept vw (k_port ?s) (k_port s') \<and> k_task_count s' = k_task_count ?s \<and>
        k_tick s' + wp_pending_ticks (k_port s') = k_tick ?s + wp_pending_ticks (k_port ?s) + 1)"
      using good run False h by (intro ProcessTimer_ok [OF w]) (simp_all add: r handles_ok_def)
    then show ?thesis
      unfolding control_round_def using r(1) by (auto dest!: returnsD intro: kept_trans [OF kept, unfolded upd_port_sel])
  qed
qed

lemma win32_step_ok:
  assumes "windows api vw" and "win32_step quiet api vw (p, s) (p', s')" and "win32_ok vw (p, s)"
  shows "win32_ok vw (p', s')"
  using assms(2)
proof cases
  case (control r w)
  from control_round_ok [OF assms(1,3) control(2,3)] control(1,5) show ?thesis by auto
next
  case (entry i ok)
  with entry_ok [OF assms(1,3)] show ?thesis by metis
next
  case (signal i j req ok)
  with signal_ok [OF assms(1,3)] show ?thesis by metis
next
  case (gate i j r w)
  with gate_ok [OF assms(1,3)] show ?thesis by metis
qed (use assms in \<open>auto intro: compute_ok request_step_ok fill_ok post_ok phase_ok resume_ok exit_ok timer_ok\<close>)

end
