(* ===== verification/Win32_Runs.thy ===== *)
theory Win32_Runs
  imports Win32_Control
begin

section \<open>Runs on the Windows port\<close>

text \<open>
  The start of the port and what follows: the answers to requests, and the runs of the whole system,
  all of whose states satisfy the invariant.
\<close>

subsection \<open>Creating events and threads\<close>

text \<open>
  The creation of events and threads establishes the invariant: every slot has a thread and a gate of
  its own, all threads are suspended, and the first task is then let go.
\<close>

text \<open>
  A creation that succeeds gives a handle that was not in use; a thread created suspended has
  suspend count one, an event the initial state asked for. The functions that set priorities and
  affinities do not concern the objects of the view, and setting the timer resets it.
\<close>

definition windows_creation :: "'w win32_api \<Rightarrow> ('w \<Rightarrow> win32_view) \<Rightarrow> bool" where
  "windows_creation api vw \<longleftrightarrow>
     (\<forall>m b w h w'. api_CreateEventA api m b w = (h, w') \<and> h \<noteq> 0 \<longrightarrow> h \<notin> v_handles (vw w) \<and>
        vw w' = signal h b ((vw w)\<lparr>v_handles := insert h (v_handles (vw w))\<rparr>)) \<and>
     (\<forall>m w h w'. api_CreateWaitableTimerA api m w = (h, w') \<and> h \<noteq> 0 \<longrightarrow>
        h \<notin> v_handles (vw w) \<and> h \<notin> v_armed (vw w) \<and>
        vw w' = signal h False ((vw w)\<lparr>v_handles := insert h (v_handles (vw w))\<rparr>)) \<and>
     (\<forall>i w h w'. api_CreateThread api i w = (h, w') \<and> h \<noteq> 0 \<longrightarrow> h \<notin> v_handles (vw w) \<and>
        vw w' = suspend_count h 1 ((vw w)\<lparr>v_handles := insert h (v_handles (vw w))\<rparr>)) \<and>
     (\<forall>w x w'. api_TlsAlloc api w = (x, w') \<and> x \<noteq> TLS_OUT_OF_INDEXES \<longrightarrow> x \<notin> v_tls_indexes (vw w) \<and>
        vw w' = (vw w)\<lparr>v_tls_indexes := insert x (v_tls_indexes (vw w))\<rparr>) \<and>
     (\<forall>h m w. vw (snd (api_SetThreadAffinityMask api h m w)) = vw w) \<and>
     (\<forall>h m w. vw (snd (api_SetThreadPriority api h m w)) = vw w) \<and>
     (\<forall>h w. vw (snd (api_GetThreadPriority api h w)) = vw w) \<and>
     (\<forall>h due period w b w'. api_SetWaitableTimer api h due period w = (b, w') \<longrightarrow>
        vw w' = (if b then signal h False ((vw w)\<lparr>v_armed := insert h (v_armed (vw w))\<rparr>) else vw w)) \<and>
     (\<forall>h m w. vw (snd (api_SetConsoleMode api h m w)) = vw w)"

lemma creationD:
  assumes "windows_creation api vw"
  shows create_event: "api_CreateEventA api m b w = (h, w') \<Longrightarrow> h \<noteq> 0 \<Longrightarrow> h \<notin> v_handles (vw w) \<and>
        vw w' = signal h b ((vw w)\<lparr>v_handles := insert h (v_handles (vw w))\<rparr>)"
    and create_timer: "api_CreateWaitableTimerA api m w = (h, w') \<Longrightarrow> h \<noteq> 0 \<Longrightarrow>
        h \<notin> v_handles (vw w) \<and> h \<notin> v_armed (vw w) \<and>
        vw w' = signal h False ((vw w)\<lparr>v_handles := insert h (v_handles (vw w))\<rparr>)"
    and create_thread: "api_CreateThread api i w = (h, w') \<Longrightarrow> h \<noteq> 0 \<Longrightarrow> h \<notin> v_handles (vw w) \<and>
        vw w' = suspend_count h 1 ((vw w)\<lparr>v_handles := insert h (v_handles (vw w))\<rparr>)"
    and alloc_index: "api_TlsAlloc api w = (x, w') \<Longrightarrow> x \<noteq> TLS_OUT_OF_INDEXES \<Longrightarrow> x \<notin> v_tls_indexes (vw w) \<and>
        vw w' = (vw w)\<lparr>v_tls_indexes := insert x (v_tls_indexes (vw w))\<rparr>"
    and unseen: "vw (snd (api_SetThreadAffinityMask api k n w)) = vw w"
      "vw (snd (api_SetThreadPriority api k n w)) = vw w" "vw (snd (api_GetThreadPriority api k w)) = vw w"
      "vw (snd (api_SetConsoleMode api k n w)) = vw w"
    and set_timer: "api_SetWaitableTimer api k first period w = (b, w') \<Longrightarrow>
        vw w' = (if b then signal k False ((vw w)\<lparr>v_armed := insert k (v_armed (vw w))\<rparr>) else vw w)"
  using assms by (simp_all add: windows_creation_def)

lemma handles_simps [simp]:
  "v_handles (signal h b V) = v_handles V" "v_handles (suspend_count h n V) = v_handles V"
  "v_tls_indexes (signal h b V) = v_tls_indexes V" "v_tls_indexes (suspend_count h n V) = v_tls_indexes V"
  "v_armed (signal h b V) = v_armed V" "v_armed (suspend_count h n V) = v_armed V"
  by (simp_all add: signal_def suspend_count_def)

lemma view_handles [simp]:
  "v_signalled (V\<lparr>v_handles := H\<rparr>) = v_signalled V" "v_suspends (V\<lparr>v_handles := H\<rparr>) = v_suspends V"
  "v_tls (V\<lparr>v_handles := H\<rparr>) = v_tls V"
  by simp_all

lemma held_simps [simp]:
  "held (signal h b V) n q = held V n q" "held (V\<lparr>v_armed := A\<rparr>) n q = held V n q"
  "held V n (q\<lparr>wp_os := w\<rparr>) = held V n q" "held V n (q\<lparr>wp_running := b\<rparr>) = held V n q"
  by (simp_all add: held_def)

text \<open>While the slots below \<open>k\<close> have been set up.\<close>

definition created :: "('w \<Rightarrow> win32_view) \<Rightarrow> nat \<Rightarrow> (nat \<Rightarrow> u8) \<Rightarrow> 'w win32_port \<Rightarrow> bool" where
  "created vw k base q \<longleftrightarrow> port_ok vw k base None (\<lambda>_. At_Entry) q \<and> \<not> wp_failed q"

lemma create_slot_created:
  assumes law: "windows_creation api vw" and q: "created vw k base (k_port s)"
    and run: "create_slot api k s = (True, s')"
  shows "created vw (Suc k) base (k_port s') \<and> s' = s\<lparr>k_port := k_port s'\<rparr>"
proof -
  let ?q = "k_port s" and ?w = "wp_os (k_port s)"
  obtain g w1 where g: "api_CreateEventA api False False ?w = (g, w1)" by fastforce
  obtain h w2 where h: "api_CreateThread api k w1 = (h, w2)" by fastforce
  obtain m w3 where m: "api_SetThreadAffinityMask api h 1 w2 = (m, w3)" by fastforce
  obtain b w4 where b: "api_SetThreadPriority api h THREAD_PRIORITY_NORMAL w3 = (b, w4)" by fastforce
  let ?S = "(slot s k)\<lparr>sl_task := Some k, sl_gate := g, sl_thread := h, sl_suspended := True,
      sl_phase := OS_PORT_PHASE_CREATED, sl_request := None, sl_response := OS_STATUS_BAD_STATE\<rparr>"
  have s': "g \<noteq> 0" "h \<noteq> 0" "s' = s\<lparr>k_port := ?q\<lparr>wp_slots := (wp_slots ?q)(k := ?S), wp_os := w4\<rparr>\<rparr>"
    using run g h m b
    by (auto simp: create_slot_def call_api_def Let_def upd_slot_def upd_port_def split: if_splits)
  note G = create_event [OF law g s'(1)] and H = create_thread [OF law h s'(2)]
  have w4: "vw w4 = vw w2"
    using unseen(1) [OF law, of h 1 w2] unseen(2) [OF law, of h THREAD_PRIORITY_NORMAL w3] m b by simp
  let ?V = "vw ?w"
  have fresh: "g \<notin> v_handles ?V" "h \<notin> v_handles ?V" "h \<noteq> g" using G H by auto
  have V: "v_signalled (vw w4) = (v_signalled ?V)(g := False)" "v_suspends (vw w4) = (v_suspends ?V)(h := 1)"
    "v_tls (vw w4) = v_tls ?V" "v_handles (vw w4) = insert h (insert g (v_handles ?V))"
    "v_tls_indexes (vw w4) = v_tls_indexes ?V"
    using G H by (simp_all add: w4 fun_eq_iff)
  have ok: "port_ok vw k base None (\<lambda>_. At_Entry) ?q" "\<not> wp_failed ?q" using q by (simp_all add: created_def)
  note old = open_handles [OF ok(1)]
  let ?q' = "?q\<lparr>wp_slots := (wp_slots ?q)(k := ?S), wp_os := w4\<rparr>"
  have ne: "sl_gate (slot s i) \<noteq> g" "sl_thread (slot s i) \<noteq> h" if "i < k" for i
    using old(1,2) [OF that] fresh by auto
  have ne': "wp_request_event ?q \<noteq> g" "wp_tick_timer ?q \<noteq> g" using old(3,4) fresh by auto
  have "handles_ok ?q' (Suc k)"
    using port_handles_ok [OF ok(1)] ne ne' s'(1,2) unfolding handles_ok_def
    by (auto simp: less_Suc_eq)
  moreover have "held (vw w4) (Suc k) ?q'"
    using old by (auto simp: held_def port_handles_def V less_Suc_eq)
  moreover have "worker_ok (vw w4) (wp_tls_index ?q) i (base i) False (wp_slots ?q' i) At_Entry" if "i < Suc k" for i
  proof (cases "i = k")
    case True
    then show ?thesis by (simp add: worker_ok_def V)
  next
    case False
    with that have "i < k" by simp
    then show ?thesis
      using port_worker [OF ok(1)] worker_ok_cong [of "vw w4" "slot s i" ?V] ne [of i] by (simp add: V)
  qed
  moreover have "\<not> v_signalled (vw w4) (wp_request_event ?q)"
    using port_event [OF ok(1)] ne' by (simp add: V)
  ultimately have "port_ok vw (Suc k) base None (\<lambda>_. At_Entry) ?q'"
    using port_pended [OF ok(1)] by (simp add: port_ok_def)
  then show ?thesis using s'(3) ok(2) by (simp add: created_def)
qed

lemma create_slots_created:
  "windows_creation api vw \<Longrightarrow> created vw k base (k_port s) \<Longrightarrow> create_slots api [k..<n] s = (True, s') \<Longrightarrow> k \<le> n \<Longrightarrow>
    created vw n base (k_port s') \<and> s' = s\<lparr>k_port := k_port s'\<rparr>"
proof (induction "n - k" arbitrary: k s)
  case 0
  then show ?case by simp
next
  case (Suc d)
  then have k: "[k..<n] = k # [Suc k..<n]" by (simp add: upt_conv_Cons)
  obtain b s1 where s1: "create_slot api k s = (b, s1)" by fastforce
  with Suc.prems(3) k have b: b and rest: "create_slots api [Suc k..<n] s1 = (True, s')"
    by (auto split: if_splits)
  from create_slot_created [OF Suc.prems(1,2)] s1 b
  have "created vw (Suc k) base (k_port s1)" "s1 = s\<lparr>k_port := k_port s1\<rparr>" by simp_all
  with Suc.hyps(1) [of "Suc k" s1] Suc.hyps(2) Suc.prems(1) rest
  have "created vw n base (k_port s')" "s' = s1\<lparr>k_port := k_port s'\<rparr>" by simp_all
  moreover have "s1\<lparr>k_port := k_port s'\<rparr> = s\<lparr>k_port := k_port s'\<rparr>"
    by (subst \<open>s1 = s\<lparr>k_port := k_port s1\<rparr>\<close>) simp
  ultimately show ?case by simp
qed


lemma created_same:
  assumes "created vw k base q" "vw (wp_os q') = vw (wp_os q)" "wp_slots q' = wp_slots q"
    "wp_request_event q' = wp_request_event q" "wp_tick_timer q' = wp_tick_timer q" "wp_tls_index q' = wp_tls_index q"
    "wp_switch_pended q' = wp_switch_pended q" "wp_failed q' = wp_failed q"
  shows "created vw k base q'"
proof -
  have "port_handles q' k = port_handles q k" using assms by (simp add: port_handles_def)
  then show ?thesis using assms by (simp add: created_def port_ok_def handles_ok_def held_def)
qed

lemma runtime_objects_created:
  assumes law: "windows_creation api vw" and q: "\<not> wp_failed (k_port s)" "\<not> wp_switch_pended (k_port s)"
    and run: "os_PortCreateRuntimeObjects api s = (True, s')"
  shows "created vw (unat (k_task_count s)) base (k_port s') \<and> s' = s\<lparr>k_port := k_port s'\<rparr>"
proof -
  let ?q = "k_port s" and ?n = "unat (k_task_count s)" and ?me = "api_GetCurrentThread api"
  obtain e w1 where e: "api_CreateEventA api False False (wp_os ?q) = (e, w1)" by fastforce
  obtain t w2 where t: "api_CreateWaitableTimerA api False w1 = (t, w2)" by fastforce
  obtain x w3 where x: "api_TlsAlloc api w2 = (x, w3)" by fastforce
  define q1 where "q1 = ?q\<lparr>wp_request_event := e, wp_tick_timer := t, wp_os := w3, wp_tls_index := x\<rparr>"
  obtain b s2 where s2: "create_slots api [0..<?n] (s\<lparr>k_port := q1\<rparr>) = (b, s2)" by fastforce
  have nz: "e \<noteq> 0" "t \<noteq> 0" "x \<noteq> TLS_OUT_OF_INDEXES" and b: b
    using run e t x s2 by (auto simp: os_PortCreateRuntimeObjects_def call_api_def Let_def upd_port_def q1_def split: if_splits)
  note E = create_event [OF law e nz(1)] and T = create_timer [OF law t nz(2)]
  note X = alloc_index [OF law x nz(3)]
  have "created vw 0 base q1"
    using E T X nz q by (auto simp: created_def port_ok_def handles_ok_def held_def port_handles_def q1_def)
  with create_slots_created [OF law, of 0 base "s\<lparr>k_port := q1\<rparr>" ?n s2] s2 b
  have c: "created vw ?n base (k_port s2)" "s2 = s\<lparr>k_port := k_port s2\<rparr>" by simp_all
  obtain m w4 where m: "api_SetThreadAffinityMask api ?me 1 (wp_os (k_port s2)) = (m, w4)" by fastforce
  obtain r w5 where r: "api_GetThreadPriority api ?me w4 = (r, w5)" by fastforce
  obtain y w6 where y: "api_SetThreadPriority api ?me THREAD_PRIORITY_HIGHEST w5 = (y, w6)" by fastforce
  define q2 where "q2 = (k_port s2)\<lparr>wp_scheduler_affinity_before := m, wp_os := w6, wp_scheduler_priority_before := r\<rparr>"
  have "s' = s2\<lparr>k_port := q2\<rparr>"
    using run e t x s2 b nz m r y
    by (auto simp: os_PortCreateRuntimeObjects_def call_api_def Let_def upd_port_def q1_def q2_def split: if_splits)
  moreover have "vw w6 = vw (wp_os (k_port s2))"
    using unseen(1) [OF law, of ?me 1 "wp_os (k_port s2)"] unseen(3) [OF law, of ?me w4]
      unseen(2) [OF law, of ?me THREAD_PRIORITY_HIGHEST w5] m r y by simp
  then have "created vw ?n base q2" by (intro created_same [OF c(1)]) (simp_all add: q2_def)
  moreover have "s2\<lparr>k_port := q2\<rparr> = s\<lparr>k_port := q2\<rparr>" by (subst c(2)) simp
  ultimately show ?thesis by simp
qed


lemma terminal_unseen:
  assumes law: "windows_creation api vw"
  shows "\<exists>w. os_PortEnableVirtualTerminal api s = upd_port (\<lambda>q. q\<lparr>wp_os := w\<rparr>) s"
proof -
  have "s = upd_port (\<lambda>q. q\<lparr>wp_os := wp_os (k_port s)\<rparr>) s" by (simp add: upd_port_def)
  then show ?thesis
    by (auto simp: os_PortEnableVirtualTerminal_def call_api_sel Let_def split: option.split)
qed

lemma port_ok_set_timer:
  assumes port: "port_ok vw n base active p q"
    and V: "vw w = signal (wp_tick_timer q) b ((vw (wp_os q))\<lparr>v_armed := A\<rparr>)"
  shows "port_ok vw n base active p (q\<lparr>wp_os := w\<rparr>)"
proof -
  note h = port_handles_ok [OF port]
  have "worker_ok (vw w) (wp_tls_index q) i (base i) (active = Some i) (wp_slots q i) (p i)" if "i < n" for i
    using port_worker [OF port that] worker_ok_cong [of "vw w" "wp_slots q i" "vw (wp_os q)"] handlesD(5) [OF h that]
    by (simp add: V)
  moreover have "handles_ok (q\<lparr>wp_os := w\<rparr>) n" using h by (simp add: handles_ok_def)
  moreover have "wp_tick_timer q \<noteq> wp_request_event q" using h by (simp add: handles_ok_def)
  ultimately show ?thesis using port by (simp add: port_ok_def V)
qed

text \<open>
  A start that comes as far as the control loop gives the processor to the first task, and the
  invariant holds.
\<close>

lemma start_ok:
  assumes w: "windows api vw" and law: "windows_creation api vw"
    and s: "orderly s" "\<not> wp_switch_pended (k_port s)"
    and run: "start_scheduler_begin api n s = Some (None, s')"
  shows "win32_ok vw (\<lambda>_. At_Entry, s') \<and> wp_running (k_port s') \<and> k_current s' \<noteq> None \<and> k_tick s' = k_tick s"
    and "\<exists>t u. os_PortCreateRuntimeObjects api (os_PortEnableVirtualTerminal api (upd_port (clear_runtime n) s)) = (True, t) \<and>
      wp_tick_timer (k_port t) \<noteq> 0 \<and> vw u = signal (wp_tick_timer (k_port t)) False ((vw (wp_os (k_port t)))
        \<lparr>v_armed := insert (wp_tick_timer (k_port t)) (v_armed (vw (wp_os (k_port t))))\<rparr>) \<and>
      kept vw ((k_port t)\<lparr>wp_os := u\<rparr>) (k_port s') \<and> k_task_count s' = k_task_count s"
proof -
  let ?n = "unat (k_task_count s)" and ?N = "\<lambda>_. At_Entry"
  have pre: "k_initialized s" "\<not> k_started s" "k_task_count s \<noteq> 0"
    using run by (auto simp: start_scheduler_begin_def split: if_splits)
  obtain w0 where w0: "os_PortEnableVirtualTerminal api (upd_port (clear_runtime n) s) =
      s\<lparr>k_port := (clear_runtime n (k_port s))\<lparr>wp_os := w0\<rparr>\<rparr>"
    using terminal_unseen [OF law, of "upd_port (clear_runtime n) s"] by (auto simp: upd_port_def)
  define s0 where "s0 = s\<lparr>k_port := (clear_runtime n (k_port s))\<lparr>wp_os := w0\<rparr>\<rparr>"
  obtain b1 s1 where s1: "os_PortCreateRuntimeObjects api s0 = (b1, s1)" by fastforce
  obtain b2 w2 where w2: "api_SetWaitableTimer api (wp_tick_timer (k_port s1)) (- (uint OS_TICK_MS * 10000)) OS_TICK_MS
      (wp_os (k_port s1)) = (b2, w2)" by fastforce
  define s2 where "s2 = s1\<lparr>k_port := (k_port s1)\<lparr>wp_os := w2, wp_running := True\<rparr>\<rparr>"
  obtain f s3 where b: b1 b2 and s3: "os_SchedStart s2 = Some (f, s3)" and s': "s' =
      (if f = None \<or> \<not> os_KernelValidate s3 then os_PortFail s3
       else let (ok, s) = os_PortActivate api (k_current s3) s3 in if ok then s else os_PortFail s)"
    using run pre s1 w2
    by (auto simp: start_scheduler_begin_def w0 [unfolded upd_port_def] s0_def [symmetric] os_PortStartTimer_def call_api_def upd_port_def
        s2_def Let_def split: if_splits Option.bind_splits)
  have created: "created vw ?n (bases s) (k_port s1)" "s1 = s0\<lparr>k_port := k_port s1\<rparr>"
    using runtime_objects_created [OF law, of s0 s1 "bases s"] s1 b s(2) by (simp_all add: s0_def clear_runtime_def)
  have s2: "s2 = s\<lparr>k_port := (k_port s1)\<lparr>wp_os := w2, wp_running := True\<rparr>\<rparr>"
    unfolding s2_def by (subst created(2)) (simp add: s0_def)
  have V2: "vw w2 = signal (wp_tick_timer (k_port s1)) False ((vw (wp_os (k_port s1)))
      \<lparr>v_armed := insert (wp_tick_timer (k_port s1)) (v_armed (vw (wp_os (k_port s1))))\<rparr>)"
    using set_timer [OF law w2] b(2) by simp
  then have "port_ok vw ?n (bases s) None ?N ((k_port s1)\<lparr>wp_os := w2\<rparr>)"
    using created(1) by (intro port_ok_set_timer) (simp_all add: created_def)
  then have port: "port_ok vw ?n (bases s) None ?N (k_port s2)"
    by (simp add: s2 port_ok_def handles_ok_def)
  have "returns (os_SchedStart s2) (\<lambda>(n, s'). n \<noteq> None \<and> k_current s' = n \<and> orderly s' \<and> frame s' = frame (s2\<lparr>k_started := True\<rparr>))"
    by (rule SchedStart_framed) (use pre s(1) in \<open>simp_all add: s2\<close>)
  then have f: "f \<noteq> None" "k_current s3 = f" "orderly s3" "frame s3 = frame (s2\<lparr>k_started := True\<rparr>)" using s3 by simp_all
  have same: "k_port s3 = k_port s2" "k_task_count s3 = k_task_count s" "bases s3 = bases s" "k_tick s3 = k_tick s" "k_started s3"
    using f(4) by (simp_all add: frame_def s2)
  have "port_ok vw (unat (k_task_count s3)) (bases s3) None ?N (k_port s3)" using port same by simp
  then obtain q where q: "os_PortActivate api (k_current s3) s3 = (True, s3\<lparr>k_port := q\<rparr>)"
      "port_ok vw (unat (k_task_count s3)) (bases s3) (k_current s3) ?N q" "wp_failed q = wp_failed (k_port s3)"
      "wp_running q = wp_running (k_port s3)" "kept vw (k_port s3) q"
    using Activate_ok [OF w f(3)] by blast
  have "os_KernelValidate s3" by (rule good_valid [OF orderly_good [OF f(3)]])
  then have s'_eq: "s' = s3\<lparr>k_port := q\<rparr>" using s' f(1) q(1) by simp
  moreover have "\<not> wp_failed q" "wp_running q" using q(3,4) created(1) by (simp_all add: same s2 created_def)
  ultimately show "win32_ok vw (\<lambda>_. At_Entry, s') \<and> wp_running (k_port s') \<and> k_current s' \<noteq> None \<and> k_tick s' = k_tick s"
    using q(2) f same by (simp add: win32_ok_iff)
  have "wp_tick_timer (k_port s1) \<noteq> 0"
    using created(1) port_handles_ok [of vw ?n "bases s" None ?N "k_port s1"] by (simp add: created_def handles_ok_def)
  moreover have "kept vw ((k_port s1)\<lparr>wp_os := w2\<rparr>) q" using q(5) by (simp add: kept_def same(1) s2)
  moreover have "os_PortCreateRuntimeObjects api (os_PortEnableVirtualTerminal api (upd_port (clear_runtime n) s)) = (True, s1)"
    using s1 b(1) by (simp add: w0 s0_def)
  ultimately show "\<exists>t u. os_PortCreateRuntimeObjects api (os_PortEnableVirtualTerminal api (upd_port (clear_runtime n) s)) = (True, t) \<and>
      wp_tick_timer (k_port t) \<noteq> 0 \<and> vw u = signal (wp_tick_timer (k_port t)) False ((vw (wp_os (k_port t)))
        \<lparr>v_armed := insert (wp_tick_timer (k_port t)) (v_armed (vw (wp_os (k_port t))))\<rparr>) \<and>
      kept vw ((k_port t)\<lparr>wp_os := u\<rparr>) (k_port s') \<and> k_task_count s' = k_task_count s"
    using V2 s'_eq same(2) by (intro exI [of _ s1] exI [of _ w2]) simp
qed

subsection \<open>The answer to a request\<close>

text \<open>
  While the worker of the current task is on its way out of a served request, the answer in its slot
  is the wait result in the task's control block.
\<close>

definition answered :: "'w win32_sys \<Rightarrow> bool" where
  "answered ps \<longleftrightarrow> (case ps of (p, s) \<Rightarrow> wp_running (k_port s) \<longrightarrow>
     (\<forall>i. k_current s = Some i \<and> ((\<exists>j. p i = At_Gate j) \<and> sl_request (slot s i) = None \<or> (\<exists>j. p i = At_Resume j)) \<longrightarrow>
        sl_response (slot s i) = t_wait_result (k_tasks s i)))"

definition given :: "'w win32_kernel \<Rightarrow> bool" where
  "given s \<longleftrightarrow> (wp_running (k_port s) \<longrightarrow>
     (\<forall>i. k_current s = Some i \<longrightarrow> sl_response (slot s i) = t_wait_result (k_tasks s i)))"

lemma given_answered: "given s \<Longrightarrow> answered (p, s)"
  by (simp add: given_def answered_def)

lemma given_stopped [simp]: "\<not> wp_running (k_port s) \<Longrightarrow> given s"
  by (simp add: given_def)

lemma Activate_gives:
  assumes "os_PortActivate api c s = (True, s')" "c = k_current s" "orderly s'"
  shows "given s'"
proof (cases c)
  case (Some i)
  have same: "k_tasks s' = k_tasks s" "k_current s' = k_current s"
    using assms(1,2) Some
    by (auto simp: os_PortActivate_def call_api_def Let_def upd_slot_def upd_port_def split: if_splits prod.splits option.splits)
  have "os_PortSlotForTask (k_current s) s = os_PortSlotForTask (k_current s') s'"
    unfolding os_PortSlotForTask_def same ..
  moreover have c: "k_current s = Some i" using assms(2) Some by simp
  ultimately have "os_PortSlotForTask (Some i) s = Some i"
    using slot_of_current [OF assms(3)] by (simp add: same)
  then show ?thesis
    using assms(1) Some c
    by (auto simp: os_PortActivate_def given_def call_api_def Let_def upd_slot_def upd_port_def split: if_splits prod.splits)
qed (use assms in \<open>simp add: os_PortActivate_def given_def\<close>)

lemma ProcessRequest_gives:
  assumes "os_PortProcessRequest api s = Some (True, s')" "orderly s'"
  shows "given s'"
  using assms(1)
  by (auto simp: os_PortProcessRequest_def Let_def os_port_is_running_win32_def
      split: option.splits if_splits Option.bind_splits dest!: Activate_gives [OF _ _ assms(2)])

lemma ProcessTimer_gives:
  assumes "os_PortProcessTimer api s = Some (True, s')" "orderly s'"
  shows "given s' \<or> k_current s' = k_current s \<and> k_tasks s' = k_tasks s \<and> wp_slots (k_port s') = wp_slots (k_port s) \<and>
    wp_running (k_port s') = wp_running (k_port s)"
proof -
  have stop: "wp_running (k_port t) = b" if "os_PortApplyTick api u = Some (b, t)" for b t u
    using that by (auto simp: os_PortApplyTick_def Let_def os_port_is_running_win32_def os_PortFail_def
        split: if_splits Option.bind_splits)
  show ?thesis
    using assms(1)
    by (auto simp: os_PortProcessTimer_def Let_def split: if_splits Option.bind_splits prod.splits
        dest: stop dest!: Activate_gives [OF _ _ assms(2)])
qed

lemma answered_control:
  assumes run: "control_round api r s = Some s'" and "orderly s'" "answered (p, s)"
  shows "answered (p, s')"
proof (cases "given s'")
  case False
  then have "wp_running (k_port s')" by (auto simp: given_def)
  then have "os_PortProcessTimer api s = Some (True, s') \<or> os_PortProcessRequest api s = Some (True, s')"
    using run by (auto simp: control_round_def os_PortFail_def split: if_splits Option.bind_splits)
  with False assms(2) have same: "k_current s' = k_current s" "k_tasks s' = k_tasks s"
    "wp_slots (k_port s') = wp_slots (k_port s)" "wp_running (k_port s') = wp_running (k_port s)"
    using ProcessTimer_gives [of api s s'] ProcessRequest_gives [of api s s'] by auto
  show ?thesis using assms(3) unfolding answered_def by (simp add: same)
qed (rule given_answered)

lemma answered_step:
  assumes "windows api vw" and step: "win32_step quiet api vw (p, s) (p', s')" and ok: "win32_ok vw (p, s)"
    and "answered (p, s)"
  shows "answered (p', s')"
  using step
proof cases
  case (control r w)
  have "win32_ok vw (p', s')" by (rule win32_step_ok [OF assms(1-3)])
  moreover have "answered (p, upd_port (\<lambda>q. q\<lparr>wp_os := w\<rparr>) s)" using assms(4) by (simp add: answered_def)
  ultimately show ?thesis using answered_control [OF control(5)] control(1) by (simp add: win32_ok_iff)
next
  case (signal i j req b)
  then show ?thesis
    using assms(4) own_slot(1) [OF ok signal(2)] signal(3)
    by (auto simp: answered_def mailbox_signal_def call_api_sel os_PortFail_def worker_ok_def split: if_splits)
next
  case (fill i j req ticks obj buf)
  have "j = i" using own_slot(1) [OF ok fill(3)] fill(4) by (simp add: worker_ok_def)
  then show ?thesis
    using assms(4) fill by (auto simp: answered_def mailbox_fill_def os_port_enter_critical_win32_def Let_def)
next
  case (post i j req)
  have "j = i" using own_slot(1) [OF ok post(3)] post(4) by (simp add: worker_ok_def)
  then show ?thesis using assms(4) post by (auto simp: answered_def mailbox_post_def)
next
  case (phase i j req)
  have "j = i" using own_slot(1) [OF ok phase(3)] phase(4) by (simp add: worker_ok_def)
  then show ?thesis
    using assms(4) phase by (auto simp: answered_def mailbox_phase_def os_port_exit_critical_win32_def Let_def)
next
  case (gate i j r w)
  have j: "j = i" and V: "v_signalled (vw (wp_os (k_port s))) (sl_gate (slot s i)) "
    using own_slot(1,4) [OF ok gate(3)] gate(4,5) open_handles(2) [OF own_slot(7) [OF ok gate(3)]]
      wait_single(1) [OF assms(1) _ gate(5)] by (simp_all add: worker_ok_def)
  then have "sl_request (slot s i) = None"
    using own_slot(1) [OF ok gate(3)] gate(4) by (auto simp: worker_ok_def split: option.splits)
  then show ?thesis using assms(4) gate by (auto simp: answered_def os_PortFail_def)
next
  case (resume i j)
  have "j = i" using own_slot(1) [OF ok resume(3)] resume(4) by (simp add: worker_ok_def)
  then show ?thesis using assms(4) resume by (auto simp: answered_def request_return_def Let_def)
next
  case (exit i)
  then show ?thesis using assms(4) by (auto simp: answered_def task_entry_end_def)
next
  case (entry i b)
  then show ?thesis
    using assms(4) by (auto simp: answered_def task_entry_begin_def call_api_sel os_PortFail_def Let_def split: if_splits)
qed (use assms(4) in \<open>auto simp: answered_def\<close>)

subsection \<open>Runs of the system\<close>

text \<open>
  The application initialises the kernel and creates its tasks and objects; then it calls
  \<open>os_Start\<close>, which also creates the Idle task, and from then on the threads take over.
\<close>

inductive win32_setup :: "'w win32_api \<Rightarrow> 'w win32_kernel \<Rightarrow> bool" for api where
  setup_init: "\<not> wp_switch_pended (k_port s) \<Longrightarrow> win32_setup api (os_Init s)"
| setup_task: "win32_setup api s \<Longrightarrow>
    xTaskCreate (win32_hal api) code nm z arg prio stack s = Some (r, s') \<Longrightarrow> win32_setup api s'"
| setup_semaphore: "win32_setup api s \<Longrightarrow> win32_setup api (snd (xSemaphoreCreateCounting m n s))"
| setup_queue: "win32_setup api s \<Longrightarrow> unat b + unat z * unat n \<le> 2 ^ 32 \<Longrightarrow>
    win32_setup api (snd (xQueueCreate n z b s))"
| setup_mutex: "win32_setup api s \<Longrightarrow> win32_setup api (snd (xMutexCreate s))"

inductive win32_reachable :: "bool \<Rightarrow> 'w win32_api \<Rightarrow> ('w \<Rightarrow> win32_view) \<Rightarrow> 'w win32_sys \<Rightarrow> bool"
  for quiet api vw where
  win32_started: "win32_setup api s \<Longrightarrow>
    os_Start (win32_hal api) idle_entry idle_stack (start_scheduler_begin api) n s = Some (None, s') \<Longrightarrow>
    win32_reachable quiet api vw (\<lambda>_. At_Entry, s')"
| win32_stepped: "win32_reachable quiet api vw (p, s) \<Longrightarrow> win32_step quiet api vw (p, s) (p', s') \<Longrightarrow>
    win32_reachable quiet api vw (p', s')"

lemma TaskCreate_port:
  "os_TaskCreateInternal hal nm e arg prio st z b s = Some (r, s') \<Longrightarrow> k_port s' = k_port s"
  by (auto simp: os_TaskCreateInternal_def Let_def on_heap_def os_ReadyEnqueue_def upd_task_def
      split: option.splits if_splits prod.splits Option.bind_splits)

lemma create_objects_port [simp]:
  "k_port (snd (xSemaphoreCreateCounting m n s)) = k_port s" "k_port (snd (xQueueCreate k z b s)) = k_port s"
  "k_port (snd (xMutexCreate s)) = k_port s"
  by (auto simp: xSemaphoreCreateCounting_def xQueueCreate_def xMutexCreate_def Let_def os_SetLastError_def
      upd_sem_def upd_queue_def upd_mutex_def split: option.splits)

lemma init_port [simp]: "k_port (os_Init s) = k_port s"
  by (simp add: Init_eq init_spec_def)

lemma setup_ok: "win32_setup api s \<Longrightarrow> orderly s \<and> \<not> wp_switch_pended (k_port s)"
proof (induction rule: win32_setup.induct)
  case (setup_task s code nm z arg prio stack r s')
  have "k_port s' = k_port s"
    using setup_task.hyps(2) by (auto simp: xTaskCreate_def os_SetLastError_def dest: TaskCreate_port split: Option.bind_splits)
  then show ?case
    using setup_task returnsD [OF xTaskCreate_orderly [of s "win32_hal api" code nm z arg prio stack]] by auto
qed (auto simp: orderly_init object_orderly)

lemma started_ok:
  assumes "windows api vw" "windows_creation api vw" "win32_setup api s"
    and start: "os_Start (win32_hal api) e z (start_scheduler_begin api) n s = Some (None, s')"
  shows "win32_ok vw (\<lambda>_. At_Entry, s')" "wp_running (k_port s')"
proof -
  note s = setup_ok [OF assms(3)]
  from start obtain r s1 where s1: "os_EnsureIdleTask (win32_hal api) e z s = Some (r, s1)"
    "start_scheduler_begin api n s1 = Some (None, s')"
    by (auto simp: os_Start_def split: Option.bind_splits if_splits)
  have "k_port s1 = k_port s"
    using s1(1) by (auto simp: os_EnsureIdleTask_def dest: TaskCreate_port split: Option.bind_splits if_splits)
  moreover have "orderly s1" using s s1(1) EnsureIdleTask_orderly [of s "win32_hal api" e z] by (auto dest: returnsD)
  ultimately show "win32_ok vw (\<lambda>_. At_Entry, s')" "wp_running (k_port s')"
    using start_ok(1) [OF assms(1,2) _ _ s1(2)] s by simp_all
qed

lemma reachable_win32_ok:
  assumes "windows api vw" "windows_creation api vw" "win32_reachable quiet api vw ps"
  shows "win32_ok vw ps"
  using assms(3)
proof (induction rule: win32_reachable.induct)
  case (win32_started s e z n s')
  then show ?case by (rule started_ok(1) [OF assms(1,2)])
next
  case (win32_stepped p s p' s')
  then show ?case using win32_step_ok [OF assms(1)] by blast
qed

text \<open>
  A step that is not a round of the control loop leaves the kernel's choice and the run of the port
  alone, and a worker comes to the gap between its two stores only from the step before it.
\<close>

lemma worker_moves:
  "can_run vw s i \<Longrightarrow> p' = p(i := at) \<Longrightarrow> in_gap at \<longrightarrow> (\<exists>j req. p i = At_Post j req) \<Longrightarrow>
    p' = p \<or> (\<exists>k at. can_run vw s k \<and> p' = p(k := at) \<and> (in_gap at \<longrightarrow> (\<exists>j req. p k = At_Post j req)))"
  by blast

lemma thread_step:
  assumes w: "windows api vw" and ok: "win32_ok vw (p, s)" and step: "win32_step quiet api vw (p, s) (p', s')"
  obtains (round) r u where "p' = p" "wp_running (k_port s)"
      "api_WaitForMultipleObjects api [wp_request_event (k_port s), wp_tick_timer (k_port s)] False INFINITE
        (wp_os (k_port s)) = Some (r, u)"
      "quiet \<and> r = WAIT_OBJECT_0 + 1 \<longrightarrow> (\<forall>i < unat (k_task_count s). \<forall>j req. p i \<noteq> At_Phase j req)"
      "control_round api r (upd_port (\<lambda>q. q\<lparr>wp_os := u\<rparr>) s) = Some s'"
    | (thread) "kept vw (k_port s) (k_port s')" "wp_running (k_port s')" "k_current s' = k_current s"
      "k_task_count s' = k_task_count s"
      "p' = p \<or> (\<exists>i at. can_run vw s i \<and> p' = p(i := at) \<and> (in_gap at \<longrightarrow> (\<exists>j req. p i = At_Post j req)))"
  using step
proof cases
  case (control r w)
  then show thesis using round by blast
next
  case (entry i b)
  let ?w = "snd (api_TlsSetValue api (sl_thread (slot s i)) (wp_tls_index (k_port s)) i (wp_os (k_port s)))"
  note own = own_slot [OF ok entry(2)]
  note tls = tls_set [OF w open_handles(5) [OF own(7)], of "sl_thread (slot s i)" i]
  have "b" "s' = upd_slot i (\<lambda>S. S\<lparr>sl_phase := OS_PORT_PHASE_USER\<rparr>) (upd_port (\<lambda>q. q\<lparr>wp_os := ?w\<rparr>) s)"
    using entry(4) tls(1) by (auto simp: task_entry_begin_def call_api_sel Let_def)
  then show thesis
    by (intro thread worker_moves [OF entry(2,1)]) (use own(5) tls(2) in \<open>simp_all add: kept_def\<close>)
next
  case (signal i j req b)
  note own = own_slot [OF ok signal(2)]
  note event = set_event [OF w open_handles(3) [OF own(7)]]
  have "s' = upd_port (\<lambda>q. q\<lparr>wp_os := snd (api_SetEvent api (wp_request_event (k_port s)) (wp_os (k_port s)))\<rparr>) s" "b"
    using signal(4) event(1) by (auto simp: mailbox_signal_def call_api_sel)
  then show thesis
    by (intro thread worker_moves [OF signal(2,1)]) (use own(5) event(2) in \<open>simp_all add: kept_def\<close>)
next
  case (gate i j r u)
  note own = own_slot [OF ok gate(3)]
  have "j = i" using own(1) gate(4) by (simp add: worker_ok_def)
  then have "r = 0" "vw u = Win32_System.signal (sl_gate (slot s i)) False (vw (wp_os (k_port s)))"
    using wait_single(1) [OF w open_handles(2) [OF own(7,4)]] gate(5) by simp_all
  then show thesis
    by (intro thread worker_moves [OF gate(3,1)]) (use gate(2) own(5) in \<open>simp_all add: kept_def\<close>)
next
  case (phase i j req)
  show thesis
    by (intro thread worker_moves [OF phase(3,1)])
      (use own_slot(5) [OF ok phase(3)] in \<open>auto simp: phase(2,4) kept_def mailbox_phase_def os_port_exit_critical_win32_def Let_def\<close>)
next
  case (post i j req)
  show thesis
    by (intro thread worker_moves [OF post(3,1)])
      (use own_slot(5) [OF ok post(3)] in \<open>auto simp: post(2,4) kept_def mailbox_post_def\<close>)
next
  case (fill i j req ticks obj buf)
  show thesis
    by (intro thread worker_moves [OF fill(3,1)])
      (use own_slot(5) [OF ok fill(3)] in \<open>auto simp: fill(2,4) kept_def mailbox_fill_def os_port_enter_critical_win32_def Let_def\<close>)
next
  case (resume i j)
  show thesis
    by (intro thread worker_moves [OF resume(3,1)])
      (use own_slot(5) [OF ok resume(3)] in \<open>auto simp: resume(2,4) kept_def request_return_def Let_def\<close>)
next
  case (exit i)
  show thesis
    by (intro thread worker_moves [OF exit(3,1)])
      (use own_slot(5) [OF ok exit(3)] in \<open>auto simp: exit(2,4) kept_def task_entry_end_def\<close>)
next
  case (request i j req obj ticks buf)
  then show thesis
    by (intro thread worker_moves [OF request(3,1)]) (use own_slot(5) [OF ok request(3)] in simp_all)
next
  case (compute i m)
  then show thesis
    by (intro thread) (use own_slot(5) [OF ok compute(3)] in auto)
next
  case (timer u)
  then show thesis
    by (intro thread) (auto simp: kept_def)
qed

text \<open>What the port and the process hold does not change in a run.\<close>

lemma step_kept:
  assumes "windows api vw" "win32_ok vw (p, s)" "win32_step quiet api vw (p, s) (p', s')"
  shows "kept vw (k_port s) (k_port s') \<and> k_task_count s' = k_task_count s"
  using assms
proof (cases rule: thread_step)
  case (round r u)
  with control_round_ok [OF assms(1,2) round(2,3)] show ?thesis by auto
qed simp

text \<open>
  In a quiet run only the worker of the current task can be in the gap, and so the port never fails.
\<close>

definition tidy :: "'w win32_sys \<Rightarrow> bool" where
  "tidy ps \<longleftrightarrow> (case ps of (p, s) \<Rightarrow> \<not> wp_failed (k_port s) \<and>
     (wp_running (k_port s) \<longrightarrow> (\<forall>k < unat (k_task_count s). in_gap (p k) \<longrightarrow> k_current s = Some k)))"

lemma in_gap_iff: "in_gap x \<longleftrightarrow> (\<exists>j req. x = At_Phase j req)"
  by (cases x) simp_all

lemma tidy_step:
  assumes w: "windows api vw" and ok: "win32_ok vw (p, s)" and tidy: "tidy (p, s)"
    and step: "win32_step True api vw (p, s) (p', s')"
  shows "tidy (p', s')"
  using w ok step
proof (cases rule: thread_step)
  case (round r u)
  have gap: "k_current s = Some k" if "k < unat (k_task_count s)" "in_gap (p k)" for k
    using tidy round(2) that by (simp add: tidy_def)
  have port: "port_ok vw (unat (k_task_count s)) (bases s) (k_current s) p (k_port s)" "orderly s"
    using ok round(2) by (simp_all add: win32_ok_iff)
  have "(\<forall>k < unat (k_task_count s). \<not> in_gap (p k)) \<and> \<not> wp_failed (k_port s')"
  proof (cases "r = WAIT_OBJECT_0")
    case True
    with control_round_ok [OF w ok round(2,3)] round(5) obtain i where i: "k_current s = Some i" "submitted (p i)"
      "(\<exists>k<i. in_gap (p k)) \<or> \<not> wp_failed (k_port s')" by (auto split: if_splits)
    then have none: "\<not> in_gap (p k)" if "k < unat (k_task_count s)" for k using gap [OF that] by (cases "p k") auto
    with i(3) own_id(2) [OF port(2) i(1)] show ?thesis by (meson less_trans)
  next
    case False
    then have "r = WAIT_OBJECT_0 + 1"
      using wait_any(1) [OF w open_handles(3,4) [OF port(1)] round(3)] by (simp split: if_splits)
    with round(4) control_round_ok [OF w ok round(2,3)] round(5) False show ?thesis by (auto simp: in_gap_iff)
  qed
  moreover have "k_task_count s' = k_task_count s" using control_round_ok [OF w ok round(2,3)] round(5) by auto
  ultimately show ?thesis by (simp add: tidy_def round(1))
next
  case thread
  have prev: "wp_running (k_port s)" using step by cases (simp_all add: can_run_def)
  have "\<not> wp_failed (k_port s')" using win32_step_ok [OF w step ok] thread(2) by (simp add: win32_ok_iff)
  moreover have "k_current s = Some k" if k: "k < unat (k_task_count s)" "in_gap (p' k)" for k
  proof (cases "in_gap (p k)")
    case True
    then show ?thesis using tidy k(1) thread(2,4) prev by (simp add: tidy_def)
  next
    case False
    then obtain i at j req where i: "can_run vw s i" "p' = p(i := at)" "p i = At_Post j req" "k = i"
      using thread(5) k(2) by (auto split: if_splits)
    then show ?thesis using own_slot(1,2) [OF ok i(1)] by (simp add: worker_ok_def)
  qed
  ultimately show ?thesis using thread(3,4) by (simp add: tidy_def)
qed

lemma reachable_tidy:
  assumes "windows api vw" "windows_creation api vw" "win32_reachable True api vw ps"
  shows "tidy ps"
  using assms(3)
proof (induction rule: win32_reachable.induct)
  case (win32_started s e z n s')
  show ?case
    using started_ok [OF assms(1,2) win32_started] by (simp add: tidy_def win32_ok_iff)
next
  case (win32_stepped p s p' s')
  then show ?case using tidy_step [OF assms(1) reachable_win32_ok [OF assms(1,2)]] by blast
qed

lemma reachable_answered:
  assumes "windows api vw" "windows_creation api vw" "win32_reachable quiet api vw ps"
  shows "answered ps"
  using assms(3)
proof (induction rule: win32_reachable.induct)
  case (win32_stepped p s p' s')
  then show ?case using answered_step [OF assms(1) _ reachable_win32_ok [OF assms(1,2)]] by blast
qed (simp add: answered_def)

end
