(* ===== verification/Win32_Shutdown.thy ===== *)
theory Win32_Shutdown
  imports Win32_Runs
begin

section \<open>The end of a run on the Windows port\<close>

text \<open>
  However a run ends, by a failure while the threads are created or after the control loop, the port lets
  go of all threads and handles, and the process holds again exactly what it held before the start.
\<close>

subsection \<open>Closing\<close>

text \<open>
  What is required of Windows for this: a call that fails to create something has created nothing;
  \<open>CloseHandle\<close>, \<open>TlsFree\<close> and \<open>CancelWaitableTimer\<close> give back what they are called with; setting
  events and resuming threads opens and closes nothing; and the wait for the threads, which has a
  timeout, returns, the released threads opening and closing nothing meanwhile.
\<close>

definition windows_closing :: "'w win32_api \<Rightarrow> ('w \<Rightarrow> win32_view) \<Rightarrow> bool" where
  "windows_closing api vw \<longleftrightarrow>
     (\<forall>m b w w'. api_CreateEventA api m b w = (0, w') \<longrightarrow> vw w' = vw w) \<and>
     (\<forall>m w w'. api_CreateWaitableTimerA api m w = (0, w') \<longrightarrow> vw w' = vw w) \<and>
     (\<forall>i w w'. api_CreateThread api i w = (0, w') \<longrightarrow> vw w' = vw w) \<and>
     (\<forall>w w'. api_TlsAlloc api w = (TLS_OUT_OF_INDEXES, w') \<longrightarrow> vw w' = vw w) \<and>
     (\<forall>h w. holdings (vw (snd (api_CloseHandle api h w))) =
        (v_handles (vw w) - {h}, v_tls_indexes (vw w), v_armed (vw w))) \<and>
     (\<forall>x w. holdings (vw (snd (api_TlsFree api x w))) =
        (v_handles (vw w), v_tls_indexes (vw w) - {x}, v_armed (vw w))) \<and>
     (\<forall>h w. holdings (vw (snd (api_CancelWaitableTimer api h w))) =
        (v_handles (vw w), v_tls_indexes (vw w), v_armed (vw w) - {h})) \<and>
     (\<forall>h w. holdings (vw (snd (api_SetEvent api h w))) = holdings (vw w)) \<and>
     (\<forall>h w. holdings (vw (snd (api_ResumeThread api h w))) = holdings (vw w)) \<and>
     (\<forall>hs w. \<exists>r w'. api_WaitForMultipleObjects api hs True 5000 w = Some (r, w') \<and> holdings (vw w') = holdings (vw w))"

lemma closingD:
  assumes "windows_closing api vw"
  shows not_created: "api_CreateEventA api m b w = (0, w') \<Longrightarrow> vw w' = vw w"
      "api_CreateWaitableTimerA api m w = (0, w') \<Longrightarrow> vw w' = vw w" "api_CreateThread api i w = (0, w') \<Longrightarrow> vw w' = vw w"
      "api_TlsAlloc api w = (TLS_OUT_OF_INDEXES, w') \<Longrightarrow> vw w' = vw w"
    and close_handle: "holdings (vw (snd (api_CloseHandle api h w))) =
        (v_handles (vw w) - {h}, v_tls_indexes (vw w), v_armed (vw w))"
    and tls_free: "holdings (vw (snd (api_TlsFree api x w))) =
        (v_handles (vw w), v_tls_indexes (vw w) - {x}, v_armed (vw w))"
    and cancel_timer: "holdings (vw (snd (api_CancelWaitableTimer api h w))) =
        (v_handles (vw w), v_tls_indexes (vw w), v_armed (vw w) - {h})"
    and nothing_opened: "holdings (vw (snd (api_SetEvent api h w))) = holdings (vw w)"
      "holdings (vw (snd (api_ResumeThread api h w))) = holdings (vw w)"
    and wait_all: "\<exists>r w'. api_WaitForMultipleObjects api hs True 5000 w = Some (r, w') \<and> holdings (vw w') = holdings (vw w)"
  using assms by (simp_all add: windows_closing_def)

text \<open>The holdings of a state of the port, and what is left of them without those of the port.\<close>

abbreviation process_holds :: "('w \<Rightarrow> win32_view) \<Rightarrow> 'w win32_kernel \<Rightarrow> handle set \<times> u32 set \<times> handle set" where
  "process_holds vw s \<equiv> holdings (vw (wp_os (k_port s)))"

definition without :: "handle set \<Rightarrow> u32 set \<Rightarrow> handle set \<Rightarrow> handle set \<times> u32 set \<times> handle set
    \<Rightarrow> handle set \<times> u32 set \<times> handle set" where
  "without H X A = (\<lambda>(h, x, a). (h - H, x - X, a - A))"

lemma holdings_eq_iff:
  "holdings V = (H, X, A) \<longleftrightarrow> v_handles V = H \<and> v_tls_indexes V = X \<and> v_armed V = A"
  by (simp add: holdings_def)

lemma without_simps [simp]:
  "without {} {} {} hx = hx" "without H' X' A' (without H X A hx) = without (H \<union> H') (X \<union> X') (A \<union> A') hx"
  by (auto simp: without_def split: prod.split)

lemma closed_holdings:
  assumes "windows_closing api vw"
  shows "holdings (vw (snd (api_CloseHandle api h w))) = without {h} {} {} (holdings (vw w))"
    "holdings (vw (snd (api_TlsFree api x w))) = without {} {x} {} (holdings (vw w))"
    "holdings (vw (snd (api_CancelWaitableTimer api h w))) = without {} {} {h} (holdings (vw w))"
  using assms by (simp_all add: closingD without_def holdings_def [of "vw w"])

definition released :: "nat \<Rightarrow> 'w win32_port \<Rightarrow> bool" where
  "released n q \<longleftrightarrow> \<not> wp_running q \<and> wp_request_event q = 0 \<and> wp_tick_timer q = 0 \<and> wp_tls_index q = TLS_OUT_OF_INDEXES \<and>
     (\<forall>i < n. sl_thread (wp_slots q i) = 0 \<and> sl_gate (wp_slots q i) = 0)"

text \<open>\<open>port_only\<close>: nothing but the port has changed.\<close>

definition port_only :: "'w win32_kernel \<Rightarrow> 'w win32_kernel \<Rightarrow> bool" where
  "port_only s s' \<longleftrightarrow> (\<exists>q. s' = s\<lparr>k_port := q\<rparr>)"

lemma port_only_refl [simp]: "port_only s s"
  unfolding port_only_def by (rule exI [of _ "k_port s"]) simp

lemma port_only_trans: "port_only s t \<Longrightarrow> port_only t u \<Longrightarrow> port_only s u"
  by (auto simp: port_only_def)

lemma port_only_upd [simp]:
  "port_only s (upd_port f t) = port_only s t" "port_only s (upd_slot i g t) = port_only s t"
  "port_only s (snd (call_api h t)) = port_only s t"
proof -
  have *: "port_only s (upd_port f t) = port_only s t" for f
  proof
    assume "port_only s (upd_port f t)"
    then obtain q where q: "upd_port f t = s\<lparr>k_port := q\<rparr>" by (auto simp: port_only_def)
    have "t = (upd_port f t)\<lparr>k_port := k_port t\<rparr>" by (simp add: upd_port_def)
    then have "t = s\<lparr>k_port := k_port t\<rparr>" by (simp add: q)
    then show "port_only s t" by (auto simp: port_only_def)
  qed (auto simp: port_only_def upd_port_def)
  show "port_only s (upd_port f t) = port_only s t" "port_only s (upd_slot i g t) = port_only s t"
    "port_only s (snd (call_api h t)) = port_only s t"
    by (simp_all add: * upd_slot_def call_api_sel)
qed

lemma fold_port_only:
  assumes "\<And>x t. port_only t (f x t)"
  shows "port_only s (fold f xs s)"
  by (induction xs arbitrary: s) (auto intro: port_only_trans [OF assms])

lemma close_port_only: "port_only t (close_slot api i t)"
  by (simp add: close_slot_def Let_def)

lemma close_slot_slots:
  "sl_thread (slot (close_slot api i s) j) = (if j = i then 0 else sl_thread (slot s j))"
  "sl_gate (slot (close_slot api i s) j) = (if j = i then 0 else sl_gate (slot s j))"
  "wp_running (k_port (close_slot api i s)) = wp_running (k_port s)"
  by (simp_all add: close_slot_def Let_def call_api_sel upd_slot_def)

definition slot_handles :: "nat \<Rightarrow> 'w win32_port \<Rightarrow> handle set" where
  "slot_handles i q = {sl_thread (wp_slots q i), sl_gate (wp_slots q i)} - {0}"

lemma close_slot_holds:
  assumes "windows_closing api vw"
  shows "process_holds vw (close_slot api i s) = without (slot_handles i (k_port s)) {} {} (process_holds vw s)"
proof -
  have "slot_handles i (k_port s) = (if sl_thread (slot s i) \<noteq> 0 then {sl_thread (slot s i)} else {}) \<union>
      (if sl_gate (slot s i) \<noteq> 0 then {sl_gate (slot s i)} else {})" by (auto simp: slot_handles_def)
  then show ?thesis
    by (simp add: close_slot_def Let_def call_api_sel closed_holdings [OF assms])
qed

lemma close_slot_port:
  "wp_request_event (k_port (close_slot api i s)) = wp_request_event (k_port s)"
  "wp_tick_timer (k_port (close_slot api i s)) = wp_tick_timer (k_port s)"
  "wp_tls_index (k_port (close_slot api i s)) = wp_tls_index (k_port s)"
  by (simp_all add: close_slot_def Let_def call_api_sel)

lemma close_slots:
  "sl_thread (slot (fold (close_slot api) xs s) j) = (if j \<in> set xs then 0 else sl_thread (slot s j)) \<and>
   sl_gate (slot (fold (close_slot api) xs s) j) = (if j \<in> set xs then 0 else sl_gate (slot s j)) \<and>
   wp_running (k_port (fold (close_slot api) xs s)) = wp_running (k_port s) \<and>
   wp_request_event (k_port (fold (close_slot api) xs s)) = wp_request_event (k_port s) \<and>
   wp_tick_timer (k_port (fold (close_slot api) xs s)) = wp_tick_timer (k_port s) \<and>
   wp_tls_index (k_port (fold (close_slot api) xs s)) = wp_tls_index (k_port s)"
  by (induction xs arbitrary: s) (simp_all add: close_slot_slots close_slot_port)

lemma close_slots_holds:
  assumes "windows_closing api vw"
  shows "process_holds vw (fold (close_slot api) xs s) =
    without (\<Union>i\<in>set xs. slot_handles i (k_port s)) {} {} (process_holds vw s)"
proof (induction xs arbitrary: s)
  case (Cons i xs)
  have "slot_handles j (k_port (close_slot api i s)) = (if j = i then {} else slot_handles j (k_port s))" for j
    by (simp add: slot_handles_def close_slot_slots)
  then have "slot_handles i (k_port s) \<union> (\<Union>j\<in>set xs. slot_handles j (k_port (close_slot api i s))) =
      (\<Union>j\<in>set (i # xs). slot_handles j (k_port s))" by auto
  then show ?case by (simp add: Cons.IH close_slot_holds [OF assms])
qed simp

lemma release_threads_port:
  assumes "windows_closing api vw"
  shows "port_only s (snd (fold (release_thread api) xs (hs, s))) \<and>
    wp_running (k_port (snd (fold (release_thread api) xs (hs, s)))) = wp_running (k_port s) \<and>
    kept vw (k_port s) (k_port (snd (fold (release_thread api) xs (hs, s))))"
proof (induction xs arbitrary: hs s)
  case (Cons i xs)
  obtain hs' s' where r: "release_thread api i (hs, s) = (hs', s')" by fastforce
  then have "port_only s s'" "wp_running (k_port s') = wp_running (k_port s)"
    by (auto simp: release_thread_def Let_def call_api_sel upd_slot_def split: if_splits)
  moreover have "kept vw (k_port s) (k_port s')"
    using r by (auto simp: release_thread_def Let_def call_api_sel kept_def nothing_opened [OF assms] split: if_splits)
  ultimately show ?case using Cons.IH [where hs = hs' and s = s'] r port_only_trans kept_trans by auto
qed simp

lemma ReleaseThreads_ok:
  assumes law: "windows_closing api vw"
  shows "\<exists>s'. os_PortReleaseThreads api s = Some s' \<and> port_only s s' \<and> \<not> wp_running (k_port s') \<and>
    (\<forall>i < unat (k_task_count s). sl_thread (slot s' i) = 0 \<and> sl_gate (slot s' i) = 0) \<and>
    wp_request_event (k_port s') = wp_request_event (k_port s) \<and> wp_tick_timer (k_port s') = wp_tick_timer (k_port s) \<and>
    wp_tls_index (k_port s') = wp_tls_index (k_port s) \<and>
    process_holds vw s' = without (\<Union>i<unat (k_task_count s). slot_handles i (k_port s)) {} {} (process_holds vw s)"
proof -
  let ?xs = "[0..<unat (k_task_count s)]" and ?s = "upd_port (\<lambda>p. p\<lparr>wp_running := False\<rparr>) s"
  obtain hs t where t: "fold (release_thread api) ?xs ([], ?s) = (hs, t)" by fastforce
  with release_threads_port [OF law, where xs = ?xs and hs = "[]" and s = ?s]
  have st: "port_only s t" "\<not> wp_running (k_port t)" "kept vw (k_port ?s) (k_port t)"
    using port_only_trans [of s ?s t] by auto
  then have kt: "kept vw (k_port s) (k_port t)" by (simp add: kept_def)
  obtain u where u: "(if hs \<noteq> [] then
        case api_WaitForMultipleObjects api hs True 5000 (wp_os (k_port t)) of
          None \<Rightarrow> None
        | Some (r, w) \<Rightarrow> let v = upd_port (\<lambda>p. p\<lparr>wp_os := w\<rparr>) t
            in Some (if r = WAIT_FAILED \<or> r = WAIT_TIMEOUT then upd_port (\<lambda>p. p\<lparr>wp_failed := True\<rparr>) v else v)
      else Some t) = Some u" "port_only s u" "\<not> wp_running (k_port u)" "kept vw (k_port t) (k_port u)"
  proof (cases "hs = []")
    case True
    then show thesis using st by (intro that [of t]) simp_all
  next
    case False
    obtain r w where "api_WaitForMultipleObjects api hs True 5000 (wp_os (k_port t)) = Some (r, w)"
      "holdings (vw w) = process_holds vw t"
      using wait_all [OF law] by fast
    then show thesis
      using False st that [of "if r = WAIT_FAILED \<or> r = WAIT_TIMEOUT
        then upd_port (\<lambda>p. p\<lparr>wp_failed := True\<rparr>) (upd_port (\<lambda>p. p\<lparr>wp_os := w\<rparr>) t) else upd_port (\<lambda>p. p\<lparr>wp_os := w\<rparr>) t"]
      by (simp add: Let_def kept_def split: if_splits)
  qed
  have ku: "kept vw (k_port s) (k_port u)" by (rule kept_trans [OF kt u(4)])
  then have "slot_handles i (k_port u) = slot_handles i (k_port s)" "process_holds vw u = process_holds vw s" for i
    by (simp_all add: kept_def slot_handles_def)
  then have "process_holds vw (fold (close_slot api) ?xs u) =
      without (\<Union>i<unat (k_task_count s). slot_handles i (k_port s)) {} {} (process_holds vw s)"
    by (simp add: close_slots_holds [OF law] atLeast0LessThan)
  moreover have "os_PortReleaseThreads api s = Some (fold (close_slot api) ?xs u)"
    using t u(1) by (simp add: os_PortReleaseThreads_def Let_def split: if_splits)
  moreover have "port_only s (fold (close_slot api) ?xs u)"
    by (rule port_only_trans [OF u(2) fold_port_only [OF close_port_only]])
  ultimately show ?thesis using close_slots [of api ?xs u] u(3) ku by (auto simp: kept_def)
qed

lemma CloseRuntime_ok:
  "port_only s (os_PortCloseRuntimeObjects api s) \<and>
   wp_slots (k_port (os_PortCloseRuntimeObjects api s)) = wp_slots (k_port s) \<and>
   wp_running (k_port (os_PortCloseRuntimeObjects api s)) = wp_running (k_port s) \<and>
   wp_failed (k_port (os_PortCloseRuntimeObjects api s)) = wp_failed (k_port s) \<and>
   wp_request_event (k_port (os_PortCloseRuntimeObjects api s)) = 0 \<and>
   wp_tick_timer (k_port (os_PortCloseRuntimeObjects api s)) = 0 \<and>
   wp_tls_index (k_port (os_PortCloseRuntimeObjects api s)) = TLS_OUT_OF_INDEXES"
  by (simp add: os_PortCloseRuntimeObjects_def Let_def call_api_sel)

lemma CloseRuntime_holds:
  assumes "windows_creation api vw" "windows_closing api vw"
  shows "process_holds vw (os_PortCloseRuntimeObjects api s) =
    without ({wp_request_event (k_port s), wp_tick_timer (k_port s)} - {0}) ({wp_tls_index (k_port s)} - {TLS_OUT_OF_INDEXES})
      ({wp_tick_timer (k_port s)} - {0}) (process_holds vw s)"
proof -
  have if_diff: "{a, b} - {0} = (if a \<noteq> 0 then {a} else {}) \<union> (if b \<noteq> 0 then {b} else {})"
    "{b} - {c} = (if b \<noteq> c then {b} else {})" for a b c :: u32 by auto
  show ?thesis
    unfolding if_diff
    by (simp add: os_PortCloseRuntimeObjects_def Let_def call_api_sel closed_holdings [OF assms(2)] unseen [OF assms(1)]
        insert_commute)
qed

text \<open>All that the port's variables name is closed, whatever they are and whatever state the threads are in.\<close>

lemma port_handles_eq:
  "port_handles q n = (\<Union>i<n. slot_handles i q) \<union> ({wp_request_event q, wp_tick_timer q} - {0})"
  by (auto simp: port_handles_def slot_handles_def)

lemma clean_up:
  assumes "windows_creation api vw" "windows_closing api vw"
  shows "\<exists>t. os_PortReleaseThreads api s = Some t \<and> port_only s (os_PortCloseRuntimeObjects api t) \<and>
    released (unat (k_task_count s)) (k_port (os_PortCloseRuntimeObjects api t)) \<and>
    process_holds vw (os_PortCloseRuntimeObjects api t) =
      without (port_handles (k_port s) (unat (k_task_count s))) ({wp_tls_index (k_port s)} - {TLS_OUT_OF_INDEXES})
        ({wp_tick_timer (k_port s)} - {0}) (process_holds vw s)"
proof -
  obtain t where t: "os_PortReleaseThreads api s = Some t" "port_only s t" "\<not> wp_running (k_port t)"
    "\<forall>i < unat (k_task_count s). sl_thread (slot t i) = 0 \<and> sl_gate (slot t i) = 0"
    "wp_request_event (k_port t) = wp_request_event (k_port s)" "wp_tick_timer (k_port t) = wp_tick_timer (k_port s)"
    "wp_tls_index (k_port t) = wp_tls_index (k_port s)"
    "process_holds vw t = without (\<Union>i<unat (k_task_count s). slot_handles i (k_port s)) {} {} (process_holds vw s)"
    using ReleaseThreads_ok [OF assms(2)] by blast
  with CloseRuntime_ok [of t api] port_only_trans [OF t(2)] CloseRuntime_holds [OF assms, of t] show ?thesis
    by (auto simp: released_def port_handles_eq)
qed

lemma create_port_only:
  "port_only s (snd (create_slot api i s))"
  "port_only s (snd (create_slots api xs s))"
  "port_only s (snd (os_PortCreateRuntimeObjects api s))"
proof -
  have slot: "port_only s (snd (create_slot api i s))" for i s
    by (simp add: create_slot_def Let_def call_api_sel)
  have slots: "port_only s (snd (create_slots api xs s))" for xs s
  proof (induction xs arbitrary: s)
    case (Cons i xs)
    obtain b t where t: "create_slot api i s = (b, t)" by fastforce
    then have "port_only s t" using slot [of s i] by simp
    then show ?case using Cons [of t] port_only_trans by (auto simp: t)
  qed simp
  show "port_only s (snd (create_slot api i s))" "port_only s (snd (create_slots api xs s))" by (rule slot slots)+
  have after: "port_only s u" if "create_slots api xs t = (b, u)" "port_only s t" for xs t b u
    using slots [of t xs] that port_only_trans by simp
  show "port_only s (snd (os_PortCreateRuntimeObjects api s))"
    unfolding os_PortCreateRuntimeObjects_def Let_def call_api_sel
    by (auto split: prod.split intro: after)
qed

lemma StopAll_stops:
  "k_current (os_KernelStopAll s) = None \<and> k_port (os_KernelStopAll s) = k_port s \<and>
   k_task_count (os_KernelStopAll s) = k_task_count s \<and>
   (\<forall>t < unat (k_task_count s). t_state (k_tasks (os_KernelStopAll s) t) = OS_TASK_TERMINATED)"
proof -
  have "k_current (fold stop_task xs s) = k_current s \<and> k_port (fold stop_task xs s) = k_port s \<and>
      k_task_count (fold stop_task xs s) = k_task_count s \<and>
      (\<forall>t. t_state (k_tasks (fold stop_task xs s) t) = (if t \<in> set xs then OS_TASK_TERMINATED else t_state (k_tasks s t)))"
    for xs and s :: "'a kernel"
    by (induction xs arbitrary: s) (simp_all add: stop_task_def Let_def upd_task_def)
  then show ?thesis by (simp add: os_KernelStopAll_def Let_def)
qed

subsection \<open>What the port has opened\<close>

text \<open>
  \<open>owned\<close>: beside what the process held before the start, \<open>B\<close>, it holds what the port's variables name, and
  no more. It holds at every moment of the creation, whichever call fails.
\<close>

definition owned :: "('w \<Rightarrow> win32_view) \<Rightarrow> nat \<Rightarrow> handle set \<times> u32 set \<times> handle set \<Rightarrow> 'w win32_port \<Rightarrow> bool" where
  "owned vw n B q \<longleftrightarrow> (case B of (H, X, A) \<Rightarrow>
     v_handles (vw (wp_os q)) = H \<union> port_handles q n \<and> H \<inter> port_handles q n = {} \<and>
     v_tls_indexes (vw (wp_os q)) = X \<union> ({wp_tls_index q} - {TLS_OUT_OF_INDEXES}) \<and>
     X \<inter> ({wp_tls_index q} - {TLS_OUT_OF_INDEXES}) = {} \<and>
     A \<subseteq> v_armed (vw (wp_os q)) \<and> v_armed (vw (wp_os q)) \<subseteq> A \<union> ({wp_tick_timer q} - {0}) \<and>
     A \<inter> ({wp_tick_timer q} - {0}) = {})"

lemma owned_without:
  assumes "owned vw n B q"
  shows "without (port_handles q n) ({wp_tls_index q} - {TLS_OUT_OF_INDEXES}) ({wp_tick_timer q} - {0})
    (holdings (vw (wp_os q))) = B"
  using assms by (auto simp: owned_def without_def holdings_def split: prod.splits)

lemma kept_owned: "kept vw q q' \<Longrightarrow> owned vw n B q \<Longrightarrow> owned vw n B q'"
  by (auto simp: owned_def kept_def holdings_def port_handles_def split: prod.splits)

lemma slot_opened:
  assumes "owned vw n B q" "k < n" "sl_thread (wp_slots q k) = 0" "sl_gate (wp_slots q k) = 0"
    and "v_handles (vw (wp_os q')) = v_handles (vw (wp_os q)) \<union> ({sl_thread S, sl_gate S} - {0})"
      "v_handles (vw (wp_os q)) \<inter> ({sl_thread S, sl_gate S} - {0}) = {}"
      "v_tls_indexes (vw (wp_os q')) = v_tls_indexes (vw (wp_os q))" "v_armed (vw (wp_os q')) = v_armed (vw (wp_os q))"
    and same: "wp_slots q' = (wp_slots q)(k := S)" "wp_request_event q' = wp_request_event q"
      "wp_tick_timer q' = wp_tick_timer q" "wp_tls_index q' = wp_tls_index q"
  shows "owned vw n B q'"
proof -
  have "port_handles q' n = port_handles q n \<union> ({sl_thread S, sl_gate S} - {0})"
    using assms(2-4) same by (auto simp: port_handles_def split: if_splits)
  then show ?thesis using assms(1,5-8) same by (auto simp: owned_def split: prod.splits)
qed

lemma create_slot_owned:
  assumes law: "windows_creation api vw" "windows_closing api vw" and q: "owned vw n B (k_port s)"
    and k: "k < n" "sl_thread (slot s k) = 0" "sl_gate (slot s k) = 0"
    and run: "create_slot api k s = (b, s')"
  shows "owned vw n B (k_port s') \<and> (\<forall>j. j \<noteq> k \<longrightarrow> slot s' j = slot s j)"
proof -
  let ?q = "k_port s" and ?w = "wp_os (k_port s)"
  obtain g w1 where g: "api_CreateEventA api False False ?w = (g, w1)" by fastforce
  obtain h w2 where h: "api_CreateThread api k w1 = (h, w2)" by fastforce
  obtain m w3 where m: "api_SetThreadAffinityMask api h 1 w2 = (m, w3)" by fastforce
  obtain c w4 where c: "api_SetThreadPriority api h THREAD_PRIORITY_NORMAL w3 = (c, w4)" by fastforce
  have unseen: "vw w3 = vw w2" "vw w4 = vw w3"
    using unseen(1) [OF law(1), of h 1 w2] unseen(2) [OF law(1), of h THREAD_PRIORITY_NORMAL w3] m c by simp_all
  have G: "if g = 0 then vw w1 = vw ?w else g \<notin> v_handles (vw ?w) \<and>
      vw w1 = signal g False ((vw ?w)\<lparr>v_handles := insert g (v_handles (vw ?w))\<rparr>)"
    using create_event [OF law(1) g] not_created(1) [OF law(2)] g by auto
  have H: "if h = 0 then vw w2 = vw w1 else h \<notin> v_handles (vw w1) \<and>
      vw w2 = suspend_count h 1 ((vw w1)\<lparr>v_handles := insert h (v_handles (vw w1))\<rparr>)"
    using create_thread [OF law(1) h] not_created(3) [OF law(2)] h by auto
  note run_simps = create_slot_def call_api_def Let_def upd_slot_def upd_port_def
  let ?S0 = "(slot s k)\<lparr>sl_task := Some k, sl_gate := 0\<rparr>"
  let ?S1 = "(slot s k)\<lparr>sl_task := Some k, sl_gate := g, sl_thread := 0\<rparr>"
  let ?S2 = "(slot s k)\<lparr>sl_task := Some k, sl_gate := g, sl_thread := h, sl_suspended := True,
      sl_phase := OS_PORT_PHASE_CREATED, sl_request := None, sl_response := OS_STATUS_BAD_STATE\<rparr>"
  obtain S where S: "slot s' = (slot s)(k := S)" "wp_request_event (k_port s') = wp_request_event ?q"
    "wp_tick_timer (k_port s') = wp_tick_timer ?q" "wp_tls_index (k_port s') = wp_tls_index ?q" "sl_gate S = g"
    "g = 0 \<and> sl_thread S = 0 \<and> wp_os (k_port s') = w1 \<or> g \<noteq> 0 \<and> sl_thread S = h \<and> wp_os (k_port s') \<in> {w2, w3, w4}"
  proof -
    consider "g = 0" | "g \<noteq> 0" "h = 0" | "g \<noteq> 0" "h \<noteq> 0" by blast
    then show thesis
    proof cases
      case 1
      then have "s' = s\<lparr>k_port := ?q\<lparr>wp_os := w1, wp_slots := (wp_slots ?q)(k := ?S0)\<rparr>\<rparr>"
        using run g by (auto simp: run_simps)
      with 1 k show thesis by (intro that [of ?S0]) (simp_all add: fun_eq_iff)
    next
      case 2
      then have "s' = s\<lparr>k_port := ?q\<lparr>wp_os := w2, wp_slots := (wp_slots ?q)(k := ?S1)\<rparr>\<rparr>"
        using run g h by (auto simp: run_simps)
      with 2 show thesis by (intro that [of ?S1]) (simp_all add: fun_eq_iff)
    next
      case 3
      then have "s' = s\<lparr>k_port := ?q\<lparr>wp_slots := (wp_slots ?q)(k := ?S2), wp_os := if m = 0 then w3 else w4\<rparr>\<rparr>"
        using run g h m c by (auto simp: run_simps split: if_splits)
      with 3 show thesis by (intro that [of ?S2]) (simp_all add: fun_eq_iff)
    qed
  qed
  have "owned vw n B (k_port s')"
    by (rule slot_opened [OF q k, where S = S]) (use S G H unseen in \<open>auto split: if_splits\<close>)
  then show ?thesis using S(1) by simp
qed

lemma create_slots_owned:
  assumes law: "windows_creation api vw" "windows_closing api vw"
  shows "owned vw n B (k_port s) \<Longrightarrow> distinct xs \<Longrightarrow>
    \<forall>k\<in>set xs. k < n \<and> sl_thread (slot s k) = 0 \<and> sl_gate (slot s k) = 0 \<Longrightarrow>
    create_slots api xs s = (b, s') \<Longrightarrow> owned vw n B (k_port s')"
proof (induction xs arbitrary: s)
  case (Cons k xs)
  obtain c t where t: "create_slot api k s = (c, t)" by fastforce
  have "k < n" "sl_thread (slot s k) = 0" "sl_gate (slot s k) = 0" using Cons.prems(3) by simp_all
  from create_slot_owned [OF law Cons.prems(1) this t] Cons.prems
  have "owned vw n B (k_port t)" "\<forall>j\<in>set xs. j < n \<and> sl_thread (slot t j) = 0 \<and> sl_gate (slot t j) = 0"
    by auto
  then show ?case using Cons.IH [of t] Cons.prems(2,4) t by (auto split: if_splits)
qed simp

lemma runtime_objects_owned:
  assumes law: "windows_creation api vw" "windows_closing api vw"
    and zero: "wp_slots (k_port s) = (\<lambda>_. zero_slot)"
    and run: "os_PortCreateRuntimeObjects api s = (b, s')"
  shows "owned vw (unat (k_task_count s)) (process_holds vw s) (k_port s')"
proof -
  let ?q = "k_port s" and ?n = "unat (k_task_count s)" and ?me = "api_GetCurrentThread api" and ?B = "process_holds vw s"
  obtain e w1 where e: "api_CreateEventA api False False (wp_os ?q) = (e, w1)" by fastforce
  obtain t w2 where t: "api_CreateWaitableTimerA api False w1 = (t, w2)" by fastforce
  obtain x w3 where x: "api_TlsAlloc api w2 = (x, w3)" by fastforce
  define q1 where "q1 = ?q\<lparr>wp_request_event := e, wp_tick_timer := t, wp_os := w3, wp_tls_index := x\<rparr>"
  have E: "if e = 0 then vw w1 = vw (wp_os ?q) else e \<notin> v_handles (vw (wp_os ?q)) \<and>
      vw w1 = signal e False ((vw (wp_os ?q))\<lparr>v_handles := insert e (v_handles (vw (wp_os ?q)))\<rparr>)"
    using create_event [OF law(1) e] not_created(1) [OF law(2)] e by auto
  have T: "if t = 0 then vw w2 = vw w1 else t \<notin> v_handles (vw w1) \<and> t \<notin> v_armed (vw w1) \<and>
      vw w2 = signal t False ((vw w1)\<lparr>v_handles := insert t (v_handles (vw w1))\<rparr>)"
    using create_timer [OF law(1) t] not_created(2) [OF law(2)] t by auto
  have X: "if x = TLS_OUT_OF_INDEXES then vw w3 = vw w2 else x \<notin> v_tls_indexes (vw w2) \<and>
      vw w3 = (vw w2)\<lparr>v_tls_indexes := insert x (v_tls_indexes (vw w2))\<rparr>"
    using alloc_index [OF law(1) x] not_created(4) [OF law(2)] x by auto
  have "port_handles q1 ?n = {e, t} - {0}" by (auto simp: port_handles_def q1_def zero zero_slot_def)
  then have own: "owned vw ?n ?B q1"
    using E T X by (auto simp: owned_def holdings_def q1_def split: if_splits)
  obtain c s2 where s2: "create_slots api [0..<?n] (s\<lparr>k_port := q1\<rparr>) = (c, s2)" by fastforce
  have "owned vw ?n ?B (k_port s2)"
    by (rule create_slots_owned [OF law _ _ _ s2]) (use own in \<open>simp_all add: q1_def zero zero_slot_def\<close>)
  moreover have "s' = s\<lparr>k_port := q1\<rparr> \<or> kept vw (k_port s2) (k_port s')"
    using run e t x s2
    by (auto simp: os_PortCreateRuntimeObjects_def call_api_sel Let_def upd_port_def q1_def kept_def unseen [OF law(1)]
        split: if_splits)
  ultimately show ?thesis using own kept_owned [of vw "k_port s2" "k_port s'"] by (elim disjE) simp_all
qed

text \<open>
  A start either comes as far as the control loop or leaves only the port changed, with everything closed.
\<close>

lemma activated_port_only:
  "os_PortActivate api c s = (b, s') \<Longrightarrow> port_only s s'"
  by (auto simp: os_PortActivate_def call_api_sel Let_def split: option.splits if_splits)

text \<open>A start either comes as far as the control loop or leaves only the port changed, with everything closed.\<close>

lemma start_refused:
  assumes law: "windows_creation api vw" "windows_closing api vw"
    and s: "orderly s" and start: "k_initialized s" "\<not> k_started s" "k_task_count s \<noteq> 0"
  shows "\<exists>s'. start_scheduler_begin api n s = Some (None, s') \<and> k_started s' \<and> k_current s' \<noteq> None \<or>
    start_scheduler_begin api n s = Some (Some OS_STATUS_BAD_STATE, s') \<and> port_only s s' \<and>
    released (unat (k_task_count s)) (k_port s') \<and> process_holds vw s' = process_holds vw s"
proof -
  let ?s = "os_PortEnableVirtualTerminal api (upd_port (clear_runtime n) s)"
  have s0: "port_only s ?s"
    by (auto simp: os_PortEnableVirtualTerminal_def Let_def split: option.split)
  have zero: "wp_slots (k_port ?s) = (\<lambda>_. zero_slot)" "process_holds vw ?s = process_holds vw s"
    by (auto simp: os_PortEnableVirtualTerminal_def Let_def clear_runtime_def call_api_sel unseen [OF law(1)] split: option.split)
  obtain c t where t: "os_PortCreateRuntimeObjects api ?s = (c, t)" by fastforce
  obtain b u where u: "(if c then os_PortStartTimer api t else (False, t)) = (b, u)" by fastforce
  have "port_only ?s t" using create_port_only(3) [of ?s api] t by simp
  then have t_only: "port_only s t" using s0 port_only_trans by blast
  then have u_only: "port_only s u"
    using u by (auto simp: os_PortStartTimer_def call_api_sel split: if_splits)
  have count: "k_task_count ?s = k_task_count s" "k_task_count u = k_task_count s" using s0 u_only by (auto simp: port_only_def)
  show ?thesis
  proof (cases b)
    case True
    let ?u = "upd_port (\<lambda>p. p\<lparr>wp_running := True\<rparr>) u"
    have "orderly ?u" "\<not> k_started ?u" "k_task_count ?u \<noteq> 0" using u_only s start by (auto simp: port_only_def)
    from returnsD [OF SchedStart_framed [OF this]] obtain r v where
      v: "os_SchedStart ?u = Some (r, v)" "r \<noteq> None" "k_current v = r" "frame v = frame (?u\<lparr>k_started := True\<rparr>)"
      by auto
    then have v': "k_started v" "k_current v \<noteq> None" by (simp_all add: frame_def)
    obtain d x where x: "os_PortActivate api (k_current v) v = (d, x)" by fastforce
    have only: "port_only v x" by (rule activated_port_only [OF x])
    let ?t = "if r = None \<or> \<not> os_KernelValidate v then os_PortFail v
      else let (ok, s) = os_PortActivate api (k_current v) v in if ok then s else os_PortFail s"
    have "start_scheduler_begin api n s = Some (None, ?t)"
      using start t u True v(1) by (simp add: start_scheduler_begin_def)
    moreover have "k_started ?t \<and> k_current ?t \<noteq> None"
      using v' only by (auto simp: x os_PortFail_def port_only_def)
    ultimately show ?thesis by blast
  next
    case b: False
    have "owned vw (unat (k_task_count u)) (process_holds vw s) (k_port t)"
      using runtime_objects_owned [OF law zero(1) t] by (simp only: zero(2) count)
    moreover have "kept vw (k_port t) (k_port u)"
      using u b set_timer [OF law(1) surjective_pairing]
      by (auto simp: os_PortStartTimer_def call_api_sel kept_def split: if_splits)
    ultimately have own: "owned vw (unat (k_task_count u)) (process_holds vw s) (k_port u)"
      using kept_owned by blast
    let ?u = "upd_port (\<lambda>p. p\<lparr>wp_failed := True\<rparr>) u"
    obtain v where v: "os_PortReleaseThreads api ?u = Some v" "port_only ?u (os_PortCloseRuntimeObjects api v)"
      "released (unat (k_task_count u)) (k_port (os_PortCloseRuntimeObjects api v))"
      "process_holds vw (os_PortCloseRuntimeObjects api v) = process_holds vw s"
      using clean_up [OF law, of ?u] owned_without [OF own] by auto
    have "start_scheduler_begin api n s = Some (Some OS_STATUS_BAD_STATE, os_PortCloseRuntimeObjects api v)"
      using start t u b v(1) by (simp add: start_scheduler_begin_def)
    moreover have "port_only s (os_PortCloseRuntimeObjects api v)"
      using u_only v(2) port_only_trans port_only_upd(1) by blast
    ultimately show ?thesis using v(3,4) count(2) by auto
  qed
qed

lemma end_ok:
  assumes "windows_creation api vw" "windows_closing api vw"
  shows "\<exists>status s'. start_scheduler_end api s = Some (status, s') \<and> released (unat (k_task_count s)) (k_port s') \<and>
    k_current s' = None \<and> (\<forall>t < unat (k_task_count s). t_state (k_tasks s' t) = OS_TASK_TERMINATED) \<and>
    (status = OS_STATUS_OK \<longleftrightarrow> \<not> os_PortFailed s') \<and>
    process_holds vw s' = without (port_handles (k_port s) (unat (k_task_count s)))
      ({wp_tls_index (k_port s)} - {TLS_OUT_OF_INDEXES}) ({wp_tick_timer (k_port s)} - {0}) (process_holds vw s)"
proof -
  obtain t where t: "os_PortReleaseThreads api s = Some t" "port_only s (os_PortCloseRuntimeObjects api t)"
    "released (unat (k_task_count s)) (k_port (os_PortCloseRuntimeObjects api t))"
    "process_holds vw (os_PortCloseRuntimeObjects api t) = without (port_handles (k_port s) (unat (k_task_count s)))
      ({wp_tls_index (k_port s)} - {TLS_OUT_OF_INDEXES}) ({wp_tick_timer (k_port s)} - {0}) (process_holds vw s)"
    using clean_up [OF assms] by blast
  then have "k_task_count (os_PortCloseRuntimeObjects api t) = k_task_count s" by (auto simp: port_only_def)
  with t StopAll_stops [of "os_PortCloseRuntimeObjects api t"] show ?thesis
    by (auto simp: start_scheduler_end_def Let_def)
qed

subsection \<open>A whole run\<close>

lemma start_owned:
  assumes w: "windows api vw" and law: "windows_creation api vw" "windows_closing api vw"
    and s: "orderly s" "\<not> wp_switch_pended (k_port s)"
    and run: "start_scheduler_begin api n s = Some (None, s')"
  shows "owned vw (unat (k_task_count s')) (process_holds vw s) (k_port s')"
proof -
  let ?s = "os_PortEnableVirtualTerminal api (upd_port (clear_runtime n) s)"
  obtain s1 u where s1: "os_PortCreateRuntimeObjects api ?s = (True, s1)" "wp_tick_timer (k_port s1) \<noteq> 0"
    "vw u = signal (wp_tick_timer (k_port s1)) False ((vw (wp_os (k_port s1)))
      \<lparr>v_armed := insert (wp_tick_timer (k_port s1)) (v_armed (vw (wp_os (k_port s1))))\<rparr>)"
    "kept vw ((k_port s1)\<lparr>wp_os := u\<rparr>) (k_port s')" "k_task_count s' = k_task_count s"
    using start_ok(2) [OF w law(1) s run] by blast
  have zero: "wp_slots (k_port ?s) = (\<lambda>_. zero_slot)" "process_holds vw ?s = process_holds vw s" "k_task_count ?s = k_task_count s"
    by (auto simp: os_PortEnableVirtualTerminal_def Let_def clear_runtime_def call_api_sel unseen [OF law(1)] split: option.split)
  have "owned vw (unat (k_task_count s)) (process_holds vw s) (k_port s1)"
    using runtime_objects_owned [OF law zero(1) s1(1)] by (simp only: zero(2,3))
  then have "owned vw (unat (k_task_count s)) (process_holds vw s) ((k_port s1)\<lparr>wp_os := u\<rparr>)"
    using s1(2) by (auto simp: owned_def s1(3) split: prod.splits)
  with kept_owned [OF s1(4)] s1(5) show ?thesis by simp
qed

lemma run_owned:
  assumes w: "windows api vw" and ok: "win32_ok vw (p, s)" and own: "owned vw (unat (k_task_count s)) B (k_port s)"
    and run: "(win32_step quiet api vw)\<^sup>*\<^sup>* (p, s) (p', s')"
  shows "win32_ok vw (p', s') \<and> owned vw (unat (k_task_count s')) B (k_port s')"
  using run
proof (induction rule: rtranclp_induct2)
  case refl
  then show ?case using ok own by simp
next
  case (step p1 s1 p2 s2)
  then show ?case
    using win32_step_ok [OF w step.hyps(2)] step_kept [OF w _ step.hyps(2)]
      kept_owned [of vw "k_port s1" "k_port s2" "unat (k_task_count s1)" B] by simp
qed

end
