(* ===== verification/Win32_Example.thy ===== *)
theory Win32_Example
  imports Win32_Shutdown Kernel_Example
begin

section \<open>An example of Windows\<close>

text \<open>
  A Windows API with the promised behaviour, small enough to compute with, and two states of the port
  on it: the state after the start, and the example kernel with its tasks on threads. The
  properties of the Windows port are applied to them.
\<close>

record demo_world =
  d_next :: nat
  d_open :: "handle set"
  d_indexes :: "u32 set"
  d_armed :: "handle set"
  d_signalled :: "handle \<Rightarrow> bool"
  d_suspends :: "handle \<Rightarrow> nat"
  d_tls :: "handle \<Rightarrow> u32 \<Rightarrow> nat option"

text \<open>Handles are numbers from 1 up to the last one given out; there are at most 100.\<close>

definition demo_given :: "demo_world \<Rightarrow> handle set" where
  "demo_given w = {h. 0 < unat h \<and> unat h \<le> d_next w}"

definition demo_view :: "demo_world \<Rightarrow> win32_view" where
  "demo_view w = \<lparr>v_handles = d_open w \<inter> demo_given w, v_tls_indexes = d_indexes w, v_armed = d_armed w \<inter> demo_given w,
     v_signalled = d_signalled w, v_suspends = d_suspends w, v_tls = d_tls w\<rparr>"

definition demo_signal :: "handle \<Rightarrow> bool \<Rightarrow> demo_world \<Rightarrow> demo_world" where
  "demo_signal h b w = w\<lparr>d_signalled := (d_signalled w)(h := b)\<rparr>"

definition demo_suspend :: "handle \<Rightarrow> nat \<Rightarrow> demo_world \<Rightarrow> demo_world" where
  "demo_suspend h n w = w\<lparr>d_suspends := (d_suspends w)(h := n)\<rparr>"

definition demo_create :: "(handle \<Rightarrow> demo_world \<Rightarrow> demo_world) \<Rightarrow> demo_world \<Rightarrow> handle \<times> demo_world" where
  "demo_create f w =
     (if 100 \<le> d_next w then (0, w)
      else let h = of_nat (Suc (d_next w))
        in (h, f h (w\<lparr>d_next := Suc (d_next w), d_open := insert h (d_open w), d_armed := d_armed w - {h}\<rparr>)))"

definition demo_api :: "demo_world win32_api" where
  "demo_api = \<lparr>
     api_CreateEventA = (\<lambda>manual b. demo_create (\<lambda>h. demo_signal h b)),
     api_CreateWaitableTimerA = (\<lambda>manual. demo_create (\<lambda>h. demo_signal h False)),
     api_CreateThread = (\<lambda>i. demo_create (\<lambda>h. demo_suspend h 1)),
     api_GetCurrentThread = 0xFFFFFFFE,
     api_SetEvent = (\<lambda>h w. (True, demo_signal h True w)),
     api_WaitForSingleObject = (\<lambda>h w. if d_signalled w h then Some (WAIT_OBJECT_0, demo_signal h False w) else None),
     api_WaitForMultipleObjects = (\<lambda>hs wait_all timeout w.
       if wait_all then Some (WAIT_OBJECT_0, w)
       else case hs of
         [a, b] \<Rightarrow> if d_signalled w a then Some (WAIT_OBJECT_0, demo_signal a False w)
                   else if d_signalled w b then Some (WAIT_OBJECT_0 + 1, demo_signal b False w) else None
       | _ \<Rightarrow> None),
     api_SuspendThread = (\<lambda>h w. (of_nat (d_suspends w h), demo_suspend h (d_suspends w h + 1) w)),
     api_ResumeThread = (\<lambda>h w. (of_nat (d_suspends w h), demo_suspend h (d_suspends w h - 1) w)),
     api_SetThreadAffinityMask = (\<lambda>h m w. (1, w)),
     api_SetThreadPriority = (\<lambda>h n w. (True, w)),
     api_GetThreadPriority = (\<lambda>h w. (THREAD_PRIORITY_NORMAL, w)),
     api_SetWaitableTimer = (\<lambda>h t period w. if h \<in> d_open w \<inter> demo_given w
       then (True, demo_signal h False (w\<lparr>d_armed := insert h (d_armed w)\<rparr>)) else (False, w)),
     api_CancelWaitableTimer = (\<lambda>h w. (True, w\<lparr>d_armed := d_armed w - {h}\<rparr>)),
     api_CloseHandle = (\<lambda>h w. (h \<in> d_open w, w\<lparr>d_open := d_open w - {h}\<rparr>)),
     api_TlsAlloc = (\<lambda>w. if 1 \<in> d_indexes w then (TLS_OUT_OF_INDEXES, w) else (1, w\<lparr>d_indexes := insert 1 (d_indexes w)\<rparr>)),
     api_TlsFree = (\<lambda>x w. (x \<in> d_indexes w, w\<lparr>d_indexes := d_indexes w - {x}\<rparr>)),
     api_TlsSetValue = (\<lambda>h x v w. (True, w\<lparr>d_tls := (d_tls w)(h := (d_tls w h)(x := Some v))\<rparr>)),
     api_TlsGetValue = (\<lambda>h x w. d_tls w h x),
     api_GetStdHandle = (\<lambda>n w. INVALID_HANDLE_VALUE),
     api_GetConsoleMode = (\<lambda>h w. None),
     api_SetConsoleMode = (\<lambda>h m w. (True, w)),
     api_observer = (\<lambda>f snap c w. w)\<rparr>"

lemma demo_view_simps [simp]:
  "demo_view (demo_signal h b w) = signal h b (demo_view w)"
  "demo_view (demo_suspend h n w) = suspend_count h n (demo_view w)"
  "v_signalled (demo_view w) = d_signalled w" "v_suspends (demo_view w) = d_suspends w" "v_tls (demo_view w) = d_tls w"
  by (simp_all add: demo_view_def demo_signal_def signal_def demo_suspend_def suspend_count_def demo_given_def)

lemma demo_windows: "windows demo_api demo_view"
  unfolding windows_def
  by (simp add: demo_api_def) (simp add: demo_view_def demo_given_def)

lemma demo_create:
  assumes "demo_create f w = (h, w')" "h \<noteq> 0"
  shows "h \<notin> v_handles (demo_view w)" "h \<notin> v_armed (demo_view w)"
    and "\<exists>v. w' = f h v \<and> demo_view v = (demo_view w)\<lparr>v_handles := insert h (v_handles (demo_view w))\<rparr>"
proof -
  let ?v = "w\<lparr>d_next := Suc (d_next w), d_open := insert h (d_open w), d_armed := d_armed w - {h}\<rparr>"
  have n: "d_next w < 100" "h = of_nat (Suc (d_next w))" "w' = f h ?v"
    using assms by (auto simp: demo_create_def Let_def simp del: of_nat_Suc split: if_splits)
  have "unat (of_nat (Suc (d_next w)) :: u32) = Suc (d_next w)"
    using n(1) unfolding unat_of_nat by (intro mod_less) simp
  then have h: "unat h = Suc (d_next w)" by (simp only: n(2))
  then show new: "h \<notin> v_handles (demo_view w)" "h \<notin> v_armed (demo_view w)"
    by (simp_all add: demo_view_def demo_given_def)
  have "unat k = Suc (d_next w) \<longleftrightarrow> k = h" for k by (simp only: word_unat_eq_iff [of k h] h)
  then have "0 < unat k \<and> unat k \<le> Suc (d_next w) \<longleftrightarrow> k = h \<or> 0 < unat k \<and> unat k \<le> d_next w" for k
    using h by (metis le_Suc_eq zero_less_Suc)
  then have "demo_given ?v = insert h (demo_given w)" by (auto simp: demo_given_def)
  then have "demo_view ?v = (demo_view w)\<lparr>v_handles := insert h (v_handles (demo_view w))\<rparr>"
    using new(2) by (auto simp: demo_view_def)
  with n(3) show "\<exists>v. w' = f h v \<and> demo_view v = (demo_view w)\<lparr>v_handles := insert h (v_handles (demo_view w))\<rparr>"
    by blast
qed

lemma demo_create_fails: "demo_create f w = (0, w') \<Longrightarrow> w' = w"
proof (rule ccontr)
  assume *: "demo_create f w = (0, w')" "w' \<noteq> w"
  then have n: "d_next w < 100" "(of_nat (Suc (d_next w)) :: u32) = 0"
    by (auto simp: demo_create_def Let_def simp del: of_nat_Suc split: if_splits)
  have "unat (of_nat (Suc (d_next w)) :: u32) = Suc (d_next w)"
    using n(1) unfolding unat_of_nat by (intro mod_less) simp
  then show False by (simp only: n(2)) simp
qed

lemma demo_armed:
  "h \<in> d_open w \<Longrightarrow> h \<in> demo_given w \<Longrightarrow>
    demo_view (w\<lparr>d_armed := insert h (d_armed w)\<rparr>) = (demo_view w)\<lparr>v_armed := insert h (v_armed (demo_view w))\<rparr>"
  by (auto simp: demo_view_def demo_given_def)

lemma demo_creation: "windows_creation demo_api demo_view"
  unfolding windows_creation_def
proof (intro conjI allI impI)
  fix h first period w b w'
  assume "api_SetWaitableTimer demo_api h first period w = (b, w')"
  then show "demo_view w' = (if b then signal h False ((demo_view w)\<lparr>v_armed := insert h (v_armed (demo_view w))\<rparr>)
      else demo_view w)"
    by (auto simp: demo_api_def demo_armed split: if_splits)
next
  fix w x w'
  assume x: "api_TlsAlloc demo_api w = (x, w') \<and> x \<noteq> TLS_OUT_OF_INDEXES"
  then show "x \<notin> v_tls_indexes (demo_view w)"
    "demo_view w' = (demo_view w)\<lparr>v_tls_indexes := insert x (v_tls_indexes (demo_view w))\<rparr>"
    by (auto simp: demo_api_def demo_view_def demo_given_def split: if_splits)
qed (fastforce simp: demo_api_def dest: demo_create)+

lemma demo_closing: "windows_closing demo_api demo_view"
  unfolding windows_closing_def
  by (intro conjI allI impI) (auto simp: demo_api_def holdings_def demo_view_def demo_given_def demo_signal_def demo_suspend_def
      dest: demo_create_fails split: if_splits)

text \<open>The same Windows when no thread can be created.\<close>

definition threadless_api :: "demo_world win32_api" where
  "threadless_api = demo_api\<lparr>api_CreateThread := (\<lambda>i w. (0, w))\<rparr>"

lemma threadless_creation: "windows_creation threadless_api demo_view"
  using demo_creation unfolding windows_creation_def threadless_api_def by (elim conjE, intro conjI; simp)

lemma threadless_closing: "windows_closing threadless_api demo_view"
  using demo_closing unfolding windows_closing_def by (simp add: threadless_api_def)

definition demo_port :: "demo_world win32_port" where
  "demo_port = \<lparr>wp_slots = (\<lambda>_. zero_slot), wp_request_event = 0, wp_tick_timer = 0, wp_tls_index = TLS_OUT_OF_INDEXES,
     wp_running = False, wp_failed = False, wp_run_ticks = 0, wp_pending_ticks = 0, wp_scheduler_affinity_before = 0,
     wp_scheduler_priority_before = 0, wp_observer = 0, wp_observer_context = 0, wp_critical_nesting = 0,
     wp_switch_pended = False,
     wp_os = \<lparr>d_next = 0, d_open = {}, d_indexes = {}, d_armed = {}, d_signalled = (\<lambda>_. False), d_suspends = (\<lambda>_. 0), d_tls = (\<lambda>_ _. None)\<rparr>\<rparr>"

lemma idle_created:
  assumes "os_EnsureIdleTask hal e z (os_Init s) = Some (r, s')" "e \<noteq> 0" "z \<noteq> 0"
    "fst (hal_stack_init hal e 0 z OS_IDLE_STACK_BYTES (k_memory (os_Init s))) \<noteq> 0"
  shows "r = OS_STATUS_OK \<and> k_task_count s' = 1 \<and> k_initialized s' \<and> \<not> k_started s' \<and> k_port s' = k_port s"
proof -
  have i: "k_initialized (os_Init s)" "\<not> k_started (os_Init s)" "k_task_count (os_Init s) = 0" "k_idle_task (os_Init s) = None"
    by (simp_all add: Init_eq init_spec_def)
  have name: "os_TaskNameLength (Some ''Idle'') = 4" by (simp add: os_TaskNameLength_def eval_nat_numeral)
  show ?thesis
    using assms i
    by (auto simp: os_EnsureIdleTask_def os_TaskCreateInternal_def name Let_def on_heap_def
        os_ReadyEnqueue_def upd_task_def split: if_splits prod.splits Option.bind_splits)
qed

lemma demo_begin:
  assumes s: "orderly s" "k_task_count s = 1" "k_initialized s" "\<not> k_started s" "d_next (wp_os (k_port s)) = 0" "d_indexes (wp_os (k_port s)) = {}"
    "\<not> wp_switch_pended (k_port s)"
  shows "\<exists>s'. start_scheduler_begin demo_api n s = Some (None, s')"
proof -
  define s0 where "s0 = s\<lparr>k_port := (clear_runtime n (k_port s))\<rparr>"
  have "fst (os_PortCreateRuntimeObjects demo_api s0)"
    using s(2,5,6)
    unfolding s0_def
    by (simp add: os_PortCreateRuntimeObjects_def call_api_def upd_port_def demo_api_def demo_create_def clear_runtime_def
        Let_def create_slot_def upd_slot_def demo_signal_def demo_suspend_def)
  then obtain s1 where s1: "os_PortCreateRuntimeObjects demo_api s0 = (True, s1)"
    by (cases "os_PortCreateRuntimeObjects demo_api s0") auto
  have "created demo_view (unat (k_task_count s0)) (bases s) (k_port s1)" "s1 = s0\<lparr>k_port := k_port s1\<rparr>"
    using runtime_objects_created [OF demo_creation _ _ s1, of "bases s"] assms
    by (simp_all add: s0_def clear_runtime_def)
  then obtain q where q: "s1 = s\<lparr>k_port := q\<rparr>" "created demo_view (unat (k_task_count s0)) (bases s) q"
    by (auto simp: s0_def)
  then have timer: "wp_tick_timer q \<in> v_handles (demo_view (wp_os q))"
    unfolding created_def by (intro open_handles(4)) blast
  obtain w where w: "os_PortStartTimer demo_api s1 = (True, s\<lparr>k_port := q\<lparr>wp_os := w\<rparr>\<rparr>)"
    using timer by (simp add: os_PortStartTimer_def call_api_def demo_api_def q(1) upd_port_def demo_view_def)
  define s2 where "s2 = s\<lparr>k_port := q\<lparr>wp_os := w, wp_running := True\<rparr>\<rparr>"
  obtain f s3 where "os_SchedStart s2 = Some (f, s3)"
    using SchedStart_orderly [of s2] s(1) by (auto simp: s2_def dest!: returnsD)
  moreover have "os_PortEnableVirtualTerminal demo_api u = u" for u
    by (simp add: os_PortEnableVirtualTerminal_def demo_api_def)
  ultimately show ?thesis
    using s s1 w
    by (simp add: start_scheduler_begin_def s0_def [unfolded upd_port_def, symmetric] s2_def upd_port_def)
qed

text \<open>A kernel that is ready to start.\<close>

lemma demo_idle:
  "\<exists>s. os_EnsureIdleTask (win32_hal demo_api) 0x100 0x8000 (os_Init (example demo_port)) = Some (OS_STATUS_OK, s) \<and> orderly s \<and>
    k_task_count s = 1 \<and> k_initialized s \<and> \<not> k_started s \<and> k_port s = demo_port"
proof -
  obtain r s where s: "os_EnsureIdleTask (win32_hal demo_api) 0x100 0x8000 (os_Init (example demo_port)) = Some (r, s)" "orderly s"
    using returnsD [OF EnsureIdleTask_orderly [OF orderly_init]] by fast
  moreover have "r = OS_STATUS_OK \<and> k_task_count s = 1 \<and> k_initialized s \<and> \<not> k_started s \<and> k_port s = demo_port"
    using idle_created [OF s(1)] by (simp add: win32_hal_def os_port_stack_init_win32_def)
  ultimately show ?thesis by blast
qed

lemma threadless_start:
  assumes "k_task_count s = 1"
  shows "start_scheduler_begin threadless_api n s \<noteq> Some (None, s')"
proof -
  have "os_PortEnableVirtualTerminal threadless_api u = u" for u
    by (simp add: os_PortEnableVirtualTerminal_def threadless_api_def demo_api_def)
  moreover have "\<not> fst (os_PortCreateRuntimeObjects threadless_api u)" if "k_task_count u = 1" for u
    using that by (simp add: os_PortCreateRuntimeObjects_def Let_def call_api_sel create_slot_def upd_slot_def threadless_api_def
        split: prod.split)
  from this [of "upd_port (clear_runtime n) s"] assms
  obtain t where "os_PortCreateRuntimeObjects threadless_api (upd_port (clear_runtime n) s) = (False, t)"
    by (cases "os_PortCreateRuntimeObjects threadless_api (upd_port (clear_runtime n) s)") auto
  ultimately show ?thesis by (simp add: start_scheduler_begin_def split: Option.bind_split)
qed

text \<open>A start of the system: only the Idle task has been created.\<close>

lemma demo_reachable:
  "\<exists>s. win32_reachable q demo_api demo_view (\<lambda>_. At_Entry, s) \<and> wp_running (k_port s) \<and> k_current s \<noteq> None"
proof -
  let ?s = "os_Init (example demo_port)"
  have booted: "win32_setup demo_api ?s" by (rule setup_init) (simp add: demo_port_def)
  obtain s1 where s1: "os_EnsureIdleTask (win32_hal demo_api) 0x100 0x8000 ?s = Some (OS_STATUS_OK, s1)" "orderly s1"
    "k_task_count s1 = 1" "k_initialized s1" "\<not> k_started s1" "k_port s1 = demo_port"
    using demo_idle by blast
  with demo_begin [OF s1(2)] obtain s2 where s2: "start_scheduler_begin demo_api 0 s1 = Some (None, s2)"
    "\<not> wp_switch_pended (k_port s1)" by (auto simp: demo_port_def)
  then have "os_Start (win32_hal demo_api) 0x100 0x8000 (start_scheduler_begin demo_api) 0 ?s = Some (None, s2)"
    using s1(1) by (simp add: os_Start_def)
  with start_ok(1) [OF demo_windows demo_creation s1(2) s2(2,1)] win32_started [OF booted] show ?thesis by blast
qed

text \<open>
  The example kernel: its running task 2 has the slot \<open>S\<close>, the other ready tasks were suspended
  in their own code, and the blocked ones wait at their gates.
\<close>

definition demo_slot :: "nat \<Rightarrow> os_port_task_slot_t" where
  "demo_slot i = zero_slot\<lparr>sl_task := Some i, sl_thread := of_nat (2 * i + 3), sl_gate := of_nat (2 * i + 4),
     sl_phase := (if i \<in> {3, 4, 5, 6} then OS_PORT_PHASE_REQUEST else OS_PORT_PHASE_USER),
     sl_suspended := i \<in> {0, 1, 7}\<rparr>"

definition demo_threads :: "os_port_task_slot_t \<Rightarrow> (handle \<Rightarrow> bool) \<Rightarrow> demo_world win32_port" where
  "demo_threads S signals = demo_port\<lparr>wp_slots := demo_slot(2 := S), wp_request_event := 1, wp_tick_timer := 2,
     wp_tls_index := 1, wp_running := True,
     wp_os := \<lparr>d_next = 18, d_open = {h. unat h \<le> 18}, d_indexes = {1}, d_armed = {2}, d_signalled = signals, d_suspends = (\<lambda>h. if h \<in> {3, 5, 17} then 1 else 0),
       d_tls = (\<lambda>h x. Some ((unat h - 3) div 2))\<rparr>\<rparr>"

definition demo_at :: "worker_at \<Rightarrow> nat \<Rightarrow> worker_at" where
  "demo_at at i = (if i = 2 then at else if i \<in> {3, 4, 5, 6} then At_Gate i else At_User)"

lemma below_8: "i < 8 \<longleftrightarrow> i \<in> {0, 1, 2, 3, 4, 5, 6, 7 :: nat}" by auto

lemma demo_port_ok:
  assumes S: "sl_task S = Some 2" "sl_thread S = 7" "sl_gate S = 8" "signals = (\<lambda>h. h \<in> H)" "H \<subseteq> {1, 2, 8}"
    and worker: "worker_ok (demo_view (wp_os (demo_threads S signals))) 1 2 3 True S at"
    and event: "1 \<in> H \<longleftrightarrow> sl_request S \<noteq> None \<and> submitted at"
  shows "port_ok demo_view 8 (\<lambda>t. t_base_priority (example_tasks t)) (Some 2) (demo_at at) (demo_threads S signals)"
  unfolding port_ok_def
proof (intro conjI)
  show "handles_ok (demo_threads S signals) 8"
    unfolding handles_ok_def by (auto simp: demo_threads_def demo_slot_def S below_8)
  show "held (demo_view (wp_os (demo_threads S signals))) 8 (demo_threads S signals)"
    unfolding held_def port_handles_def
    by (auto simp: demo_threads_def demo_slot_def demo_view_def demo_given_def S below_8)
  have others: "worker_ok (demo_view (wp_os (demo_threads S signals))) 1 i b False (demo_slot i) (demo_at at i)"
    if "i \<in> {0, 1, 3, 4, 5, 6, 7}" for i b
    using that S(4,5)
    by (elim insertE emptyE) (auto simp: worker_ok_def demo_threads_def demo_at_def demo_slot_def zero_slot_def)
  show "\<forall>i<8. worker_ok (demo_view (wp_os (demo_threads S signals))) (wp_tls_index (demo_threads S signals)) i
      (t_base_priority (example_tasks i)) (Some 2 = Some i) (wp_slots (demo_threads S signals) i) (demo_at at i)"
  proof (intro allI impI)
    fix i :: nat
    assume "i < 8"
    have index: "wp_tls_index (demo_threads S signals) = 1" "t_base_priority (example_tasks 2) = 3"
      "wp_slots (demo_threads S signals) i = (if i = 2 then S else demo_slot i)"
      by (simp_all add: demo_threads_def example_task_simps)
    show "worker_ok (demo_view (wp_os (demo_threads S signals))) (wp_tls_index (demo_threads S signals)) i
      (t_base_priority (example_tasks i)) (Some 2 = Some i) (wp_slots (demo_threads S signals) i) (demo_at at i)"
    proof (cases "i = 2")
      case True
      show ?thesis using worker index unfolding True by (simp add: demo_at_def)
    next
      case False
      then show ?thesis using others [of i] \<open>i < 8\<close> by (simp only: index below_8) auto
    qed
  qed
qed (use event S in \<open>auto simp: demo_threads_def demo_port_def demo_at_def\<close>)

lemma demo_ok:
  assumes "sl_task S = Some 2" "sl_thread S = 7" "sl_gate S = 8" "H \<subseteq> {1, 2, 8}"
    "worker_ok (demo_view (wp_os (demo_threads S (\<lambda>h. h \<in> H)))) 1 2 3 True S at"
    "1 \<in> H \<longleftrightarrow> sl_request S \<noteq> None \<and> submitted at"
  shows "win32_ok demo_view (demo_at at, example (demo_threads S (\<lambda>h. h \<in> H)))"
    and "win32_ok demo_view (demo_at at, example_quiet (demo_threads S (\<lambda>h. h \<in> H)))"
proof -
  note port = demo_port_ok [OF assms(1-3) refl assms(4-6)]
  have "unat (8 :: u32) = 8" "\<not> wp_failed (demo_threads S signals)" for signals by (simp_all add: demo_threads_def demo_port_def)
  moreover have "k_task_count (example_quiet q) = 8" "k_port (example_quiet q) = q" for q :: "demo_world win32_port"
    by (simp_all add: example_quiet_def realize_def) (simp_all add: example_spec_def)
  ultimately show "win32_ok demo_view (demo_at at, example (demo_threads S (\<lambda>h. h \<in> H)))"
    "win32_ok demo_view (demo_at at, example_quiet (demo_threads S (\<lambda>h. h \<in> H)))"
    using port by (simp_all add: win32_ok_iff example_orderly example_quiet_orderly example_quiet_simps)
qed

text \<open>Task 2 with a request in its mailbox, and in the middle of posting one.\<close>

definition demo_posted :: os_port_task_slot_t where
  "demo_posted = (demo_slot 2)\<lparr>sl_phase := OS_PORT_PHASE_REQUEST, sl_request := Some OS_PORT_REQ_YIELD\<rparr>"

definition demo_half_posted :: os_port_task_slot_t where
  "demo_half_posted = (demo_slot 2)\<lparr>sl_request := Some OS_PORT_REQ_YIELD\<rparr>"

text \<open>In the first state, the thread of the current task can run.\<close>

lemma entry_runs:
  assumes ok: "win32_ok vw (\<lambda>_. At_Entry, s)" and run: "wp_running (k_port s)" and i: "k_current s = Some i"
  shows "can_run vw s i"
proof -
  have port: "port_ok vw (unat (k_task_count s)) (bases s) (k_current s) (\<lambda>_. At_Entry) (k_port s)" "orderly s"
    using ok run by (simp_all add: win32_ok_iff)
  note id = own_id [OF port(2) i]
  show ?thesis using port_worker [OF port(1) id(2)] run id(2) i by (simp add: worker_ok_def can_run_def)
qed

text \<open>After the start, the timer expires.\<close>

lemma demo_timer:
  "\<exists>s w. win32_reachable True demo_api demo_view (\<lambda>_. At_Entry, s) \<and> wp_running (k_port s) \<and>
    api_WaitForMultipleObjects demo_api [wp_request_event (k_port s), wp_tick_timer (k_port s)] False INFINITE
      (wp_os (k_port s)) = Some (WAIT_OBJECT_0 + 1, w)"
proof -
  obtain s where s: "win32_reachable True demo_api demo_view (\<lambda>_. At_Entry, s)" "wp_running (k_port s)"
    using demo_reachable [of True] by auto
  then have port: "port_ok demo_view (unat (k_task_count s)) (bases s) (k_current s) (\<lambda>_. At_Entry) (k_port s)"
    using reachable_win32_ok [OF demo_windows demo_creation s(1)] by (simp add: win32_ok_iff)
  let ?w = "demo_signal (wp_tick_timer (k_port s)) True (wp_os (k_port s))"
  have "win32_reachable True demo_api demo_view (\<lambda>_. At_Entry, upd_port (\<lambda>q. q\<lparr>wp_os := ?w\<rparr>) s)"
    by (rule win32_stepped [OF s(1) timer]) (simp_all add: s(2))
  moreover have "\<not> d_signalled (wp_os (k_port s)) (wp_request_event (k_port s))"
    "wp_tick_timer (k_port s) \<noteq> wp_request_event (k_port s)"
    using port_event [OF port] port_handles_ok [OF port] by (simp_all add: handles_ok_def)
  ultimately show ?thesis
    using s(2) by (intro exI conjI) (assumption, auto simp: demo_api_def demo_signal_def)
qed

end
