(* ===== verification/Win32_Properties.thy ===== *)
theory Win32_Properties
  imports Win32_Example Time_Properties
begin

section \<open>Properties of the Windows port\<close>

text \<open>
  What the threads of the Windows port guarantee together, for every Windows with the promised
  behaviour and every interleaving, ticks at any moment included. Only that the port never fails
  needs quiet runs, in which no tick is handled while a worker stands between the store of its request code
  and the store of its phase; the last property is what happens in that gap.
\<close>

text \<open>The tick that takes the processor from task 2 to task 7 in the example.\<close>

lemma quiet_port: "k_port (example_quiet q) = q" "k_task_count (example_quiet q) = 8" "(example_quiet q)\<lparr>k_port := q'\<rparr> = example_quiet q'"
  by (simp_all add: example_quiet_def realize_def) (simp_all add: example_spec_def)

lemma demo_tick:
  "\<exists>s'. control_round demo_api (WAIT_OBJECT_0 + 1) (example_quiet (demo_threads demo_half_posted (\<lambda>h. h \<in> {}))) = Some s' \<and>
    wp_running (k_port s') \<and> k_current s' = Some 7"
proof -
  let ?q = "demo_threads demo_half_posted (\<lambda>h. h \<in> {})"
  define q where "q = ?q\<lparr>wp_os := demo_suspend 7 1 (wp_os ?q), wp_slots := (wp_slots ?q)(2 := (wp_slots ?q 2)\<lparr>sl_suspended := True\<rparr>)\<rparr>"
  have slot2: "os_PortSlotForTask (Some 2) (example_quiet ?q) = Some 2"
    using slot_of_current [OF example_quiet_orderly [of ?q]] by (simp add: example_quiet_simps)
  have suspend: "os_PortSuspendCurrent demo_api (example_quiet ?q) = (True, example_quiet q)"
    using slot2 by (simp add: os_PortSuspendCurrent_def example_quiet_simps quiet_port call_api_sel Let_def upd_slot_def upd_port_def q_def)
      (simp add: demo_threads_def demo_half_posted_def demo_slot_def zero_slot_def demo_api_def)
  have "\<not> due (k_tick (example_quiet q) + 1) (k_tasks (example_quiet q) t)" for t
    by (simp add: example_quiet_simps due_def delay_place_def) (simp add: example_defs zero_task_def)
  moreover have "queue_of (example_quiet q) (ReadyList (t_effective_priority (k_tasks (example_quiet q) 2))) = 7 # []"
    by (simp add: example_quiet_simps example_task_simps example_lists_def)
  ultimately obtain t where t: "os_TimeTick (example_quiet q) = Some (Some 7, t)" "k_current t = Some 7"
    using quiet_tick [OF example_quiet_orderly, of q 2 7 "[]"] by (auto simp: example_quiet_simps example_task_simps)
  have good: "orderly t" "k_port t = q"
    using returnsD [OF TimeTick_framed [OF example_quiet_orderly [of q]]] t(1) by (auto simp: frame_def next_frame_def quiet_port)
  have "os_KernelValidate t" by (rule good_valid [OF orderly_good [OF good(1)]])
  then have tick: "os_PortApplyTick demo_api (example_quiet q) = Some (True, t)"
    using t(1) good(2) by (simp add: os_PortApplyTick_def os_PortObserveTick_def Let_def os_port_is_running_win32_def q_def)
      (simp add: demo_threads_def demo_port_def)
  have "os_PortSlotForTask (Some 7) t = Some 7" using slot_of_current [OF good(1)] t(2) by simp
  moreover have "sl_thread (slot t 7) = 17" "sl_suspended (slot t 7)" "d_suspends (wp_os (k_port t)) 17 = 1"
    using good(2) by (simp_all add: q_def demo_threads_def demo_slot_def demo_suspend_def)
  ultimately obtain u where "os_PortActivate demo_api (Some 7) t = (True, u)" "k_current u = Some 7"
    "wp_running (k_port u) = wp_running (k_port t)"
    using t(2) by (simp add: os_PortActivate_def call_api_sel Let_def upd_slot_def upd_port_def) (simp add: demo_api_def)
  moreover have "sl_phase (slot (example_quiet ?q) 2) = OS_PORT_PHASE_USER" "wp_running (k_port t)"
    using good(2) by (simp_all add: quiet_port q_def demo_threads_def demo_half_posted_def demo_slot_def)
  ultimately show ?thesis
    using suspend tick t(2) slot2
    by (simp add: control_round_def os_PortProcessTimer_def Let_def example_quiet_simps)
qed

lemma wait_any_returns:
  assumes "windows api vw" "a \<in> v_handles (vw w)" "b \<in> v_handles (vw w)" "v_signalled (vw w) a"
  shows "\<exists>u. api_WaitForMultipleObjects api [a, b] False INFINITE w = Some (WAIT_OBJECT_0, u)"
proof (cases "api_WaitForMultipleObjects api [a, b] False INFINITE w")
  case None
  then show ?thesis using wait_any(2) [OF assms(1-3)] assms(4) by blast
next
  case (Some ru)
  with wait_any(1) [OF assms(1-3)] assms(4) show ?thesis by (cases ru) fastforce
qed

lemma wait_single_returns:
  assumes "windows api vw" "h \<in> v_handles (vw w)" "v_signalled (vw w) h"
  shows "\<exists>u. api_WaitForSingleObject api h w = Some (WAIT_OBJECT_0, u)"
proof (cases "api_WaitForSingleObject api h w")
  case None
  then show ?thesis using wait_single(2) [OF assms(1,2)] assms(3) by blast
next
  case (Some ru)
  with wait_single(1) [OF assms(1,2)] assms(3) show ?thesis by (cases ru) fastforce
qed

lemma current_worker:
  assumes ok: "win32_ok vw (p, s)" and run: "wp_running (k_port s)" and i: "k_current s = Some i"
  shows "port_ok vw (unat (k_task_count s)) (bases s) (k_current s) p (k_port s)" "i < unat (k_task_count s)"
    "worker_ok (vw (wp_os (k_port s))) (wp_tls_index (k_port s)) i (bases s i) True (slot s i) (p i)" "can_run vw s i"
proof -
  have good: "orderly s" and port: "port_ok vw (unat (k_task_count s)) (bases s) (k_current s) p (k_port s)"
    using ok run by (simp_all add: win32_ok_iff)
  note id = own_id [OF good i]
  have worker: "worker_ok (vw (wp_os (k_port s))) (wp_tls_index (k_port s)) i (bases s i) True (slot s i) (p i)"
    using port_worker [OF port id(2)] i by simp
  then have "can_run vw s i" using run id(2) by (cases "p i") (auto simp: worker_ok_def can_run_def)
  then show "port_ok vw (unat (k_task_count s)) (bases s) (k_current s) p (k_port s)" "i < unat (k_task_count s)"
    "worker_ok (vw (wp_os (k_port s))) (wp_tls_index (k_port s)) i (bases s i) True (slot s i) (p i)" "can_run vw s i"
    using port worker id(2) by blast+
qed

text \<open>The round for the request of the current task.\<close>

lemma request_round:
  assumes w: "windows api vw" and ok: "win32_ok vw (p, s)" and run: "wp_running (k_port s)"
    and i: "k_current s = Some i" "sl_request (slot s i) \<noteq> None" "submitted (p i)"
  obtains u s' where "api_WaitForMultipleObjects api [wp_request_event (k_port s), wp_tick_timer (k_port s)] False INFINITE
      (wp_os (k_port s)) = Some (WAIT_OBJECT_0, u)"
    "control_round api WAIT_OBJECT_0 (upd_port (\<lambda>q. q\<lparr>wp_os := u\<rparr>) s) = Some s'" "win32_ok vw (p, s')"
    "if \<exists>k<i. in_gap (p k) then wp_failed (k_port s') \<and> \<not> wp_running (k_port s')
     else \<not> wp_failed (k_port s') \<and> sl_request (slot s' i) = None"
proof -
  note cur = current_worker [OF ok run i(1)]
  have "v_signalled (vw (wp_os (k_port s))) (wp_request_event (k_port s))" using port_event [OF cur(1)] i cur(2) by auto
  with wait_any_returns [OF w open_handles(3,4) [OF cur(1)]] obtain u where u: "api_WaitForMultipleObjects api
      [wp_request_event (k_port s), wp_tick_timer (k_port s)] False INFINITE (wp_os (k_port s)) = Some (WAIT_OBJECT_0, u)"
    by blast
  from control_round_ok [OF w ok run u] i(1) show thesis by (auto intro: that [OF u])
qed

lemma current_moves:
  assumes w: "windows api vw" and ok: "win32_ok vw (p, s)" and run: "wp_running (k_port s)"
    and i: "k_current s = Some i" and ended: "p i = At_End \<Longrightarrow> sl_request (slot s i) \<noteq> None"
  shows "\<exists>p' s'. win32_step quiet api vw (p, s) (p', s') \<and>
    (p' i \<noteq> p i \<or> sl_request (slot s i) \<noteq> None \<and> sl_request (slot s' i) = None \<or>
     (\<exists>k<i. in_gap (p k)) \<and> os_PortFailed s')"
proof -
  let ?V = "vw (wp_os (k_port s))"
  note cur = current_worker [OF ok run i]
  note worker = cur(3)
  note steps = win32_step.intros(1-10) [OF cur(4), of p]
  note index = handlesD(9) [OF port_handles_ok [OF cur(1)] cur(2)]
  show ?thesis
  proof (cases "sl_request (slot s i) \<noteq> None \<and> submitted (p i)")
    case True
    then have posted: "sl_request (slot s i) \<noteq> None" "submitted (p i)" by simp_all
    obtain u s' where u: "api_WaitForMultipleObjects api [wp_request_event (k_port s), wp_tick_timer (k_port s)] False INFINITE
        (wp_os (k_port s)) = Some (WAIT_OBJECT_0, u)"
      "control_round api WAIT_OBJECT_0 (upd_port (\<lambda>q. q\<lparr>wp_os := u\<rparr>) s) = Some s'"
      "if \<exists>k<i. in_gap (p k) then wp_failed (k_port s') \<and> \<not> wp_running (k_port s')
        else \<not> wp_failed (k_port s') \<and> sl_request (slot s' i) = None"
      using request_round [OF w ok run i posted] by metis
    have "win32_step quiet api vw (p, s) (p, s')" by (rule control [OF run u(1) _ u(2)]) simp
    moreover have "sl_request (slot s' i) = None \<or> (\<exists>k<i. in_gap (p k)) \<and> os_PortFailed s'"
      using u(3) by (auto simp: os_PortFailed_def split: if_splits)
    ultimately show ?thesis using posted(1) by blast
  next
    case False
    have moved: ?thesis if "win32_step quiet api vw (p, s) (p(i := a), s')" "a \<noteq> p i" for a s'
      using that by (intro exI [of _ "p(i := a)"] exI [of _ s']) simp
    show ?thesis
    proof (cases "p i")
      case At_Entry
      obtain b s' where "task_entry_begin api (sl_thread (slot s i)) i s = (b, s')" by fastforce
      from steps(1) [OF At_Entry this] show ?thesis by (rule moved) (simp add: At_Entry)
    next
      case At_User
      have "request_slot api (sl_thread (slot s i)) s = Some i"
        using worker At_User run index tls_get [OF w open_handles(5) [OF cur(1)]]
        by (simp add: request_slot_def os_port_is_running_win32_def worker_ok_def)
      then have "win32_step quiet api vw (p, s) (p(i := At_Fill i OS_PORT_REQ_YIELD 0 None 0), s)"
        by (intro steps(3) [OF At_User]) simp_all
      then show ?thesis by (rule moved) (simp add: At_User)
    next
      case (At_Fill j req ticks obj buf)
      from steps(4) [OF this] show ?thesis by (rule moved) (simp add: At_Fill)
    next
      case (At_Post j req)
      from steps(5) [OF this] show ?thesis by (rule moved) (simp add: At_Post)
    next
      case (At_Phase j req)
      from steps(6) [OF this] show ?thesis by (rule moved) (simp add: At_Phase)
    next
      case (At_Signal j req)
      obtain b s' where "mailbox_signal api s = (b, s')" by fastforce
      from steps(7) [OF At_Signal this] show ?thesis by (rule moved) (simp add: At_Signal)
    next
      case (At_Gate j)
      then have "j = i" "v_signalled ?V (sl_gate (slot s j))"
        using worker False by (auto simp: worker_ok_def split: option.splits)
      with wait_single_returns [OF w] open_handles(2) [OF cur(1,2)] obtain u where
        "api_WaitForSingleObject api (sl_gate (slot s j)) (wp_os (k_port s)) = Some (WAIT_OBJECT_0, u)" by blast
      from steps(8) [OF At_Gate this] show ?thesis by (rule moved) (simp add: At_Gate)
    next
      case (At_Resume j)
      from steps(9) [OF this] show ?thesis by (rule moved) (simp add: At_Resume)
    next
      case At_Exit
      from steps(10) [OF this] show ?thesis by (rule moved) (simp add: At_Exit)
    qed (use ended False in auto)
  qed
qed

text \<open>From the start on, the worker of the current task can come to a posted request.\<close>

lemma goes_on:
  assumes w: "windows api vw" "windows_creation api vw" and s: "win32_reachable quiet api vw (p, s)"
    and i: "k_current s = Some i" and step: "win32_step quiet api vw (p, s) (p(i := a), s')" and a: "a \<noteq> p i"
  shows "win32_reachable quiet api vw (p(i := a), s')" "wp_running (k_port s')" "k_current s' = Some i"
proof -
  show "win32_reachable quiet api vw (p(i := a), s')" by (rule win32_stepped [OF s step])
  have "p(i := a) \<noteq> p" using a by (metis fun_upd_same)
  with thread_step [OF w(1) reachable_win32_ok [OF w s] step] i show "wp_running (k_port s')" "k_current s' = Some i"
    by (metis)+
qed

lemma demo_posts:
  "\<exists>p s i. win32_reachable quiet demo_api demo_view (p, s) \<and> wp_running (k_port s) \<and> k_current s = Some i \<and>
    p i = At_Gate i \<and> sl_request (slot s i) = Some OS_PORT_REQ_YIELD \<and> (\<forall>k. k \<noteq> i \<longrightarrow> p k = At_Entry)"
proof -
  note law = demo_windows demo_creation
  let ?r = OS_PORT_REQ_YIELD
  obtain s0 i where s0: "win32_reachable quiet demo_api demo_view (\<lambda>_. At_Entry, s0)" "wp_running (k_port s0)"
    "k_current s0 = Some i" using demo_reachable [of quiet] by auto
  let ?p = "\<lambda>a. (\<lambda>_. At_Entry)(i := a)"
  define R where "R a s \<longleftrightarrow> win32_reachable quiet demo_api demo_view (?p a, s) \<and> wp_running (k_port s) \<and> k_current s = Some i" for a s
  have "R At_Entry s0" using s0 by (simp add: R_def fun_upd_idem)
  have can: "can_run demo_view s i" and own: "worker_ok (demo_view (wp_os (k_port s))) (wp_tls_index (k_port s)) i (bases s i) True (slot s i) a"
    and index: "wp_tls_index (k_port s) \<noteq> TLS_OUT_OF_INDEXES" "wp_tls_index (k_port s) \<in> v_tls_indexes (demo_view (wp_os (k_port s)))"
    if "R a s" for a s
  proof -
    have s: "win32_ok demo_view (?p a, s)" "wp_running (k_port s)" "k_current s = Some i"
      using that reachable_win32_ok [OF law] by (auto simp: R_def)
    note cur = current_worker [OF s]
    show "can_run demo_view s i" by (rule cur(4))
    show "worker_ok (demo_view (wp_os (k_port s))) (wp_tls_index (k_port s)) i (bases s i) True (slot s i) a"
      using cur(3) by simp
    show "wp_tls_index (k_port s) \<noteq> TLS_OUT_OF_INDEXES" by (rule handlesD(9) [OF port_handles_ok [OF cur(1)] cur(2)])
    show "wp_tls_index (k_port s) \<in> v_tls_indexes (demo_view (wp_os (k_port s)))" by (rule open_handles(5) [OF cur(1)])
  qed
  have moved: "R b s'" if "R a s" "win32_step quiet demo_api demo_view (?p a, s) ((?p a)(i := b), s')" "b \<noteq> a" for a b s s'
    using goes_on [OF law, of quiet "?p a" s i b s'] that by (simp add: R_def)
  obtain s1 where e: "task_entry_begin demo_api (sl_thread (slot s0 i)) i s0 = (True, s1)"
    by (cases "task_entry_begin demo_api (sl_thread (slot s0 i)) i s0") (simp add: task_entry_begin_def call_api_def demo_api_def Let_def)
  have s1: "R At_User s1"
    by (rule moved [OF \<open>R At_Entry s0\<close>]) (use entry [OF can [OF \<open>R At_Entry s0\<close>] _ e, of "?p At_Entry"] in simp_all)
  have "request_slot demo_api (sl_thread (slot s1 i)) s1 = Some i"
    using own [OF s1] index [OF s1] s1 tls_get [OF demo_windows]
    by (simp add: request_slot_def os_port_is_running_win32_def worker_ok_def R_def)
  from request [OF can [OF s1] _ this, of "?p At_User" ?r None]
  have s2: "R (At_Fill i ?r 0 None 0) s1" by (intro moved [OF s1]) simp_all
  from fill [OF can [OF s2], of "?p (At_Fill i ?r 0 None 0)"]
  have s3: "R (At_Post i ?r) (mailbox_fill i 0 None 0 s1)" by (intro moved [OF s2]) simp_all
  from post [OF can [OF s3], of "?p (At_Post i ?r)"]
  have s4: "R (At_Phase i ?r) (mailbox_post i ?r (mailbox_fill i 0 None 0 s1))" by (intro moved [OF s3]) simp_all
  let ?s4 = "mailbox_phase i (mailbox_post i ?r (mailbox_fill i 0 None 0 s1))"
  from phase [OF can [OF s4], of "?p (At_Phase i ?r)"]
  have s5: "R (At_Signal i ?r) ?s4" by (intro moved [OF s4]) simp_all
  obtain s6 where e: "mailbox_signal demo_api ?s4 = (True, s6)" "sl_request (slot s6 i) = sl_request (slot ?s4 i)"
    by (simp add: mailbox_signal_def call_api_sel demo_api_def)
  from signal [OF can [OF s5] _ e(1), of "?p (At_Signal i ?r)"]
  have s6: "R (At_Gate i) s6" by (intro moved [OF s5]) simp_all
  moreover have "sl_request (slot s6 i) = Some ?r" using own [OF s5] e(2) by (simp add: worker_ok_def)
  ultimately show ?thesis unfolding R_def by (intro exI [of _ "?p (At_Gate i)"] exI [of _ s6] exI [of _ i]) simp
qed

text \<open>C4: on the Windows port the scheduler never comes to one of its failure exits: in every
  reachable state \<open>os_PortFailed\<close> is false and \<open>os_KernelValidate\<close> accepts the kernel.\<close>

theorem win32_never_fails:
  assumes "windows api vw" "windows_creation api vw" "win32_reachable True api vw (p, s)"
  shows "\<not> os_PortFailed s \<and> os_KernelValidate s"
  using reachable_win32_ok [OF assms] reachable_tidy [OF assms] good_valid [OF orderly_good, of s]
  by (simp add: win32_ok_iff tidy_def os_PortFailed_def)

theorem win32_never_fails_witness:
  "\<exists>s. win32_reachable True demo_api demo_view (\<lambda>_. At_Entry, s) \<and> \<not> os_PortFailed s \<and> os_KernelValidate s"
  using demo_reachable [of True] win32_never_fails [OF demo_windows demo_creation] by blast

text \<open>C5: only the task that the kernel has chosen runs, in every state of every run, with ticks at any moment:
  while the scheduler is running, a worker thread that is not suspended and stands anywhere from its entry to the
  return from a request, and not at a closed gate, belongs to the current task; and what it brings back from a
  request is the wait result of its task. (Left out are the last statements of a thread that has already handed
  in its EXIT request; and once the scheduler has stopped, \<open>can_run\<close> is false.)\<close>

theorem win32_one_task_runs:
  assumes "windows api vw" "windows_creation api vw" "win32_reachable quiet api vw (p, s)"
    and run: "can_run vw s i" and "p i \<noteq> At_Exit" "p i \<noteq> At_End"
    and "\<And>j. p i = At_Gate j \<Longrightarrow> api_WaitForSingleObject api (sl_gate (slot s j)) (wp_os (k_port s)) \<noteq> None"
  shows "k_current s = Some i \<and> (\<forall>j. p i = At_Resume j \<longrightarrow> fst (request_return j s) = t_wait_result (k_tasks s i))"
proof -
  note ok = reachable_win32_ok [OF assms(1-3)]
  note own = own_slot [OF ok run]
  have open_gate: "v_signalled (vw (wp_os (k_port s))) (sl_gate (slot s i))" if "p i = At_Gate j" for j
  proof -
    have "j = i" using own(1) that by (simp add: worker_ok_def)
    with assms(7) [OF that] show ?thesis using wait_single(1) [OF assms(1) open_handles(2) [OF own(7,4)]] by fastforce
  qed
  have c: "k_current s = Some i"
    using own(1,2) assms(5,6) open_gate by (cases "p i") (auto simp: worker_ok_def split: option.splits)
  moreover have "fst (request_return j s) = t_wait_result (k_tasks s i)" if "p i = At_Resume j" for j
  proof -
    have "j = i" using own(1) that by (simp add: worker_ok_def)
    with reachable_answered [OF assms(1-3)] c own(5) that show ?thesis
      by (auto simp: answered_def request_return_def Let_def upd_slot_def)
  qed
  ultimately show ?thesis by blast
qed

theorem win32_one_task_runs_witness:
  "\<exists>s i. win32_reachable False demo_api demo_view (\<lambda>_. At_Entry, s) \<and> can_run demo_view s i \<and> k_current s = Some i"
proof -
  obtain s i where s: "win32_reachable False demo_api demo_view (\<lambda>_. At_Entry, s)" "wp_running (k_port s)" "k_current s = Some i"
    using demo_reachable [of False] by auto
  then have "can_run demo_view s i"
    using entry_runs [OF reachable_win32_ok [OF demo_windows demo_creation s(1)]] by blast
  with win32_one_task_runs [OF demo_windows demo_creation s(1)] s(1) show ?thesis by auto
qed

text \<open>C10: no event that wakes the control thread loses a tick, in every state of every run: a round of the
  control loop for the timer returns without a failure, whatever the workers are doing, and the ticks that the
  kernel has counted and the ones that the port has put off grow by one together; a round for a request changes
  the sum of the two not at all, whether it succeeds or not. (The sum is modulo 2 to the 32, as the counters are. The
  timer is an auto-reset object: expiries between two rounds are one event.)\<close>

theorem win32_no_tick_lost:
  assumes "windows api vw" "windows_creation api vw" "win32_reachable quiet api vw (p, s)" "wp_running (k_port s)"
    and "api_WaitForMultipleObjects api [wp_request_event (k_port s), wp_tick_timer (k_port s)] False INFINITE
      (wp_os (k_port s)) = Some (r, w)"
  shows "\<exists>s'. control_round api r (upd_port (\<lambda>q. q\<lparr>wp_os := w\<rparr>) s) = Some s' \<and>
    (r \<noteq> WAIT_OBJECT_0 \<longrightarrow> \<not> os_PortFailed s') \<and>
    k_tick s' + wp_pending_ticks (k_port s') =
      k_tick s + wp_pending_ticks (k_port s) + (if r = WAIT_OBJECT_0 then 0 else 1)"
  using control_round_ok [OF assms(1) reachable_win32_ok [OF assms(1-3)] assms(4,5)]
  by (auto simp: os_PortFailed_def)

theorem win32_no_tick_lost_witness:
  "\<exists>s w s'. win32_reachable True demo_api demo_view (\<lambda>_. At_Entry, s) \<and>
    control_round demo_api (WAIT_OBJECT_0 + 1) (upd_port (\<lambda>q. q\<lparr>wp_os := w\<rparr>) s) = Some s' \<and>
    k_tick s' + wp_pending_ticks (k_port s') = k_tick s + wp_pending_ticks (k_port s) + 1"
proof -
  obtain s w where s: "win32_reachable True demo_api demo_view (\<lambda>_. At_Entry, s)" "wp_running (k_port s)"
    "api_WaitForMultipleObjects demo_api [wp_request_event (k_port s), wp_tick_timer (k_port s)] False INFINITE
      (wp_os (k_port s)) = Some (WAIT_OBJECT_0 + 1, w)"
    using demo_timer by blast
  from win32_no_tick_lost [OF demo_windows demo_creation s(1,2,3)] s(1) show ?thesis by auto
qed

text \<open>C8: in every state of every run, the control thread wakes up for a request that the worker of the current
  task \<open>i\<close> has handed in, and handles it in one round. If no worker with a lower number stands between the store of its request code
  and the store of its phase, the round succeeds and empties the mailbox, and if the task goes on running, its
  gate is open and the answer in its slot is its wait result. If there is such a worker, the round
  stops the scheduler.\<close>

theorem win32_request_served:
  assumes "windows api vw" "windows_creation api vw" "win32_reachable quiet api vw (p, s)" "wp_running (k_port s)"
    and i: "k_current s = Some i" "sl_request (slot s i) \<noteq> None" "submitted (p i)"
  shows "\<exists>u s'. api_WaitForMultipleObjects api [wp_request_event (k_port s), wp_tick_timer (k_port s)] False INFINITE
      (wp_os (k_port s)) = Some (WAIT_OBJECT_0, u) \<and>
    control_round api WAIT_OBJECT_0 (upd_port (\<lambda>q. q\<lparr>wp_os := u\<rparr>) s) = Some s' \<and>
    (if \<exists>k<i. in_gap (p k) then os_PortFailed s' \<and> \<not> wp_running (k_port s')
     else \<not> os_PortFailed s' \<and> sl_request (slot s' i) = None \<and>
       (wp_running (k_port s') \<and> k_current s' = Some i \<and> p i = At_Gate i \<longrightarrow>
         api_WaitForSingleObject api (sl_gate (slot s' i)) (wp_os (k_port s')) \<noteq> None \<and>
         sl_response (slot s' i) = t_wait_result (k_tasks s' i)))"
proof -
  note w = assms(1) and run = assms(4) and ok = reachable_win32_ok [OF assms(1-3)]
  obtain u s' where u: "api_WaitForMultipleObjects api [wp_request_event (k_port s), wp_tick_timer (k_port s)] False INFINITE
      (wp_os (k_port s)) = Some (WAIT_OBJECT_0, u)"
    and s': "control_round api WAIT_OBJECT_0 (upd_port (\<lambda>q. q\<lparr>wp_os := u\<rparr>) s) = Some s'" "win32_ok vw (p, s')"
    "if \<exists>k<i. in_gap (p k) then wp_failed (k_port s') \<and> \<not> wp_running (k_port s')
     else \<not> wp_failed (k_port s') \<and> sl_request (slot s' i) = None"
    using request_round [OF w ok run i] by metis
  have "answered (p, upd_port (\<lambda>q. q\<lparr>wp_os := u\<rparr>) s)" using reachable_answered [OF assms(1-3)] by (simp add: answered_def)
  with answered_control [OF s'(1)] s'(2) have a: "answered (p, s')" by (simp add: win32_ok_iff)
  have "api_WaitForSingleObject api (sl_gate (slot s' i)) (wp_os (k_port s')) \<noteq> None \<and>
      sl_response (slot s' i) = t_wait_result (k_tasks s' i)"
    if run': "wp_running (k_port s')" and c: "k_current s' = Some i" "p i = At_Gate i" and empty: "sl_request (slot s' i) = None"
  proof -
    note cur = current_worker [OF s'(2) run' c(1)]
    have "v_signalled (vw (wp_os (k_port s'))) (sl_gate (slot s' i))"
      using cur(3) c(2) empty by (simp add: worker_ok_def)
    with wait_single_returns [OF w open_handles(2) [OF cur(1,2)]]
    have "api_WaitForSingleObject api (sl_gate (slot s' i)) (wp_os (k_port s')) \<noteq> None" by blast
    moreover have "sl_response (slot s' i) = t_wait_result (k_tasks s' i)"
      using a run' c empty by (simp add: answered_def)
    ultimately show ?thesis ..
  qed
  with u s' show ?thesis by (intro exI [of _ u] exI [of _ s']) (simp add: os_PortFailed_def)
qed

theorem win32_request_served_witness:
  "\<exists>p s i u s'. win32_reachable False demo_api demo_view (p, s) \<and> p i = At_Gate i \<and>
    sl_request (slot s i) = Some OS_PORT_REQ_YIELD \<and>
    control_round demo_api WAIT_OBJECT_0 (upd_port (\<lambda>q. q\<lparr>wp_os := u\<rparr>) s) = Some s' \<and>
    \<not> os_PortFailed s' \<and> sl_request (slot s' i) = None"
proof -
  obtain p s i where s: "win32_reachable False demo_api demo_view (p, s)" "wp_running (k_port s)" "k_current s = Some i"
    "p i = At_Gate i" "sl_request (slot s i) = Some OS_PORT_REQ_YIELD" "\<And>k. k \<noteq> i \<Longrightarrow> p k = At_Entry"
    using demo_posts [of False] by blast
  then have "\<not> (\<exists>k<i. in_gap (p k))" "sl_request (slot s i) \<noteq> None" "submitted (p i)" by auto
  with win32_request_served [OF demo_windows demo_creation s(1-3)] obtain u s' where
    "control_round demo_api WAIT_OBJECT_0 (upd_port (\<lambda>q. q\<lparr>wp_os := u\<rparr>) s) = Some s'" "\<not> os_PortFailed s'"
    "sl_request (slot s' i) = None" by auto
  with s(1,4,5) show ?thesis by blast
qed

text \<open>C9: no deadlock: in every state of every run in which the scheduler runs and has a current task \<open>i\<close>, unless the
  thread of \<open>i\<close> has ended, a step is possible that moves the worker of \<open>i\<close> on or serves its request; the one other possibility
  is a request that is handled while a worker with a lower number stands between the store of its request code and the store of its phase,
  and then the port fails.\<close>

theorem win32_no_deadlock:
  assumes "windows api vw" "windows_creation api vw" "win32_reachable quiet api vw (p, s)" "wp_running (k_port s)"
    and "k_current s = Some i" and "p i = At_End \<Longrightarrow> sl_request (slot s i) \<noteq> None"
  shows "\<exists>p' s'. win32_step quiet api vw (p, s) (p', s') \<and>
    (p' i \<noteq> p i \<or> sl_request (slot s i) \<noteq> None \<and> sl_request (slot s' i) = None \<or>
     (\<exists>k<i. in_gap (p k)) \<and> os_PortFailed s')"
  by (rule current_moves [OF assms(1) reachable_win32_ok [OF assms(1-3)] assms(4-6)])

theorem win32_no_deadlock_witness:
  "\<exists>p s p' s' i. win32_reachable False demo_api demo_view (p, s) \<and> p i = At_Gate i \<and>
    win32_step False demo_api demo_view (p, s) (p', s') \<and> (p' i \<noteq> At_Gate i \<or> sl_request (slot s' i) = None)"
proof -
  obtain p s i where s: "win32_reachable False demo_api demo_view (p, s)" "wp_running (k_port s)" "k_current s = Some i"
    "p i = At_Gate i" "\<And>k. k \<noteq> i \<Longrightarrow> p k = At_Entry"
    using demo_posts [of False] by blast
  have "p i = At_End \<Longrightarrow> sl_request (slot s i) \<noteq> None" "\<not> (\<exists>k<i. in_gap (p k))" using s(4,5) by auto
  with win32_no_deadlock [OF demo_windows demo_creation s(1-3)] s(1,4) show ?thesis by metis
qed

text \<open>C21: a start never gets stuck and never leaves a half-started kernel: either it comes as far as the
  control loop, with the kernel started and a task chosen, or it returns BAD_STATE with the kernel unchanged and the port not running; then
  all its variables are reset, and the process holds exactly the handles, the indexes of thread-local storage and the set timers
  that it held before, whichever call of Windows has failed.\<close>

theorem win32_start_is_all_or_nothing:
  assumes "windows_creation api vw" "windows_closing api vw"
    and "orderly s" "k_initialized s" "\<not> k_started s" "k_task_count s \<noteq> 0"
  shows "\<exists>s'. start_scheduler_begin api n s = Some (None, s') \<and> k_started s' \<and> k_current s' \<noteq> None \<or>
    start_scheduler_begin api n s = Some (Some OS_STATUS_BAD_STATE, s') \<and> s' = s\<lparr>k_port := k_port s'\<rparr> \<and>
    released (unat (k_task_count s)) (k_port s') \<and>
    v_handles (vw (wp_os (k_port s'))) = v_handles (vw (wp_os (k_port s))) \<and>
    v_tls_indexes (vw (wp_os (k_port s'))) = v_tls_indexes (vw (wp_os (k_port s))) \<and>
    v_armed (vw (wp_os (k_port s'))) = v_armed (vw (wp_os (k_port s)))"
proof -
  obtain s' where "start_scheduler_begin api n s = Some (None, s') \<and> k_started s' \<and> k_current s' \<noteq> None \<or>
    start_scheduler_begin api n s = Some (Some OS_STATUS_BAD_STATE, s') \<and> port_only s s' \<and>
    released (unat (k_task_count s)) (k_port s') \<and> process_holds vw s' = process_holds vw s"
    using start_refused [OF assms] by blast
  then show ?thesis by (intro exI [of _ s']) (auto simp: port_only_def holdings_def)
qed

theorem win32_start_is_all_or_nothing_witness:
  "\<exists>s s'. k_task_count s = 1 \<and> start_scheduler_begin threadless_api 0 s = Some (Some OS_STATUS_BAD_STATE, s') \<and>
    \<not> k_started s' \<and> released 1 (k_port s') \<and> v_handles (demo_view (wp_os (k_port s'))) = {}"
proof -
  obtain s where s: "orderly s" "k_task_count s = 1" "k_initialized s" "\<not> k_started s" "k_port s = demo_port"
    using demo_idle by blast
  have started: "k_started (s\<lparr>k_port := q\<rparr>) = k_started s" for q by simp
  have "v_handles (demo_view (wp_os (k_port s))) = {}" by (simp add: s(5) demo_port_def demo_view_def)
  then obtain s' where "start_scheduler_begin threadless_api 0 s = Some (Some OS_STATUS_BAD_STATE, s')"
    "s' = s\<lparr>k_port := k_port s'\<rparr>" "released 1 (k_port s')" "v_handles (demo_view (wp_os (k_port s'))) = {}"
    using win32_start_is_all_or_nothing [OF threadless_creation threadless_closing s(1,3,4), of 0]
      threadless_start [OF s(2), of 0] s(2) by auto
  moreover from this(2) have "\<not> k_started s'" using started s(4) by metis
  ultimately show ?thesis using s(2) by blast
qed

text \<open>C22: the shutdown after the control loop always returns, at whatever point of a run the loop has been left: no task is
  current any more and all have terminated, the status is OK exactly when the port has not failed, and everything that the
  start has opened is closed: the process holds exactly the handles, the indexes of thread-local storage and the set timers
  that it held before the start.\<close>

theorem win32_shutdown_ends:
  assumes "windows api vw" "windows_creation api vw" "windows_closing api vw"
    and "orderly s" "\<not> wp_switch_pended (k_port s)" "start_scheduler_begin api n s = Some (None, s1)"
    and "(win32_step quiet api vw)\<^sup>*\<^sup>* (\<lambda>_. At_Entry, s1) (p, s2)"
  shows "\<exists>status s'. start_scheduler_end api s2 = Some (status, s') \<and> released (unat (k_task_count s2)) (k_port s') \<and>
    k_current s' = None \<and> (\<forall>t < unat (k_task_count s2). t_state (k_tasks s' t) = OS_TASK_TERMINATED) \<and>
    (status = OS_STATUS_OK \<longleftrightarrow> \<not> os_PortFailed s') \<and>
    v_handles (vw (wp_os (k_port s'))) = v_handles (vw (wp_os (k_port s))) \<and>
    v_tls_indexes (vw (wp_os (k_port s'))) = v_tls_indexes (vw (wp_os (k_port s))) \<and>
    v_armed (vw (wp_os (k_port s'))) = v_armed (vw (wp_os (k_port s)))"
proof -
  have "win32_ok vw (\<lambda>_. At_Entry, s1)" using start_ok(1) [OF assms(1,2,4-6)] by blast
  from run_owned [OF assms(1) this start_owned [OF assms(1-6)] assms(7)]
  have "owned vw (unat (k_task_count s2)) (process_holds vw s) (k_port s2)" by blast
  from owned_without [OF this] end_ok [OF assms(2,3), of s2] show ?thesis by (auto simp: holdings_def)
qed

theorem win32_shutdown_ends_witness:
  "\<exists>s s1 status s'. start_scheduler_begin demo_api 0 s = Some (None, s1) \<and> start_scheduler_end demo_api s1 = Some (status, s') \<and>
    v_handles (demo_view (wp_os (k_port s1))) \<noteq> {} \<and> v_handles (demo_view (wp_os (k_port s'))) = {}"
proof -
  obtain s where s: "orderly s" "k_task_count s = 1" "k_initialized s" "\<not> k_started s" "k_port s = demo_port"
    using demo_idle by blast
  have port: "d_next (wp_os (k_port s)) = 0" "d_indexes (wp_os (k_port s)) = {}" "\<not> wp_switch_pended (k_port s)"
    by (simp_all add: s(5) demo_port_def)
  obtain s1 where s1: "start_scheduler_begin demo_api 0 s = Some (None, s1)"
    using demo_begin [OF s(1-4) port] by blast
  note ok = start_ok(1) [OF demo_windows demo_creation s(1) port(3) s1]
  then obtain i where "k_current s1 = Some i" by blast
  from open_handles(3) [OF current_worker(1) [OF conjunct1 [OF ok] _ this]] ok
  have "v_handles (demo_view (wp_os (k_port s1))) \<noteq> {}" by blast
  moreover have "v_handles (demo_view (wp_os (k_port s))) = {}" by (simp add: s(5) demo_port_def demo_view_def)
  moreover obtain status s' where "start_scheduler_end demo_api s1 = Some (status, s')"
    "v_handles (demo_view (wp_os (k_port s'))) = v_handles (demo_view (wp_os (k_port s)))"
    using win32_shutdown_ends [where quiet = True, OF demo_windows demo_creation demo_closing s(1) port(3) s1 rtranclp.rtrancl_refl]
    by blast
  ultimately show ?thesis using s1 by metis
qed

subsection \<open>A tick in the gap\<close>

text \<open>What a timer event leaves in the mailboxes.\<close>

definition same_mail :: "'w win32_kernel \<Rightarrow> 'w win32_kernel \<Rightarrow> bool" where
  "same_mail s s' \<longleftrightarrow> k_task_count s' = k_task_count s \<and>
     (\<forall>k. sl_task (slot s' k) = sl_task (slot s k) \<and> sl_request (slot s' k) = sl_request (slot s k))"

lemma same_state: "\<exists>q. s = s\<lparr>k_port := q\<rparr>"
  by (rule exI [of _ "k_port s"]) simp

lemma Suspend_mail:
  "os_PortSuspendCurrent api s = (b, s') \<Longrightarrow> same_mail s s' \<and> (\<exists>q. s' = s\<lparr>k_port := q\<rparr>)"
  by (auto intro: same_state simp: os_PortSuspendCurrent_def same_mail_def call_api_sel Let_def upd_slot_def upd_port_def
      split: option.splits if_splits)

lemma Activate_mail: "os_PortActivate api c s = (b, s') \<Longrightarrow> same_mail s s'"
  by (auto simp: os_PortActivate_def same_mail_def call_api_sel Let_def upd_slot_def upd_port_def
      split: option.splits if_splits)

lemma same_mail_trans: "same_mail s t \<Longrightarrow> same_mail t u \<Longrightarrow> same_mail s u"
  by (simp add: same_mail_def)

lemma Timer_mail:
  assumes w: "windows api vw" and "orderly s" and run: "os_PortProcessTimer api s = Some (b, s')"
  shows "same_mail s s'"
proof -
  have tick: "same_mail t u" if "os_PortApplyTick api t = Some (c, u)" "orderly t" for t u c
    using returnsD [OF ApplyTick_ok [OF w that(2)]] that(1) by (auto simp: same_mail_def ticked_def)
  obtain c t where t: "(if k_current s \<noteq> None then os_PortSuspendCurrent api s else (True, s)) = (c, t)" by fastforce
  then have st: "same_mail s t" "\<exists>q. t = s\<lparr>k_port := q\<rparr>"
    using Suspend_mail [of api s c t] by (auto simp: same_mail_def split: if_splits intro: same_state)
  then have "orderly t" using assms(2) by auto
  show ?thesis
  proof (cases "os_PortApplyTick api t")
    case None
    then show ?thesis using run t st(1) by (auto simp: os_PortProcessTimer_def Let_def same_mail_def split: if_splits)
  next
    case (Some cu)
    then obtain d u where u: "os_PortApplyTick api t = Some (d, u)" by (cases cu) auto
    then have "same_mail s u" using tick [OF u \<open>orderly t\<close>] st(1) same_mail_trans by blast
    then show ?thesis
      using run t st(1) u by (auto simp: os_PortProcessTimer_def Let_def same_mail_def split: if_splits
        dest!: Activate_mail)
  qed
qed

text \<open>C11: the gap between the two stores of \<open>os_port_task_request\<close> is dangerous: when a tick is handled after task \<open>i\<close> has
  stored its request code and before it has stored its phase, and that tick hands the processor to a task \<open>j\<close>
  with a higher number, then the control thread takes the next request of \<open>j\<close> for the unfinished one of \<open>i\<close>
  (or of a task before it), finds that its task is not the running one, and the scheduler fails.\<close>

theorem win32_race:
  assumes "windows api vw" and ok: "win32_ok vw (p, s)" and run: "wp_running (k_port s)"
    and i: "i < unat (k_task_count s)" "p i = At_Phase i req"
    and tick: "control_round api (WAIT_OBJECT_0 + 1) (upd_port (\<lambda>q. q\<lparr>wp_os := w\<rparr>) s) = Some s'" "wp_running (k_port s')"
    and j: "k_current s' = Some j" "i < j"
  shows "\<exists>t. control_round api WAIT_OBJECT_0 (upd_port (\<lambda>q. q\<lparr>wp_os := v\<rparr>)
    (mailbox_phase j (mailbox_post j req' (mailbox_fill j ticks obj buf s')))) = Some t \<and> os_PortFailed t"
proof -
  let ?s = "upd_port (\<lambda>q. q\<lparr>wp_os := w\<rparr>) s" and ?n = "unat (k_task_count s)"
  let ?t = "upd_port (\<lambda>q. q\<lparr>wp_os := v\<rparr>) (mailbox_phase j (mailbox_post j req' (mailbox_fill j ticks obj buf s')))"
  have good: "orderly s" and port: "port_ok vw ?n (bases s) (k_current s) p (k_port s)"
    using ok run by (simp_all add: win32_ok_iff)
  obtain b u where u: "os_PortProcessTimer api ?s = Some (b, u)" "s' = (if b then u else os_PortFail u)"
    using tick(1) by (auto simp: control_round_def split: Option.bind_splits)
  then have b: b using tick(2) by (auto simp: os_PortFail_def split: if_splits)
  have "same_mail ?s s'" using Timer_mail [OF assms(1) _ u(1)] good u(2) b by simp
  then have mail: "k_task_count s' = k_task_count s" "\<And>k. sl_task (slot s' k) = sl_task (slot s k)"
    "\<And>k. sl_request (slot s' k) = sl_request (slot s k)" by (simp_all add: same_mail_def)
  have "sl_request (slot s i) = Some req" using port_worker [OF port i(1)] i(2) by (simp add: worker_ok_def)
  then have posted: "sl_request (slot ?t i) = Some req"
    using j(2) mail(3) by (simp add: mailbox_phase_def mailbox_post_def mailbox_fill_def os_port_exit_critical_win32_def
        os_port_enter_critical_win32_def Let_def)
  have "find (\<lambda>k. sl_request (slot ?t k) \<noteq> None) [0..<?n] \<noteq> None"
    using posted i(1) by (auto simp: find_None_iff)
  then obtain k where k: "find (\<lambda>k. sl_request (slot ?t k) \<noteq> None) [0..<?n] = Some k" by blast
  then have "k < ?n" "k \<le> i" "sl_request (slot ?t k) \<noteq> None"
    using posted i(1) by (auto simp: find_Some_iff not_less [symmetric])
  then obtain m where m: "sl_request (slot ?t k) = Some m" and "k \<noteq> j" using j(2) by auto
  have task: "sl_task (slot ?t k) = Some k"
    using handlesD(1) [OF port_handles_ok [OF port] \<open>k < ?n\<close>] mail(2) \<open>k \<noteq> j\<close>
    by (simp add: mailbox_phase_def mailbox_post_def mailbox_fill_def os_port_exit_critical_win32_def
        os_port_enter_critical_win32_def Let_def)
  have same: "k_task_count ?t = k_task_count s" "k_current ?t = Some j"
    using mail(1) j(1) by (simp_all add: mailbox_phase_def mailbox_post_def mailbox_fill_def Let_def)
  have "\<exists>v. os_PortProcessRequest api ?t = Some (False, v)"
    using k m task same \<open>k \<noteq> j\<close>
    by (simp add: os_PortProcessRequest_def os_PortFindRequester_def Let_def)
  then show ?thesis by (auto simp: control_round_def os_PortFailed_def os_PortFail_def)
qed

theorem win32_race_witness:
  "\<exists>s' t. control_round demo_api (WAIT_OBJECT_0 + 1) (example_quiet (demo_threads demo_half_posted (\<lambda>h. h \<in> {}))) = Some s' \<and>
    k_current s' = Some 7 \<and>
    control_round demo_api WAIT_OBJECT_0 (upd_port (\<lambda>q. q\<lparr>wp_os := wp_os (k_port s')\<rparr>)
      (mailbox_phase 7 (mailbox_post 7 OS_PORT_REQ_YIELD (mailbox_fill 7 0 None 0 s')))) = Some t \<and> os_PortFailed t"
proof -
  let ?q = "demo_threads demo_half_posted (\<lambda>h. h \<in> {})"
  have ok: "win32_ok demo_view (demo_at (At_Phase 2 OS_PORT_REQ_YIELD), example_quiet ?q)"
    by (rule demo_ok(2)) (simp_all add: demo_half_posted_def demo_slot_def zero_slot_def worker_ok_def demo_threads_def)
  obtain s' where s': "control_round demo_api (WAIT_OBJECT_0 + 1) (example_quiet ?q) = Some s'" "wp_running (k_port s')"
    "k_current s' = Some 7"
    using demo_tick by blast
  have "upd_port (\<lambda>q. q\<lparr>wp_os := wp_os ?q\<rparr>) (example_quiet ?q) = example_quiet ?q"
    by (simp add: upd_port_def quiet_port)
  with win32_race [OF demo_windows ok, of 2 OS_PORT_REQ_YIELD "wp_os ?q" s' 7] s'
  show ?thesis by (auto simp: quiet_port demo_threads_def demo_at_def)
qed

end
