(* ===== verification/Spec2Isabelle.thy ===== *)
theory Spec2Isabelle
  imports Sched_Properties IPC_Properties Mutex_Properties Time_Properties List_Properties Task_Properties Port_Properties Win32_Properties
begin

text \<open>
  miniRTOS is a small preemptive kernel in C: eight tasks with eight priorities, counting
  semaphores, message queues, mutexes with priority inheritance, and ports for Cortex-M, for Windows
  and for host tests. This development models the kernel (\<open>kernel/src\<close>,
  \<open>kernel/include\<close>, \<open>include/os.h\<close>), the host stub port, the C part of the Cortex-M port and the
  Windows port with its threads, and proves that the kernel is memory safe, keeps its data structures
  consistent and schedules, waits and times out as intended.

  \<^bold>\<open>The model of the code.\<close> One theory per source file, in the order of the calls:
  \<^item> \<open>OS_Types\<close>: constants, enums, control blocks and \<open>os_kernel_t\<close> (\<open>os.h\<close> and the internal
    headers). Integers keep their width, pointers are 32 bits (the Cortex-M data model).
  \<^item> \<open>OS_List\<close>: \<open>os_list.c\<close> over an explicit heap of list headers and list nodes.
  \<^item> \<open>OS_Sched\<close>, \<open>OS_Wait\<close>, \<open>OS_Validate\<close>: \<open>os_sched.c\<close> (ready queues and decisions; waiting and
    waking with the delay lists of \<open>os_time.c\<close>; \<open>os_KernelValidate\<close>, snapshot, shutdown).
  \<^item> \<open>OS_Sem\<close>, \<open>OS_Queue\<close>, \<open>OS_Mutex\<close>, \<open>OS_Time\<close>, \<open>OS_Task\<close>, \<open>OS_API\<close>: the files of these names.
  \<^item> \<open>Port_Stub\<close>, \<open>Port_CortexM\<close>: \<open>port/stub\<close> and \<open>port/cortex-m\<close>.
  \<^item> \<open>Port_Win32\<close>: \<open>port/win32\<close>, over the functions of the Windows API as an argument (\<open>win32_api\<close>).
  \<^item> \<open>RTOS_System\<close>: a kernel on a port as a state machine (\<open>run_call\<close>, \<open>reachable\<close>).

  The state of all modules is one record \<open>os_kernel_t\<close>. Functions keep the source's names; a
  function that can assert, dereference NULL or fail to return has an \<open>option\<close> result whose
  \<open>None\<close> is that failure, so that every theorem of the form \<open>\<exists>s'. f s = Some s'\<close> says that the code
  returns. Loops over linked lists are recursive functions: those with a bound in the code count
  it down, and those without one are partial functions, so that a cyclic list is \<open>None\<close>.

  \<^bold>\<open>The proof.\<close> Each OS theory also has its list-level specification (\<open>spec_...\<close>), in which the
  heap of headers and nodes is replaced by lists and by the place of every node (\<open>list_spec\<close>), and
  the lemma \<open>..._refines\<close> that the code simulates it (\<open>OS_Refine\<close>: \<open>krel\<close>, \<open>sim\<close>). The tick loop
  of the specification has fuel \<open>OS_MAX_TASKS\<close>; it is enough, because each round takes a task out of
  the delay list (\<open>TickLoop_start\<close> in \<open>Kernel_Time\<close>). The Kernel theories define the
  invariant on the specification (\<open>kinv\<close>, \<open>live\<close>, \<open>kernel_ok\<close>) and prove for every operation that it
  returns and keeps it: \<open>Kernel_Invariant\<close> and \<open>Kernel_Lists\<close> the primitives, \<open>Kernel_Sched\<close>,
  \<open>Kernel_Wait\<close>, \<open>Kernel_IPC\<close>, \<open>Kernel_Queue\<close>, \<open>Kernel_Mutex\<close>, \<open>Kernel_Time\<close>, \<open>Kernel_Boot\<close> the
  operations, and \<open>Kernel_Validate\<close> that the kernel's own check accepts every state in order.
  \<open>Kernel_Effects\<close> says what scheduling leaves alone (\<open>view\<close>: a control block up to running or
  ready and its slice), \<open>Kernel_Priority\<close> that the passes of \<open>os_MutexWaitersChanged\<close> compute a
  fixpoint, and \<open>Kernel_Inherit\<close> that this fixpoint is the maximum over all chains of waiting tasks
  (\<open>inherit_ok\<close>). With exact inheritance, no open critical section and a running task that no ready
  task exceeds, a kernel in order is \<open>strict\<close>. \<open>Kernel_Entry\<close> carries this back to the code: \<open>good\<close> for
  \<open>kernel_ok\<close>, \<open>orderly\<close> for \<open>strict\<close>. Two interfaces are locales: \<open>list_module\<close>, what
  the kernel needs of \<open>os_list.c\<close> (interpreted on the pointer code in \<open>OS_List\<close>), and
  \<open>kernel_port\<close>, what it needs of a port (interpreted on the stub and the Cortex-M port).
  \<open>Kernel_Frame\<close> is the converse, what no kernel operation touches: the state of the port, the
  number of tasks and their base priorities.

  \<^bold>\<open>The Windows port.\<close> Here the kernel is run by a control thread, which serves the mailboxes of one
  worker thread per task and the events of a timer. \<open>Win32_System\<close> models the interleaving as a step
  relation (\<open>win32_step\<close>): a worker thread is at one of the points of \<open>os_port_task_request\<close> or
  \<open>os_PortTaskEntry\<close> (\<open>worker_at\<close>), the timer can expire at any time, and a round of the control loop is
  one step, because all threads are bound to one processor and the control thread has the highest
  priority. What Windows does is not defined but required of the API, for open handles and allocated
  indexes only: \<open>windows\<close> (auto-reset events, suspend counts, thread-local storage), \<open>windows_creation\<close> for
  creating objects (handles that are not in use) and \<open>windows_closing\<close> for closing them and for creations that
  fail. The invariant \<open>win32_ok\<close> relates every worker to its slot; it holds in all reachable states, with ticks at
  any moment. \<open>Win32_Control\<close> shows that a round of the control loop keeps it and that the round fails in one case only,
  when it serves a request while a worker with a lower number stands in the gap between the two stores of
  \<open>os_port_task_request\<close>; \<open>Win32_Runs\<close> shows that a successful start establishes the invariant, and that in
  quiet runs, those of the step relation with the flag \<open>quiet\<close>, which keeps timer events out of that gap,
  the port never fails (\<open>tidy\<close>). In the other runs the scheduler can stop (\<open>win32_race\<close>).
  \<open>Win32_Shutdown\<close> follows the ends of a run, a start that fails and the shutdown: \<open>owned\<close> says what the process holds
  because of the port at every moment from the first creation on, and that nothing of it is left at the end.

  \<^bold>\<open>The properties.\<close> \<open>Kernel_View\<close> reads the lists of a state (\<open>queue_of\<close>) and lays out a heap for
  given lists; \<open>Kernel_Example\<close> is a running system with every kind of waiting, at which the
  properties are applied. The properties are numbered C1, C2, and so on: those of the whole
  system on its ports are in this theory, those of one operation or module in
  \<open>Sched_Properties\<close>, \<open>IPC_Properties\<close> (semaphores and queues, with the content of a queue as an
  abstract list), \<open>Mutex_Properties\<close>, \<open>Time_Properties\<close> (delays and timeouts over runs of ticks),
  \<open>List_Properties\<close>, \<open>Task_Properties\<close>, \<open>Port_Properties\<close> and \<open>Win32_Properties\<close>, the last on the
  small Windows of \<open>Win32_Example\<close>.

  \<^bold>\<open>Not modelled.\<close> The assembly of the Cortex-M context switch, the demos (example applications that
  print a panel) and the tests. The runs on Windows do not include what the worker threads do
  during the shutdown, nor \<open>xSemaphoreGiveFromISR\<close> called by a task. On the other ports, interrupts do not interleave
  with the kernel inside a call: they run it with interrupts masked, except that \<open>SysTick_Handler\<close> calls
  \<open>os_TimeTick\<close> without masking, so that a device interrupt of higher priority that gives a
  semaphore during the tick is outside the model. The two duties of the application are in
  \<open>admissible\<close> and \<open>request_fits\<close>: queue storage lies in memory, and the Idle task locks no mutex. Objects of another
  kind behind a handle (a C type error) are \<open>None\<close>, and the default branch of the request switch,
  which no value of the enum reaches, is left out. Output parameters of internal functions are results of the
  model, so that the checks of \<open>os_GetRuntimeSnapshot\<close> and \<open>os_TaskCreateInternal\<close> for a NULL result pointer have no
  counterpart.
\<close>

section \<open>The system on its ports\<close>

text \<open>C1: on the Cortex-M port, no call of the public API and no interrupt fails in a state that the
  system can reach: whatever sequence of calls led there, the next one returns, the kernel is in
  order again, and the kernel's own check \<open>os_KernelValidate\<close> accepts it. The application
  must only give queues storage that lies in memory and keep the Idle task off mutexes.\<close>

theorem cortex_never_fails:
  assumes "reachable (cm_ops task_exit idle_entry idle_stack) s" and "admissible c s"
  shows "\<exists>s'. run_call (cm_ops task_exit idle_entry idle_stack) c s = Some s' \<and>
    good s' \<and> os_KernelValidate s'"
  using cortex.reachable_returns [OF assms] cortex.reachable_good by blast

theorem cortex_never_fails_witness:
  "\<exists>s'. run_call (cm_ops 0x101 0x201 0x20000000) (CallStart 0) (os_Init (example cm_reset)) = Some s' \<and>
    os_KernelValidate s'"
  using cortex_never_fails [OF reachable_boot [of "cm_ops 0x101 0x201 0x20000000" "example cm_reset"],
      of "CallStart 0"] by auto

text \<open>C2: strict priority scheduling. Between two calls the running task is as urgent as any ready task,
  every inherited priority is exact and no critical section is open (\<open>orderly\<close>); whatever call of
  the API or interrupt comes next on the Cortex-M port, it returns and leaves the kernel so again.\<close>

theorem priority_scheduling_kept:
  assumes "orderly s" and "admissible c s"
  shows "\<exists>s'. run_call (cm_ops task_exit idle_entry idle_stack) c s = Some s' \<and> orderly s' \<and>
    k_critical_nesting s' = 0 \<and> (\<forall>t. k_started s' \<and> t_state (k_tasks s' t) = OS_TASK_READY \<longrightarrow>
      (\<exists>r. k_current s' = Some r \<and> t_effective_priority (k_tasks s' t) \<le> t_effective_priority (k_tasks s' r)))"
proof -
  obtain s' where "run_call (cm_ops task_exit idle_entry idle_stack) c s = Some s'" "orderly s'"
    using returnsD [OF cortex.call_orderly [OF assms]] by blast
  then show ?thesis using orderly_top [of s'] orderly_nesting [of s'] by (auto simp: top_running_def)
qed

theorem priority_scheduling_kept_witness:
  "\<exists>s'. run_call (cm_ops 0x101 0x201 0x20000000) (CallMutexUnlock (Some 0)) (example cm_reset) = Some s' \<and>
    k_critical_nesting s' = 0"
  using priority_scheduling_kept [OF example_orderly, of "CallMutexUnlock (Some 0)" cm_reset "0x101" "0x201" "0x20000000"]
  by auto

text \<open>C3: priority inheritance is exact in every state that the system can reach: the effective priority
  of a task is the greatest base priority among the task itself and all tasks that wait for it,
  directly or through a chain of mutexes and owners; once nobody waits for it, it is the base
  priority again.\<close>

theorem reachable_inheritance:
  assumes "reachable (cm_ops task_exit idle_entry idle_stack) s"
  shows "(\<forall>u. (u, t) \<in> (waits_for s)\<^sup>* \<longrightarrow> t_base_priority (k_tasks s u) \<le> t_effective_priority (k_tasks s t)) \<and>
    (\<exists>u. (u, t) \<in> (waits_for s)\<^sup>* \<and> t_base_priority (k_tasks s u) = t_effective_priority (k_tasks s t)) \<and>
    ((\<forall>u. (u, t) \<notin> waits_for s) \<longrightarrow> t_effective_priority (k_tasks s t) = t_base_priority (k_tasks s t))"
proof -
  have inh: "inherits (waits_for s) (\<lambda>u. t_base_priority (k_tasks s u)) t (t_effective_priority (k_tasks s t))"
    using orderly_inherit [OF cortex.reachable_orderly [OF assms]] by (simp add: inherit_ok_def)
  moreover have "t_effective_priority (k_tasks s t) = t_base_priority (k_tasks s t)" if "\<forall>u. (u, t) \<notin> waits_for s"
    using inherits_unique [OF inh inherits_alone] that by blast
  ultimately show ?thesis unfolding inherits_def by blast
qed

theorem reachable_inheritance_witness:
  "\<exists>u. (u, 1) \<in> (waits_for (os_Init (example cm_reset)))\<^sup>* \<and>
    t_base_priority (k_tasks (os_Init (example cm_reset)) u) = t_effective_priority (k_tasks (os_Init (example cm_reset)) 1)"
  using reachable_inheritance [OF reachable_boot [of "cm_ops 0x101 0x201 0x20000000" "example cm_reset"], of 1] by blast

text \<open>The same for the kernel on the host stub port, with which the repository's tests run.\<close>

lemma stub_never_fails:
  assumes "reachable (stub_ops idle_entry idle_stack) s" and "admissible c s"
  shows "\<exists>s'. run_call (stub_ops idle_entry idle_stack) c s = Some s' \<and> good s' \<and> os_KernelValidate s'"
  using stub.reachable_returns [OF assms] stub.reachable_good by blast


text \<open>C31: \<open>os_Init\<close> puts the kernel in order from any memory contents and forgets everything but
  the user memory, the port state and the last error: no list, task, object or counter of the earlier
  state is left.\<close>

theorem init_forgets:
  assumes "k_memory s = k_memory s'" "k_port s = k_port s'" "k_last_error s = k_last_error s'"
  shows "os_Init s = os_Init s' \<and> good (os_Init s) \<and> \<not> k_started (os_Init s) \<and>
    k_task_count (os_Init s) = 0 \<and> k_tick (os_Init s) = 0 \<and> (\<forall>l. queue_of (os_Init s) l = [])"
proof -
  have heap: "k_heap (init_spec s) = spec_Empty" by (simp add: init_spec_def)
  have "kinv {} (init_spec s)" using init_spec_ok [of s] by (simp add: kernel_ok_def)
  then have "queue_of (os_Init s) l = []" for l
    unfolding Init_eq using queue_of_conc [of init_heap "init_spec s" "{}" l] init_heap_rep
    by (simp add: heap) (simp add: spec_Empty_def)
  then show ?thesis
    using assms good_init [of s] by (simp add: Init_eq) (simp add: init_spec_def)
qed

theorem init_forgets_witness:
  "os_Init (example ()) = os_Init (os_Init (example ())) \<and> queue_of (os_Init (example ())) (ReadyList 2) = []"
  using init_forgets [of "example ()" "os_Init (example ())"]
  by (simp add: Init_eq) (simp add: init_spec_def example_def realize_def example_spec_def)

text \<open>C32: in every state that the system can reach, every list holds each task at most once and exactly the
  tasks that belong there: the ready queue of a priority the READY tasks of that effective priority;
  the waiter list of an object the tasks blocked on it, the most urgent first; a delay list the delayed
  tasks, and those waiting with a timeout, that name it, the earliest wake tick first. A task blocked
  on an object is in a waiter list, and a delayed task names a delay list.\<close>

theorem reachable_lists:
  assumes "reachable (cm_ops task_exit idle_entry idle_stack) s"
  shows "distinct (queue_of s l) \<and>
    (t \<in> set (queue_of s (ReadyList p)) \<longleftrightarrow>
      t_state (k_tasks s t) = OS_TASK_READY \<and> t_effective_priority (k_tasks s t) = p) \<and>
    (is_wait l \<longrightarrow>
      (t \<in> set (queue_of s l) \<longleftrightarrow> t_state (k_tasks s t) = OS_TASK_BLOCKED_OBJECT \<and> t_wait_list (k_tasks s t) = Some l) \<and>
      sorted_wrt (\<lambda>u v. t_effective_priority (k_tasks s v) \<le> t_effective_priority (k_tasks s u)) (queue_of s l)) \<and>
    (t \<in> set (queue_of s (DelayedList i)) \<longleftrightarrow>
      (t_state (k_tasks s t) = OS_TASK_BLOCKED_DELAY \<or> t_state (k_tasks s t) = OS_TASK_BLOCKED_OBJECT) \<and>
      t_delay_list (k_tasks s t) = Some (DelayedList i)) \<and>
    sorted_wrt (\<lambda>u v. t_wake_tick (k_tasks s u) \<le> t_wake_tick (k_tasks s v)) (queue_of s (DelayedList i)) \<and>
    (t_state (k_tasks s t) = OS_TASK_BLOCKED_OBJECT \<longrightarrow> (\<exists>w. is_wait w \<and> t_wait_list (k_tasks s t) = Some w)) \<and>
    (t_state (k_tasks s t) = OS_TASK_BLOCKED_DELAY \<longrightarrow> t_delay_list (k_tasks s t) \<noteq> None)"
proof -
  have s: "good s" by (rule cortex.reachable_good [OF assms])
  show ?thesis
    using queue_members(1) [OF s, of l] lists_of_good [OF s] delays_sorted [OF s] queue_sorted [OF s, of l]
      places_of_good(1,2) [OF s, of t]
    by blast
qed

theorem reachable_lists_witness:
  "distinct (queue_of (os_Init (example cm_reset)) (SemWaiters 0)) \<and>
   1 \<notin> set (queue_of (os_Init (example cm_reset)) (ReadyList 2)) \<and>
   1 \<notin> set (queue_of (os_Init (example cm_reset)) (DelayedList 0))"
proof -
  have "t_state (k_tasks (os_Init (example cm_reset)) 1) = OS_TASK_UNUSED"
    by (simp add: Init_eq init_spec_def zero_task_def)
  then show ?thesis
    using reachable_lists [OF reachable_boot [of "cm_ops 0x101 0x201 0x20000000" "example cm_reset"],
        of "SemWaiters 0" 1 2 0] by simp
qed

text \<open>C36: in every state that the system can reach, a semaphore counts at most up to its maximum, a
  queue in use has its indices in its storage, the write index is the read index advanced by
  the number of messages, and no queue holds more than its capacity.\<close>

theorem reachable_objects:
  assumes "reachable (cm_ops task_exit idle_entry idle_stack) s"
  shows "s_count (k_sems s i) \<le> s_maximum_count (k_sems s i) \<and>
    (q_used (k_queues s j) \<longrightarrow> q_count (k_queues s j) \<le> q_capacity (k_queues s j) \<and>
      q_head (k_queues s j) < q_capacity (k_queues s j) \<and>
      unat (q_tail (k_queues s j)) = (unat (q_head (k_queues s j)) + unat (q_count (k_queues s j)))
        mod unat (q_capacity (k_queues s j)))"
proof -
  obtain h a where "s = conc h a" "kernel_ok a"
    using cortex.reachable_good [OF assms] by (rule goodE)
  then show ?thesis by (auto simp: kernel_ok_def objects_ok_def sem_ok_def queue_ok_def queue_valid_def)
qed

theorem reachable_objects_witness:
  "s_count (k_sems (os_Init (example cm_reset)) 0) \<le> s_maximum_count (k_sems (os_Init (example cm_reset)) 0)"
  using reachable_objects [OF reachable_boot [of "cm_ops 0x101 0x201 0x20000000" "example cm_reset"]] by blast

text \<open>C37: in every state that the system can reach, a mutex that somebody waits for has an owner, and
  the owner of a mutex is a task that was created and has not terminated.\<close>

theorem reachable_mutexes:
  assumes "reachable (cm_ops task_exit idle_entry idle_stack) s"
  shows "(queue_of s (MutexWaiters i) \<noteq> [] \<longrightarrow> m_owner (k_mutexes s i) \<noteq> None) \<and>
    (\<forall>t. m_owner (k_mutexes s i) = Some t \<longrightarrow> t < unat (k_task_count s) \<and>
      t_state (k_tasks s t) \<noteq> OS_TASK_UNUSED \<and> t_state (k_tasks s t) \<noteq> OS_TASK_TERMINATED)"
proof -
  obtain h a where s: "s = conc h a" "kernel_ok a" "\<forall>l. queue_of s l = map task_of (sp_nodes (k_heap a) l)"
    using cortex.reachable_good [OF assms] by (rule goodD)
  then have kinv: "kinv {} a" by (simp add: kernel_ok_def)
  have "t_state (k_tasks a t) \<noteq> OS_TASK_UNUSED" if "t < unat (k_task_count a)" for t
    using kinv_base [OF kinv, of t] that by (simp add: base_ok_def)
  then show ?thesis using kinv_mutex [OF kinv] s(1,3) by (auto simp: mutex_ok_def)
qed

theorem reachable_mutexes_witness:
  "m_owner (k_mutexes (os_Init (example cm_reset)) 0) \<noteq> Some 2 \<and>
   queue_of (os_Init (example cm_reset)) (MutexWaiters 0) = []"
proof -
  have "k_task_count (os_Init (example cm_reset)) = 0" by (simp add: Init_eq init_spec_def)
  then show ?thesis
    using reachable_mutexes [OF reachable_boot [of "cm_ops 0x101 0x201 0x20000000" "example cm_reset"], of 0]
    by auto
qed

text \<open>While no task runs, a request is refused with BAD_STATE and changes nothing, on both ports.\<close>

lemma request_needs_a_task:
  assumes "k_current s = None" and "k_current s' = None"
  shows "os_port_task_request_cm req ticks obj buf s = Some (OS_STATUS_BAD_STATE, s) \<and>
    os_port_task_request_stub req ticks obj buf s' = Some (OS_STATUS_BAD_STATE, s')"
  using cortex.request_idle [OF assms(1)] stub.request_idle [OF assms(2)]
  by (simp add: cm_ops_def stub_ops_def)


end
